(* ===== verification/Prelude.thy ===== *)
theory Prelude
  imports Main "HOL-Library.Word" "HOL-Library.Monad_Syntax"
begin

text \<open>
  The prelude of the development: the machine integers of the C code, little-endian
  byte codecs (the layout every \<^verbatim>\<open>memcpy\<close> of an integer uses on the target), bounded
  memory reads, and the generic lemmas on lists and words that the component theories
  share.

  Conventions. \<open>None\<close> of a modelled operation means that the C code has no defined
  behaviour there (an access outside an object, a null pointer dereference) or leaves
  the program by \<^verbatim>\<open>exit\<close>; return codes of the C code are ordinary values. The integer
  widths are those of the 32-bit Linux target: \<^verbatim>\<open>int\<close>, \<^verbatim>\<open>long\<close> and \<^verbatim>\<open>size_t\<close> have four
  bytes. Where the width of a type differs between the two ends of the wire protocol it
  is a parameter of the model.
\<close>

unbundle bit_operations_syntax

type_synonym u8 = "8 word"
type_synonym u16 = "16 word"
type_synonym u32 = "32 word"

named_theorems codec_simps \<open>round trips and lengths of the byte codecs\<close>
named_theorems frame_simps \<open>what an operation leaves unchanged\<close>

section \<open>Bounds of the machine integers\<close>

lemma unat_u8_lt [simp]: "unat (x :: u8) < 256"
  by (rule order_less_le_trans [OF unsigned_less]) simp

lemma unat_u16_lt [simp]: "unat (x :: u16) < 65536"
  by (rule order_less_le_trans [OF unsigned_less]) simp

lemma unat_u32_lt [simp]: "unat (x :: u32) < 4294967296"
  by (rule order_less_le_trans [OF unsigned_less]) simp

section \<open>Little-endian integers\<close>

primrec bytes_le :: "nat \<Rightarrow> nat \<Rightarrow> u8 list" where
  "bytes_le 0 v = []"
| "bytes_le (Suc n) v = word_of_nat v # bytes_le n (v div 256)"

primrec val_le :: "u8 list \<Rightarrow> nat" where
  "val_le [] = 0"
| "val_le (b # bs) = unat b + 256 * val_le bs"

lemma bytes_le_numeral:
  "bytes_le (numeral n) v = word_of_nat v # bytes_le (pred_numeral n) (v div 256)"
  by (simp only: numeral_eq_Suc [of n] bytes_le.simps)

lemma length_bytes_le [simp, codec_simps]: "length (bytes_le n v) = n"
  by (induction n arbitrary: v) auto

lemma bytes_le_eq_Nil [simp]: "bytes_le n v = [] \<longleftrightarrow> n = 0"
  by (cases n) auto

lemma val_bytes_le [codec_simps]: "val_le (bytes_le n v) = v mod 256 ^ n"
proof (induction n arbitrary: v)
  case 0
  then show ?case by simp
next
  case (Suc n)
  have "val_le (bytes_le (Suc n) v) = v mod 256 + 256 * ((v div 256) mod 256 ^ n)"
    by (simp add: Suc unat_of_nat)
  also have "\<dots> = v mod (256 * 256 ^ n)"
    by (simp add: mod_mult2_eq)
  finally show ?case by simp
qed

lemma val_le_bound: "val_le bs < 256 ^ length bs"
proof (induction bs)
  case Nil
  then show ?case by simp
next
  case (Cons b bs)
  have "unat b < 256" by (rule unat_u8_lt)
  moreover have "val_le bs + 1 \<le> 256 ^ length bs" using Cons by simp
  then have "256 * val_le bs + 256 \<le> 256 * 256 ^ length bs"
    by (metis add_mult_distrib2 mult.right_neutral mult_le_mono2)
  ultimately have "unat b + 256 * val_le bs < 256 * 256 ^ length bs" by linarith
  then show ?case by simp
qed

lemma bytes_val_le: "bytes_le (length bs) (val_le bs) = bs"
proof (induction bs)
  case Nil
  then show ?case by simp
next
  case (Cons b bs)
  have "unat b < 256" by (rule unat_u8_lt)
  then have "(unat b + 256 * val_le bs) div 256 = val_le bs" by simp
  moreover have "(word_of_nat (unat b + 256 * val_le bs) :: u8) = word_of_nat (unat b)"
    by (simp only: word_of_nat_eq_iff) (simp add: take_bit_eq_mod)
  ultimately show ?case using Cons by simp
qed

lemma bytes_val_le' [codec_simps]: "length bs = n \<Longrightarrow> bytes_le n (val_le bs) = bs"
  using bytes_val_le by blast

section \<open>Codecs of fixed width\<close>

text \<open>
  The contract of every struct or integer that is copied to the wire or to the disk: an
  encoder of constant width and a decoder that reads it back.
\<close>

locale codec =
  fixes enc :: "'a \<Rightarrow> u8 list"
    and dec :: "u8 list \<Rightarrow> 'a"
    and width :: nat
  assumes enc_length: "length (enc x) = width"
    and dec_enc: "dec (enc x) = x"
begin

lemma dec_take: "dec (take width (enc x @ rest)) = x"
  by (simp add: enc_length dec_enc)

lemma drop_enc: "drop width (enc x @ rest) = rest"
  by (simp add: enc_length)

lemma enc_inject: "enc x = enc y \<longleftrightarrow> x = y"
  by (metis dec_enc)

lemma enc_append_inject: "enc x @ r = enc y @ s \<longleftrightarrow> x = y \<and> r = s"
  using enc_length by (auto simp: enc_inject)

end

definition enc8 :: "u8 \<Rightarrow> u8 list" where
  "enc8 x = bytes_le 1 (unat x)"
definition dec8 :: "u8 list \<Rightarrow> u8" where
  "dec8 bs = word_of_nat (val_le bs)"
definition enc16 :: "u16 \<Rightarrow> u8 list" where
  "enc16 x = bytes_le 2 (unat x)"
definition dec16 :: "u8 list \<Rightarrow> u16" where
  "dec16 bs = word_of_nat (val_le bs)"
definition enc32 :: "u32 \<Rightarrow> u8 list" where
  "enc32 x = bytes_le 4 (unat x)"
definition dec32 :: "u8 list \<Rightarrow> u32" where
  "dec32 bs = word_of_nat (val_le bs)"

interpretation c8: codec enc8 dec8 1
  by unfold_locales (simp_all add: enc8_def dec8_def val_bytes_le del: bytes_le.simps)

interpretation c16: codec enc16 dec16 2
  by unfold_locales (simp_all add: enc16_def dec16_def val_bytes_le del: bytes_le.simps)

interpretation c32: codec enc32 dec32 4
  by unfold_locales (simp_all add: enc32_def dec32_def val_bytes_le del: bytes_le.simps)

declare c8.enc_length [simp] c16.enc_length [simp] c32.enc_length [simp]
  c8.dec_enc [simp] c16.dec_enc [simp] c32.dec_enc [simp]

lemma enc32_dec32 [codec_simps]: "length bs = 4 \<Longrightarrow> enc32 (dec32 bs) = bs"
  using val_le_bound [of bs] by (simp add: enc32_def dec32_def unat_of_nat codec_simps)

section \<open>Bit vectors as lists\<close>

text \<open>The number of clear positions of a bit vector, the abstract "free" count.\<close>

definition libres :: "bool list \<Rightarrow> nat" where
  "libres bs = length (filter Not bs)"

lemma libres_Nil [simp]: "libres [] = 0"
  by (simp add: libres_def)

lemma libres_Cons [simp]: "libres (b # bs) = (if b then 0 else 1) + libres bs"
  by (simp add: libres_def)

lemma libres_set:
  "i < length bs \<Longrightarrow> \<not> bs ! i \<Longrightarrow> Suc (libres (bs[i := True])) = libres bs"
proof (induction bs arbitrary: i)
  case (Cons b bs)
  then show ?case by (cases i) auto
qed simp

lemma libres_clean:
  "i < length bs \<Longrightarrow> bs ! i \<Longrightarrow> libres (bs[i := False]) = Suc (libres bs)"
proof (induction bs arbitrary: i)
  case (Cons b bs)
  then show ?case by (cases i) auto
qed simp

lemma libres_pos_iff: "0 < libres bs \<longleftrightarrow> False \<in> set bs"
  by (induction bs) auto

lemma libres_zero_iff: "libres bs = 0 \<longleftrightarrow> (\<forall>i < length bs. bs ! i)"
  by (auto simp: libres_def filter_empty_conv all_set_conv_all_nth)

lemma libres_le: "libres bs \<le> length bs"
  by (simp add: libres_def)

section \<open>Unsigned arithmetic without overflow\<close>

lemma unat_mult_u32: "unat a * unat b < 4294967296 \<Longrightarrow> unat (a * b :: u32) = unat a * unat b"
  by (simp add: unat_word_ariths(2))

lemma unat_add_u32: "unat a + unat b < 4294967296 \<Longrightarrow> unat (a + b :: u32) = unat a + unat b"
  by (simp add: unat_word_ariths(1))

lemma unat_sub_u32: "unat b \<le> unat a \<Longrightarrow> unat (a - b :: u32) = unat a - unat b"
  by (simp add: unat_sub_if')

lemma unat_of_nat_u32: "n < 4294967296 \<Longrightarrow> unat (word_of_nat n :: u32) = n"
  by (simp add: unat_of_nat)

lemma unat_pred_u32: "0 < unat a \<Longrightarrow> unat (a - 1 :: u32) = unat a - 1"
  by (simp add: unat_sub_if')

lemma unat_pred_u16: "0 < unat a \<Longrightarrow> unat (a - 1 :: u16) = unat a - 1"
  by (simp add: unat_sub_if')

lemma unat_succ_u32: "unat a < 4294967295 \<Longrightarrow> unat (a + 1 :: u32) = unat a + 1"
  by (simp add: unat_word_ariths(1))

lemma unat_succ_u16: "unat a < 65535 \<Longrightarrow> unat (a + 1 :: u16) = unat a + 1"
  by (simp add: unat_word_ariths(1))

lemma word_of_nat_unat_u32: "unat x = n \<Longrightarrow> x = (word_of_nat n :: u32)"
  by auto

section \<open>Arrays of fixed-width records\<close>

lemma length_concat_fixed:
  "(\<And>x. x \<in> set xs \<Longrightarrow> length (f x) = w) \<Longrightarrow> length (concat (map f xs)) = w * length xs"
  by (induction xs) auto

lemma nth_concat_fixed:
  "(\<And>x. x \<in> set xs \<Longrightarrow> length (f x) = w) \<Longrightarrow> i < length xs \<Longrightarrow>
   take w (drop (w * i) (concat (map f xs))) = f (xs ! i)"
proof (induction xs arbitrary: i)
  case (Cons x xs)
  then show ?case by (cases i) auto
qed simp

lemma unat_m1_u32: "unat (- 1 :: u32) = 4294967295"
  by (simp add: unsigned_minus_1_eq_mask mask_eq_exp_minus_1)

lemma unat_ucast_u16 [simp]: "unat (ucast (x :: u16) :: u32) = unat x"
  using order_less_trans [OF unat_u16_lt [of x], of 4294967296]
  by (simp add: unsigned_ucast_eq take_bit_eq_mod)

lemma unat_ucast_u8 [simp]: "unat (ucast (x :: u8) :: u32) = unat x"
  using order_less_trans [OF unat_u8_lt [of x], of 4294967296]
  by (simp add: unsigned_ucast_eq take_bit_eq_mod)

lemma unat_ucast_down [simp]: "unat (ucast (x :: u32) :: u16) = unat x mod 65536"
  by (simp add: unsigned_ucast_eq take_bit_eq_mod)

end
