(* ===== verification/Bitarray.thy ===== *)
theory Bitarray
  imports Prelude
begin

text \<open>
  The bit arrays of \<^verbatim>\<open>src/commons/bitarray.c\<close>, which hold the block and inode bitmaps of a
  disk group. \<open>t_bitarray\<close> is the struct: the bytes of the buffer and the size in bytes
  the array was created with. Positions are natural numbers: the \<^verbatim>\<open>int32_t\<close> of the code holds those of a buffer of less than
  \<open>2 ^ 28\<close> bytes, and the bitmap of a group has one block. An access outside the buffer is \<open>None\<close>. The theorems
  relate the operations to a plain vector of booleans and state what the search for a
  free position returns; the \<open>bitmap\<close> locale is the contract the group code relies on.
\<close>

section \<open>Definitions\<close>

record t_bitarray =
  bitarray :: "u8 list"
  tam :: nat  \<comment> \<open>the field \<^verbatim>\<open>size\<close>, in bytes\<close>

definition BIT_CHAR :: "nat \<Rightarrow> nat" where
  "BIT_CHAR b = b div 8"

definition BIT_IN_CHAR :: "nat \<Rightarrow> u8" where
  "BIT_IN_CHAR b = drop_bit (8 - 1 - b mod 8) 0x80"

definition bitarray_create :: "u8 list \<Rightarrow> nat \<Rightarrow> t_bitarray" where
  "bitarray_create buf n = \<lparr>bitarray = buf, tam = n\<rparr>"

definition bitarray_test_bit :: "t_bitarray \<Rightarrow> nat \<Rightarrow> bool option" where
  "bitarray_test_bit self bit_index =
     (if BIT_CHAR bit_index < length (bitarray self)
      then Some ((bitarray self ! BIT_CHAR bit_index) AND BIT_IN_CHAR bit_index \<noteq> 0)
      else None)"

definition bitarray_set_bit :: "t_bitarray \<Rightarrow> nat \<Rightarrow> t_bitarray option" where
  "bitarray_set_bit self bit_index =
     (let k = BIT_CHAR bit_index in
      if k < length (bitarray self)
      then Some (self\<lparr>bitarray := (bitarray self)
                        [k := (bitarray self ! k) OR BIT_IN_CHAR bit_index]\<rparr>)
      else None)"

definition bitarray_clean_bit :: "t_bitarray \<Rightarrow> nat \<Rightarrow> t_bitarray option" where
  "bitarray_clean_bit self bit_index =
     (let k = BIT_CHAR bit_index; mask = NOT (BIT_IN_CHAR bit_index) in
      if k < length (bitarray self)
      then Some (self\<lparr>bitarray := (bitarray self)[k := (bitarray self ! k) AND mask]\<rparr>)
      else None)"

definition bitarray_get_max_bit :: "t_bitarray \<Rightarrow> nat" where
  "bitarray_get_max_bit self = tam self * 8"

text \<open>
  The search loop. The condition tests the bit first and the bound second, as the
  source does: at the bound it still reads the buffer.
\<close>

function buscarPosicionLibre_loop :: "t_bitarray \<Rightarrow> nat \<Rightarrow> nat option" where
  "buscarPosicionLibre_loop self pos =
     (case bitarray_test_bit self pos of
        None \<Rightarrow> None
      | Some b \<Rightarrow>
          if b \<and> pos < tam self * 8 then buscarPosicionLibre_loop self (Suc pos)
          else Some pos)"
  by pat_completeness auto
termination
  by (relation "measure (\<lambda>(self, pos). tam self * 8 - pos)") auto

declare buscarPosicionLibre_loop.simps [simp del]

definition bitarray_buscarPosicionLibre :: "t_bitarray \<Rightarrow> int option" where
  "bitarray_buscarPosicionLibre self =
     (case buscarPosicionLibre_loop self 0 of
        None \<Rightarrow> None
      | Some pos \<Rightarrow> Some (if pos = tam self * 8 then - 1 else int pos))"

section \<open>The abstract bit vector\<close>

definition bits :: "t_bitarray \<Rightarrow> bool list" where
  "bits self = map (\<lambda>i. bit (bitarray self ! (i div 8)) (i mod 8)) [0..<8 * tam self]"

definition ba_ok :: "t_bitarray \<Rightarrow> bool" where
  "ba_ok self \<longleftrightarrow> tam self \<le> length (bitarray self)"

lemma length_bits [simp]: "length (bits self) = 8 * tam self"
  by (simp add: bits_def)

lemma nth_bits [simp]:
  "i < 8 * tam self \<Longrightarrow> bits self ! i = bit (bitarray self ! (i div 8)) (i mod 8)"
  by (simp add: bits_def)

lemma div8_less: "i < 8 * n \<Longrightarrow> i div 8 < (n :: nat)"
  by linarith

lemma BIT_IN_CHAR_push: "BIT_IN_CHAR i = push_bit (i mod 8) 1"
proof -
  have "i mod 8 < 8" by simp
  then consider "i mod 8 = 0" | "i mod 8 = 1" | "i mod 8 = 2" | "i mod 8 = 3"
    | "i mod 8 = 4" | "i mod 8 = 5" | "i mod 8 = 6" | "i mod 8 = 7"
    by linarith
  then show ?thesis by cases (simp_all add: BIT_IN_CHAR_def)
qed

lemma bit_BIT_IN_CHAR: "bit (BIT_IN_CHAR i) n \<longleftrightarrow> n = i mod 8"
proof -
  have "i mod 8 < 8" by simp
  then show ?thesis by (auto simp: BIT_IN_CHAR_push bit_simps)
qed

lemma and_BIT_IN_CHAR: "(w AND BIT_IN_CHAR i \<noteq> 0) = bit w (i mod 8)"
proof
  assume "w AND BIT_IN_CHAR i \<noteq> 0"
  then obtain n where "bit (w AND BIT_IN_CHAR i) n" by (auto simp: bit_eq_iff)
  then show "bit w (i mod 8)" by (auto simp: bit_simps bit_BIT_IN_CHAR)
next
  assume "bit w (i mod 8)"
  then have "bit (w AND BIT_IN_CHAR i) (i mod 8)" by (simp add: bit_simps bit_BIT_IN_CHAR)
  then show "w AND BIT_IN_CHAR i \<noteq> 0" by (metis bit_0_eq bot_apply bot_bool_def)
qed

lemma test_bit_bits:
  "ba_ok b \<Longrightarrow> i < 8 * tam b \<Longrightarrow> bitarray_test_bit b i = Some (bits b ! i)"
  using div8_less [of i "tam b"]
  by (simp add: bitarray_test_bit_def ba_ok_def BIT_CHAR_def and_BIT_IN_CHAR)

lemma div_mod8_eq: "i div 8 = j div 8 \<Longrightarrow> i mod 8 = j mod 8 \<Longrightarrow> i = (j :: nat)"
  by (metis div_mult_mod_eq)

lemma set_bit_bits:
  assumes "ba_ok b" and "i < 8 * tam b"
  shows "\<exists>b'. bitarray_set_bit b i = Some b' \<and> ba_ok b' \<and> tam b' = tam b
           \<and> length (bitarray b') = length (bitarray b) \<and> bits b' = (bits b)[i := True]"
proof -
  let ?k = "i div 8"
  let ?b' = "b\<lparr>bitarray := (bitarray b)[?k := (bitarray b ! ?k) OR BIT_IN_CHAR i]\<rparr>"
  have k: "?k < length (bitarray b)"
    using assms div8_less [of i "tam b"] by (simp add: ba_ok_def)
  have "bits ?b' = (bits b)[i := True]"
  proof (rule nth_equalityI)
    fix j assume "j < length (bits ?b')"
    then have j: "j < 8 * tam b" by simp
    then have "j div 8 < length (bitarray b)"
      using assms div8_less [of j "tam b"] by (simp add: ba_ok_def)
    then show "bits ?b' ! j = (bits b)[i := True] ! j"
      using j k assms(2) div_mod8_eq [of j i]
      by (auto simp: nth_list_update bit_simps bit_BIT_IN_CHAR)
  qed simp
  then show ?thesis
    using assms k by (auto simp: bitarray_set_bit_def BIT_CHAR_def Let_def ba_ok_def)
qed

lemma clean_bit_bits:
  assumes "ba_ok b" and "i < 8 * tam b"
  shows "\<exists>b'. bitarray_clean_bit b i = Some b' \<and> ba_ok b' \<and> tam b' = tam b
           \<and> length (bitarray b') = length (bitarray b) \<and> bits b' = (bits b)[i := False]"
proof -
  let ?k = "i div 8"
  let ?b' = "b\<lparr>bitarray := (bitarray b)[?k := (bitarray b ! ?k) AND NOT (BIT_IN_CHAR i)]\<rparr>"
  have k: "?k < length (bitarray b)"
    using assms div8_less [of i "tam b"] by (simp add: ba_ok_def)
  have "bits ?b' = (bits b)[i := False]"
  proof (rule nth_equalityI)
    fix j assume "j < length (bits ?b')"
    then have j: "j < 8 * tam b" by simp
    then have "j div 8 < length (bitarray b)"
      using assms div8_less [of j "tam b"] by (simp add: ba_ok_def)
    then show "bits ?b' ! j = (bits b)[i := False] ! j"
      using j k assms(2) div_mod8_eq [of j i]
      by (auto simp: nth_list_update bit_simps bit_BIT_IN_CHAR dest: bit_imp_le_length)
  qed simp
  then show ?thesis
    using assms k by (auto simp: bitarray_clean_bit_def BIT_CHAR_def Let_def ba_ok_def)
qed

section \<open>The search for a free position\<close>

lemma buscar_loop_step:
  assumes "ba_ok b" and "pos < 8 * tam b"
  shows "buscarPosicionLibre_loop b pos =
           (if bits b ! pos then buscarPosicionLibre_loop b (Suc pos) else Some pos)"
  using assms by (subst buscarPosicionLibre_loop.simps) (simp add: test_bit_bits)

lemma buscar_loop_first:
  assumes "ba_ok b" and "i < 8 * tam b" and "\<not> bits b ! i"
    and "pos \<le> i" and "\<forall>j. pos \<le> j \<longrightarrow> j < i \<longrightarrow> bits b ! j"
  shows "buscarPosicionLibre_loop b pos = Some i"
  using assms(4,5)
proof (induction "i - pos" arbitrary: pos)
  case 0
  then show ?case using assms(1-3) by (simp add: buscar_loop_step)
next
  case (Suc n)
  then have "pos < i" by simp
  with Suc show ?case using assms(1,2) by (simp add: buscar_loop_step)
qed

lemma buscar_loop_full:
  assumes "ba_ok b" and "\<forall>j < 8 * tam b. bits b ! j" and "pos \<le> 8 * tam b"
  shows "buscarPosicionLibre_loop b pos = buscarPosicionLibre_loop b (8 * tam b)"
  using assms(3)
proof (induction "8 * tam b - pos" arbitrary: pos)
  case (Suc n)
  then have "pos < 8 * tam b" by simp
  with Suc assms(1,2) show ?case by (simp add: buscar_loop_step)
qed simp

lemma buscar_loop_end:
  "buscarPosicionLibre_loop b (8 * tam b) =
     (if tam b < length (bitarray b) then Some (8 * tam b) else None)"
  by (subst buscarPosicionLibre_loop.simps)
    (simp add: bitarray_test_bit_def BIT_CHAR_def)

lemma buscar_found:
  assumes "ba_ok b" and "False \<in> set (bits b)"
  shows "\<exists>i < 8 * tam b. bitarray_buscarPosicionLibre b = Some (int i) \<and> \<not> bits b ! i
           \<and> (\<forall>j < i. bits b ! j)"
proof -
  define i where "i = (LEAST i. i < 8 * tam b \<and> \<not> bits b ! i)"
  from assms(2) have "\<exists>i. i < 8 * tam b \<and> \<not> bits b ! i"
    by (metis in_set_conv_nth length_bits)
  then have i: "i < 8 * tam b \<and> \<not> bits b ! i" unfolding i_def by (rule LeastI_ex)
  have least: "bits b ! j" if "j < i" for j
    using that i not_less_Least [of j "\<lambda>i. i < 8 * tam b \<and> \<not> bits b ! i"]
    unfolding i_def [symmetric] by simp
  have "buscarPosicionLibre_loop b 0 = Some i"
    using assms(1) i least by (intro buscar_loop_first) auto
  then show ?thesis using i least by (auto simp: bitarray_buscarPosicionLibre_def)
qed

section \<open>The contract used by the group code\<close>

text \<open>
  What \<^verbatim>\<open>Grupos.c\<close> and \<^verbatim>\<open>Inode.c\<close> rely on: marking and unmarking change exactly one
  position of the vector, and the search returns the lowest free one.
\<close>

locale bitmap =
  fixes test :: "'b \<Rightarrow> nat \<Rightarrow> bool option"
    and mark :: "'b \<Rightarrow> nat \<Rightarrow> 'b option"
    and unmark :: "'b \<Rightarrow> nat \<Rightarrow> 'b option"
    and search :: "'b \<Rightarrow> int option"
    and vec :: "'b \<Rightarrow> bool list"
    and ok :: "'b \<Rightarrow> bool"
  assumes test: "ok b \<Longrightarrow> i < length (vec b) \<Longrightarrow> test b i = Some (vec b ! i)"
    and mark: "ok b \<Longrightarrow> i < length (vec b) \<Longrightarrow>
          \<exists>b'. mark b i = Some b' \<and> ok b' \<and> vec b' = (vec b)[i := True]"
    and unmark: "ok b \<Longrightarrow> i < length (vec b) \<Longrightarrow>
          \<exists>b'. unmark b i = Some b' \<and> ok b' \<and> vec b' = (vec b)[i := False]"
    and search: "ok b \<Longrightarrow> False \<in> set (vec b) \<Longrightarrow>
          \<exists>i < length (vec b). search b = Some (int i) \<and> \<not> vec b ! i \<and> (\<forall>j < i. vec b ! j)"
begin

lemma mark_libres:
  assumes "ok b" "i < length (vec b)" "\<not> vec b ! i"
  shows "\<exists>b'. mark b i = Some b' \<and> ok b' \<and> Suc (libres (vec b')) = libres (vec b)"
  using mark [OF assms(1,2)] libres_set [OF assms(2,3)] by auto

lemma unmark_libres:
  assumes "ok b" "i < length (vec b)" "vec b ! i"
  shows "\<exists>b'. unmark b i = Some b' \<and> ok b' \<and> libres (vec b') = Suc (libres (vec b))"
  using unmark [OF assms(1,2)] libres_clean [OF assms(2,3)] by auto

lemma mark_unmark:
  assumes "ok b" "i < length (vec b)" "\<not> vec b ! i"
  shows "\<exists>b' b''. mark b i = Some b' \<and> unmark b' i = Some b'' \<and> vec b'' = vec b"
proof -
  from mark [OF assms(1,2)] obtain b' where b':
    "mark b i = Some b'" "ok b'" "vec b' = (vec b)[i := True]" by blast
  from unmark [OF b'(2), of i] assms(2) b'(3) obtain b'' where
    "unmark b' i = Some b''" "vec b'' = (vec b')[i := False]" by auto
  moreover have "(vec b)[i := False] = vec b"
    using assms(3) by (metis (full_types) list_update_id)
  ultimately show ?thesis using b' by auto
qed

text \<open>Searching and marking in one go: the allocation pattern.\<close>

lemma search_mark:
  assumes "ok b" "0 < libres (vec b)"
  shows "\<exists>i b'. search b = Some (int i) \<and> i < length (vec b) \<and> \<not> vec b ! i
           \<and> mark b i = Some b' \<and> ok b' \<and> vec b' = (vec b)[i := True]
           \<and> Suc (libres (vec b')) = libres (vec b)"
proof -
  have "False \<in> set (vec b)" using assms(2) by (simp add: libres_pos_iff)
  from search [OF assms(1) this] obtain i where
    i: "i < length (vec b)" "search b = Some (int i)" "\<not> vec b ! i" by blast
  with mark [OF assms(1) i(1)] libres_set [OF i(1,3)] show ?thesis by auto
qed

end

interpretation ba: bitmap bitarray_test_bit bitarray_set_bit bitarray_clean_bit
  bitarray_buscarPosicionLibre bits ba_ok
proof unfold_locales
  fix b i assume "ba_ok b" and i: "i < length (bits b)"
  then show "bitarray_test_bit b i = Some (bits b ! i)" by (simp add: test_bit_bits)
  show "\<exists>b'. bitarray_set_bit b i = Some b' \<and> ba_ok b' \<and> bits b' = (bits b)[i := True]"
    using set_bit_bits [OF \<open>ba_ok b\<close>, of i] i by auto
  show "\<exists>b'. bitarray_clean_bit b i = Some b' \<and> ba_ok b' \<and> bits b' = (bits b)[i := False]"
    using clean_bit_bits [OF \<open>ba_ok b\<close>, of i] i by auto
next
  fix b assume "ba_ok b" and "False \<in> set (bits b)"
  from buscar_found [OF this] show "\<exists>i < length (bits b).
    bitarray_buscarPosicionLibre b = Some (int i) \<and> \<not> bits b ! i \<and> (\<forall>j < i. bits b ! j)"
    by simp
qed

section \<open>Properties\<close>

text \<open>
  The three operations on a bit. Within the array, setting and cleaning a position is
  visible at that position and at no other, and never fails.
\<close>

lemma bitarray_set_clean_test:
  assumes "ba_ok b" and "i < 8 * tam b" and "j < 8 * tam b"
  shows "\<exists>s c. bitarray_set_bit b i = Some s \<and> bitarray_clean_bit b i = Some c
           \<and> bitarray_test_bit s j = (if j = i then Some True else bitarray_test_bit b j)
           \<and> bitarray_test_bit c j = (if j = i then Some False else bitarray_test_bit b j)"
proof -
  from set_bit_bits [OF assms(1,2)] obtain s where
    s: "bitarray_set_bit b i = Some s" "ba_ok s" "tam s = tam b" "bits s = (bits b)[i := True]" by blast
  from clean_bit_bits [OF assms(1,2)] obtain c where
    c: "bitarray_clean_bit b i = Some c" "ba_ok c" "tam c = tam b" "bits c = (bits b)[i := False]" by blast
  show ?thesis
    using s c assms by (auto simp: test_bit_bits nth_list_update simp del: nth_bits)
qed

lemma bitarray_set_clean_test_ej:
  "ba_ok \<lparr>bitarray = [1, 0], tam = 2\<rparr> \<and>
   (\<exists>s. bitarray_set_bit \<lparr>bitarray = [1, 0], tam = 2\<rparr> 9 = Some s \<and> bitarray_test_bit s 9 = Some True)"
proof -
  have "ba_ok \<lparr>bitarray = [1, 0], tam = 2\<rparr>" by (simp add: ba_ok_def)
  then show ?thesis using bitarray_set_clean_test [of "\<lparr>bitarray = [1, 0], tam = 2\<rparr>" 9 9] by auto
qed

text \<open>
  C37: the search of a bitmap. When a position is free it returns the lowest one. When all
  are used it returns \<open>-1\<close>, but only where the buffer has a byte beyond the array: with
  a buffer of exactly the array's size the loop reads out of bounds.
\<close>

theorem bitarray_buscarPosicionLibre_spec:
  assumes "ba_ok b"
  shows "if False \<in> set (bits b)
         then \<exists>i < 8 * tam b. bitarray_buscarPosicionLibre b = Some (int i)
                \<and> bitarray_test_bit b i = Some False \<and> (\<forall>j < i. bitarray_test_bit b j = Some True)
         else bitarray_buscarPosicionLibre b = (if tam b < length (bitarray b) then Some (- 1) else None)"
proof (cases "False \<in> set (bits b)")
  case True
  from buscar_found [OF assms True] assms True show ?thesis
    by (auto simp: test_bit_bits simp del: nth_bits)
next
  case False
  then have "\<forall>j < 8 * tam b. bits b ! j" by (metis (full_types) length_bits nth_mem)
  from buscar_loop_full [OF assms this, of 0] False show ?thesis
    by (simp add: bitarray_buscarPosicionLibre_def buscar_loop_end)
qed

theorem bitarray_buscarPosicionLibre_spec_witness:
  "ba_ok \<lparr>bitarray = [255], tam = 1\<rparr> \<and> bitarray_buscarPosicionLibre \<lparr>bitarray = [255], tam = 1\<rparr> = None"
proof -
  have ok: "ba_ok \<lparr>bitarray = [255], tam = 1\<rparr>" by (simp add: ba_ok_def)
  have "False \<notin> set (bits \<lparr>bitarray = [255], tam = 1\<rparr>)"
    by (simp add: bits_def upt_conv_Cons)
  with ok bitarray_buscarPosicionLibre_spec [OF ok] show ?thesis by simp
qed

end
