(* ===== verification/Lista.thy ===== *)
theory Lista
  imports Prelude
begin

text \<open>
  The singly linked list of \<^verbatim>\<open>src/commons/collections/list.c\<close>, on an explicit heap of
  \<open>link_element\<close> nodes. Address 0 is the null pointer; \<open>malloc\<close> hands out addresses that
  were never used. Following a null or dangling pointer is \<open>None\<close>. A \<open>void*\<close> result is an
  \<open>'a option\<close> whose \<open>None\<close> is the null pointer. The theorems show that every operation
  refines the operation on HOL lists that its name promises.
\<close>

section \<open>Definitions\<close>

record 'a link_element =
  data :: 'a
  nxt :: nat  \<comment> \<open>the field \<^verbatim>\<open>next\<close>\<close>

record 'a heap =
  mem :: "nat \<Rightarrow> 'a link_element option"
  brk :: nat  \<comment> \<open>the next address \<^verbatim>\<open>malloc\<close> returns\<close>

record t_list =
  head :: nat
  elements_count :: int

definition heap_empty :: "'a heap" where
  "heap_empty = \<lparr>mem = Map.empty, brk = 1\<rparr>"

definition deref :: "'a heap \<Rightarrow> nat \<Rightarrow> 'a link_element option" where
  "deref h p = (if p = 0 then None else mem h p)"

definition store :: "'a heap \<Rightarrow> nat \<Rightarrow> 'a link_element \<Rightarrow> 'a heap" where
  "store h p e = h\<lparr>mem := (mem h)(p \<mapsto> e)\<rparr>"

definition free :: "'a heap \<Rightarrow> nat \<Rightarrow> 'a heap" where
  "free h p = h\<lparr>mem := (mem h)(p := None)\<rparr>"

definition list_create :: t_list where
  "list_create = \<lparr>head = 0, elements_count = 0\<rparr>"

definition list_link_element :: "'a heap \<Rightarrow> nat \<Rightarrow> nat \<Rightarrow> 'a heap option" where
  "list_link_element h previous next' =
     (if previous \<noteq> 0
      then do { e \<leftarrow> deref h previous; Some (store h previous (e\<lparr>nxt := next'\<rparr>)) }
      else Some h)"

definition list_create_element :: "'a heap \<Rightarrow> 'a \<Rightarrow> nat \<times> 'a heap" where
  "list_create_element h x =
     (brk h, (store h (brk h) \<lparr>data = x, nxt = 0\<rparr>)\<lparr>brk := Suc (brk h)\<rparr>)"

primrec walk :: "'a heap \<Rightarrow> nat \<Rightarrow> nat \<Rightarrow> nat option" where
  "walk h 0 p = Some p"
| "walk h (Suc n) p = do { e \<leftarrow> deref h p; walk h n (nxt e) }"

definition list_get_element :: "'a heap \<Rightarrow> t_list \<Rightarrow> int \<Rightarrow> nat option" where
  "list_get_element h self index =
     (if elements_count self > index \<and> index \<ge> 0 then walk h (nat index) (head self)
      else Some 0)"

partial_function (option) list_find_element_loop ::
  "'a heap \<Rightarrow> ('a \<Rightarrow> bool) \<Rightarrow> nat \<Rightarrow> int \<Rightarrow> (nat \<times> int) option" where
  "list_find_element_loop h condition element position =
     (if element = 0 then Some (0, position)
      else Option.bind (deref h element) (\<lambda>e.
        if \<not> condition (data e)
        then list_find_element_loop h condition (nxt e) (position + 1)
        else Some (element, position)))"

definition list_find_element :: "'a heap \<Rightarrow> t_list \<Rightarrow> ('a \<Rightarrow> bool) \<Rightarrow> (nat \<times> int) option" where
  "list_find_element h self condition = list_find_element_loop h condition (head self) 0"

definition list_add :: "'a heap \<Rightarrow> t_list \<Rightarrow> 'a \<Rightarrow> ('a heap \<times> t_list \<times> int) option" where
  "list_add h self x =
     (let (new_element, h) = list_create_element h x in
      do { (h, self) \<leftarrow>
             (if elements_count self = 0 then Some (h, self\<lparr>head := new_element\<rparr>)
              else do { e \<leftarrow> list_get_element h self (elements_count self - 1);
                        h \<leftarrow> list_link_element h e new_element;
                        Some (h, self) });
           Some (h, self\<lparr>elements_count := elements_count self + 1\<rparr>,
                 elements_count self) })"

definition list_get :: "'a heap \<Rightarrow> t_list \<Rightarrow> int \<Rightarrow> 'a option option" where
  "list_get h self index =
     do { e \<leftarrow> list_get_element h self index;
          if e \<noteq> 0 then do { n \<leftarrow> deref h e; Some (Some (data n)) } else Some None }"

definition list_add_in_index ::
  "'a heap \<Rightarrow> t_list \<Rightarrow> int \<Rightarrow> 'a \<Rightarrow> ('a heap \<times> t_list) option" where
  "list_add_in_index h self index x =
     (if elements_count self > index \<and> index \<ge> 0
      then let (new_element, h) = list_create_element h x in
           do { (h, self) \<leftarrow>
                  (if index = 0
                   then do { h \<leftarrow> list_link_element h new_element (head self);
                             Some (h, self\<lparr>head := new_element\<rparr>) }
                   else do { n \<leftarrow> list_get_element h self index;
                             p \<leftarrow> list_get_element h self (index - 1);
                             h \<leftarrow> list_link_element h p new_element;
                             h \<leftarrow> list_link_element h new_element n;
                             Some (h, self) });
                Some (h, self\<lparr>elements_count := elements_count self + 1\<rparr>) }
      else Some (h, self))"

definition list_replace :: "'a heap \<Rightarrow> t_list \<Rightarrow> int \<Rightarrow> 'a \<Rightarrow> ('a heap \<times> 'a option) option" where
  "list_replace h self index x =
     do { e \<leftarrow> list_get_element h self index;
          if e \<noteq> 0 then do { n \<leftarrow> deref h e; Some (store h e (n\<lparr>data := x\<rparr>), Some (data n)) }
          else Some (h, None) }"

definition list_find :: "'a heap \<Rightarrow> t_list \<Rightarrow> ('a \<Rightarrow> bool) \<Rightarrow> 'a option option" where
  "list_find h self condition =
     do { (e, _) \<leftarrow> list_find_element h self condition;
          if e \<noteq> 0 then do { n \<leftarrow> deref h e; Some (Some (data n)) } else Some None }"

text \<open>The closures of the source act on the heap and on captured variables \<open>'s\<close>.\<close>

partial_function (option) list_iterate_loop ::
  "('a \<Rightarrow> 'a heap \<times> 's \<Rightarrow> ('a heap \<times> 's) option) \<Rightarrow> nat \<Rightarrow> 'a heap \<times> 's \<Rightarrow>
   ('a heap \<times> 's) option" where
  "list_iterate_loop closure element st =
     (if element = 0 then Some st
      else Option.bind (deref (fst st) element) (\<lambda>e.
           Option.bind (closure (data e) st) (\<lambda>st'.
           Option.bind (deref (fst st') element) (\<lambda>e'.
             list_iterate_loop closure (nxt e') st'))))"

definition list_iterate ::
  "t_list \<Rightarrow> ('a \<Rightarrow> 'a heap \<times> 's \<Rightarrow> ('a heap \<times> 's) option) \<Rightarrow> 'a heap \<times> 's \<Rightarrow>
   ('a heap \<times> 's) option" where
  "list_iterate self closure st = list_iterate_loop closure (head self) st"

definition list_add_all :: "'a heap \<Rightarrow> t_list \<Rightarrow> t_list \<Rightarrow> ('a heap \<times> t_list) option" where
  "list_add_all h self other =
     list_iterate other
       (\<lambda>x (h, l). do { (h, l, _) \<leftarrow> list_add h l x; Some (h, l) }) (h, self)"

definition list_remove :: "'a heap \<Rightarrow> t_list \<Rightarrow> int \<Rightarrow> ('a heap \<times> t_list \<times> 'a option) option" where
  "list_remove h self index =
     (if head self = 0 then Some (h, self, None)
      else do { aux \<leftarrow> list_get_element h self index;
                e \<leftarrow> deref h aux;
                (h, self) \<leftarrow>
                  (if index = 0 then Some (h, self\<lparr>head := nxt e\<rparr>)
                   else do { previous \<leftarrow> list_get_element h self (index - 1);
                             h \<leftarrow> list_link_element h previous (nxt e);
                             Some (h, self) });
                Some (free h aux, self\<lparr>elements_count := elements_count self - 1\<rparr>,
                      Some (data e)) })"

definition list_remove_by_condition ::
  "'a heap \<Rightarrow> t_list \<Rightarrow> ('a \<Rightarrow> bool) \<Rightarrow> ('a heap \<times> t_list \<times> 'a option) option" where
  "list_remove_by_condition h self condition =
     do { (e, index) \<leftarrow> list_find_element h self condition;
          if e \<noteq> 0 then list_remove h self index else Some (h, self, None) }"

definition list_size :: "t_list \<Rightarrow> int" where
  "list_size self = elements_count self"

definition list_is_empty :: "t_list \<Rightarrow> bool" where
  "list_is_empty self \<longleftrightarrow> list_size self = 0"

partial_function (option) list_clean_loop ::
  "'a heap \<Rightarrow> t_list \<Rightarrow> ('a heap \<times> t_list) option" where
  "list_clean_loop h self =
     (if head self = 0 then Some (h, self)
      else Option.bind (deref h (head self)) (\<lambda>e.
             list_clean_loop (free h (head self)) (self\<lparr>head := nxt e\<rparr>)))"

definition list_clean :: "'a heap \<Rightarrow> t_list \<Rightarrow> ('a heap \<times> t_list) option" where
  "list_clean h self =
     do { (h, self) \<leftarrow> list_clean_loop h self; Some (h, self\<lparr>elements_count := 0\<rparr>) }"

primrec list_take_loop ::
  "nat \<Rightarrow> 'a option heap \<Rightarrow> t_list \<Rightarrow> int \<Rightarrow> t_list \<Rightarrow> ('a option heap \<times> t_list) option" where
  "list_take_loop 0 h self i sublist = Some (h, sublist)"
| "list_take_loop (Suc n) h self i sublist =
     do { element \<leftarrow> list_get h self i;
          (h, sublist, _) \<leftarrow> list_add h sublist (Option.bind element id);
          list_take_loop n h self (i + 1) sublist }"

definition list_take ::
  "'a option heap \<Rightarrow> t_list \<Rightarrow> int \<Rightarrow> ('a option heap \<times> t_list) option" where
  "list_take h self count = list_take_loop (nat count) h self 0 list_create"

definition list_filter ::
  "'a heap \<Rightarrow> t_list \<Rightarrow> ('a \<Rightarrow> bool) \<Rightarrow> ('a heap \<times> t_list) option" where
  "list_filter h self condition =
     list_iterate self
       (\<lambda>x (h, l). if condition x then do { (h, l, _) \<leftarrow> list_add h l x; Some (h, l) }
                    else Some (h, l)) (h, list_create)"

definition list_map :: "'a heap \<Rightarrow> t_list \<Rightarrow> ('a \<Rightarrow> 'a) \<Rightarrow> ('a heap \<times> t_list) option" where
  "list_map h self transformer =
     list_iterate self
       (\<lambda>x (h, l). do { (h, l, _) \<leftarrow> list_add h l (transformer x); Some (h, l) })
       (h, list_create)"

text \<open>
  The variants that hand what they drop to an \<^verbatim>\<open>element_destroyer\<close>, which may receive the null pointer. The
  operations that free the struct of the list return the heap only.
\<close>

definition list_replace_and_destroy_element ::
  "t_list \<Rightarrow> int \<Rightarrow> 'a \<Rightarrow> ('a option \<Rightarrow> 'a heap \<times> 's \<Rightarrow> ('a heap \<times> 's) option) \<Rightarrow> 'a heap \<times> 's \<Rightarrow> ('a heap \<times> 's) option" where
  "list_replace_and_destroy_element self num x element_destroyer st =
     do { (h, old_data) \<leftarrow> list_replace (fst st) self num x; element_destroyer old_data (h, snd st) }"

definition list_remove_and_destroy_element ::
  "t_list \<Rightarrow> int \<Rightarrow> ('a option \<Rightarrow> 'a heap \<times> 's \<Rightarrow> ('a heap \<times> 's) option) \<Rightarrow> 'a heap \<times> 's \<Rightarrow> (t_list \<times> 'a heap \<times> 's) option" where
  "list_remove_and_destroy_element self index element_destroyer st =
     do { (h, self, x) \<leftarrow> list_remove (fst st) self index;
          st \<leftarrow> element_destroyer x (h, snd st);
          Some (self, st) }"

definition list_remove_and_destroy_by_condition ::
  "t_list \<Rightarrow> ('a \<Rightarrow> bool) \<Rightarrow> ('a option \<Rightarrow> 'a heap \<times> 's \<Rightarrow> ('a heap \<times> 's) option) \<Rightarrow> 'a heap \<times> 's \<Rightarrow> (t_list \<times> 'a heap \<times> 's) option" where
  "list_remove_and_destroy_by_condition self condition element_destroyer st =
     do { (h, self, x) \<leftarrow> list_remove_by_condition (fst st) self condition;
          st \<leftarrow> element_destroyer x (h, snd st);
          Some (self, st) }"

definition list_clean_and_destroy_elements ::
  "t_list \<Rightarrow> ('a option \<Rightarrow> 'a heap \<times> 's \<Rightarrow> ('a heap \<times> 's) option) \<Rightarrow> 'a heap \<times> 's \<Rightarrow> (t_list \<times> 'a heap \<times> 's) option" where
  "list_clean_and_destroy_elements self element_destroyer st =
     do { (h, s) \<leftarrow> list_iterate self (\<lambda>x. element_destroyer (Some x)) st;
          (h, self) \<leftarrow> list_clean h self;
          Some (self, h, s) }"

definition list_destroy :: "'a heap \<Rightarrow> t_list \<Rightarrow> 'a heap option" where
  "list_destroy h self = do { (h, _) \<leftarrow> list_clean h self; Some h }"

definition list_destroy_and_destroy_elements ::
  "t_list \<Rightarrow> ('a option \<Rightarrow> 'a heap \<times> 's \<Rightarrow> ('a heap \<times> 's) option) \<Rightarrow> 'a heap \<times> 's \<Rightarrow> ('a heap \<times> 's) option" where
  "list_destroy_and_destroy_elements self element_destroyer st =
     do { (_, st) \<leftarrow> list_clean_and_destroy_elements self element_destroyer st; Some st }"

primrec list_take_and_remove_loop ::
  "nat \<Rightarrow> 'a option heap \<Rightarrow> t_list \<Rightarrow> t_list \<Rightarrow> ('a option heap \<times> t_list \<times> t_list) option" where
  "list_take_and_remove_loop 0 h self sublist = Some (h, self, sublist)"
| "list_take_and_remove_loop (Suc n) h self sublist =
     do { (h, self, element) \<leftarrow> list_remove h self 0;
          (h, sublist, _) \<leftarrow> list_add h sublist (Option.bind element id);
          list_take_and_remove_loop n h self sublist }"

definition list_take_and_remove ::
  "'a option heap \<Rightarrow> t_list \<Rightarrow> int \<Rightarrow> ('a option heap \<times> t_list \<times> t_list) option" where
  "list_take_and_remove h self count = list_take_and_remove_loop (nat count) h self list_create"

section \<open>List segments on the heap\<close>

primrec lseg :: "'a heap \<Rightarrow> nat \<Rightarrow> (nat \<times> 'a) list \<Rightarrow> nat \<Rightarrow> bool" where
  "lseg h p [] q \<longleftrightarrow> p = q"
| "lseg h p (c # cs) q \<longleftrightarrow> p = fst c \<and>
     (\<exists>n. deref h p = Some \<lparr>data = snd c, nxt = n\<rparr> \<and> lseg h n cs q)"

definition heap_ok :: "'a heap \<Rightarrow> bool" where
  "heap_ok h \<longleftrightarrow> 0 < brk h \<and> (\<forall>p. brk h \<le> p \<longrightarrow> mem h p = None)"

text \<open>
  \<open>es_lista h l cs\<close>: in heap \<open>h\<close> the struct \<open>l\<close> is a null-terminated list without repeated
  nodes, whose nodes and their data are \<open>cs\<close>, and its counter is their number.
\<close>

definition es_lista :: "'a heap \<Rightarrow> t_list \<Rightarrow> (nat \<times> 'a) list \<Rightarrow> bool" where
  "es_lista h l cs \<longleftrightarrow> lseg h (head l) cs 0 \<and> distinct (map fst cs)
     \<and> elements_count l = int (length cs)"

definition contenido :: "'a heap \<Rightarrow> t_list \<Rightarrow> 'a list \<Rightarrow> bool" where
  "contenido h l xs \<longleftrightarrow> (\<exists>cs. es_lista h l cs \<and> map snd cs = xs)"

lemma lseg_append:
  "lseg h p (cs @ ds) q \<longleftrightarrow> (\<exists>m. lseg h p cs m \<and> lseg h m ds q)"
  by (induction cs arbitrary: p) auto

lemma deref_Some: "deref h p = Some e \<Longrightarrow> p \<noteq> 0 \<and> mem h p = Some e"
  by (simp add: deref_def split: if_splits)

lemma lseg_fst_nonzero: "lseg h p cs q \<Longrightarrow> c \<in> set cs \<Longrightarrow> fst c \<noteq> 0 \<and> mem h (fst c) \<noteq> None"
  by (induction cs arbitrary: p) (auto dest: deref_Some)

lemma lseg_cong:
  "(\<And>c. c \<in> set cs \<Longrightarrow> mem h' (fst c) = mem h (fst c)) \<Longrightarrow> lseg h' p cs q = lseg h p cs q"
proof (induction cs arbitrary: p)
  case (Cons c cs)
  then have "deref h' (fst c) = deref h (fst c)" by (simp add: deref_def)
  with Cons show ?case by (cases "p = fst c") auto
qed simp

lemma lseg_store [simp]:
  "a \<notin> fst ` set cs \<Longrightarrow> lseg (store h a e) p cs q = lseg h p cs q"
  by (rule lseg_cong) (auto simp: store_def image_iff)

lemma lseg_free [simp]: "a \<notin> fst ` set cs \<Longrightarrow> lseg (free h a) p cs q = lseg h p cs q"
  by (rule lseg_cong) (auto simp: free_def image_iff)

lemma heap_ok_fresh: "heap_ok h \<Longrightarrow> lseg h p cs q \<Longrightarrow> c \<in> set cs \<Longrightarrow> fst c < brk h"
  by (meson heap_ok_def lseg_fst_nonzero not_le)

lemma walk_lseg: "lseg h p (cs @ ds) q \<Longrightarrow> lseg h p cs m \<Longrightarrow> walk h (length cs) p = Some m"
  by (induction cs arbitrary: p) auto

lemma lseg_walk:
  "lseg h p cs q \<Longrightarrow> i < length cs \<Longrightarrow> walk h i p = Some (fst (cs ! i))"
proof (induction cs arbitrary: p i)
  case (Cons c cs)
  then show ?case by (cases i) auto
qed simp

lemma lseg_nth_deref:
  assumes "lseg h p cs q" and "i < length cs"
  shows "deref h (fst (cs ! i)) =
           Some \<lparr>data = snd (cs ! i), nxt = (if Suc i < length cs then fst (cs ! Suc i) else q)\<rparr>"
  using assms
proof (induction cs arbitrary: p i)
  case (Cons c cs)
  show ?case
  proof (cases i)
    case 0
    with Cons.prems show ?thesis by (cases cs) auto
  next
    case (Suc j)
    with Cons.prems Cons.IH [of _ j] show ?thesis by auto
  qed
qed simp

lemma lista_get_element:
  assumes "es_lista h l cs"
  shows "list_get_element h l i =
           Some (if 0 \<le> i \<and> i < int (length cs) then fst (cs ! nat i) else 0)"
  using assms by (auto simp: list_get_element_def es_lista_def nat_less_iff intro!: lseg_walk)

lemma lista_deref:
  assumes "es_lista h l cs" and "i < length cs"
  shows "deref h (fst (cs ! i)) =
           Some \<lparr>data = snd (cs ! i), nxt = (if Suc i < length cs then fst (cs ! Suc i) else 0)\<rparr>"
  using assms lseg_nth_deref unfolding es_lista_def by blast

lemma lista_nth_nonzero: "es_lista h l cs \<Longrightarrow> i < length cs \<Longrightarrow> fst (cs ! i) \<noteq> 0"
  using lista_deref deref_Some by fastforce

lemma lista_head_zero: "es_lista h l cs \<Longrightarrow> head l = 0 \<longleftrightarrow> cs = []"
  by (cases cs) (auto simp: es_lista_def dest: deref_Some)

section \<open>Each operation refines the operation on lists\<close>

lemma lista_get:
  assumes "es_lista h l cs"
  shows "list_get h l i =
           Some (if 0 \<le> i \<and> i < int (length cs) then Some (snd (cs ! nat i)) else None)"
proof (cases "0 \<le> i \<and> i < int (length cs)")
  case True
  then have "nat i < length cs" by (simp add: nat_less_iff)
  with True assms show ?thesis
    by (simp add: list_get_def lista_get_element lista_deref lista_nth_nonzero)
next
  case False
  with assms show ?thesis by (auto simp: list_get_def lista_get_element)
qed

lemma create_element_lseg:
  assumes "heap_ok h" and "lseg h p cs q" and "list_create_element h x = (a, h')"
  shows "lseg h' p cs q" and "deref h' a = Some \<lparr>data = x, nxt = 0\<rparr>" and "heap_ok h'"
    and "a \<notin> fst ` set cs" and "a \<noteq> 0"
proof -
  have a: "a = brk h" and h': "h' = (store h (brk h) \<lparr>data = x, nxt = 0\<rparr>)\<lparr>brk := Suc (brk h)\<rparr>"
    using assms(3) by (auto simp: list_create_element_def)
  show "a \<notin> fst ` set cs" using a heap_ok_fresh [OF assms(1,2)] by fastforce
  then show "lseg h' p cs q"
    using assms(2) by (subst lseg_cong [of cs h' h]) (auto simp: a h' store_def image_iff)
  show "a \<noteq> 0" using assms(1) a by (simp add: heap_ok_def)
  then show "deref h' a = Some \<lparr>data = x, nxt = 0\<rparr>" by (simp add: deref_def a h' store_def)
  show "heap_ok h'" using assms(1) by (simp add: heap_ok_def a h' store_def)
qed

text \<open>Redirecting the \<open>nxt\<close> of the last node of a segment.\<close>

lemma lseg_relink:
  assumes "lseg h p (cs @ [c]) q" and "distinct (map fst (cs @ [c]))"
    and "list_link_element h (fst c) r = Some h'"
  shows "lseg h' p (cs @ [c]) r"
proof -
  from assms(1) obtain m where m: "lseg h p cs m" and mc: "m = fst c"
    and d: "deref h m = Some \<lparr>data = snd c, nxt = q\<rparr>" by (auto simp: lseg_append)
  have h': "h' = store h (fst c) \<lparr>data = snd c, nxt = r\<rparr>" and nz: "fst c \<noteq> 0"
    using assms(3) d mc deref_Some [OF d] by (auto simp: list_link_element_def)
  have "lseg h' p cs m"
    using m assms(2) by (auto simp: h')
  moreover have "deref h' m = Some \<lparr>data = snd c, nxt = r\<rparr>"
    using nz mc by (simp add: h' store_def deref_def)
  ultimately show ?thesis using mc by (auto simp: lseg_append)
qed

lemma link_element_defined:
  "deref h p = Some e \<Longrightarrow> list_link_element h p r = Some (store h p (e\<lparr>nxt := r\<rparr>))"
  by (auto simp: list_link_element_def dest: deref_Some)

lemma heap_ok_store: "heap_ok h \<Longrightarrow> p < brk h \<Longrightarrow> heap_ok (store h p e)"
  by (auto simp: heap_ok_def store_def)

lemma heap_ok_deref: "heap_ok h \<Longrightarrow> deref h p = Some e \<Longrightarrow> p < brk h"
  by (metis deref_Some heap_ok_def not_le option.distinct(1))

lemma lista_add:
  assumes "heap_ok h" and "es_lista h l cs"
  shows "\<exists>h' l'. list_add h l x = Some (h', l', int (length cs)) \<and> heap_ok h'
           \<and> es_lista h' l' (cs @ [(brk h, x)])
           \<and> (\<forall>p. p \<noteq> brk h \<longrightarrow> p \<notin> fst ` set cs \<longrightarrow> mem h' p = mem h p)"
proof -
  obtain a h1 where ce: "list_create_element h x = (a, h1)" by fastforce
  have seg: "lseg h (head l) cs 0" and dist: "distinct (map fst cs)"
    and len: "elements_count l = int (length cs)" using assms(2) by (auto simp: es_lista_def)
  note new = create_element_lseg [OF assms(1) seg ce]
  have a: "a = brk h" and fr: "\<forall>p. p \<noteq> brk h \<longrightarrow> mem h1 p = mem h p"
    using ce by (auto simp: list_create_element_def store_def)
  show ?thesis
  proof (cases cs rule: rev_cases)
    case Nil
    then have "list_add h l x =
        Some (h1, l\<lparr>head := a, elements_count := 1\<rparr>, 0)"
      using len ce by (simp add: list_add_def)
    with Nil new fr a show ?thesis by (auto simp: es_lista_def)
  next
    case (snoc ds d)
    have l1: "es_lista h1 l cs" using new(1) dist len by (simp add: es_lista_def)
    have last: "cs ! (length cs - 1) = d" using snoc by (simp add: nth_append)
    have dd: "deref h1 (fst d) = Some \<lparr>data = snd d, nxt = 0\<rparr>"
      using lista_deref [OF l1, of "length cs - 1"] snoc last by simp
    let ?h2 = "store h1 (fst d) \<lparr>data = snd d, nxt = a\<rparr>"
    have link: "list_link_element h1 (fst d) a = Some ?h2"
      using link_element_defined [OF dd, of a] by simp
    have "list_get_element h1 l (elements_count l - 1) = Some (fst d)"
      using lista_get_element [OF l1, of "elements_count l - 1"] len last snoc by auto
    then have run: "list_add h l x =
        Some (?h2, l\<lparr>elements_count := int (length cs) + 1\<rparr>, int (length cs))"
      using len ce link snoc by (simp add: list_add_def)
    have "lseg ?h2 (head l) cs a"
      using lseg_relink [OF _ _ link, of "head l" ds 0] new(1) dist snoc by simp
    moreover have "deref ?h2 a = Some \<lparr>data = x, nxt = 0\<rparr>"
      using new(2,4,5) snoc by (auto simp: deref_def store_def)
    ultimately have "lseg ?h2 (head l) (cs @ [(a, x)]) 0" by (auto simp: lseg_append)
    moreover have "heap_ok ?h2" using new(3) dd heap_ok_deref heap_ok_store by blast
    ultimately show ?thesis
      using run dist new(4) len a fr snoc by (auto simp: es_lista_def store_def)
  qed
qed

lemma lista_replace:
  assumes "heap_ok h" and "es_lista h l cs" and "i < length cs"
  shows "\<exists>h'. list_replace h l (int i) x = Some (h', Some (snd (cs ! i))) \<and> heap_ok h'
           \<and> es_lista h' l (cs[i := (fst (cs ! i), x)])"
proof -
  let ?a = "fst (cs ! i)" and ?n = "if Suc i < length cs then fst (cs ! Suc i) else 0"
  let ?h' = "store h ?a \<lparr>data = x, nxt = ?n\<rparr>"
  have d: "deref h ?a = Some \<lparr>data = snd (cs ! i), nxt = ?n\<rparr>" by (rule lista_deref [OF assms(2,3)])
  have nz: "?a \<noteq> 0" using d deref_Some by blast
  have run: "list_replace h l (int i) x = Some (?h', Some (snd (cs ! i)))"
    using assms(2,3) d nz by (simp add: list_replace_def lista_get_element del: not_gr_zero)
  have seg: "lseg h (head l) (take i cs @ cs ! i # drop (Suc i) cs) 0"
    and dist: "distinct (map fst (take i cs @ cs ! i # drop (Suc i) cs))"
    using assms(2,3) by (simp_all add: es_lista_def id_take_nth_drop [symmetric])
  have "lseg ?h' (head l) (take i cs @ (?a, x) # drop (Suc i) cs) 0"
  proof -
    from seg obtain m where m: "lseg h (head l) (take i cs) ?a"
      and r: "lseg h m (drop (Suc i) cs) 0" and dm: "deref h ?a = Some \<lparr>data = snd (cs ! i), nxt = m\<rparr>"
      by (auto simp: lseg_append)
    have "m = ?n" using d dm by simp
    moreover have "lseg ?h' (head l) (take i cs) ?a"
      using m dist by (subst lseg_store) auto
    moreover have "lseg ?h' m (drop (Suc i) cs) 0"
      using r dist by (subst lseg_store) auto
    ultimately show ?thesis using nz by (auto simp: lseg_append deref_def store_def)
  qed
  moreover have "cs[i := (?a, x)] = take i cs @ (?a, x) # drop (Suc i) cs"
    using assms(3) by (simp add: upd_conv_take_nth_drop)
  ultimately have "es_lista ?h' l (cs[i := (?a, x)])"
    using assms(2,3) dist by (auto simp: es_lista_def)
  moreover have "heap_ok ?h'" using assms(1) d heap_ok_deref heap_ok_store by blast
  ultimately show ?thesis using run by blast
qed

lemma lseg_split:
  assumes "lseg h p cs q" and "i < length cs"
  shows "\<exists>n. lseg h p (take i cs) (fst (cs ! i)) \<and> lseg h n (drop (Suc i) cs) q
           \<and> deref h (fst (cs ! i)) = Some \<lparr>data = snd (cs ! i), nxt = n\<rparr>"
proof -
  have "lseg h p (take i cs @ cs ! i # drop (Suc i) cs) q"
    using assms by (simp add: id_take_nth_drop [symmetric])
  then show ?thesis by (auto simp: lseg_append)
qed

lemma distinct_split:
  assumes "distinct (map fst cs)" and "i < length cs"
  shows "distinct (map fst (take i cs @ drop (Suc i) cs))"
    and "fst (cs ! i) \<notin> fst ` set (take i cs)" and "fst (cs ! i) \<notin> fst ` set (drop (Suc i) cs)"
    and "fst ` set (take i cs) \<inter> fst ` set (drop (Suc i) cs) = {}"
proof -
  have "distinct (map fst (take i cs @ cs ! i # drop (Suc i) cs))"
    using assms by (simp add: id_take_nth_drop [symmetric])
  then show "distinct (map fst (take i cs @ drop (Suc i) cs))"
    and "fst (cs ! i) \<notin> fst ` set (take i cs)" and "fst (cs ! i) \<notin> fst ` set (drop (Suc i) cs)"
    and "fst ` set (take i cs) \<inter> fst ` set (drop (Suc i) cs) = {}"
    by auto
qed

lemma heap_ok_free: "heap_ok h \<Longrightarrow> heap_ok (free h a)"
  by (simp add: heap_ok_def free_def)

lemma lista_remove:
  assumes "heap_ok h" and "es_lista h l cs" and "i < length cs"
  shows "\<exists>h' l'. list_remove h l (int i) = Some (h', l', Some (snd (cs ! i))) \<and> heap_ok h'
           \<and> es_lista h' l' (take i cs @ drop (Suc i) cs) \<and> dom (mem h') = dom (mem h) - {fst (cs ! i)}"
proof -
  have seg: "lseg h (head l) cs 0" and dist: "distinct (map fst cs)"
    and len: "elements_count l = int (length cs)" using assms(2) by (auto simp: es_lista_def)
  from lseg_split [OF seg assms(3)] obtain n where
    pre: "lseg h (head l) (take i cs) (fst (cs ! i))" and post: "lseg h n (drop (Suc i) cs) 0"
    and d: "deref h (fst (cs ! i)) = Some \<lparr>data = snd (cs ! i), nxt = n\<rparr>" by blast
  note ds = distinct_split [OF dist assms(3)]
  have hd: "head l \<noteq> 0" using lista_head_zero [OF assms(2)] assms(3) by auto
  let ?a = "fst (cs ! i)" and ?l' = "l\<lparr>elements_count := int (length cs) - 1\<rparr>"
  show ?thesis
  proof (cases i)
    case 0
    have "list_remove h l (int i) =
        Some (free h ?a, ?l'\<lparr>head := n\<rparr>, Some (snd (cs ! i)))"
      using hd assms(2,3) d len 0
      by (auto simp: list_remove_def lista_get_element del: not_gr_zero)
    moreover have "lseg (free h ?a) n (drop (Suc 0) cs) 0" using post ds(3) 0 by simp
    moreover have "dom (mem (free h ?a)) = dom (mem h) - {?a}" by (auto simp: free_def)
    ultimately show ?thesis
      using ds(1) assms 0 by (auto simp: es_lista_def heap_ok_free of_nat_diff Suc_leI)
  next
    case (Suc j)
    then have j: "j < length cs" and tk: "take i cs = take j cs @ [cs ! j]"
      using assms(3) by (auto simp: take_Suc_conv_app_nth)
    have dj: "deref h (fst (cs ! j)) = Some \<lparr>data = snd (cs ! j), nxt = ?a\<rparr>"
      using lista_deref [OF assms(2) j] Suc assms(3) by simp
    let ?h1 = "store h (fst (cs ! j)) \<lparr>data = snd (cs ! j), nxt = n\<rparr>"
    have link: "list_link_element h (fst (cs ! j)) n = Some ?h1"
      using link_element_defined [OF dj] by simp
    have run: "list_remove h l (int i) = Some (free ?h1 ?a, ?l', Some (snd (cs ! i)))"
      using hd assms(2,3) d len Suc j link
      by (auto simp: list_remove_def lista_get_element nat_add_distrib del: not_gr_zero)
    have "lseg ?h1 (head l) (take j cs @ [cs ! j]) n"
      using pre ds(1) tk by (intro lseg_relink [OF _ _ link, of _ _ ?a]) auto
    then have "lseg (free ?h1 ?a) (head l) (take i cs) n" using ds(2) tk by simp
    moreover have "fst (cs ! j) \<notin> fst ` set (drop (Suc i) cs)" using ds(4) tk by auto
    then have "lseg (free ?h1 ?a) n (drop (Suc i) cs) 0" using post ds(3) by simp
    ultimately have "lseg (free ?h1 ?a) (head l) (take i cs @ drop (Suc i) cs) 0"
      by (auto simp: lseg_append)
    moreover have "heap_ok (free ?h1 ?a)"
      using assms(1) dj heap_ok_deref heap_ok_store heap_ok_free by blast
    moreover have "dom (mem (free ?h1 ?a)) = dom (mem h) - {?a}"
      using deref_Some [OF dj] by (auto simp: free_def store_def)
    ultimately show ?thesis using run ds(1) assms(3) by (auto simp: es_lista_def)
  qed
qed

lemma lista_remove_empty: "es_lista h l [] \<Longrightarrow> list_remove h l i = Some (h, l, None)"
  by (simp add: list_remove_def es_lista_def)

lemma lista_remove_out_of_range:
  "es_lista h l cs \<Longrightarrow> cs \<noteq> [] \<Longrightarrow> i < 0 \<or> int (length cs) \<le> i \<Longrightarrow> list_remove h l i = None"
  using lista_head_zero [of h l cs]
  by (auto simp: list_remove_def lista_get_element deref_def)

lemma lista_add_in_index:
  assumes "heap_ok h" and "es_lista h l cs" and "i < length cs"
  shows "\<exists>h' l'. list_add_in_index h l (int i) x = Some (h', l') \<and> heap_ok h'
           \<and> es_lista h' l' (take i cs @ (brk h, x) # drop i cs)"
proof -
  obtain a h1 where ce: "list_create_element h x = (a, h1)" by fastforce
  have seg: "lseg h (head l) cs 0" and dist: "distinct (map fst cs)"
    and len: "elements_count l = int (length cs)" using assms(2) by (auto simp: es_lista_def)
  note new = create_element_lseg [OF assms(1) seg ce]
  have a: "a = brk h" using ce by (simp add: list_create_element_def)
  have l1: "es_lista h1 l cs" using new(1) dist len by (simp add: es_lista_def)
  have "distinct (map fst (take i cs) @ map fst (drop i cs))"
    using dist by (simp add: map_append [symmetric] del: map_append)
  then have dist': "distinct (map fst (take i cs @ (a, x) # drop i cs))"
    using new(4) by (auto dest: in_set_takeD in_set_dropD)
  have anin: "a \<notin> fst ` set (take i cs)" "a \<notin> fst ` set (drop i cs)"
    using new(4) by (auto dest: in_set_takeD in_set_dropD)
  let ?c = "fst (cs ! i)" and ?l' = "l\<lparr>elements_count := int (length cs) + 1\<rparr>"
  have post1: "lseg h1 ?c (drop i cs) 0" and pre1: "lseg h1 (head l) (take i cs) ?c"
    using lseg_split [OF new(1) assms(3)] assms(3) by (auto simp: Cons_nth_drop_Suc [symmetric])
  show ?thesis
  proof (cases i)
    case 0
    let ?h2 = "store h1 a \<lparr>data = x, nxt = head l\<rparr>"
    have "list_link_element h1 a (head l) = Some ?h2"
      using link_element_defined [OF new(2)] by simp
    then have run: "list_add_in_index h l (int i) x = Some (?h2, ?l'\<lparr>head := a\<rparr>)"
      using len assms(3) ce 0 by (simp add: list_add_in_index_def)
    have "lseg ?h2 a ((a, x) # cs) 0"
      using new(1,4,5) by (simp add: deref_def) (simp add: store_def)
    moreover have "heap_ok ?h2" using new(2,3) heap_ok_deref heap_ok_store by blast
    ultimately show ?thesis using run dist' a 0 by (auto simp: es_lista_def)
  next
    case (Suc j)
    then have j: "j < length cs" and tk: "take i cs = take j cs @ [cs ! j]"
      using assms(3) by (auto simp: take_Suc_conv_app_nth)
    have dj: "deref h1 (fst (cs ! j)) = Some \<lparr>data = snd (cs ! j), nxt = ?c\<rparr>"
      using lista_deref [OF l1 j] Suc assms(3) by simp
    let ?h2 = "store h1 (fst (cs ! j)) \<lparr>data = snd (cs ! j), nxt = a\<rparr>"
    let ?h3 = "store ?h2 a \<lparr>data = x, nxt = ?c\<rparr>"
    have link1: "list_link_element h1 (fst (cs ! j)) a = Some ?h2"
      using link_element_defined [OF dj] by simp
    have aj: "fst (cs ! j) \<noteq> a" using anin(1) tk by auto
    have da: "deref ?h2 a = Some \<lparr>data = x, nxt = 0\<rparr>"
      using new(2,5) aj by (auto simp: deref_def store_def)
    have link2: "list_link_element ?h2 a ?c = Some ?h3"
      using link_element_defined [OF da] by simp
    have run: "list_add_in_index h l (int i) x = Some (?h3, ?l')"
      using len assms(3) ce Suc j link1 link2 lista_get_element [OF l1, of "int i"]
        lista_get_element [OF l1, of "int j"]
      by (simp add: list_add_in_index_def nat_add_distrib)
    have "lseg ?h2 (head l) (take j cs @ [cs ! j]) a"
      using pre1 dist' tk by (intro lseg_relink [OF _ _ link1, of _ _ ?c]) auto
    then have "lseg ?h3 (head l) (take i cs) a" using anin(1) tk by simp
    moreover have "fst (cs ! j) \<notin> fst ` set (drop i cs)" using dist' tk by auto
    then have "lseg ?h3 ?c (drop i cs) 0" using post1 anin(2) by simp
    moreover have "deref ?h3 a = Some \<lparr>data = x, nxt = ?c\<rparr>"
      using new(5) by (simp add: deref_def store_def)
    ultimately have "lseg ?h3 (head l) (take i cs @ (a, x) # drop i cs) 0"
      by (auto simp: lseg_append)
    moreover have "heap_ok ?h3"
      using new(3) dj da heap_ok_deref heap_ok_store by metis
    ultimately show ?thesis using run dist' a assms(3) by (auto simp: es_lista_def)
  qed
qed

lemma lista_find_loop:
  "lseg h p cs 0 \<Longrightarrow>
   list_find_element_loop h P p k =
     (let i = length (takeWhile (\<lambda>c. \<not> P (snd c)) cs) in
      Some (if i < length cs then fst (cs ! i) else 0, k + int i))"
proof (induction cs arbitrary: p k)
  case Nil
  then show ?case by (simp add: list_find_element_loop.simps)
next
  case (Cons c cs)
  from Cons.prems obtain n where d: "p = fst c" "deref h p = Some \<lparr>data = snd c, nxt = n\<rparr>"
    "lseg h n cs 0" by auto
  then have "p \<noteq> 0" using deref_Some by blast
  then show ?case
    using d Cons.IH [OF d(3)] by (subst list_find_element_loop.simps) (auto simp: Let_def)
qed

lemma takeWhile_hit:
  "i = length (takeWhile (\<lambda>c. \<not> P c) cs) \<Longrightarrow> i < length cs \<Longrightarrow>
   P (cs ! i) \<and> (\<forall>j < i. \<not> P (cs ! j))"
  using nth_length_takeWhile [of "\<lambda>c. \<not> P c" cs]
  by (metis (no_types, lifting) nth_mem set_takeWhileD takeWhile_nth)

lemma find_takeWhile:
  "find P xs = (let i = length (takeWhile (\<lambda>x. \<not> P x) xs) in
                if i < length xs then Some (xs ! i) else None)"
  by (induction xs) (auto simp: Let_def)

lemma takeWhile_map_snd:
  "length (takeWhile (\<lambda>c. \<not> P (snd c)) cs) = length (takeWhile (\<lambda>x. \<not> P x) (map snd cs))"
  by (induction cs) auto

lemma lista_find: "es_lista h l cs \<Longrightarrow> list_find h l P = Some (find P (map snd cs))"
  using lista_nth_nonzero [of h l cs] lista_deref [of h l cs]
  by (auto simp: list_find_def list_find_element_def lista_find_loop es_lista_def Let_def
      find_takeWhile takeWhile_map_snd)

lemma lista_remove_by_condition:
  assumes "heap_ok h" and "es_lista h l cs"
    and i_def: "i = length (takeWhile (\<lambda>c. \<not> P (snd c)) cs)"
  shows "\<exists>h' l'. list_remove_by_condition h l P = Some (h', l', find P (map snd cs)) \<and> heap_ok h'
           \<and> es_lista h' l' (take i cs @ drop (Suc i) cs)"
proof (cases "i < length cs")
  case True
  from lista_remove [OF assms(1,2) True] lista_nth_nonzero [OF assms(2) True] True assms(2)
  show ?thesis
    by (auto simp: list_remove_by_condition_def list_find_element_def lista_find_loop
        es_lista_def Let_def find_takeWhile i_def takeWhile_map_snd)
next
  case False
  then show ?thesis
    using assms(1,2)
    by (auto simp: list_remove_by_condition_def list_find_element_def lista_find_loop
        es_lista_def Let_def find_takeWhile i_def takeWhile_map_snd)
qed

text \<open>
  The iteration rule: an invariant over the prefix already visited, which keeps the
  cells of the iterated list in place.
\<close>

lemma iterate_loop_rule:
  assumes "I hechos st"
    and "\<And>done c rest st. cs = done @ c # rest \<Longrightarrow> I done st \<Longrightarrow>
           \<exists>st'. closure (snd c) st = Some st' \<and> I (done @ [c]) st'"
    and "\<And>done st. I done st \<Longrightarrow> lseg (fst st) p0 cs 0"
    and "cs = hechos @ rest" and "lseg (fst st) p rest 0"
  shows "\<exists>st'. list_iterate_loop closure p st = Some st' \<and> I cs st'"
  using assms(1,4,5)
proof (induction rest arbitrary: hechos st p)
  case Nil
  then show ?case by (simp add: list_iterate_loop.simps)
next
  case (Cons c rest)
  from Cons.prems(3) obtain n where d: "p = fst c" "deref (fst st) p = Some \<lparr>data = snd c, nxt = n\<rparr>"
    by auto
  from assms(2) [OF Cons.prems(2,1)] obtain st' where
    st': "closure (snd c) st = Some st'" "I (hechos @ [c]) st'" by blast
  from assms(3) [OF st'(2)] Cons.prems(2) obtain n' where
    d': "deref (fst st') p = Some \<lparr>data = snd c, nxt = n'\<rparr>" "lseg (fst st') n' rest 0"
    by (auto simp: lseg_append d(1))
  have "\<exists>st''. list_iterate_loop closure n' st' = Some st'' \<and> I cs st''"
    using Cons.IH [OF st'(2) _ d'(2)] Cons.prems(2) by simp
  then show ?case
    using d d' st' deref_Some [OF d(2)] by (subst list_iterate_loop.simps) auto
qed

definition acumula :: "(nat \<times> 'a) list \<Rightarrow> nat \<Rightarrow> 'a list \<Rightarrow> 'a heap \<times> t_list \<Rightarrow> bool" where
  "acumula cs p xs st \<longleftrightarrow> heap_ok (fst st) \<and> lseg (fst st) p cs 0 \<and>
     (\<exists>ds. es_lista (fst st) (snd st) ds \<and> map snd ds = xs \<and> fst ` set cs \<inter> fst ` set ds = {})"

lemma acumula_add:
  assumes "acumula cs p xs (h, l)"
  shows "\<exists>h' l' k. list_add h l x = Some (h', l', k) \<and> acumula cs p (xs @ [x]) (h', l')"
proof -
  from assms obtain ds where ds: "heap_ok h" "lseg h p cs 0" "es_lista h l ds" "map snd ds = xs"
    "fst ` set cs \<inter> fst ` set ds = {}" by (auto simp: acumula_def)
  have fresh: "brk h \<notin> fst ` set cs" using heap_ok_fresh [OF ds(1,2)] by fastforce
  from lista_add [OF ds(1,3), of x] obtain h' l' k where
    r: "list_add h l x = Some (h', l', k)" "heap_ok h'" "es_lista h' l' (ds @ [(brk h, x)])"
    "\<forall>p. p \<noteq> brk h \<longrightarrow> p \<notin> fst ` set ds \<longrightarrow> mem h' p = mem h p" by blast
  have "mem h' (fst c) = mem h (fst c)" if "c \<in> set cs" for c
  proof -
    have m: "fst c \<in> fst ` set cs" using that by (rule imageI)
    then have "fst c \<noteq> brk h" using fresh by metis
    moreover have "fst c \<notin> fst ` set ds" using m ds(5) by blast
    ultimately show ?thesis using r(4) by blast
  qed
  then have "lseg h' p cs 0" using ds(2) lseg_cong [of cs h' h] by blast
  moreover have "fst ` set cs \<inter> fst ` set (ds @ [(brk h, x)]) = {}" using ds(5) fresh by simp
  moreover have "map snd (ds @ [(brk h, x)]) = xs @ [x]" using ds(4) by simp
  ultimately show ?thesis using r unfolding acumula_def fst_conv snd_conv by blast
qed

lemma acumula_iterate:
  assumes "acumula cs (head l) xs (h, l0)"
    and "\<And>x st ys. acumula cs (head l) ys st \<Longrightarrow>
           \<exists>st'. closure x st = Some st' \<and> acumula cs (head l) (ys @ f x) st'"
  shows "\<exists>st'. list_iterate l closure (h, l0) = Some st'
           \<and> acumula cs (head l) (xs @ concat (map (f \<circ> snd) cs)) st'"
proof -
  let ?I = "\<lambda>hechos st. acumula cs (head l) (xs @ concat (map (f \<circ> snd) hechos)) st"
  have step: "\<exists>st'. closure (snd c) st = Some st' \<and> ?I (hechos @ [c]) st'"
    if "cs = hechos @ c # rest" "?I hechos st" for hechos c rest st
    using assms(2) [OF that(2), of "snd c"] by simp
  have "lseg h (head l) cs 0" using assms(1) by (simp add: acumula_def)
  then show ?thesis
    using iterate_loop_rule [where I = ?I and hechos = "[]" and cs = cs and rest = cs
        and ?p0.0 = "head l" and st = "(h, l0)" and p = "head l" and closure = closure]
      step assms(1) by (simp add: list_iterate_def acumula_def)
qed

lemma acumula_nueva: "heap_ok h \<Longrightarrow> es_lista h l cs \<Longrightarrow> acumula cs (head l) [] (h, list_create)"
  by (auto simp: acumula_def list_create_def es_lista_def intro: exI [of _ "[]"])

lemma acumula_contenido:
  "acumula cs (head l) xs (h', l') \<Longrightarrow> es_lista h l cs \<Longrightarrow>
   heap_ok h' \<and> contenido h' l' xs \<and> contenido h' l (map snd cs)"
  by (auto simp: acumula_def contenido_def es_lista_def)

lemma lista_filter:
  assumes "heap_ok h" and "es_lista h l cs"
  shows "\<exists>h' l'. list_filter h l P = Some (h', l') \<and> heap_ok h'
           \<and> contenido h' l' (filter P (map snd cs)) \<and> contenido h' l (map snd cs)"
proof -
  let ?f = "\<lambda>x. if P x then [x] else []"
  have "concat (map (?f \<circ> snd) cs) = filter P (map snd cs)" by (induction cs) auto
  moreover have "\<exists>st'. list_filter h l P = Some st'
      \<and> acumula cs (head l) ([] @ concat (map (?f \<circ> snd) cs)) st'"
    unfolding list_filter_def
  proof (rule acumula_iterate [OF acumula_nueva [OF assms]])
    fix x :: 'a and st ys assume "acumula cs (head l) ys st"
    then show "\<exists>st'. (case st of (h, l) \<Rightarrow> if P x then do { (h, l, _) \<leftarrow> list_add h l x; Some (h, l) }
        else Some (h, l)) = Some st' \<and> acumula cs (head l) (ys @ ?f x) st'"
      using acumula_add [of cs "head l" ys "fst st" "snd st" x] by (cases st) auto
  qed
  ultimately show ?thesis using acumula_contenido [OF _ assms(2)] by fastforce
qed

lemma lista_map:
  assumes "heap_ok h" and "es_lista h l cs"
  shows "\<exists>h' l'. list_map h l g = Some (h', l') \<and> heap_ok h'
           \<and> contenido h' l' (map g (map snd cs)) \<and> contenido h' l (map snd cs)"
proof -
  have "concat (map ((\<lambda>x. [g x]) \<circ> snd) cs) = map g (map snd cs)" by (induction cs) auto
  moreover have "\<exists>st'. list_map h l g = Some st'
      \<and> acumula cs (head l) ([] @ concat (map ((\<lambda>x. [g x]) \<circ> snd) cs)) st'"
    unfolding list_map_def
  proof (rule acumula_iterate [OF acumula_nueva [OF assms]])
    fix x :: 'a and st ys assume "acumula cs (head l) ys st"
    then show "\<exists>st'. (case st of (h, l) \<Rightarrow> do { (h, l, _) \<leftarrow> list_add h l (g x); Some (h, l) })
        = Some st' \<and> acumula cs (head l) (ys @ [g x]) st'"
      using acumula_add [of cs "head l" ys "fst st" "snd st" "g x"] by (cases st) auto
  qed
  ultimately show ?thesis using acumula_contenido [OF _ assms(2)] by fastforce
qed

lemma lista_add_all:
  assumes "heap_ok h" and "es_lista h l ds" and "es_lista h other cs"
    and "fst ` set cs \<inter> fst ` set ds = {}"
  shows "\<exists>h' l'. list_add_all h l other = Some (h', l') \<and> heap_ok h'
           \<and> contenido h' l' (map snd ds @ map snd cs) \<and> contenido h' other (map snd cs)"
proof -
  have start: "acumula cs (head other) (map snd ds) (h, l)"
    using assms by (auto simp: acumula_def es_lista_def)
  have "concat (map ((\<lambda>x. [x]) \<circ> snd) cs) = map snd cs" by (induction cs) auto
  moreover have "\<exists>st'. list_add_all h l other = Some st'
      \<and> acumula cs (head other) (map snd ds @ concat (map ((\<lambda>x. [x]) \<circ> snd) cs)) st'"
    unfolding list_add_all_def
  proof (rule acumula_iterate [OF start])
    fix x :: 'a and st ys assume "acumula cs (head other) ys st"
    then show "\<exists>st'. (case st of (h, l) \<Rightarrow> do { (h, l, _) \<leftarrow> list_add h l x; Some (h, l) })
        = Some st' \<and> acumula cs (head other) (ys @ [x]) st'"
      using acumula_add [of cs "head other" ys "fst st" "snd st" x] by (cases st) auto
  qed
  ultimately show ?thesis using acumula_contenido [OF _ assms(3)] by fastforce
qed

lemma lista_clean_loop:
  assumes "lseg h (head l) cs 0" and "distinct (map fst cs)"
  shows "list_clean_loop h l =
           Some (h\<lparr>mem := \<lambda>p. if p \<in> fst ` set cs then None else mem h p\<rparr>, l\<lparr>head := 0\<rparr>)"
  using assms
proof (induction cs arbitrary: h l)
  case Nil
  then show ?case by (simp add: list_clean_loop.simps)
next
  case (Cons c cs)
  then obtain n where d: "head l = fst c" "deref h (fst c) = Some \<lparr>data = snd c, nxt = n\<rparr>"
    "lseg h n cs 0" by auto
  have "list_clean_loop (free h (fst c)) (l\<lparr>head := n\<rparr>) =
      Some ((free h (fst c))\<lparr>mem := \<lambda>p. if p \<in> fst ` set cs then None else mem (free h (fst c)) p\<rparr>,
            l\<lparr>head := 0\<rparr>)"
    using Cons.IH [of "free h (fst c)" "l\<lparr>head := n\<rparr>"] Cons.prems d by simp
  moreover have "(\<lambda>p. if p \<in> fst ` set cs then None else mem (free h (fst c)) p) =
      (\<lambda>p. if p \<in> fst ` set (c # cs) then None else mem h p)"
    by (auto simp: free_def fun_eq_iff)
  ultimately show ?case
    using d deref_Some [OF d(2)] by (subst list_clean_loop.simps) (simp add: free_def)
qed

lemma lista_clean:
  assumes "heap_ok h" and "es_lista h l cs"
  shows "\<exists>h' l'. list_clean h l = Some (h', l') \<and> heap_ok h' \<and> es_lista h' l' []
           \<and> (\<forall>c \<in> set cs. mem h' (fst c) = None)"
  using lista_clean_loop [of h l cs] assms
  by (auto simp: list_clean_def es_lista_def heap_ok_def)

section \<open>Moving and destroying elements\<close>

text \<open>\<open>list_take\<close> copies the first elements, with a null pointer for each position past the end.\<close>

lemma take_loop:
  assumes "es_lista h0 self cs" "acumula cs (head self) xs (h, sub)"
  shows "\<exists>h' sub'. list_take_loop n h self (int i) sub = Some (h', sub') \<and> acumula cs (head self)
    (xs @ map (\<lambda>j. if j < length cs then snd (cs ! j) else None) [i..<i + n]) (h', sub')"
  using assms(2)
proof (induction n arbitrary: h i xs sub)
  case (Suc n)
  let ?e = "\<lambda>j. if j < length cs then snd (cs ! j) else None"
  have "es_lista h self cs" using Suc.prems assms(1) by (simp add: acumula_def es_lista_def)
  from lista_get [OF this, of "int i"] have
    g: "list_get h self (int i) = Some (if i < length cs then Some (snd (cs ! i)) else None)" by simp
  from acumula_add [OF Suc.prems, of "?e i"] obtain h1 l1 k where
    a: "list_add h sub (?e i) = Some (h1, l1, k)" "acumula cs (head self) (xs @ [?e i]) (h1, l1)" by blast
  from Suc.IH [OF a(2), of "Suc i"] obtain h' sub' where
    r: "list_take_loop n h1 self (int (Suc i)) l1 = Some (h', sub')"
      "acumula cs (head self) ((xs @ [?e i]) @ map ?e [Suc i..<Suc i + n]) (h', sub')" by blast
  have u: "[i..<i + Suc n] = i # [Suc i..<Suc i + n]" by (simp add: upt_conv_Cons)
  have "list_take_loop (Suc n) h self (int i) sub = Some (h', sub')"
    using g a(1) r(1) by (cases "i < length cs") (simp_all add: add.commute)
  then show ?case using r(2) unfolding u by auto
qed simp

lemma lista_take:
  assumes "heap_ok h" "contenido h l xs"
  shows "\<exists>h' sub. list_take h l count = Some (h', sub) \<and> heap_ok h'
    \<and> contenido h' sub (take (nat count) xs @ replicate (nat count - length xs) None) \<and> contenido h' l xs"
proof -
  from assms(2) obtain cs where cs: "es_lista h l cs" "map snd cs = xs" by (auto simp: contenido_def)
  have e: "map (\<lambda>j. if j < length cs then snd (cs ! j) else None) [0..<nat count]
      = take (nat count) xs @ replicate (nat count - length xs) None"
    unfolding cs(2) [symmetric] by (rule nth_equalityI) (auto simp: nth_append)
  from take_loop [OF cs(1) acumula_nueva [OF assms(1) cs(1)], of "nat count" 0] obtain h' sub where
    "list_take h l count = Some (h', sub)"
    "acumula cs (head l) (take (nat count) xs @ replicate (nat count - length xs) None) (h', sub)"
    unfolding list_take_def by (auto simp: e)
  with acumula_contenido [OF this(2) cs(1)] show ?thesis using cs(2) by auto
qed

text \<open>Removing the first element touches its node only.\<close>

lemma lista_remove_primero:
  assumes "heap_ok h" "es_lista h l (c # cs)"
  shows "\<exists>l'. list_remove h l 0 = Some (free h (fst c), l', Some (snd c)) \<and> heap_ok (free h (fst c))
    \<and> es_lista (free h (fst c)) l' cs"
proof -
  obtain n where n: "head l = fst c" "deref h (fst c) = Some \<lparr>data = snd c, nxt = n\<rparr>" "lseg h n cs 0"
    "fst c \<notin> fst ` set cs" "distinct (map fst cs)" "elements_count l = 1 + int (length cs)"
    using assms(2) by (auto simp: es_lista_def)
  have "list_remove h l 0 = Some (free h (fst c), l\<lparr>head := n, elements_count := int (length cs)\<rparr>, Some (snd c))"
    using n deref_Some [OF n(2)] lista_get_element [OF assms(2), of 0] by (simp add: list_remove_def)
  then show ?thesis using n heap_ok_free [OF assms(1)] by (simp add: es_lista_def)
qed

lemma acumula_remove:
  assumes "heap_ok h" "es_lista h self (c # cs)" "acumula (c # cs) (head self) xs (h, l)"
  obtains self' where "list_remove h self 0 = Some (free h (fst c), self', Some (snd c))" "heap_ok (free h (fst c))"
    "es_lista (free h (fst c)) self' cs" "acumula cs (head self') xs (free h (fst c), l)"
proof -
  obtain ds where ds: "es_lista h l ds" "map snd ds = xs" "fst ` set (c # cs) \<inter> fst ` set ds = {}"
    using assms(3) by (auto simp: acumula_def)
  from lista_remove_primero [OF assms(1,2)] obtain self' where
    r: "list_remove h self 0 = Some (free h (fst c), self', Some (snd c))" "heap_ok (free h (fst c))" "es_lista (free h (fst c)) self' cs"
    by blast
  have "fst c \<notin> fst ` set ds" using ds(3) by auto
  then have "es_lista (free h (fst c)) l ds" using ds(1) by (simp add: es_lista_def)
  then have "acumula cs (head self') xs (free h (fst c), l)"
    using r(2,3) ds(2,3) by (auto simp: acumula_def es_lista_def intro!: exI [of _ ds])
  with r show thesis by (rule that)
qed

text \<open>
  \<open>list_take_and_remove\<close> moves the first elements into a new list; a count beyond the length of the list fills the new list
  with null pointers.
\<close>

lemma take_and_remove_loop:
  assumes "heap_ok h" "es_lista h self cs" "acumula cs (head self) xs (h, l)"
  shows "\<exists>h' self' l'. list_take_and_remove_loop n h self l = Some (h', self', l') \<and> heap_ok h'
    \<and> contenido h' self' (drop n (map snd cs))
    \<and> contenido h' l' (xs @ take n (map snd cs) @ replicate (n - length cs) None)"
  using assms
proof (induction n arbitrary: h self cs xs l)
  case 0
  then show ?case by (auto simp: acumula_def contenido_def)
next
  case (Suc n)
  show ?case
  proof (cases cs)
    case Nil
    then have rm: "list_remove h self 0 = Some (h, self, None)" using lista_remove_empty Suc.prems(2) by blast
    from acumula_add [OF Suc.prems(3), of None] obtain h1 l1 k where
      a: "list_add h l None = Some (h1, l1, k)" "acumula cs (head self) (xs @ [None]) (h1, l1)" by blast
    have "heap_ok h1" "es_lista h1 self cs" using a(2) Suc.prems(2) by (simp_all add: acumula_def es_lista_def)
    from Suc.IH [OF this a(2)] show ?thesis using rm a(1) Nil by simp
  next
    case (Cons c cs')
    obtain self' where r: "list_remove h self 0 = Some (free h (fst c), self', Some (snd c))" "heap_ok (free h (fst c))"
      "es_lista (free h (fst c)) self' cs'" "acumula cs' (head self') xs (free h (fst c), l)"
      by (rule acumula_remove [OF Suc.prems [unfolded Cons]])
    from acumula_add [OF r(4), of "snd c"] obtain h1 l1 k where
      a: "list_add (free h (fst c)) l (snd c) = Some (h1, l1, k)" "acumula cs' (head self') (xs @ [snd c]) (h1, l1)" by blast
    have "heap_ok h1" "es_lista h1 self' cs'" using a(2) r(3) by (simp_all add: acumula_def es_lista_def)
    from Suc.IH [OF this a(2)] show ?thesis using r(1) a(1) Cons by simp
  qed
qed

lemma lista_take_and_remove:
  assumes "heap_ok h" "contenido h l xs"
  shows "\<exists>h' l' sub. list_take_and_remove h l count = Some (h', l', sub) \<and> heap_ok h'
    \<and> contenido h' l' (drop (nat count) xs)
    \<and> contenido h' sub (take (nat count) xs @ replicate (nat count - length xs) None)"
proof -
  from assms(2) obtain cs where cs: "es_lista h l cs" "map snd cs = xs" by (auto simp: contenido_def)
  from take_and_remove_loop [OF assms(1) cs(1) acumula_nueva [OF assms(1) cs(1)], of "nat count"] cs(2)
  show ?thesis by (auto simp: list_take_and_remove_def)
qed

text \<open>A destroyer that leaves the nodes alone sees each element once, in the order of the list, and the nodes are then freed.\<close>

lemma lista_destroy_elements:
  assumes "heap_ok h" "es_lista h l cs" "\<And>x h s. element_destroyer (Some x) (h, s) = Some (h, f x s)"
  shows "\<exists>h'. list_destroy_and_destroy_elements l element_destroyer (h, s) = Some (h', fold f (map snd cs) s)
    \<and> (\<forall>c \<in> set cs. mem h' (fst c) = None)"
proof -
  have "lseg h p rest 0 \<Longrightarrow>
      list_iterate_loop (\<lambda>x. element_destroyer (Some x)) p (h, s) = Some (h, fold f (map snd rest) s)" for p rest s
  proof (induction rest arbitrary: p s)
    case Nil
    then show ?case by (simp add: list_iterate_loop.simps)
  next
    case (Cons c rest)
    then obtain n where "p = fst c" "deref h p = Some \<lparr>data = snd c, nxt = n\<rparr>" "lseg h n rest 0" by auto
    with Cons.IH [of n "f (snd c) s"] show ?case
      using deref_Some [of h p] assms(3) by (subst list_iterate_loop.simps) simp
  qed
  then have "list_iterate l (\<lambda>x. element_destroyer (Some x)) (h, s) = Some (h, fold f (map snd cs) s)"
    using assms(2) by (simp add: list_iterate_def es_lista_def)
  with lista_clean [OF assms(1,2)] show ?thesis
    by (auto simp: list_destroy_and_destroy_elements_def list_clean_and_destroy_elements_def)
qed

section \<open>Properties\<close>

text \<open>
  C31: \<open>list_remove\<close> on every branch: on an empty list it returns the null pointer and
  changes nothing; at an index of the list it returns the element there, the list
  loses exactly that element, and of all the cells of the heap exactly the node of that index is
  freed; at any other index of a non-empty list it dereferences the
  null pointer that \<open>list_get_element\<close> returns.
\<close>

theorem list_remove_refines:
  assumes "heap_ok h" and "contenido h l xs"
  shows "if xs = [] then list_remove h l i = Some (h, l, None)
         else if 0 \<le> i \<and> i < int (length xs)
         then \<exists>h' l' p. list_remove h l i = Some (h', l', Some (xs ! nat i)) \<and> heap_ok h'
                \<and> contenido h' l' (take (nat i) xs @ drop (Suc (nat i)) xs)
                \<and> list_get_element h l i = Some p \<and> p \<in> dom (mem h) \<and> dom (mem h') = dom (mem h) - {p}
         else list_remove h l i = None"
proof -
  from assms(2) obtain cs where cs: "es_lista h l cs" "map snd cs = xs" by (auto simp: contenido_def)
  show ?thesis
  proof (cases "xs \<noteq> [] \<and> 0 \<le> i \<and> i < int (length xs)")
    case True
    then have n: "nat i < length cs" "int (nat i) = i" using cs(2) by auto
    from lista_remove [OF assms(1) cs(1) n(1)] obtain h' l' where
      "list_remove h l i = Some (h', l', Some (snd (cs ! nat i)))" "heap_ok h'"
      "es_lista h' l' (take (nat i) cs @ drop (Suc (nat i)) cs)" "dom (mem h') = dom (mem h) - {fst (cs ! nat i)}"
      unfolding n(2) by blast
    moreover have "list_get_element h l i = Some (fst (cs ! nat i))" "fst (cs ! nat i) \<in> dom (mem h)"
      using lista_get_element [OF cs(1), of i] n deref_Some [OF lista_deref [OF cs(1) n(1)]] by auto
    moreover have "map snd (take (nat i) cs @ drop (Suc (nat i)) cs)
        = take (nat i) xs @ drop (Suc (nat i)) xs"
      using cs(2) by (simp add: take_map [symmetric] drop_map [symmetric])
    ultimately have "\<exists>h' l' p. list_remove h l i = Some (h', l', Some (xs ! nat i)) \<and> heap_ok h'
        \<and> contenido h' l' (take (nat i) xs @ drop (Suc (nat i)) xs)
        \<and> list_get_element h l i = Some p \<and> p \<in> dom (mem h) \<and> dom (mem h') = dom (mem h) - {p}"
      using cs(2) n(1) unfolding contenido_def by (intro exI [of _ h'] exI [of _ l'] exI [of _ "fst (cs ! nat i)"]) auto
    with True show ?thesis by simp
  next
    case False
    show ?thesis
    proof (cases "xs = []")
      case True
      with cs lista_remove_empty [of h l i] show ?thesis by simp
    next
      case ne: False
      with False cs(2) lista_remove_out_of_range [OF cs(1), of i] show ?thesis by auto
    qed
  qed
qed

theorem list_remove_refines_witness:
  "\<exists>h l. heap_ok h \<and> contenido h l [10::nat, 20, 30]
     \<and> (\<exists>h' l'. list_remove h l 1 = Some (h', l', Some 20) \<and> contenido h' l' [10, 30] \<and> dom (mem h') = {1, 3})"
proof -
  let ?h = "\<lparr>mem = [1 \<mapsto> \<lparr>data = 10, nxt = 2\<rparr>, 2 \<mapsto> \<lparr>data = 20, nxt = 3\<rparr>,
                   3 \<mapsto> \<lparr>data = 30::nat, nxt = 0\<rparr>], brk = 4\<rparr>" and ?l = "\<lparr>head = 1, elements_count = 3\<rparr>"
  have "es_lista ?h ?l [(1, 10), (2, 20), (3, 30)]" by (simp add: es_lista_def deref_def)
  then have c: "contenido ?h ?l [10, 20, 30]" unfolding contenido_def by (intro exI conjI) auto
  have ok: "heap_ok ?h" by (simp add: heap_ok_def)
  have g: "list_get_element ?h ?l 1 = Some 2" by (simp add: list_get_element_def deref_def)
  have d: "dom (mem ?h) - {2} = {1, 3}" by auto
  from list_remove_refines [OF ok c, of 1] g d have "\<exists>h' l'. list_remove ?h ?l 1 = Some (h', l', Some 20)
      \<and> contenido h' l' [10, 30] \<and> dom (mem h') = {1, 3}" by auto
  with ok c show ?thesis by blast
qed

text \<open>
  Insertion. \<open>list_add\<close> appends and returns the index of the new element;
  \<open>list_add_in_index\<close> inserts before the element at a valid index and ignores every
  other index, also the index one past the end.
\<close>

lemma list_insert_refines:
  assumes "heap_ok h" and "contenido h l xs"
  shows "(\<exists>h' l'. list_add h l x = Some (h', l', int (length xs)) \<and> heap_ok h'
            \<and> contenido h' l' (xs @ [x]))
         \<and> (if 0 \<le> i \<and> i < int (length xs)
            then \<exists>h' l'. list_add_in_index h l i x = Some (h', l') \<and> heap_ok h'
                   \<and> contenido h' l' (take (nat i) xs @ x # drop (nat i) xs)
            else list_add_in_index h l i x = Some (h, l))"
proof -
  from assms(2) obtain cs where cs: "es_lista h l cs" "map snd cs = xs" by (auto simp: contenido_def)
  have add: "\<exists>h' l'. list_add h l x = Some (h', l', int (length xs)) \<and> heap_ok h'
      \<and> contenido h' l' (xs @ [x])"
    using lista_add [OF assms(1) cs(1), of x] cs(2) by (fastforce simp: contenido_def)
  show ?thesis
  proof (cases "0 \<le> i \<and> i < int (length xs)")
    case True
    then have n: "nat i < length cs" "int (nat i) = i" using cs(2) by auto
    from lista_add_in_index [OF assms(1) cs(1) n(1), of x] obtain h' l' where
      "list_add_in_index h l i x = Some (h', l')" "heap_ok h'"
      "es_lista h' l' (take (nat i) cs @ (brk h, x) # drop (nat i) cs)" unfolding n(2) by blast
    moreover have "map snd (take (nat i) cs @ (brk h, x) # drop (nat i) cs)
        = take (nat i) xs @ x # drop (nat i) xs"
      using cs(2) by (simp add: take_map [symmetric] drop_map [symmetric])
    ultimately show ?thesis using add True unfolding contenido_def by auto
  next
    case False
    with add cs show ?thesis by (auto simp: list_add_in_index_def es_lista_def)
  qed
qed

lemma list_insert_refines_ej:
  "heap_ok (heap_empty :: nat heap) \<and> contenido (heap_empty :: nat heap) list_create []
   \<and> (\<exists>h l. list_add heap_empty list_create (7::nat) = Some (h, l, 0) \<and> contenido h l [7])"
proof -
  have ok: "heap_ok (heap_empty :: nat heap)" by (simp add: heap_ok_def heap_empty_def)
  have c: "contenido (heap_empty :: nat heap) list_create []"
    by (simp add: contenido_def es_lista_def list_create_def)
  from list_insert_refines [OF ok c, of 7 0] ok c show ?thesis by auto
qed

text \<open>
  C36: the loops over a list end on every well-formed list and compute the list functions. \<open>list_find\<close> returns the first
  match; \<open>list_filter\<close>, \<open>list_map\<close> and \<open>list_take\<close> make a new list and leave the original one in place;
  \<open>list_take_and_remove\<close> makes the same list as \<open>list_take\<close> and takes its elements out of the original one. The elements
  are pointers that may be null: a count beyond the length of the list fills the new list with null pointers, and a
  negative count makes an empty list.
\<close>

theorem list_loops_refine:
  assumes "heap_ok h" and "contenido h l (xs :: 'a option list)"
  shows "list_find h l P = Some (find P xs)
         \<and> (\<exists>h' l'. list_filter h l P = Some (h', l') \<and> heap_ok h'
              \<and> contenido h' l' (filter P xs) \<and> contenido h' l xs)
         \<and> (\<exists>h' l'. list_map h l g = Some (h', l') \<and> heap_ok h'
              \<and> contenido h' l' (map g xs) \<and> contenido h' l xs)
         \<and> (\<exists>h' sub. list_take h l count = Some (h', sub) \<and> heap_ok h'
              \<and> contenido h' sub (take (nat count) xs @ replicate (nat count - length xs) None) \<and> contenido h' l xs)
         \<and> (\<exists>h' l' sub. list_take_and_remove h l count = Some (h', l', sub) \<and> heap_ok h'
              \<and> contenido h' sub (take (nat count) xs @ replicate (nat count - length xs) None)
              \<and> contenido h' l' (drop (nat count) xs))"
proof -
  from assms(2) obtain cs where cs: "es_lista h l cs" "map snd cs = xs" by (auto simp: contenido_def)
  have "list_find h l P = Some (find P xs)" using lista_find [OF cs(1)] unfolding cs(2) .
  moreover note lista_filter [OF assms(1) cs(1), of P] lista_map [OF assms(1) cs(1), of g]
    lista_take [OF assms, of count] lista_take_and_remove [OF assms, of count]
  ultimately show ?thesis unfolding cs(2) by blast
qed

theorem list_loops_refine_witness:
  "\<exists>h l. heap_ok h \<and> contenido h l [Some (5::nat), Some 8] \<and> list_find h l (\<lambda>x. x = Some 8) = Some (Some (Some 8))
     \<and> (\<exists>h' l'. list_map h l (map_option Suc) = Some (h', l') \<and> contenido h' l' [Some 6, Some 9])
     \<and> (\<exists>h' sub. list_take h l 3 = Some (h', sub) \<and> contenido h' sub [Some 5, Some 8, None])"
proof -
  let ?h = "\<lparr>mem = [1 \<mapsto> \<lparr>data = Some 5, nxt = 2\<rparr>, 2 \<mapsto> \<lparr>data = Some (8::nat), nxt = 0\<rparr>], brk = 3\<rparr>"
    and ?l = "\<lparr>head = 1, elements_count = 2\<rparr>"
  have "es_lista ?h ?l [(1, Some 5), (2, Some 8)]" by (simp add: es_lista_def deref_def)
  then have c: "contenido ?h ?l [Some 5, Some 8]" unfolding contenido_def by (intro exI conjI) auto
  have ok: "heap_ok ?h" by (simp add: heap_ok_def)
  from list_loops_refine [OF ok c, of "\<lambda>x. x = Some 8" "map_option Suc" 3] ok c show ?thesis
    by (intro exI [of _ ?h] exI [of _ ?l]) (auto simp: numeral_3_eq_3)
qed

end
