(* ===== verification/Cola.thy ===== *)
theory Cola
  imports Lista
begin

text \<open>
  The FIFO queue of \<^verbatim>\<open>src/commons/collections/queue.c\<close>, a struct around the linked list. The
  server keeps the pending requests in one and the client its pool of sockets in
  another. The \<open>fifo\<close> locale is the contract both rely on; it is interpreted on the
  operations of the model, and the order of service is proved once inside it.
\<close>

section \<open>Definitions\<close>

record t_queue =
  elements :: t_list

definition queue_create :: t_queue where
  "queue_create = \<lparr>elements = list_create\<rparr>"

definition queue_clean :: "'a heap \<Rightarrow> t_queue \<Rightarrow> ('a heap \<times> t_queue) option" where
  "queue_clean h self =
     do { (h, l) \<leftarrow> list_clean h (elements self); Some (h, self\<lparr>elements := l\<rparr>) }"

definition queue_clean_and_destroy_elements ::
  "t_queue \<Rightarrow> ('a option \<Rightarrow> 'a heap \<times> 's \<Rightarrow> ('a heap \<times> 's) option) \<Rightarrow> 'a heap \<times> 's \<Rightarrow> (t_queue \<times> 'a heap \<times> 's) option" where
  "queue_clean_and_destroy_elements self element_destroyer st =
     do { (l, st) \<leftarrow> list_clean_and_destroy_elements (elements self) element_destroyer st;
          Some (self\<lparr>elements := l\<rparr>, st) }"

definition queue_destroy :: "'a heap \<Rightarrow> t_queue \<Rightarrow> 'a heap option" where
  "queue_destroy h self = list_destroy h (elements self)"

definition queue_destroy_and_destroy_elements ::
  "t_queue \<Rightarrow> ('a option \<Rightarrow> 'a heap \<times> 's \<Rightarrow> ('a heap \<times> 's) option) \<Rightarrow> 'a heap \<times> 's \<Rightarrow> ('a heap \<times> 's) option" where
  "queue_destroy_and_destroy_elements self element_destroyer st =
     list_destroy_and_destroy_elements (elements self) element_destroyer st"

definition queue_push :: "'a heap \<times> t_queue \<Rightarrow> 'a \<Rightarrow> ('a heap \<times> t_queue) option" where
  "queue_push q x =
     (case q of (h, self) \<Rightarrow>
        do { (h, l, _) \<leftarrow> list_add h (elements self) x; Some (h, self\<lparr>elements := l\<rparr>) })"

definition queue_pop :: "'a heap \<times> t_queue \<Rightarrow> (('a heap \<times> t_queue) \<times> 'a option) option" where
  "queue_pop q =
     (case q of (h, self) \<Rightarrow>
        do { (h, l, x) \<leftarrow> list_remove h (elements self) 0; Some ((h, self\<lparr>elements := l\<rparr>), x) })"

definition queue_peek :: "'a heap \<times> t_queue \<Rightarrow> 'a option option" where
  "queue_peek q = (case q of (h, self) \<Rightarrow> list_get h (elements self) 0)"

definition queue_size :: "t_queue \<Rightarrow> int" where
  "queue_size self = list_size (elements self)"

definition queue_is_empty :: "t_queue \<Rightarrow> bool" where
  "queue_is_empty self = list_is_empty (elements self)"

section \<open>The contract of a queue\<close>

locale fifo =
  fixes push :: "'q \<Rightarrow> 'a \<Rightarrow> 'q option"
    and pop :: "'q \<Rightarrow> ('q \<times> 'a option) option"
    and rep :: "'q \<Rightarrow> 'a list \<Rightarrow> bool"
  assumes push: "rep q xs \<Longrightarrow> \<exists>q'. push q x = Some q' \<and> rep q' (xs @ [x])"
    and pop_Nil: "rep q [] \<Longrightarrow> pop q = Some (q, None)"
    and pop_Cons: "rep q (x # xs) \<Longrightarrow> \<exists>q'. pop q = Some (q', Some x) \<and> rep q' xs"
begin

primrec push_all :: "'q \<Rightarrow> 'a list \<Rightarrow> 'q option" where
  "push_all q [] = Some q"
| "push_all q (x # xs) = do { q \<leftarrow> push q x; push_all q xs }"

primrec pop_n :: "'q \<Rightarrow> nat \<Rightarrow> ('q \<times> 'a list) option" where
  "pop_n q 0 = Some (q, [])"
| "pop_n q (Suc n) =
     do { (q, x) \<leftarrow> pop q;
          case x of None \<Rightarrow> Some (q, [])
          | Some x \<Rightarrow> do { (q, xs) \<leftarrow> pop_n q n; Some (q, x # xs) } }"

lemma push_all_rep: "rep q xs \<Longrightarrow> \<exists>q'. push_all q ys = Some q' \<and> rep q' (xs @ ys)"
proof (induction ys arbitrary: q xs)
  case (Cons y ys)
  from push [OF Cons.prems, of y] obtain q1 where "push q y = Some q1" "rep q1 (xs @ [y])" by blast
  with Cons.IH [of q1 "xs @ [y]"] show ?case by auto
qed simp

lemma pop_n_rep:
  "rep q xs \<Longrightarrow> \<exists>q'. pop_n q n = Some (q', take n xs) \<and> rep q' (drop n xs)"
proof (induction n arbitrary: q xs)
  case (Suc n)
  show ?case
  proof (cases xs)
    case Nil
    with Suc.prems pop_Nil show ?thesis by simp
  next
    case (Cons x ys)
    with pop_Cons [of q x ys] Suc.prems obtain q1 where
      "pop q = Some (q1, Some x)" "rep q1 ys" by blast
    with Suc.IH [of q1 ys] Cons show ?thesis by auto
  qed
qed simp

text \<open>What is pushed comes out in the same order, after what was already queued.\<close>

lemma fifo_order:
  assumes "rep q xs"
  shows "\<exists>q1 q2. push_all q ys = Some q1
           \<and> pop_n q1 (length xs + length ys) = Some (q2, xs @ ys) \<and> rep q2 []"
proof -
  from push_all_rep [OF assms] obtain q1 where "push_all q ys = Some q1" "rep q1 (xs @ ys)" by blast
  with pop_n_rep [of q1 "xs @ ys" "length xs + length ys"] show ?thesis by auto
qed

text \<open>Taking the first element and giving it back rotates the queue and loses nothing.\<close>

lemma pop_push_rotate:
  assumes "rep q (x # xs)"
  shows "\<exists>q1 q2. pop q = Some (q1, Some x) \<and> push q1 x = Some q2 \<and> rep q2 (xs @ [x])"
  using pop_Cons [OF assms] push by blast

end

definition es_cola :: "'a heap \<times> t_queue \<Rightarrow> 'a list \<Rightarrow> bool" where
  "es_cola q xs \<longleftrightarrow> heap_ok (fst q) \<and> contenido (fst q) (elements (snd q)) xs"

interpretation cola: fifo queue_push queue_pop es_cola
proof unfold_locales
  fix q :: "'a heap \<times> t_queue" and xs x
  assume "es_cola q xs"
  then obtain cs where "heap_ok (fst q)" "es_lista (fst q) (elements (snd q)) cs" "map snd cs = xs"
    by (auto simp: es_cola_def contenido_def)
  with lista_add [of "fst q" "elements (snd q)" cs x] 
  show "\<exists>q'. queue_push q x = Some q' \<and> es_cola q' (xs @ [x])"
    by (fastforce simp: queue_push_def es_cola_def contenido_def split: prod.splits)
next
  fix q :: "'a heap \<times> t_queue"
  assume "es_cola q []"
  then show "queue_pop q = Some (q, None)"
    by (auto simp: es_cola_def contenido_def queue_pop_def lista_remove_empty split: prod.splits)
next
  fix q :: "'a heap \<times> t_queue" and x xs
  assume "es_cola q (x # xs)"
  then obtain cs where cs: "heap_ok (fst q)" "es_lista (fst q) (elements (snd q)) cs"
    "map snd cs = x # xs" by (auto simp: es_cola_def contenido_def)
  then have "0 < length cs" "snd (cs ! 0) = x" "map snd (drop (Suc 0) cs) = xs" by (cases cs; simp)+
  with lista_remove [OF cs(1,2), of 0] show "\<exists>q'. queue_pop q = Some (q', Some x) \<and> es_cola q' xs"
    by (fastforce simp: queue_pop_def es_cola_def contenido_def split: prod.splits)
qed

lemma es_cola_create: "heap_ok h \<Longrightarrow> es_cola (h, queue_create) []"
  by (simp add: es_cola_def queue_create_def list_create_def contenido_def es_lista_def)

lemma heap_ok_empty [simp]: "heap_ok heap_empty"
  by (simp add: heap_ok_def heap_empty_def)

section \<open>Properties\<close>

text \<open>
  First in, first out. From any queue, popping returns what was queued before and then
  what was pushed, in order, and then the null pointer.
\<close>

lemma queue_fifo:
  assumes "es_cola q xs"
  shows "\<exists>q1 q2 q3. queue_push q x = Some q1 \<and> queue_push q1 y = Some q2
           \<and> cola.pop_n q2 (length xs + 2) = Some (q3, xs @ [x, y])
           \<and> queue_pop q3 = Some (q3, None)"
proof -
  from cola.fifo_order [OF assms, of "[x, y]"] obtain q2 q3 where
    r: "cola.push_all q [x, y] = Some q2" "cola.pop_n q2 (length xs + 2) = Some (q3, xs @ [x, y])"
    "es_cola q3 []" by auto
  then obtain q1 where "queue_push q x = Some q1" "queue_push q1 y = Some q2"
    by (auto split: Option.bind_splits)
  with r cola.pop_Nil show ?thesis by blast
qed

lemma queue_fifo_ej:
  "es_cola (heap_empty, queue_create) ([] :: nat list) \<and>
   (\<exists>q1 q2 q3. queue_push (heap_empty, queue_create) (10::nat) = Some q1 \<and> queue_push q1 20 = Some q2
      \<and> cola.pop_n q2 2 = Some (q3, [10, 20]) \<and> queue_pop q3 = Some (q3, None))"
proof -
  have e: "es_cola (heap_empty, queue_create) ([] :: nat list)" by (simp add: es_cola_create)
  from queue_fifo [OF e, of 10 20] e show ?thesis by (simp only: list.size add_0 append_Nil simp_thms)
qed

end
