(* ===== verification/Serial.thy ===== *)
theory Serial
  imports Prelude
begin

text \<open>
  The wire protocol between the client and the server: \<^verbatim>\<open>src/fsc/serializar_y_deserializar.c\<close>
  (requests out, responses in) and \<^verbatim>\<open>src/rfs/serial_rfs.c\<close> (requests in, responses out).
  Packets are byte lists. A packet is a type byte, a 16 bit payload length and the
  payload. C strings are byte lists without a zero byte; their zero terminator is written
  out. The two programs are separate builds, and the client alone is compiled with 64 bit
  file offsets, so the sizes of the C types are a parameter \<open>abi\<close> of every operation that
  depends on them. A copy that runs outside a buffer is \<open>None\<close>.
\<close>

section \<open>Definitions\<close>

record abi =
  sizeof_off_t :: nat
  sizeof_size_t :: nat
  sizeof_mode_t :: nat
  sizeof_nlink_t :: nat

text \<open>The builds of the repository on 32-bit Linux, and a 64-bit build of either.\<close>

definition ilp32_server :: abi where
  "ilp32_server = \<lparr>sizeof_off_t = 4, sizeof_size_t = 4, sizeof_mode_t = 4, sizeof_nlink_t = 4\<rparr>"
definition ilp32_client :: abi where
  "ilp32_client = ilp32_server\<lparr>sizeof_off_t := 8\<rparr>"
definition lp64 :: abi where
  "lp64 = \<lparr>sizeof_off_t = 8, sizeof_size_t = 8, sizeof_mode_t = 4, sizeof_nlink_t = 8\<rparr>"

definition TIPOGETATTR :: u8 where "TIPOGETATTR = 1"
definition TIPOREADDIR :: u8 where "TIPOREADDIR = 2"
definition TIPOOPEN :: u8 where "TIPOOPEN = 3"
definition TIPORELEASE :: u8 where "TIPORELEASE = 4"
definition TIPOREAD :: u8 where "TIPOREAD = 5"
definition TIPOWRITE :: u8 where "TIPOWRITE = 6"
definition TIPOCREATE :: u8 where "TIPOCREATE = 7"
definition TIPOUNLINK :: u8 where "TIPOUNLINK = 8"
definition TIPOTRUNCATE :: u8 where "TIPOTRUNCATE = 9"
definition TIPORMDIR :: u8 where "TIPORMDIR = 10"
definition TIPOMKDIR :: u8 where "TIPOMKDIR = 11"

lemmas TIPO_defs = TIPOGETATTR_def TIPOREADDIR_def TIPOOPEN_def TIPORELEASE_def TIPOREAD_def
  TIPOWRITE_def TIPOCREATE_def TIPOUNLINK_def TIPOTRUNCATE_def TIPORMDIR_def TIPOMKDIR_def

record Nipc =
  tipo :: u8
  payloadLength :: u16
  payload :: "u8 list"

record Desread =
  dr_path :: "u8 list"
  dr_offset :: nat
  dr_size :: nat

record Deswrite =
  dw_path :: "u8 list"
  dw_size :: nat
  dw_buf :: "u8 list"
  dw_offset :: nat

record Destrunc =
  dt_path :: "u8 list"
  dt_offset :: nat

record DesAttr_resp =
  modo :: nat
  nlink :: nat
  total_size :: nat

record DesReadDir_resp =
  tamano :: u16
  lista_nombres :: "u8 list"

text \<open>
  The payload is a block of \<open>payloadLength\<close> bytes into which the parts are copied one
  after the other. When they add up to more the copies run past the block, when they add
  up to less the rest of the block is never written: both are \<open>None\<close>.
\<close>

definition arma_payload :: "u16 \<Rightarrow> u8 list list \<Rightarrow> u8 list option" where
  "arma_payload n partes =
     (if length (concat partes) = unat n then Some (concat partes) else None)"

definition lee :: "u8 list \<Rightarrow> nat \<Rightarrow> nat \<Rightarrow> u8 list option" where
  "lee bs off n = (if off + n \<le> length bs then Some (take n (drop off bs)) else None)"

definition serializar_Nipc :: "Nipc \<Rightarrow> u8 list option" where
  "serializar_Nipc st =
     do { p \<leftarrow> lee (payload st) 0 (unat (payloadLength st));
          Some (enc8 (tipo st) @ enc16 (payloadLength st) @ p) }"

definition serializar_path :: "u8 list \<Rightarrow> u8 \<Rightarrow> u8 list option" where
  "serializar_path path t =
     (let n = word_of_nat (length path + 1) in
      do { p \<leftarrow> arma_payload n [path @ [0]];
           serializar_Nipc \<lparr>tipo = t, payloadLength = n, payload = p\<rparr> })"

subsection \<open>The client: requests\<close>

definition serializar_Read_Pedido :: "abi \<Rightarrow> u8 list \<Rightarrow> nat \<Rightarrow> nat \<Rightarrow> u8 list option" where
  "serializar_Read_Pedido A path off size' =
     (let offRead = off mod 2 ^ 32;
          n = word_of_nat (length path + 1 + 4 + sizeof_size_t A) in
      do { p \<leftarrow> arma_payload n
                  [path @ [0], bytes_le 4 offRead, bytes_le (sizeof_size_t A) size'];
           serializar_Nipc \<lparr>tipo = TIPOREAD, payloadLength = n, payload = p\<rparr> })"

definition serializar_Write_Pedido ::
  "abi \<Rightarrow> u8 list \<Rightarrow> nat \<Rightarrow> u8 list \<Rightarrow> nat \<Rightarrow> u8 list option" where
  "serializar_Write_Pedido A path size' buf off =
     (let offWrite = off mod 2 ^ 32;
          n = word_of_nat (length path + 1 + 4 + sizeof_size_t A + size') in
      do { b \<leftarrow> lee buf 0 size';
           p \<leftarrow> arma_payload n
                  [path @ [0], bytes_le (sizeof_size_t A) size', b, bytes_le 4 offWrite];
           serializar_Nipc \<lparr>tipo = TIPOWRITE, payloadLength = n, payload = p\<rparr> })"

definition serializar_Truncate_Pedido :: "abi \<Rightarrow> u8 list \<Rightarrow> nat \<Rightarrow> u8 list option" where
  "serializar_Truncate_Pedido A path off =
     (let n = word_of_nat (length path + 1 + sizeof_off_t A) in
      do { p \<leftarrow> arma_payload n [path @ [0], bytes_le (sizeof_off_t A) off];
           serializar_Nipc \<lparr>tipo = TIPOTRUNCATE, payloadLength = n, payload = p\<rparr> })"

subsection \<open>The client: responses\<close>

definition deserializar_Readdir_Rta :: "u16 \<Rightarrow> u8 list \<Rightarrow> DesReadDir_resp option" where
  "deserializar_Readdir_Rta n paquete =
     do { l \<leftarrow> lee paquete 0 (unat n); Some \<lparr>tamano = n, lista_nombres = l\<rparr> }"

definition deserializar_Read_Rta :: "u16 \<Rightarrow> u8 list \<Rightarrow> u8 list option" where
  "deserializar_Read_Rta lectura paquete = lee paquete 0 (unat lectura)"

definition deserializar_Write_Rta :: "u8 list \<Rightarrow> int option" where
  "deserializar_Write_Rta paquete = do { b \<leftarrow> lee paquete 0 4; Some (sint (dec32 b)) }"

definition deserializar_Result_Rta :: "u8 list \<Rightarrow> int option" where
  "deserializar_Result_Rta paquete = do { b \<leftarrow> lee paquete 0 4; Some (sint (dec32 b)) }"

definition deserializar_Gettattr_Rta :: "abi \<Rightarrow> u8 list \<Rightarrow> DesAttr_resp option" where
  "deserializar_Gettattr_Rta A paquete =
     do { m \<leftarrow> lee paquete 0 (sizeof_mode_t A);
          l \<leftarrow> lee paquete (sizeof_mode_t A) (sizeof_nlink_t A);
          s \<leftarrow> lee paquete (sizeof_mode_t A + sizeof_nlink_t A) 4;
          Some \<lparr>modo = val_le m, nlink = val_le l, total_size = val_le s\<rparr> }"

text \<open>The loop of \<^verbatim>\<open>fsc_readdir\<close> that hands the names to \<^verbatim>\<open>filler\<close>, in order.\<close>

function readdir_filler_loop :: "u8 list \<Rightarrow> nat \<Rightarrow> u8 list list option" where
  "readdir_filler_loop lista off =
     (if off < length lista
      then let tam_dir = unat (lista ! off) in
           do { mandar \<leftarrow> lee lista (off + 1) tam_dir;
                rest \<leftarrow> readdir_filler_loop lista (off + 1 + tam_dir);
                Some (mandar # rest) }
      else Some [])"
  by pat_completeness auto
termination
  by (relation "measure (\<lambda>(lista, off). length lista - off)") auto

declare readdir_filler_loop.simps [simp del]

subsection \<open>The server: requests\<close>

text \<open>\<open>for(tam_path = 1; *p != '\\0'; tam_path++) p++;\<close>\<close>

primrec tam_path_loop :: "u8 list \<Rightarrow> nat \<Rightarrow> nat option" where
  "tam_path_loop [] n = None"
| "tam_path_loop (b # bs) n = (if b \<noteq> 0 then tam_path_loop bs (n + 1) else Some n)"

definition deserializar_Read_Pedido :: "abi \<Rightarrow> u8 list \<Rightarrow> Desread option" where
  "deserializar_Read_Pedido A pl =
     do { tam_path \<leftarrow> tam_path_loop pl 1;
          p \<leftarrow> lee pl 0 tam_path;
          o' \<leftarrow> lee pl tam_path (sizeof_off_t A);
          s \<leftarrow> lee pl (tam_path + sizeof_off_t A) (sizeof_size_t A);
          Some \<lparr>dr_path = butlast p, dr_offset = val_le o', dr_size = val_le s\<rparr> }"

text \<open>
  The write request copies four bytes into the \<open>off_t\<close>; a wider \<open>off_t\<close> keeps
  indeterminate upper bytes.
\<close>

definition deserializar_Write_Pedido :: "abi \<Rightarrow> u8 list \<Rightarrow> Deswrite option" where
  "deserializar_Write_Pedido A pl =
     do { tam_path \<leftarrow> tam_path_loop pl 1;
          p \<leftarrow> lee pl 0 tam_path;
          s \<leftarrow> lee pl tam_path (sizeof_size_t A);
          b \<leftarrow> lee pl (tam_path + sizeof_size_t A) (val_le s);
          o' \<leftarrow> lee pl ((tam_path + sizeof_size_t A + val_le s) mod 65536) 4;
          if sizeof_off_t A = 4
          then Some \<lparr>dw_path = butlast p, dw_size = val_le s, dw_buf = b, dw_offset = val_le o'\<rparr>
          else None }"

definition deserializar_Truncate_Pedido :: "abi \<Rightarrow> u8 list \<Rightarrow> Destrunc option" where
  "deserializar_Truncate_Pedido A pl =
     do { tam_path \<leftarrow> tam_path_loop pl 1;
          p \<leftarrow> lee pl 0 tam_path;
          o' \<leftarrow> lee pl tam_path (sizeof_off_t A);
          Some \<lparr>dt_path = butlast p, dt_offset = val_le o'\<rparr> }"

subsection \<open>The server: responses\<close>

definition serializar_error :: "u8 list" where
  "serializar_error = enc8 0 @ enc16 0"

definition serializar_Gettattr_Rta :: "abi \<Rightarrow> nat \<Rightarrow> nat \<Rightarrow> nat \<Rightarrow> u8 list option" where
  "serializar_Gettattr_Rta A m links tot =
     (let n = word_of_nat (sizeof_mode_t A + sizeof_nlink_t A + sizeof_off_t A) in
      do { p \<leftarrow> arma_payload n [bytes_le (sizeof_mode_t A) m, bytes_le (sizeof_nlink_t A) links,
                                bytes_le (sizeof_off_t A) tot];
           serializar_Nipc \<lparr>tipo = TIPOGETATTR, payloadLength = n, payload = p\<rparr> })"

definition serializar_Read_Rta :: "u16 \<Rightarrow> u8 list \<Rightarrow> u8 list option" where
  "serializar_Read_Rta size' buf =
     do { p \<leftarrow> lee buf 0 (unat size');
          serializar_Nipc \<lparr>tipo = TIPOREAD, payloadLength = size', payload = p\<rparr> }"

definition serializar_Write_Rta :: "int \<Rightarrow> u8 list option" where
  "serializar_Write_Rta bytes_escritos =
     serializar_Nipc \<lparr>tipo = TIPOWRITE, payloadLength = 4,
                      payload = enc32 (word_of_int bytes_escritos)\<rparr>"

definition serializar_Result_Rta :: "int \<Rightarrow> u8 \<Rightarrow> u8 list option" where
  "serializar_Result_Rta rta t =
     serializar_Nipc \<lparr>tipo = t, payloadLength = 4, payload = enc32 (word_of_int rta)\<rparr>"

text \<open>
  The length of each name is sent in one byte, as \<open>strlen + 1\<close> truncated to eight bits.
\<close>

primrec readdir_partes :: "u8 list list \<Rightarrow> u8 list list option" where
  "readdir_partes [] = Some []"
| "readdir_partes (name # names) =
     (let size' = (word_of_nat (length name + 1) :: u8) in
      do { p \<leftarrow> lee (name @ [0]) 0 (unat size');
           r \<leftarrow> readdir_partes names;
           Some ([enc8 size', p] @ r) })"

definition serializar_readdir_Rta :: "u8 list list \<Rightarrow> (u16 \<times> u8 list) option" where
  "serializar_readdir_Rta lista =
     (let n = word_of_nat (sum_list (map (\<lambda>name. length name + 1 + 1) lista)) in
      do { partes \<leftarrow> readdir_partes lista;
           p \<leftarrow> arma_payload n partes;
           pkt \<leftarrow> serializar_Nipc \<lparr>tipo = TIPOREADDIR, payloadLength = n, payload = p\<rparr>;
           Some (n, pkt) })"

text \<open>
  What the receiving side does with a packet before it looks at the payload: three header
  bytes, then as many bytes as the header announces (\<^verbatim>\<open>sockets_recvHeaderNipc\<close>,
  \<^verbatim>\<open>sockets_recvPayloadNipc\<close>).
\<close>

definition recv_Nipc :: "u8 list \<Rightarrow> (Nipc \<times> u8 list) option" where
  "recv_Nipc stream =
     do { h \<leftarrow> lee stream 0 3;
          let n = dec16 (drop 1 h);
          p \<leftarrow> lee stream 3 (unat n);
          Some (\<lparr>tipo = dec8 (take 1 h), payloadLength = n, payload = p\<rparr>,
                drop (3 + unat n) stream) }"

section \<open>Framing\<close>

lemma lee_0: "n \<le> length bs \<Longrightarrow> lee bs 0 n = Some (take n bs)"
  by (simp add: lee_def)

lemma lee_all [simp]: "lee bs 0 (length bs) = Some bs"
  by (simp add: lee_def)

lemma lee_prefix: "length xs = n \<Longrightarrow> lee (xs @ ys) 0 n = Some xs"
  by (simp add: lee_def)

lemma lee_middle: "length xs = k \<Longrightarrow> length ys = n \<Longrightarrow> lee (xs @ ys @ zs) k n = Some ys"
  by (simp add: lee_def)

lemma lee_shift: "k \<le> off \<Longrightarrow> length xs = k \<Longrightarrow> lee (xs @ ys) off n = lee ys (off - k) n"
  by (auto simp: lee_def)

lemma unat_word16: "n < 65536 \<Longrightarrow> unat (word_of_nat n :: u16) = n"
  by (simp add: unat_of_nat)

lemma arma_payload_Some:
  "length (concat ps) < 65536 \<Longrightarrow> n = length (concat ps) \<Longrightarrow>
   arma_payload (word_of_nat n) ps = Some (concat ps)"
  by (simp add: arma_payload_def unat_word16)

lemma arma_payload_None:
  assumes "65536 \<le> length (concat ps)" and "n = length (concat ps)"
  shows "arma_payload (word_of_nat n) ps = None"
proof -
  have "unat (word_of_nat n :: u16) < 65536" by (rule unat_u16_lt)
  then have "length (concat ps) \<noteq> unat (word_of_nat n :: u16)" using assms(1) by linarith
  then show ?thesis by (simp add: arma_payload_def)
qed

lemma recv_serializar_Nipc:
  assumes "length p = unat n"
  shows "\<exists>pkt. serializar_Nipc \<lparr>tipo = t, payloadLength = n, payload = p\<rparr> = Some pkt
           \<and> length pkt = 3 + length p
           \<and> recv_Nipc (pkt @ rest) = Some (\<lparr>tipo = t, payloadLength = n, payload = p\<rparr>, rest)"
proof -
  let ?pkt = "enc8 t @ enc16 n @ p"
  have h: "lee (?pkt @ rest) 0 3 = Some (enc8 t @ enc16 n)" by (simp add: lee_def)
  have "lee (?pkt @ rest) 3 (unat n) = Some p" using assms by (simp add: lee_def)
  with h assms have "recv_Nipc (?pkt @ rest) = Some (\<lparr>tipo = t, payloadLength = n, payload = p\<rparr>, rest)"
    by (simp add: recv_Nipc_def)
  with assms show ?thesis by (auto simp: serializar_Nipc_def lee_def)
qed

text \<open>
  One rule for every request and response: a payload that fits is sent and received
  unchanged, whatever follows it on the stream.
\<close>

definition transmite :: "u8 list option \<Rightarrow> u8 \<Rightarrow> u8 list \<Rightarrow> bool" where
  "transmite pkt t p \<longleftrightarrow> (\<exists>bs. pkt = Some bs \<and> length bs = 3 + length p \<and>
     (\<forall>rest. recv_Nipc (bs @ rest) =
        Some (\<lparr>tipo = t, payloadLength = word_of_nat (length p), payload = p\<rparr>, rest)))"

lemma transmite_arma:
  assumes "length (concat ps) < 65536" and "n = length (concat ps)"
  shows "transmite (do { p \<leftarrow> arma_payload (word_of_nat n) ps;
           serializar_Nipc \<lparr>tipo = t, payloadLength = word_of_nat n, payload = p\<rparr> }) t (concat ps)"
proof -
  have l: "length (concat ps) = unat (word_of_nat n :: u16)" using assms by (simp add: unat_word16)
  obtain pkt where pkt: "serializar_Nipc \<lparr>tipo = t, payloadLength = word_of_nat n, payload = concat ps\<rparr>
      = Some pkt" using recv_serializar_Nipc [OF l, of t "[]"] by blast
  have "length pkt = 3 + length (concat ps) \<and> recv_Nipc (pkt @ rest) =
      Some (\<lparr>tipo = t, payloadLength = word_of_nat n, payload = concat ps\<rparr>, rest)" for rest
    using recv_serializar_Nipc [OF l, of t rest] pkt by auto
  with pkt show ?thesis
    using arma_payload_Some [OF assms] assms(2) by (auto simp: transmite_def)
qed

lemma tam_path_loop_cstr:
  "0 \<notin> set path \<Longrightarrow> tam_path_loop (path @ 0 # rest) n = Some (n + length path)"
  by (induction path arbitrary: n) auto

section \<open>Round trips of the requests\<close>

lemma transmite_Read_Pedido:
  assumes "length path + 5 + sizeof_size_t A < 65536"
  shows "transmite (serializar_Read_Pedido A path off sz) TIPOREAD
           (path @ [0] @ bytes_le 4 off @ bytes_le (sizeof_size_t A) sz)"
proof -
  have b: "bytes_le 4 (off mod 2 ^ 32) = bytes_le 4 off"
    using bytes_val_le' [of "bytes_le 4 off" 4] by (simp add: val_bytes_le del: bytes_le.simps)
  show ?thesis
    using transmite_arma [of "[path @ [0], bytes_le 4 off, bytes_le (sizeof_size_t A) sz]"
        "length path + 1 + 4 + sizeof_size_t A" TIPOREAD] assms
    unfolding serializar_Read_Pedido_def Let_def b by (simp add: add.assoc)
qed

lemma deserializar_Read_layout:
  assumes "0 \<notin> set path" and "length o' = sizeof_off_t A" and "length s = sizeof_size_t A"
  shows "deserializar_Read_Pedido A (path @ [0] @ o' @ s @ rest) =
           Some \<lparr>dr_path = path, dr_offset = val_le o', dr_size = val_le s\<rparr>"
proof -
  let ?pl = "path @ [0] @ o' @ s @ rest"
  have "tam_path_loop ?pl 1 = Some (1 + length path)" using assms(1) by (simp add: tam_path_loop_cstr)
  moreover have "lee ?pl 0 (1 + length path) = Some (path @ [0])" by (simp add: lee_def)
  moreover have "lee ?pl (1 + length path) (sizeof_off_t A) = Some o'"
    using assms(2) by (simp add: lee_def)
  moreover have "lee ?pl (1 + length path + sizeof_off_t A) (sizeof_size_t A) = Some s"
    using assms(2,3) by (simp add: lee_def)
  ultimately show ?thesis by (simp add: deserializar_Read_Pedido_def)
qed

lemma transmite_Write_Pedido:
  assumes "length path + 5 + sizeof_size_t A + length buf < 65536"
  shows "transmite (serializar_Write_Pedido A path (length buf) buf off) TIPOWRITE
           (path @ [0] @ bytes_le (sizeof_size_t A) (length buf) @ buf @ bytes_le 4 off)"
proof -
  have b: "bytes_le 4 (off mod 2 ^ 32) = bytes_le 4 off"
    using bytes_val_le' [of "bytes_le 4 off" 4] by (simp add: val_bytes_le del: bytes_le.simps)
  show ?thesis
    using transmite_arma [of "[path @ [0], bytes_le (sizeof_size_t A) (length buf), buf, bytes_le 4 off]"
        "length path + 1 + 4 + sizeof_size_t A + length buf" TIPOWRITE] assms
    unfolding serializar_Write_Pedido_def Let_def b lee_all by (simp add: add.assoc)
qed

lemma deserializar_Write_layout:
  assumes "0 \<notin> set path" and "length s = sizeof_size_t A" and "val_le s = length buf"
    and "length o' = 4" and "sizeof_off_t A = 4"
    and "length path + 1 + sizeof_size_t A + length buf < 65536"
  shows "deserializar_Write_Pedido A (path @ [0] @ s @ buf @ o') =
           Some \<lparr>dw_path = path, dw_size = length buf, dw_buf = buf, dw_offset = val_le o'\<rparr>"
proof -
  let ?pl = "path @ [0] @ s @ buf @ o'"
  have "tam_path_loop ?pl 1 = Some (1 + length path)" using assms(1) by (simp add: tam_path_loop_cstr)
  moreover have "lee ?pl 0 (1 + length path) = Some (path @ [0])" by (simp add: lee_def)
  moreover have "lee ?pl (1 + length path) (sizeof_size_t A) = Some s"
    using assms(2) by (simp add: lee_def)
  moreover have "lee ?pl (1 + length path + sizeof_size_t A) (val_le s) = Some buf"
    using assms(2,3) by (simp add: lee_def)
  moreover have "lee ?pl ((1 + length path + sizeof_size_t A + val_le s) mod 65536) 4 = Some o'"
    using assms by (simp add: lee_def)
  ultimately show ?thesis using assms(3,5) by (simp add: deserializar_Write_Pedido_def)
qed

lemma deserializar_Truncate_layout:
  assumes "0 \<notin> set path" and "length o' = sizeof_off_t A"
  shows "deserializar_Truncate_Pedido A (path @ [0] @ o' @ rest) =
           Some \<lparr>dt_path = path, dt_offset = val_le o'\<rparr>"
proof -
  let ?pl = "path @ [0] @ o' @ rest"
  have "tam_path_loop ?pl 1 = Some (1 + length path)" using assms(1) by (simp add: tam_path_loop_cstr)
  moreover have "lee ?pl 0 (1 + length path) = Some (path @ [0])" by (simp add: lee_def)
  moreover have "lee ?pl (1 + length path) (sizeof_off_t A) = Some o'"
    using assms(2) by (simp add: lee_def)
  ultimately show ?thesis by (simp add: deserializar_Truncate_Pedido_def)
qed

lemma bytes_le_split: "bytes_le (m + n) v = bytes_le m v @ bytes_le n (v div 256 ^ m)"
  by (induction m arbitrary: v) (auto simp: div_mult2_eq)

section \<open>Round trips of the responses\<close>

definition codifica_nombre :: "u8 list \<Rightarrow> u8 list" where
  "codifica_nombre name = enc8 (word_of_nat (length name + 1)) @ name @ [0]"

lemma length_codifica_nombre [simp]: "length (codifica_nombre name) = length name + 2"
  by (simp add: codifica_nombre_def)

lemma unat_u8_Suc: "n < 255 \<Longrightarrow> unat (1 + word_of_nat n :: u8) = Suc n"
proof -
  assume "n < 255"
  then have "unat (word_of_nat (Suc n) :: u8) = Suc n" by (subst unat_of_nat) simp
  then show ?thesis by simp
qed

lemma readdir_partes_ok:
  "\<forall>n \<in> set names. length n < 255 \<Longrightarrow>
   \<exists>ps. readdir_partes names = Some ps \<and> concat ps = concat (map codifica_nombre names)"
proof (induction names)
  case (Cons n names)
  then have "unat (word_of_nat (length n + 1) :: u8) = length n + 1" by (simp add: unat_u8_Suc)
  then have "lee (n @ [0]) 0 (unat (word_of_nat (length n + 1) :: u8)) = Some (n @ [0])"
    by (simp add: lee_def)
  with Cons show ?case by (auto simp: codifica_nombre_def)
qed simp

lemma filler_loop_nombres:
  assumes "\<forall>n \<in> set names. length n < 255"
  shows "readdir_filler_loop (pre @ concat (map codifica_nombre names)) (length pre) =
           Some (map (\<lambda>n. n @ [0]) names)"
  using assms
proof (induction names arbitrary: pre)
  case Nil
  then show ?case by (simp add: readdir_filler_loop.simps)
next
  case (Cons n names)
  let ?c = "concat (map codifica_nombre names)"
  let ?l = "pre @ codifica_nombre n @ ?c"
  have tam: "unat (?l ! length pre) = length n + 1"
    using Cons.prems by (simp add: codifica_nombre_def enc8_def nth_append unat_u8_Suc)
  have lec: "lee ?l (length pre + 1) (length n + 1) = Some (n @ [0])"
    by (simp add: lee_def codifica_nombre_def)
  have ih: "readdir_filler_loop ?l (length pre + 1 + (length n + 1)) = Some (map (\<lambda>n. n @ [0]) names)"
    using Cons.IH [of "pre @ codifica_nombre n"] Cons.prems by (simp add: add.assoc)
  have "readdir_filler_loop ?l (length pre) = Some ((n @ [0]) # map (\<lambda>n. n @ [0]) names)"
    by (subst readdir_filler_loop.simps) (simp only: tam lec ih Let_def, simp)
  then show ?case by simp
qed

lemma length_nombres:
  "length (concat (map codifica_nombre names)) = sum_list (map (\<lambda>n. length n + 1 + 1) names)"
  by (induction names) auto

section \<open>Properties\<close>

text \<open>
  A read request survives the wire: whatever follows on the stream, the server receives
  the type, the path, the offset and the size the client sent, provided the server's
  \<open>off_t\<close> has the four bytes the client writes for it and both ends agree on \<open>size_t\<close>.
\<close>

lemma Read_Pedido_roundtrip:
  assumes "0 \<notin> set path" and "sizeof_size_t C = sizeof_size_t S" and "sizeof_off_t S = 4"
    and "length path + 5 + sizeof_size_t C < 65536"
    and "off < 2 ^ 32" and "sz < 256 ^ sizeof_size_t C"
  shows "\<exists>pkt n pl. serializar_Read_Pedido C path off sz = Some pkt
           \<and> recv_Nipc (pkt @ rest) = Some (\<lparr>tipo = TIPOREAD, payloadLength = n, payload = pl\<rparr>, rest)
           \<and> deserializar_Read_Pedido S pl = Some \<lparr>dr_path = path, dr_offset = off, dr_size = sz\<rparr>"
proof -
  let ?pl = "path @ [0] @ bytes_le 4 off @ bytes_le (sizeof_size_t C) sz"
  have "deserializar_Read_Pedido S (?pl @ []) = Some \<lparr>dr_path = path, dr_offset = off, dr_size = sz\<rparr>"
    using deserializar_Read_layout [OF assms(1), of "bytes_le 4 off" S "bytes_le (sizeof_size_t C) sz" "[]"] assms
    by (simp add: val_bytes_le)
  with transmite_Read_Pedido [OF assms(4), of off sz] show ?thesis
    unfolding transmite_def by (metis append_Nil2)
qed

lemma Read_Pedido_roundtrip_ej:
  "\<exists>pkt n pl. serializar_Read_Pedido ilp32_client [47, 97] 8192 4096 = Some pkt
     \<and> recv_Nipc (pkt @ [1, 2]) = Some (\<lparr>tipo = TIPOREAD, payloadLength = n, payload = pl\<rparr>, [1, 2])
     \<and> deserializar_Read_Pedido ilp32_server pl
         = Some \<lparr>dr_path = [47, 97], dr_offset = 8192, dr_size = 4096\<rparr>"
  by (rule Read_Pedido_roundtrip) (simp_all add: ilp32_client_def ilp32_server_def)

text \<open>
  The read request is not portable: when both ends are built with an \<open>off_t\<close> of eight
  bytes the client still writes four, and the server runs past the end of every read
  request it receives.
\<close>

lemma Read_Pedido_lp64:
  assumes "0 \<notin> set path" and "length path + 13 < 65536"
  shows "\<exists>pkt n pl. serializar_Read_Pedido lp64 path off sz = Some pkt
           \<and> recv_Nipc pkt = Some (\<lparr>tipo = TIPOREAD, payloadLength = n, payload = pl\<rparr>, [])
           \<and> deserializar_Read_Pedido lp64 pl = None"
proof -
  let ?pl = "path @ [0] @ bytes_le 4 off @ bytes_le (sizeof_size_t lp64) sz"
  have "lee ?pl (1 + length path + 8) 8 = None" by (simp add: lee_def lp64_def)
  then have "deserializar_Read_Pedido lp64 ?pl = None"
    using assms(1)
    by (auto simp: deserializar_Read_Pedido_def tam_path_loop_cstr lp64_def split: Option.bind_splits)
  moreover have "transmite (serializar_Read_Pedido lp64 path off sz) TIPOREAD ?pl"
    using assms(2) by (intro transmite_Read_Pedido) (simp add: lp64_def)
  ultimately show ?thesis unfolding transmite_def by (metis append_Nil2)
qed

lemma Read_Pedido_lp64_ej:
  "\<exists>pkt n pl. serializar_Read_Pedido lp64 [47] 0 1 = Some pkt
     \<and> recv_Nipc pkt = Some (\<lparr>tipo = TIPOREAD, payloadLength = n, payload = pl\<rparr>, [])
     \<and> deserializar_Read_Pedido lp64 pl = None"
  by (rule Read_Pedido_lp64) simp_all

text \<open>
  C38: a write request survives the wire with its data, and the limit of the packet is
  exact: the client builds it if and only if the payload fits the 16 bit length; a larger
  one is written past the end of the block that was allocated for it.
\<close>

theorem Write_Pedido_roundtrip:
  assumes "0 \<notin> set path" and "sizeof_size_t C = 4" and "sizeof_size_t S = 4" and "sizeof_off_t S = 4"
    and "off < 2 ^ 32"
  shows "if length path + 9 + length buf < 65536
         then \<exists>pkt n pl. serializar_Write_Pedido C path (length buf) buf off = Some pkt
           \<and> recv_Nipc (pkt @ rest) = Some (\<lparr>tipo = TIPOWRITE, payloadLength = n, payload = pl\<rparr>, rest)
           \<and> deserializar_Write_Pedido S pl
               = Some \<lparr>dw_path = path, dw_size = length buf, dw_buf = buf, dw_offset = off\<rparr>
         else serializar_Write_Pedido C path (length buf) buf off = None"
proof (cases "length path + 9 + length buf < 65536")
  case True
  let ?pl = "path @ [0] @ bytes_le 4 (length buf) @ buf @ bytes_le 4 off"
  have "deserializar_Write_Pedido S ?pl
      = Some \<lparr>dw_path = path, dw_size = length buf, dw_buf = buf, dw_offset = off\<rparr>"
    using deserializar_Write_layout [OF assms(1), of "bytes_le 4 (length buf)" S buf "bytes_le 4 off"] assms True
    by (simp add: val_bytes_le)
  moreover have "transmite (serializar_Write_Pedido C path (length buf) buf off) TIPOWRITE ?pl"
    using transmite_Write_Pedido [of path C buf off] assms True by simp
  ultimately show ?thesis using True unfolding transmite_def by auto
next
  case False
  then have "arma_payload (word_of_nat (length path + 1 + 4 + 4 + length buf))
      [path @ [0], bytes_le 4 (length buf), buf, bytes_le 4 (off mod 2 ^ 32)] = None"
    by (intro arma_payload_None) simp_all
  with False assms(2) show ?thesis unfolding serializar_Write_Pedido_def Let_def lee_all by simp
qed

theorem Write_Pedido_roundtrip_witness:
  "\<exists>pkt n pl. serializar_Write_Pedido ilp32_client [47, 97] 2 [104, 105] 7 = Some pkt
     \<and> recv_Nipc (pkt @ []) = Some (\<lparr>tipo = TIPOWRITE, payloadLength = n, payload = pl\<rparr>, [])
     \<and> deserializar_Write_Pedido ilp32_server pl
         = Some \<lparr>dw_path = [47, 97], dw_size = 2, dw_buf = [104, 105], dw_offset = 7\<rparr>"
  using Write_Pedido_roundtrip [of "[47, 97]" ilp32_client ilp32_server 7 "[104, 105]" "[]"]
  by (simp add: ilp32_client_def ilp32_server_def numeral_2_eq_2 [symmetric])

text \<open>
  A truncate request survives the wire although the client writes its eight byte
  \<open>off_t\<close> and the server reads its own four byte one: the low bytes come first.
\<close>

lemma Truncate_Pedido_roundtrip:
  assumes "0 \<notin> set path" and "sizeof_off_t S \<le> sizeof_off_t C"
    and "length path + 1 + sizeof_off_t C < 65536" and "off < 256 ^ sizeof_off_t S"
  shows "\<exists>pkt n pl. serializar_Truncate_Pedido C path off = Some pkt
           \<and> recv_Nipc (pkt @ rest) = Some (\<lparr>tipo = TIPOTRUNCATE, payloadLength = n, payload = pl\<rparr>, rest)
           \<and> deserializar_Truncate_Pedido S pl = Some \<lparr>dt_path = path, dt_offset = off\<rparr>"
proof -
  obtain k where k: "sizeof_off_t C = sizeof_off_t S + k" using assms(2) le_Suc_ex by blast
  let ?pl = "path @ [0] @ bytes_le (sizeof_off_t S) off @ bytes_le k (off div 256 ^ sizeof_off_t S)"
  have "deserializar_Truncate_Pedido S ?pl = Some \<lparr>dt_path = path, dt_offset = off\<rparr>"
    using deserializar_Truncate_layout [OF assms(1), of "bytes_le (sizeof_off_t S) off" S] assms(4)
    by (simp add: val_bytes_le)
  moreover have "transmite (serializar_Truncate_Pedido C path off) TIPOTRUNCATE ?pl"
    using transmite_arma [of "[path @ [0], bytes_le (sizeof_off_t C) off]" _ TIPOTRUNCATE] assms(3)
    unfolding serializar_Truncate_Pedido_def Let_def by (simp add: k bytes_le_split)
  ultimately show ?thesis unfolding transmite_def by metis
qed

lemma Truncate_Pedido_roundtrip_ej:
  "\<exists>pkt n pl. serializar_Truncate_Pedido ilp32_client [47, 97] 70000 = Some pkt
     \<and> recv_Nipc (pkt @ [9]) = Some (\<lparr>tipo = TIPOTRUNCATE, payloadLength = n, payload = pl\<rparr>, [9])
     \<and> deserializar_Truncate_Pedido ilp32_server pl = Some \<lparr>dt_path = [47, 97], dt_offset = 70000\<rparr>"
  by (rule Truncate_Pedido_roundtrip) (simp_all add: ilp32_client_def ilp32_server_def)

text \<open>The answer of a listing, as it is sent and received.\<close>

lemma readdir_Rta_llega:
  assumes "\<forall>n \<in> set names. length n < 255"
    and "sum_list (map (\<lambda>n. length n + 2) names) < 65536"
  obtains n pkt pl where "serializar_readdir_Rta names = Some (n, pkt)" "length pkt = unat n + 3" "length pl = unat n"
    "\<And>rest. recv_Nipc (pkt @ rest) = Some (\<lparr>tipo = TIPOREADDIR, payloadLength = n, payload = pl\<rparr>, rest)"
    "deserializar_Readdir_Rta n pl = Some \<lparr>tamano = n, lista_nombres = pl\<rparr>"
    "readdir_filler_loop pl 0 = Some (map (\<lambda>n. n @ [0]) names)"
proof -
  let ?pl = "concat (map codifica_nombre names)"
  from readdir_partes_ok [OF assms(1)] obtain ps where
    ps: "readdir_partes names = Some ps" "concat ps = ?pl" by blast
  let ?k = "sum_list (map (\<lambda>n. length n + 1 + 1) names)" and ?n = "word_of_nat (length ?pl) :: u16"
  have len: "length ?pl = ?k" by (rule length_nombres)
  have lt: "length (concat ps) < 65536" using assms(2) ps(2) len by simp
  have "transmite (do { p \<leftarrow> arma_payload ?n ps;
      serializar_Nipc \<lparr>tipo = TIPOREADDIR, payloadLength = ?n, payload = p\<rparr> }) TIPOREADDIR ?pl"
    using transmite_arma [OF lt refl, of TIPOREADDIR] unfolding ps(2) .
  then obtain pkt where pkt: "serializar_readdir_Rta names = Some (?n, pkt)" "length pkt = 3 + length ?pl"
    "\<And>rest. recv_Nipc (pkt @ rest) =
       Some (\<lparr>tipo = TIPOREADDIR, payloadLength = ?n, payload = ?pl\<rparr>, rest)"
    unfolding transmite_def serializar_readdir_Rta_def Let_def len [symmetric]
    by (auto simp: ps(1) split: Option.bind_splits)
  have n: "unat ?n = length ?pl" using lt ps(2) by (simp add: unat_word16)
  then have "deserializar_Readdir_Rta ?n ?pl = Some \<lparr>tamano = ?n, lista_nombres = ?pl\<rparr>"
    by (simp add: deserializar_Readdir_Rta_def)
  moreover have "readdir_filler_loop ?pl 0 = Some (map (\<lambda>n. n @ [0]) names)"
    using filler_loop_nombres [OF assms(1), of "[]"] by simp
  ultimately show thesis using that [OF pkt(1) _ _ pkt(3)] pkt(2) n by simp
qed

text \<open>
  C39: a directory listing survives the wire: the client's loop over the payload hands out
  exactly the names the server listed, each with its terminator, in order, when no name
  has more than 254 bytes and the listing fits a packet.
\<close>

theorem readdir_Rta_roundtrip:
  assumes "\<forall>n \<in> set names. length n < 255"
    and "sum_list (map (\<lambda>n. length n + 2) names) < 65536"
  shows "\<exists>n pkt pl r. serializar_readdir_Rta names = Some (n, pkt)
           \<and> recv_Nipc (pkt @ rest) = Some (\<lparr>tipo = TIPOREADDIR, payloadLength = n, payload = pl\<rparr>, rest)
           \<and> deserializar_Readdir_Rta n pl = Some r
           \<and> readdir_filler_loop (lista_nombres r) 0 = Some (map (\<lambda>n. n @ [0]) names)"
  by (rule readdir_Rta_llega [OF assms]) (metis DesReadDir_resp.select_convs(2))

theorem readdir_Rta_roundtrip_witness:
  "\<exists>n pkt pl r. serializar_readdir_Rta [[46], [97, 98]] = Some (n, pkt)
     \<and> recv_Nipc (pkt @ []) = Some (\<lparr>tipo = TIPOREADDIR, payloadLength = n, payload = pl\<rparr>, [])
     \<and> deserializar_Readdir_Rta n pl = Some r
     \<and> readdir_filler_loop (lista_nombres r) 0 = Some [[46, 0], [97, 98, 0]]"
  using readdir_Rta_roundtrip [of "[[46], [97, 98]]" "[]"] by simp

text \<open>
  A directory with an entry of the full 255 bytes cannot be listed: its length byte wraps
  to zero, the name is not copied and the announced payload is never filled.
\<close>

lemma readdir_Rta_nombre_255:
  assumes "length name = 255"
  shows "serializar_readdir_Rta [name] = None"
proof -
  have "(word_of_nat (length name + 1) :: u8) = 0" using assms by (simp only: assms) simp
  then have "readdir_partes [name] = Some [enc8 0, []]" by (simp add: lee_def)
  moreover have "arma_payload (word_of_nat 257) [enc8 0, []] = None"
    by (simp add: arma_payload_def)
  ultimately show ?thesis
    unfolding serializar_readdir_Rta_def Let_def using assms by simp
qed

lemma readdir_Rta_nombre_255_ej:
  "serializar_readdir_Rta [replicate 255 97] = None"
  by (rule readdir_Rta_nombre_255) simp

text \<open>
  The attributes of a file survive the wire when both ends agree on the sizes of
  \<open>mode_t\<close> and \<open>nlink_t\<close> and the server's \<open>off_t\<close> holds the four bytes the client reads;
  sizes are cut to 32 bits. Results of writes and of the other operations survive as
  signed values.
\<close>

lemma Gettattr_Result_Rta_roundtrip:
  assumes "sizeof_mode_t C = sizeof_mode_t S" and "sizeof_nlink_t C = sizeof_nlink_t S"
    and "4 \<le> sizeof_off_t S"
    and "sizeof_mode_t S + sizeof_nlink_t S + sizeof_off_t S < 65536"
    and "m < 256 ^ sizeof_mode_t S" and "l < 256 ^ sizeof_nlink_t S"
    and "- (2 ^ 31) \<le> r" and "r < 2 ^ 31"
  shows "(\<exists>pkt n pl. serializar_Gettattr_Rta S m l tot = Some pkt
           \<and> recv_Nipc (pkt @ rest) = Some (\<lparr>tipo = TIPOGETATTR, payloadLength = n, payload = pl\<rparr>, rest)
           \<and> deserializar_Gettattr_Rta C pl = Some \<lparr>modo = m, nlink = l, total_size = tot mod 2 ^ 32\<rparr>)
         \<and> (\<exists>pkt n pl. serializar_Result_Rta r t = Some pkt
           \<and> recv_Nipc (pkt @ rest) = Some (\<lparr>tipo = t, payloadLength = n, payload = pl\<rparr>, rest)
           \<and> deserializar_Result_Rta pl = Some r)"
proof
  obtain k where k: "sizeof_off_t S = 4 + k" using assms(3) le_Suc_ex by blast
  let ?pl = "bytes_le (sizeof_mode_t S) m @ bytes_le (sizeof_nlink_t S) l @ bytes_le 4 tot
    @ bytes_le k (tot div 256 ^ 4)"
  have "transmite (serializar_Gettattr_Rta S m l tot) TIPOGETATTR ?pl"
    using transmite_arma [of "[bytes_le (sizeof_mode_t S) m, bytes_le (sizeof_nlink_t S) l,
        bytes_le (sizeof_off_t S) tot]" _ TIPOGETATTR] assms(4)
    unfolding serializar_Gettattr_Rta_def Let_def
    by (simp add: k bytes_le_split add.assoc del: bytes_le.simps)
  moreover have "deserializar_Gettattr_Rta C ?pl = Some \<lparr>modo = m, nlink = l, total_size = tot mod 2 ^ 32\<rparr>"
    using assms(1,2,5,6)
    by (simp add: deserializar_Gettattr_Rta_def lee_def val_bytes_le del: bytes_le.simps)
  ultimately show "\<exists>pkt n pl. serializar_Gettattr_Rta S m l tot = Some pkt
      \<and> recv_Nipc (pkt @ rest) = Some (\<lparr>tipo = TIPOGETATTR, payloadLength = n, payload = pl\<rparr>, rest)
      \<and> deserializar_Gettattr_Rta C pl = Some \<lparr>modo = m, nlink = l, total_size = tot mod 2 ^ 32\<rparr>"
    unfolding transmite_def by metis
next
  have "sint (word_of_int r :: u32) = r"
    using assms(7,8) by (simp add: signed_of_int [symmetric] sint_sbintrunc' signed_take_bit_int_eq_self)
  then have "deserializar_Result_Rta (enc32 (word_of_int r)) = Some r"
    by (simp add: deserializar_Result_Rta_def lee_def)
  with recv_serializar_Nipc [of "enc32 (word_of_int r)" 4 t rest]
  show "\<exists>pkt n pl. serializar_Result_Rta r t = Some pkt
      \<and> recv_Nipc (pkt @ rest) = Some (\<lparr>tipo = t, payloadLength = n, payload = pl\<rparr>, rest)
      \<and> deserializar_Result_Rta pl = Some r"
    unfolding serializar_Result_Rta_def by auto
qed

lemma Gettattr_Result_Rta_roundtrip_ej:
  "(\<exists>pkt n pl. serializar_Gettattr_Rta ilp32_server 33060 1 5000 = Some pkt
     \<and> recv_Nipc (pkt @ []) = Some (\<lparr>tipo = TIPOGETATTR, payloadLength = n, payload = pl\<rparr>, [])
     \<and> deserializar_Gettattr_Rta ilp32_client pl
         = Some \<lparr>modo = 33060, nlink = 1, total_size = 5000 mod 2 ^ 32\<rparr>)
   \<and> (\<exists>pkt n pl. serializar_Result_Rta (- 28) TIPOCREATE = Some pkt
     \<and> recv_Nipc (pkt @ []) = Some (\<lparr>tipo = TIPOCREATE, payloadLength = n, payload = pl\<rparr>, [])
     \<and> deserializar_Result_Rta pl = Some (- 28))"
  by (rule Gettattr_Result_Rta_roundtrip) (simp_all add: ilp32_client_def ilp32_server_def)

end
