(* ===== verification/Disco.thy ===== *)
theory Disco
  imports Prelude
begin

text \<open>
  The disk image of the server and the structures it holds: \<^verbatim>\<open>rfs/Superblock.c\<close>,
  \<^verbatim>\<open>rfs/Superblock.h\<close>, \<^verbatim>\<open>rfs/Grupos.h\<close> and \<^verbatim>\<open>rfs/Inode.h\<close>. The image is a file of
  \<open>dk_len\<close> bytes opened without buffering (\<^verbatim>\<open>abrirArchivoExt2\<close>); an access is always a
  seek to an absolute offset followed by one read or one write.

  \<^item> \<open>disk_read\<close> is \<open>None\<close> when fewer bytes remain than were asked for: the callers that
    test the result leave the program, the others go on with an uninitialised buffer.
  \<^item> a write past the end extends the image; the bytes skipped read as zero.
  \<^item> the offset of \<^verbatim>\<open>fseek\<close> is a signed 32-bit \<^verbatim>\<open>long\<close>: from two gigabytes on the seek
    fails and the access happens wherever an earlier one left the file position. Both
    operations are \<open>None\<close> there.
\<close>

section \<open>The image\<close>

record disk =
  dk_len :: nat
  dk_byte :: "nat \<Rightarrow> u8"

definition bytes_at :: "disk \<Rightarrow> nat \<Rightarrow> nat \<Rightarrow> u8 list" where
  "bytes_at d p n = map (dk_byte d) [p..<p + n]"

definition disk_read :: "disk \<Rightarrow> u32 \<Rightarrow> nat \<Rightarrow> u8 list option" where
  "disk_read d p n =
     (if unat p < 2 ^ 31 \<and> unat p + n \<le> dk_len d then Some (bytes_at d (unat p) n) else None)"

definition put_bytes :: "disk \<Rightarrow> nat \<Rightarrow> u8 list \<Rightarrow> disk" where
  "put_bytes d p bs =
     (if bs = [] then d
      else \<lparr>dk_len = max (dk_len d) (p + length bs),
            dk_byte = (\<lambda>i. if p \<le> i \<and> i < p + length bs then bs ! (i - p)
                           else if i < dk_len d then dk_byte d i else 0)\<rparr>)"

definition disk_write :: "disk \<Rightarrow> u32 \<Rightarrow> u8 list \<Rightarrow> disk option" where
  "disk_write d p bs = (if unat p < 2 ^ 31 then Some (put_bytes d (unat p) bs) else None)"

lemma length_bytes_at [simp]: "length (bytes_at d p n) = n"
  by (simp add: bytes_at_def)

lemma nth_bytes_at [simp]: "i < n \<Longrightarrow> bytes_at d p n ! i = dk_byte d (p + i)"
  by (simp add: bytes_at_def)

lemma bytes_at_cong:
  assumes "\<And>i. p \<le> i \<Longrightarrow> i < p + n \<Longrightarrow> dk_byte d i = dk_byte e i"
  shows "bytes_at d p n = bytes_at e p n"
  using assms by (auto simp: bytes_at_def)

lemma dk_len_put_bytes [simp]:
  "p + length bs \<le> dk_len d \<Longrightarrow> dk_len (put_bytes d p bs) = dk_len d"
  by (simp add: put_bytes_def)

lemma dk_len_put_bytes_ge [simp]: "dk_len d \<le> dk_len (put_bytes d p bs)"
  by (simp add: put_bytes_def)

lemma dk_byte_put_outside [frame_simps]:
  "i < p \<or> p + length bs \<le> i \<Longrightarrow> i < dk_len d \<Longrightarrow> dk_byte (put_bytes d p bs) i = dk_byte d i"
  by (auto simp: put_bytes_def)

lemma bytes_at_put_same [simp]: "bytes_at (put_bytes d p bs) p (length bs) = bs"
  by (rule nth_equalityI) (auto simp: put_bytes_def)

lemma bytes_at_put_same' [simp]: "n = length bs \<Longrightarrow> bytes_at (put_bytes d p bs) p n = bs"
  by simp

lemma bytes_at_put_disj [frame_simps]:
  assumes "q + n \<le> p \<or> p + length bs \<le> q" and "q + n \<le> dk_len d"
  shows "bytes_at (put_bytes d p bs) q n = bytes_at d q n"
  using assms by (intro bytes_at_cong dk_byte_put_outside) auto

lemma put_bytes_twice:
  "length bs = length cs \<Longrightarrow> p + length bs \<le> dk_len d \<Longrightarrow>
   put_bytes (put_bytes d p bs) p cs = put_bytes d p cs"
  by (auto simp: put_bytes_def fun_eq_iff)

section \<open>The contract of the image\<close>

text \<open>
  What the file system code relies on: bytes written are read back, an access to other
  bytes is not affected, and the image never shrinks.
\<close>

locale almacen =
  fixes rd :: "'d \<Rightarrow> u32 \<Rightarrow> nat \<Rightarrow> u8 list option"
    and wr :: "'d \<Rightarrow> u32 \<Rightarrow> u8 list \<Rightarrow> 'd option"
  assumes rd_length: "rd d p n = Some bs \<Longrightarrow> length bs = n"
    and rd_wr_same: "wr d p bs = Some d' \<Longrightarrow> bs \<noteq> [] \<Longrightarrow> rd d' p (length bs) = Some bs"
    and rd_wr_disj: "wr d p bs = Some d' \<Longrightarrow> rd d q n = Some cs \<Longrightarrow>
          unat q + n \<le> unat p \<or> unat p + length bs \<le> unat q \<Longrightarrow> rd d' q n = Some cs"
begin

text \<open>Two writes to disjoint places are both visible afterwards.\<close>

lemma rd_wr_wr:
  assumes "wr d p bs = Some d1" "wr d1 q cs = Some d2" "bs \<noteq> []" "cs \<noteq> []"
    and "unat q + length cs \<le> unat p \<or> unat p + length bs \<le> unat q"
  shows "rd d2 p (length bs) = Some bs \<and> rd d2 q (length cs) = Some cs"
  using rd_wr_same [OF assms(1,3)] rd_wr_same [OF assms(2,4)] rd_wr_disj [OF assms(2)] assms(5)
  by blast

end

interpretation dk: almacen disk_read disk_write
proof unfold_locales
  fix d d' :: disk and p q :: u32 and bs cs :: "u8 list" and n
  show "disk_read d p n = Some bs \<Longrightarrow> length bs = n"
    by (auto simp: disk_read_def split: if_splits)
  show "disk_write d p bs = Some d' \<Longrightarrow> bs \<noteq> [] \<Longrightarrow> disk_read d' p (length bs) = Some bs"
    by (auto simp: disk_read_def disk_write_def put_bytes_def split: if_splits
        intro!: nth_equalityI)
  assume "disk_write d p bs = Some d'" "disk_read d q n = Some cs"
    "unat q + n \<le> unat p \<or> unat p + length bs \<le> unat q"
  then show "disk_read d' q n = Some cs"
    by (auto simp: disk_read_def disk_write_def frame_simps split: if_splits
        intro: le_trans [OF _ dk_len_put_bytes_ge])
qed

section \<open>Structures on the disk\<close>

text \<open>
  The structs of the headers have no padding on the target, so a \<^verbatim>\<open>fread\<close> into one is the
  decoding of its fields at consecutive offsets.
\<close>

definition campo16 :: "nat \<Rightarrow> u8 list \<Rightarrow> u16" where
  "campo16 off bs = dec16 (take 2 (drop off bs))"

definition campo32 :: "nat \<Rightarrow> u8 list \<Rightarrow> u32" where
  "campo32 off bs = dec32 (take 4 (drop off bs))"

lemma campo_enc [codec_simps]:
  "campo16 0 (enc16 x @ r) = x" "campo32 0 (enc32 y @ r) = y"
  "campo16 0 (enc16 x) = x" "campo32 0 (enc32 y) = y"
  by (simp_all add: campo16_def campo32_def)

lemma campo_skip [codec_simps]:
  "2 \<le> off \<Longrightarrow> campo16 off (enc16 x @ r) = campo16 (off - 2) r"
  "2 \<le> off \<Longrightarrow> campo32 off (enc16 x @ r) = campo32 (off - 2) r"
  "4 \<le> off \<Longrightarrow> campo16 off (enc32 y @ r) = campo16 (off - 4) r"
  "4 \<le> off \<Longrightarrow> campo32 off (enc32 y @ r) = campo32 (off - 4) r"
  by (simp_all add: campo16_def campo32_def)

text \<open>The contract of a struct: constant size, and decoding what was encoded.\<close>

locale estructura = almacen rd wr
  for rd :: "'d \<Rightarrow> u32 \<Rightarrow> nat \<Rightarrow> u8 list option"
    and wr :: "'d \<Rightarrow> u32 \<Rightarrow> u8 list \<Rightarrow> 'd option" +
  fixes enc :: "'a \<Rightarrow> u8 list"
    and dec :: "u8 list \<Rightarrow> 'a"
    and width :: nat
    and ok :: "'a \<Rightarrow> bool"
  assumes width_pos: "0 < width"
    and enc_width: "ok x \<Longrightarrow> length (enc x) = width"
    and dec_enc: "ok x \<Longrightarrow> dec (enc x) = x"
    and dec_ok: "ok (dec bs)"
begin

lemma leer_escrito:
  assumes "wr d p (enc x) = Some d'" "ok x"
  shows "map_option dec (rd d' p width) = Some x"
proof -
  have "enc x \<noteq> []" using enc_width [OF assms(2)] width_pos by auto
  then show ?thesis
    using rd_wr_same [OF assms(1)] enc_width [OF assms(2)] dec_enc [OF assms(2)] by simp
qed

lemma leer_otro:
  assumes "wr d p (enc x) = Some d'" "ok x" "rd d q width = Some bs"
    and "unat q + width \<le> unat p \<or> unat p + width \<le> unat q"
  shows "rd d' q width = Some bs"
  using rd_wr_disj [OF assms(1,3)] assms(4) enc_width [OF assms(2)] by simp

end

subsection \<open>The superblock\<close>

record Superblock =
  s_inodes_count :: u32
  s_blocks_count :: u32
  s_r_blocks_count :: u32
  s_free_blocks_count :: u32
  s_free_inodes_count :: u32
  s_first_data_block :: u32
  s_log_block_size :: u32
  s_log_frag_size :: u32
  s_blocks_per_group :: u32
  s_frags_per_group :: u32
  s_inodes_per_group :: u32
  s_mtime :: u32
  s_wtime :: u32
  s_mnt_count :: u16
  s_max_mnt_count :: u16
  s_magic :: u16
  s_state :: u16
  s_errors :: u16
  s_minor_rev_level :: u16
  s_lastcheck :: u32
  s_checkinterval :: u32
  s_creator_os :: u32
  s_rev_level :: u32
  s_def_resuid :: u16
  s_def_resgid :: u16

definition enc_Superblock :: "Superblock \<Rightarrow> u8 list" where
  "enc_Superblock x =
     enc32 (s_inodes_count x) @ enc32 (s_blocks_count x) @ enc32 (s_r_blocks_count x) @
     enc32 (s_free_blocks_count x) @ enc32 (s_free_inodes_count x) @ enc32 (s_first_data_block x) @
     enc32 (s_log_block_size x) @ enc32 (s_log_frag_size x) @ enc32 (s_blocks_per_group x) @
     enc32 (s_frags_per_group x) @ enc32 (s_inodes_per_group x) @ enc32 (s_mtime x) @
     enc32 (s_wtime x) @ enc16 (s_mnt_count x) @ enc16 (s_max_mnt_count x) @
     enc16 (s_magic x) @ enc16 (s_state x) @ enc16 (s_errors x) @
     enc16 (s_minor_rev_level x) @ enc32 (s_lastcheck x) @ enc32 (s_checkinterval x) @
     enc32 (s_creator_os x) @ enc32 (s_rev_level x) @ enc16 (s_def_resuid x) @
     enc16 (s_def_resgid x)"

definition dec_Superblock :: "u8 list \<Rightarrow> Superblock" where
  "dec_Superblock bs =
     \<lparr>s_inodes_count = campo32 0 bs, s_blocks_count = campo32 4 bs,
      s_r_blocks_count = campo32 8 bs, s_free_blocks_count = campo32 12 bs,
      s_free_inodes_count = campo32 16 bs, s_first_data_block = campo32 20 bs,
      s_log_block_size = campo32 24 bs, s_log_frag_size = campo32 28 bs,
      s_blocks_per_group = campo32 32 bs, s_frags_per_group = campo32 36 bs,
      s_inodes_per_group = campo32 40 bs, s_mtime = campo32 44 bs,
      s_wtime = campo32 48 bs, s_mnt_count = campo16 52 bs,
      s_max_mnt_count = campo16 54 bs, s_magic = campo16 56 bs,
      s_state = campo16 58 bs, s_errors = campo16 60 bs,
      s_minor_rev_level = campo16 62 bs, s_lastcheck = campo32 64 bs,
      s_checkinterval = campo32 68 bs, s_creator_os = campo32 72 bs,
      s_rev_level = campo32 76 bs, s_def_resuid = campo16 80 bs,
      s_def_resgid = campo16 82 bs\<rparr>"

interpretation sbc: estructura disk_read disk_write enc_Superblock dec_Superblock 84 "\<lambda>_. True"
  by unfold_locales (simp_all add: enc_Superblock_def dec_Superblock_def codec_simps)

definition Superblock_leer :: "disk \<Rightarrow> Superblock option" where
  "Superblock_leer ext2fs = map_option dec_Superblock (disk_read ext2fs 1024 84)"

definition Superblock_escribir :: "disk \<Rightarrow> Superblock \<Rightarrow> disk option" where
  "Superblock_escribir ext2fs sb = disk_write ext2fs 1024 (enc_Superblock sb)"

definition block_size :: "Superblock \<Rightarrow> u32" where
  "block_size sb = push_bit (unat (s_log_block_size sb)) 1024"

subsection \<open>The group descriptors\<close>

record Group_descriptor =
  bg_block_bitmap :: u32
  bg_inode_bitmap :: u32
  bg_inode_table :: u32
  bg_free_blocks_count :: u16
  bg_free_inodes_count :: u16
  bg_used_dirs_count :: u16
  bg_pad :: u16
  bg_reserved1 :: u32
  bg_reserved2 :: u32
  bg_reserved3 :: u32

definition enc_Group_descriptor :: "Group_descriptor \<Rightarrow> u8 list" where
  "enc_Group_descriptor x =
     enc32 (bg_block_bitmap x) @ enc32 (bg_inode_bitmap x) @ enc32 (bg_inode_table x) @
     enc16 (bg_free_blocks_count x) @ enc16 (bg_free_inodes_count x) @ enc16 (bg_used_dirs_count x) @
     enc16 (bg_pad x) @ enc32 (bg_reserved1 x) @ enc32 (bg_reserved2 x) @
     enc32 (bg_reserved3 x)"

definition dec_Group_descriptor :: "u8 list \<Rightarrow> Group_descriptor" where
  "dec_Group_descriptor bs =
     \<lparr>bg_block_bitmap = campo32 0 bs, bg_inode_bitmap = campo32 4 bs,
      bg_inode_table = campo32 8 bs, bg_free_blocks_count = campo16 12 bs,
      bg_free_inodes_count = campo16 14 bs, bg_used_dirs_count = campo16 16 bs,
      bg_pad = campo16 18 bs, bg_reserved1 = campo32 20 bs,
      bg_reserved2 = campo32 24 bs, bg_reserved3 = campo32 28 bs\<rparr>"

interpretation gdc: estructura disk_read disk_write enc_Group_descriptor dec_Group_descriptor 32
  "\<lambda>_. True"
  by unfold_locales (simp_all add: enc_Group_descriptor_def dec_Group_descriptor_def codec_simps)

subsection \<open>The inodes\<close>

record Inode =
  i_mode :: u16
  i_uid :: u16
  i_size :: u32
  i_atime :: u32
  i_ctime :: u32
  i_mtime :: u32
  i_dtime :: u32
  i_gid :: u16
  i_links_count :: u16
  i_blocks :: u32
  i_flags :: u32
  i_osd1 :: u32
  i_block :: "u32 list"  \<comment> \<open>fifteen pointers\<close>
  i_generation :: u32
  i_file_acl :: u32
  i_dir_acl :: u32
  i_faddr :: u32
  i_osd2a :: u32
  i_osd2b :: u32
  i_osd2c :: u32

definition enc_Inode :: "Inode \<Rightarrow> u8 list" where
  "enc_Inode x =
     enc16 (i_mode x) @ enc16 (i_uid x) @ enc32 (i_size x) @
     enc32 (i_atime x) @ enc32 (i_ctime x) @ enc32 (i_mtime x) @
     enc32 (i_dtime x) @ enc16 (i_gid x) @ enc16 (i_links_count x) @
     enc32 (i_blocks x) @ enc32 (i_flags x) @ enc32 (i_osd1 x) @
     concat (map enc32 (i_block x)) @ enc32 (i_generation x) @ enc32 (i_file_acl x) @
     enc32 (i_dir_acl x) @ enc32 (i_faddr x) @ enc32 (i_osd2a x) @
     enc32 (i_osd2b x) @ enc32 (i_osd2c x)"

definition dec_Inode :: "u8 list \<Rightarrow> Inode" where
  "dec_Inode bs =
     \<lparr>i_mode = campo16 0 bs, i_uid = campo16 2 bs,
      i_size = campo32 4 bs, i_atime = campo32 8 bs,
      i_ctime = campo32 12 bs, i_mtime = campo32 16 bs,
      i_dtime = campo32 20 bs, i_gid = campo16 24 bs,
      i_links_count = campo16 26 bs, i_blocks = campo32 28 bs,
      i_flags = campo32 32 bs, i_osd1 = campo32 36 bs,
      i_block = map (\<lambda>k. campo32 (40 + 4 * k) bs) [0..<15], i_generation = campo32 100 bs,
      i_file_acl = campo32 104 bs, i_dir_acl = campo32 108 bs,
      i_faddr = campo32 112 bs, i_osd2a = campo32 116 bs,
      i_osd2b = campo32 120 bs, i_osd2c = campo32 124 bs\<rparr>"

definition inode_ok :: "Inode \<Rightarrow> bool" where
  "inode_ok x \<longleftrightarrow> length (i_block x) = 15"

lemma length_15E:
  assumes "length xs = 15"
  obtains a0 a1 a2 a3 a4 a5 a6 a7 a8 a9 a10 a11 a12 a13 a14
  where "xs = [a0, a1, a2, a3, a4, a5, a6, a7, a8, a9, a10, a11, a12, a13, a14]"
  using assms by (auto simp: numeral_eq_Suc length_Suc_conv)

interpretation inc: estructura disk_read disk_write enc_Inode dec_Inode 128 inode_ok
proof unfold_locales
  fix x assume ok: "inode_ok x"
  then obtain a0 a1 a2 a3 a4 a5 a6 a7 a8 a9 a10 a11 a12 a13 a14 where
    b: "i_block x = [a0, a1, a2, a3, a4, a5, a6, a7, a8, a9, a10, a11, a12, a13, a14]"
    unfolding inode_ok_def by (rule length_15E)
  show "length (enc_Inode x) = 128" by (simp add: enc_Inode_def b)
  show "dec_Inode (enc_Inode x) = x"
    using b by (cases x) (simp add: enc_Inode_def dec_Inode_def codec_simps upt_rec)
qed (simp_all add: inode_ok_def dec_Inode_def)

end
