(* ===== verification/Grupos.thy ===== *)
theory Grupos
  imports Disco Bitarray
begin

text \<open>
  The block groups, \<^verbatim>\<open>rfs/Grupos.c\<close>, and the search for a free inode of \<^verbatim>\<open>rfs/Inode.c\<close>:
  the descriptor table, the bitmaps of blocks and inodes, and the operations that take a
  block or an inode and give it back. The functions run inside the sections protected by
  \<^verbatim>\<open>mt_buscarBloque\<close> and \<^verbatim>\<open>mt_buscarInodo\<close>, so each is one atomic step on the state \<open>fs\<close>: the image,
  the superblock and the descriptor table that all the threads of the server share.

  The section on the abstract view states the invariant \<open>fs_ok\<close> (the counters of the
  descriptors and of the superblock count the clear bits of the bitmaps on the disk) and
  shows that the four operations refine the insertion in and the removal from a set; the
  locale \<open>asignador\<close> is the contract the inode and directory code rely on.
\<close>

section \<open>The descriptor table and the bitmaps\<close>

record fs =
  f_ext2fs :: disk
  f_sb :: Superblock
  f_bgdt :: "Group_descriptor list"

definition cantGrupos :: "Superblock \<Rightarrow> u32 option" where
  "cantGrupos sb =
     (if s_blocks_per_group sb = 0 then None
      else Some (1 + (s_blocks_count sb - s_first_data_block sb) div s_blocks_per_group sb))"

definition Grupos_leerTabla :: "disk \<Rightarrow> Superblock \<Rightarrow> Group_descriptor list option" where
  "Grupos_leerTabla ext2fs sb =
     do { cant \<leftarrow> cantGrupos sb;
          let byteComienzo = block_size sb * (s_first_data_block sb + 1);
          let n = unat (32 * cant);
          if n = 0 then None else do {
          bs \<leftarrow> disk_read ext2fs byteComienzo n;
          Some (map (\<lambda>i. dec_Group_descriptor (take 32 (drop (32 * i) bs))) [0..<n div 32]) } }"

definition Grupos_escribirTabla ::
  "disk \<Rightarrow> Superblock \<Rightarrow> Group_descriptor list \<Rightarrow> disk option" where
  "Grupos_escribirTabla ext2fs sb bgdt =
     do { cant \<leftarrow> cantGrupos sb;
          let byteComienzo = block_size sb * (s_first_data_block sb + 1);
          let n = unat (32 * cant);
          if n = 0 \<or> length bgdt < n div 32 then None
          else disk_write ext2fs byteComienzo (concat (map enc_Group_descriptor (take (n div 32) bgdt))) }"

text \<open>
  The size of a bitmap in bytes. The source divides by eight and then rounds up when the
  quotient, not the number of blocks, leaves a remainder.
\<close>

definition redondeo8 :: "u32 \<Rightarrow> u32" where
  "redondeo8 n = (let tamArray = n div 8 in if tamArray mod 8 > 0 then tamArray + 1 else tamArray)"

definition tam_block_bitmap :: "Superblock \<Rightarrow> u32 \<Rightarrow> u32 option" where
  "tam_block_bitmap sb nroGrupo =
     do { cant \<leftarrow> cantGrupos sb;
          Some (redondeo8
            (if nroGrupo = cant - 1
             then s_blocks_count sb - (cant - 1) * s_blocks_per_group sb
             else s_blocks_per_group sb)) }"

definition Grupos_leerBlockBitmap ::
  "disk \<Rightarrow> u32 \<Rightarrow> Superblock \<Rightarrow> Group_descriptor list \<Rightarrow> t_bitarray option" where
  "Grupos_leerBlockBitmap ext2fs nroGrupo sb tabla =
     do { tamArray \<leftarrow> tam_block_bitmap sb nroGrupo;
          if unat nroGrupo < length tabla then do {
          buf \<leftarrow> disk_read ext2fs (bg_block_bitmap (tabla ! unat nroGrupo) * block_size sb)
                  (unat tamArray);
          Some (bitarray_create buf (unat tamArray)) } else None }"

definition Grupos_escribirBlockBitmap ::
  "disk \<Rightarrow> u32 \<Rightarrow> Superblock \<Rightarrow> Group_descriptor list \<Rightarrow> t_bitarray \<Rightarrow> disk option" where
  "Grupos_escribirBlockBitmap ext2fs nroGrupo sb tabla block_bitmap =
     (if unat nroGrupo < length tabla \<and> tam block_bitmap \<le> length (bitarray block_bitmap)
      then disk_write ext2fs (bg_block_bitmap (tabla ! unat nroGrupo) * block_size sb)
             (take (tam block_bitmap) (bitarray block_bitmap))
      else None)"

definition Grupos_leerInodeBitmap ::
  "disk \<Rightarrow> u32 \<Rightarrow> Superblock \<Rightarrow> Group_descriptor list \<Rightarrow> t_bitarray option" where
  "Grupos_leerInodeBitmap ext2fs nroGrupo sb tabla =
     (let tamArray = redondeo8 (s_inodes_per_group sb) in
      if unat nroGrupo < length tabla then do {
      buf \<leftarrow> disk_read ext2fs (bg_inode_bitmap (tabla ! unat nroGrupo) * block_size sb)
              (unat tamArray);
      Some (bitarray_create buf (unat tamArray)) } else None)"

definition Grupos_escribirInodeBitmap ::
  "disk \<Rightarrow> u32 \<Rightarrow> Superblock \<Rightarrow> Group_descriptor list \<Rightarrow> t_bitarray \<Rightarrow> disk option" where
  "Grupos_escribirInodeBitmap ext2fs nroGrupo sb tabla inode_bitmap =
     (if unat nroGrupo < length tabla \<and> tam inode_bitmap \<le> length (bitarray inode_bitmap)
      then disk_write ext2fs (bg_inode_bitmap (tabla ! unat nroGrupo) * block_size sb)
             (take (tam inode_bitmap) (bitarray inode_bitmap))
      else None)"

section \<open>Taking and giving back blocks\<close>

definition Grupos_liberarBloqueEnBitmap :: "fs \<Rightarrow> u32 \<Rightarrow> fs option" where
  "Grupos_liberarBloqueEnBitmap F nroBloque =
     (let sb = f_sb F; bgdt = f_bgdt F; nroBloque = nroBloque - s_first_data_block sb in
      if s_blocks_per_group sb = 0 then None else
      let nroGrupo = nroBloque div s_blocks_per_group sb in
      do { bm \<leftarrow> Grupos_leerBlockBitmap (f_ext2fs F) nroGrupo sb bgdt;
           bm \<leftarrow> bitarray_clean_bit bm (unat (nroBloque - nroGrupo * s_blocks_per_group sb));
           d \<leftarrow> Grupos_escribirBlockBitmap (f_ext2fs F) nroGrupo sb bgdt bm;
           Some \<lparr>f_ext2fs = d,
                 f_sb = sb\<lparr>s_free_blocks_count := s_free_blocks_count sb + 1\<rparr>,
                 f_bgdt = bgdt[unat nroGrupo := (bgdt ! unat nroGrupo)
                   \<lparr>bg_free_blocks_count := bg_free_blocks_count (bgdt ! unat nroGrupo) + 1\<rparr>]\<rparr> })"

definition Grupos_utilizarBloqueEnBitmap :: "fs \<Rightarrow> u32 \<Rightarrow> fs option" where
  "Grupos_utilizarBloqueEnBitmap F nroBloque =
     (let sb = f_sb F; bgdt = f_bgdt F; nroBloque = nroBloque - s_first_data_block sb in
      if s_blocks_per_group sb = 0 then None else
      let nroGrupo = nroBloque div s_blocks_per_group sb in
      do { bm \<leftarrow> Grupos_leerBlockBitmap (f_ext2fs F) nroGrupo sb bgdt;
           bm \<leftarrow> bitarray_set_bit bm (unat (nroBloque - nroGrupo * s_blocks_per_group sb));
           d \<leftarrow> Grupos_escribirBlockBitmap (f_ext2fs F) nroGrupo sb bgdt bm;
           Some \<lparr>f_ext2fs = d,
                 f_sb = sb\<lparr>s_free_blocks_count := s_free_blocks_count sb - 1\<rparr>,
                 f_bgdt = bgdt[unat nroGrupo := (bgdt ! unat nroGrupo)
                   \<lparr>bg_free_blocks_count := bg_free_blocks_count (bgdt ! unat nroGrupo) - 1\<rparr>]\<rparr> })"

definition Grupos_buscarBloqueLibrePorGrupo ::
  "disk \<Rightarrow> u32 \<Rightarrow> Superblock \<Rightarrow> Group_descriptor list \<Rightarrow> u32 option" where
  "Grupos_buscarBloqueLibrePorGrupo ext2fs nroGrupo sb tabla =
     do { block_bitmap \<leftarrow> Grupos_leerBlockBitmap ext2fs nroGrupo sb tabla;
          bloque \<leftarrow> bitarray_buscarPosicionLibre block_bitmap;
          Some (word_of_int bloque) }"

text \<open>The loop over the groups; \<open>- 1\<close> when no descriptor counts a free block.\<close>

primrec buscarBloqueLibre_loop ::
  "disk \<Rightarrow> Superblock \<Rightarrow> Group_descriptor list \<Rightarrow> nat list \<Rightarrow> u32 option" where
  "buscarBloqueLibre_loop ext2fs sb bgdt [] = Some (- 1)"
| "buscarBloqueLibre_loop ext2fs sb bgdt (nroGrupo # gs) =
     (if length bgdt \<le> nroGrupo then None
      else if bg_free_blocks_count (bgdt ! nroGrupo) \<noteq> 0
      then do { nroBloque \<leftarrow> Grupos_buscarBloqueLibrePorGrupo ext2fs (word_of_nat nroGrupo) sb bgdt;
                Some (word_of_nat nroGrupo * s_blocks_per_group sb + nroBloque
                      + s_first_data_block sb) }
      else buscarBloqueLibre_loop ext2fs sb bgdt gs)"

definition Grupos_buscarBloqueLibre ::
  "disk \<Rightarrow> Superblock \<Rightarrow> Group_descriptor list \<Rightarrow> u32 option" where
  "Grupos_buscarBloqueLibre ext2fs sb bgdt =
     do { cant \<leftarrow> cantGrupos sb; buscarBloqueLibre_loop ext2fs sb bgdt [0..<unat cant] }"

definition Grupos_pedirBloqueLibre :: "fs \<Rightarrow> (u32 \<times> fs) option" where
  "Grupos_pedirBloqueLibre F =
     do { bloqueADevolver \<leftarrow> Grupos_buscarBloqueLibre (f_ext2fs F) (f_sb F) (f_bgdt F);
          F \<leftarrow> Grupos_utilizarBloqueEnBitmap F bloqueADevolver;
          Some (bloqueADevolver, F) }"

section \<open>Taking and giving back inodes\<close>

definition Grupos_liberarInodoEnBitmap :: "fs \<Rightarrow> u32 \<Rightarrow> fs option" where
  "Grupos_liberarInodoEnBitmap F nroInodo =
     (let sb = f_sb F; bgdt = f_bgdt F; nroInodo = nroInodo - 1 in
      if s_inodes_per_group sb = 0 then None else
      let nroGrupo = nroInodo div s_inodes_per_group sb in
      do { bm \<leftarrow> Grupos_leerInodeBitmap (f_ext2fs F) nroGrupo sb bgdt;
           bm \<leftarrow> bitarray_clean_bit bm (unat (nroInodo - nroGrupo * s_inodes_per_group sb));
           d \<leftarrow> Grupos_escribirInodeBitmap (f_ext2fs F) nroGrupo sb bgdt bm;
           Some \<lparr>f_ext2fs = d,
                 f_sb = sb\<lparr>s_free_inodes_count := s_free_inodes_count sb + 1\<rparr>,
                 f_bgdt = bgdt[unat nroGrupo := (bgdt ! unat nroGrupo)
                   \<lparr>bg_free_inodes_count := bg_free_inodes_count (bgdt ! unat nroGrupo) + 1\<rparr>]\<rparr> })"

definition Grupos_utilizarInodoEnBitmap :: "fs \<Rightarrow> u32 \<Rightarrow> fs option" where
  "Grupos_utilizarInodoEnBitmap F nroInodo =
     (let sb = f_sb F; bgdt = f_bgdt F; nroInodo = nroInodo - 1 in
      if s_inodes_per_group sb = 0 then None else
      let nroGrupo = nroInodo div s_inodes_per_group sb in
      do { bm \<leftarrow> Grupos_leerInodeBitmap (f_ext2fs F) nroGrupo sb bgdt;
           bm \<leftarrow> bitarray_set_bit bm (unat (nroInodo - nroGrupo * s_inodes_per_group sb));
           d \<leftarrow> Grupos_escribirInodeBitmap (f_ext2fs F) nroGrupo sb bgdt bm;
           Some \<lparr>f_ext2fs = d,
                 f_sb = sb\<lparr>s_free_inodes_count := s_free_inodes_count sb - 1\<rparr>,
                 f_bgdt = bgdt[unat nroGrupo := (bgdt ! unat nroGrupo)
                   \<lparr>bg_free_inodes_count := bg_free_inodes_count (bgdt ! unat nroGrupo) - 1\<rparr>]\<rparr> })"

definition Inode_buscarLibrePorGrupo ::
  "disk \<Rightarrow> u32 \<Rightarrow> Superblock \<Rightarrow> Group_descriptor list \<Rightarrow> u32 option" where
  "Inode_buscarLibrePorGrupo ext2fs nroGrupo sb tabla =
     do { inode_bitmap \<leftarrow> Grupos_leerInodeBitmap ext2fs nroGrupo sb tabla;
          inodo \<leftarrow> bitarray_buscarPosicionLibre inode_bitmap;
          Some (word_of_int inodo) }"

primrec buscarInodoLibre_loop ::
  "disk \<Rightarrow> Superblock \<Rightarrow> Group_descriptor list \<Rightarrow> nat list \<Rightarrow> u32 option" where
  "buscarInodoLibre_loop ext2fs sb bgdt [] = Some (- 1)"
| "buscarInodoLibre_loop ext2fs sb bgdt (nroGrupo # gs) =
     (if length bgdt \<le> nroGrupo then None
      else if bg_free_inodes_count (bgdt ! nroGrupo) \<noteq> 0
      then do { nroInodo \<leftarrow> Inode_buscarLibrePorGrupo ext2fs (word_of_nat nroGrupo) sb bgdt;
                Some (word_of_nat nroGrupo * s_inodes_per_group sb + 1 + nroInodo) }
      else buscarInodoLibre_loop ext2fs sb bgdt gs)"

text \<open>
  The loop bound of \<^verbatim>\<open>Inode_buscarLibre\<close> is \<^verbatim>\<open>nroGrupo <= cantGrupos - 1\<close>, which is the
  same range as above unless the number of groups wraps around to zero.
\<close>

definition Inode_buscarLibre ::
  "disk \<Rightarrow> Superblock \<Rightarrow> Group_descriptor list \<Rightarrow> u32 option" where
  "Inode_buscarLibre ext2fs sb bgdt =
     do { cant \<leftarrow> cantGrupos sb; buscarInodoLibre_loop ext2fs sb bgdt [0..<unat (cant - 1) + 1] }"

definition Inode_pedirInodoLibre :: "fs \<Rightarrow> (u32 \<times> fs) option" where
  "Inode_pedirInodoLibre F =
     do { inodoADevolver \<leftarrow> Inode_buscarLibre (f_ext2fs F) (f_sb F) (f_bgdt F);
          F \<leftarrow> Grupos_utilizarInodoEnBitmap F inodoADevolver;
          Some (inodoADevolver, F) }"

section \<open>Bitmaps on the disk\<close>

text \<open>The bit vector held by \<open>t\<close> bytes of the image from \<open>p\<close> on.\<close>

definition bits_en :: "disk \<Rightarrow> nat \<Rightarrow> nat \<Rightarrow> bool list" where
  "bits_en d p t = bits (bitarray_create (bytes_at d p t) t)"

lemma length_bits_en [simp]: "length (bits_en d p t) = 8 * t"
  by (simp add: bits_en_def bitarray_create_def)

lemma bits_en_put_disj [frame_simps]:
  "q + t \<le> p \<or> p + length bs \<le> q \<Longrightarrow> q + t \<le> dk_len d \<Longrightarrow>
   bits_en (put_bytes d p bs) q t = bits_en d q t"
  by (simp add: bits_en_def bytes_at_put_disj)

lemma bits_en_put_same:
  "tam bm = t \<Longrightarrow> length (bitarray bm) = t \<Longrightarrow>
   bits_en (put_bytes d p (bitarray bm)) p t = bits bm"
  by (simp add: bits_en_def bits_def bitarray_create_def)

lemma create_ok: "ba_ok (bitarray_create (bytes_at d p t) t)"
  by (simp add: ba_ok_def bitarray_create_def)

lemma tam_create: "tam (bitarray_create b t) = t" "bitarray (bitarray_create b t) = b"
  by (simp_all add: bitarray_create_def)

lemma marca_en_disco:
  assumes "k < 8 * t"
  shows "\<exists>bm. bitarray_set_bit (bitarray_create (bytes_at d p t) t) k = Some bm
           \<and> tam bm = t \<and> length (bitarray bm) = t
           \<and> bits_en (put_bytes d p (bitarray bm)) p t = (bits_en d p t)[k := True]"
  using set_bit_bits [OF create_ok [of d p t], of k] assms
  by (auto simp: tam_create bits_en_put_same bits_en_def [symmetric])

lemma limpia_en_disco:
  assumes "k < 8 * t"
  shows "\<exists>bm. bitarray_clean_bit (bitarray_create (bytes_at d p t) t) k = Some bm
           \<and> tam bm = t \<and> length (bitarray bm) = t
           \<and> bits_en (put_bytes d p (bitarray bm)) p t = (bits_en d p t)[k := False]"
  using clean_bit_bits [OF create_ok [of d p t], of k] assms
  by (auto simp: tam_create bits_en_put_same bits_en_def [symmetric])

definition disjuntos :: "nat \<Rightarrow> nat \<Rightarrow> nat \<Rightarrow> nat \<Rightarrow> bool" where
  "disjuntos p n q m \<longleftrightarrow> p + n \<le> q \<or> q + m \<le> p"

text \<open>
  A family of \<open>G\<close> bitmaps: each lies within the image and below the seek limit, no two
  overlap, and the counters are the numbers of clear bits.
\<close>

definition mapas_ok ::
  "disk \<Rightarrow> nat \<Rightarrow> (nat \<Rightarrow> nat) \<Rightarrow> (nat \<Rightarrow> nat) \<Rightarrow> (nat \<Rightarrow> nat) \<Rightarrow> nat \<Rightarrow> bool" where
  "mapas_ok d G addr tm cnt tot \<longleftrightarrow>
     (\<forall>g < G. addr g < 2 ^ 31 \<and> addr g + tm g \<le> dk_len d \<and> cnt g = libres (bits_en d (addr g) (tm g)))
   \<and> (\<forall>g < G. \<forall>h < g. disjuntos (addr g) (tm g) (addr h) (tm h))
   \<and> tot = sum_list (map cnt [0..<G])"

lemma mapas_ok_disj:
  assumes "mapas_ok d G addr tm cnt tot" "g < G" "h < G" "g \<noteq> h"
  shows "disjuntos (addr g) (tm g) (addr h) (tm h)"
proof (cases "h < g")
  case True
  then show ?thesis using assms by (simp add: mapas_ok_def)
next
  case False
  then have "disjuntos (addr h) (tm h) (addr g) (tm g)" using assms by (simp add: mapas_ok_def)
  then show ?thesis by (auto simp: disjuntos_def)
qed

lemma mapas_okD:
  assumes "mapas_ok d G addr tm cnt tot" "g < G"
  shows "addr g < 2 ^ 31" "addr g + tm g \<le> dk_len d" "cnt g = libres (bits_en d (addr g) (tm g))"
  using assms by (simp_all add: mapas_ok_def)

lemma sum_list_update:
  "g < G \<Longrightarrow> sum_list (map (cnt(g := c)) [0..<G]) + cnt g = sum_list (map cnt [0..<G]) + (c :: nat)"
proof (induction G)
  case (Suc G)
  show ?case
  proof (cases "g = G")
    case True
    moreover have "map (\<lambda>x. if x = G then c else cnt x) [0..<G] = map cnt [0..<G]"
      by (rule map_cong) auto
    ultimately show ?thesis by (simp add: fun_upd_def del: map_eq_conv)
  next
    case False
    then show ?thesis using Suc by simp
  qed
qed simp

lemma mapas_ok_cong:
  assumes "mapas_ok d G addr tm cnt tot"
    and "\<And>g. g < G \<Longrightarrow> addr' g = addr g \<and> tm' g = tm g \<and> cnt' g = cnt g"
  shows "mapas_ok d G addr' tm' cnt' tot"
proof -
  have "sum_list (map cnt' [0..<G]) = sum_list (map cnt [0..<G])"
    using assms(2) by (intro arg_cong [where f = sum_list] map_cong) auto
  then have "tot = sum_list (map cnt' [0..<G])" using assms(1) by (simp add: mapas_ok_def)
  moreover have "addr' g < 2 ^ 31 \<and> addr' g + tm' g \<le> dk_len d
      \<and> cnt' g = libres (bits_en d (addr' g) (tm' g))" if "g < G" for g
    using mapas_okD [OF assms(1) that] assms(2) [OF that] by simp
  moreover have "disjuntos (addr' g) (tm' g) (addr' h) (tm' h)" if "g < G" "h < g" for g h
    using mapas_ok_disj [OF assms(1), of g h] assms(2) [of g] assms(2) [of h] that by simp
  ultimately show ?thesis unfolding mapas_ok_def by blast
qed

lemma mapas_ok_escribir:
  assumes ok: "mapas_ok d G addr tm cnt tot" and g: "g < G" and len: "length bs = tm g"
    and c: "c = libres (bits_en (put_bytes d (addr g) bs) (addr g) (tm g))"
    and tot: "tot' + cnt g = tot + c"
  shows "mapas_ok (put_bytes d (addr g) bs) G addr tm (cnt(g := c)) tot'"
proof -
  have dk: "dk_len (put_bytes d (addr g) bs) = dk_len d"
    using mapas_okD [OF ok g] len by simp
  have "bits_en (put_bytes d (addr g) bs) (addr h) (tm h) = bits_en d (addr h) (tm h)"
    if "h < G" "h \<noteq> g" for h
    using mapas_ok_disj [OF ok that(1) g that(2)] mapas_okD [OF ok that(1)] len
    by (auto simp: disjuntos_def intro!: bits_en_put_disj)
  moreover have "tot' = sum_list (map (cnt(g := c)) [0..<G])"
    using sum_list_update [OF g, of cnt c] tot ok by (simp add: mapas_ok_def)
  ultimately show ?thesis using ok c dk by (simp add: mapas_ok_def)
qed

lemma mapas_ok_ajeno:
  assumes ok: "mapas_ok d G addr tm cnt tot"
    and "\<forall>g < G. disjuntos (addr g) (tm g) p (length bs)" and "p + length bs \<le> dk_len d"
  shows "mapas_ok (put_bytes d p bs) G addr tm cnt tot"
proof -
  have "bits_en (put_bytes d p bs) (addr h) (tm h) = bits_en d (addr h) (tm h)" if "h < G" for h
    using assms(2) that mapas_okD [OF ok that]
    by (auto simp: disjuntos_def intro!: bits_en_put_disj)
  then show ?thesis using ok assms(3) by (simp add: mapas_ok_def)
qed

section \<open>The abstract view of the allocation state\<close>

abbreviation nGr :: "fs \<Rightarrow> nat" where
  "nGr F \<equiv> length (f_bgdt F)"

definition addrB :: "fs \<Rightarrow> nat \<Rightarrow> nat" where
  "addrB F g = unat (bg_block_bitmap (f_bgdt F ! g)) * unat (block_size (f_sb F))"

definition tamB :: "fs \<Rightarrow> nat \<Rightarrow> nat" where
  "tamB F g = (case tam_block_bitmap (f_sb F) (word_of_nat g) of None \<Rightarrow> 0 | Some t \<Rightarrow> unat t)"

definition cntB :: "fs \<Rightarrow> nat \<Rightarrow> nat" where
  "cntB F g = unat (bg_free_blocks_count (f_bgdt F ! g))"

definition mapaB :: "fs \<Rightarrow> nat \<Rightarrow> bool list" where
  "mapaB F g = bits_en (f_ext2fs F) (addrB F g) (tamB F g)"

definition addrI :: "fs \<Rightarrow> nat \<Rightarrow> nat" where
  "addrI F g = unat (bg_inode_bitmap (f_bgdt F ! g)) * unat (block_size (f_sb F))"

definition tamI :: "fs \<Rightarrow> nat \<Rightarrow> nat" where
  "tamI F g = unat (redondeo8 (s_inodes_per_group (f_sb F)))"

definition cntI :: "fs \<Rightarrow> nat \<Rightarrow> nat" where
  "cntI F g = unat (bg_free_inodes_count (f_bgdt F ! g))"

definition mapaI :: "fs \<Rightarrow> nat \<Rightarrow> bool list" where
  "mapaI F g = bits_en (f_ext2fs F) (addrI F g) (tamI F g)"

text \<open>Blocks and inodes per group and the first data block, as numbers.\<close>

abbreviation bpg :: "fs \<Rightarrow> nat" where
  "bpg F \<equiv> unat (s_blocks_per_group (f_sb F))"

abbreviation ipg :: "fs \<Rightarrow> nat" where
  "ipg F \<equiv> unat (s_inodes_per_group (f_sb F))"

abbreviation primero :: "fs \<Rightarrow> nat" where
  "primero F \<equiv> unat (s_first_data_block (f_sb F))"

text \<open>
  The shape of the image: the table in memory has one descriptor for each group the code
  computes, block and inode numbers fit a signed 32-bit integer and the counts of a group its
  16-bit counters, and no bitmap describes more objects than its group has.
\<close>

definition geom_ok :: "fs \<Rightarrow> bool" where
  "geom_ok F \<longleftrightarrow> 0 < bpg F \<and> 0 < ipg F \<and> bpg F < 2 ^ 16 \<and> ipg F < 2 ^ 16
     \<and> cantGrupos (f_sb F) = Some (word_of_nat (nGr F)) \<and> 0 < nGr F
     \<and> primero F + nGr F * bpg F < 2 ^ 31 \<and> nGr F * ipg F < 2 ^ 31
     \<and> (\<forall>g < nGr F. 8 * tamB F g \<le> bpg F) \<and> (\<forall>g < nGr F. 8 * tamI F g \<le> ipg F)"

definition fs_ok :: "fs \<Rightarrow> bool" where
  "fs_ok F \<longleftrightarrow> geom_ok F
     \<and> mapas_ok (f_ext2fs F) (nGr F) (addrB F) (tamB F) (cntB F) (unat (s_free_blocks_count (f_sb F)))
     \<and> mapas_ok (f_ext2fs F) (nGr F) (addrI F) (tamI F) (cntI F) (unat (s_free_inodes_count (f_sb F)))
     \<and> (\<forall>g < nGr F. \<forall>h < nGr F. disjuntos (addrB F g) (tamB F g) (addrI F h) (tamI F h))"

text \<open>Which numbers name a block or an inode the bitmaps describe, and which are in use.\<close>

definition bloque_valido :: "fs \<Rightarrow> u32 \<Rightarrow> bool" where
  "bloque_valido F b \<longleftrightarrow> primero F \<le> unat b \<and> (unat b - primero F) div bpg F < nGr F
     \<and> (unat b - primero F) mod bpg F < 8 * tamB F ((unat b - primero F) div bpg F)"

definition bloque_ocupado :: "fs \<Rightarrow> u32 \<Rightarrow> bool" where
  "bloque_ocupado F b \<longleftrightarrow>
     mapaB F ((unat b - primero F) div bpg F) ! ((unat b - primero F) mod bpg F)"

definition inodo_valido :: "fs \<Rightarrow> u32 \<Rightarrow> bool" where
  "inodo_valido F n \<longleftrightarrow> 1 \<le> unat n \<and> (unat n - 1) div ipg F < nGr F
     \<and> (unat n - 1) mod ipg F < 8 * tamI F ((unat n - 1) div ipg F)"

definition inodo_ocupado :: "fs \<Rightarrow> u32 \<Rightarrow> bool" where
  "inodo_ocupado F n \<longleftrightarrow> mapaI F ((unat n - 1) div ipg F) ! ((unat n - 1) mod ipg F)"

definition bloques_libres :: "fs \<Rightarrow> nat" where
  "bloques_libres F = unat (s_free_blocks_count (f_sb F))"

definition inodos_libres :: "fs \<Rightarrow> nat" where
  "inodos_libres F = unat (s_free_inodes_count (f_sb F))"

text \<open>The state after one bitmap of blocks (of inodes) and its two counters were written.\<close>

definition con_mapaB :: "fs \<Rightarrow> nat \<Rightarrow> u8 list \<Rightarrow> u16 \<Rightarrow> u32 \<Rightarrow> fs" where
  "con_mapaB F g bs c s =
     \<lparr>f_ext2fs = put_bytes (f_ext2fs F) (addrB F g) bs,
      f_sb = (f_sb F)\<lparr>s_free_blocks_count := s\<rparr>,
      f_bgdt = (f_bgdt F)[g := (f_bgdt F ! g)\<lparr>bg_free_blocks_count := c\<rparr>]\<rparr>"

definition con_mapaI :: "fs \<Rightarrow> nat \<Rightarrow> u8 list \<Rightarrow> u16 \<Rightarrow> u32 \<Rightarrow> fs" where
  "con_mapaI F g bs c s =
     \<lparr>f_ext2fs = put_bytes (f_ext2fs F) (addrI F g) bs,
      f_sb = (f_sb F)\<lparr>s_free_inodes_count := s\<rparr>,
      f_bgdt = (f_bgdt F)[g := (f_bgdt F ! g)\<lparr>bg_free_inodes_count := c\<rparr>]\<rparr>"

lemma sb_count_simps [simp]:
  "block_size (sb\<lparr>s_free_blocks_count := x\<rparr>) = block_size sb"
  "block_size (sb\<lparr>s_free_inodes_count := x\<rparr>) = block_size sb"
  "cantGrupos (sb\<lparr>s_free_blocks_count := x\<rparr>) = cantGrupos sb"
  "cantGrupos (sb\<lparr>s_free_inodes_count := x\<rparr>) = cantGrupos sb"
  "tam_block_bitmap (sb\<lparr>s_free_blocks_count := x\<rparr>) = tam_block_bitmap sb"
  "tam_block_bitmap (sb\<lparr>s_free_inodes_count := x\<rparr>) = tam_block_bitmap sb"
  by (simp_all add: block_size_def cantGrupos_def tam_block_bitmap_def fun_eq_iff)

lemma con_mapaB_view [frame_simps]:
  assumes "g < nGr F"
  shows "nGr (con_mapaB F g bs c s) = nGr F" "bpg (con_mapaB F g bs c s) = bpg F"
    "ipg (con_mapaB F g bs c s) = ipg F" "primero (con_mapaB F g bs c s) = primero F"
    "addrB (con_mapaB F g bs c s) = addrB F" "tamB (con_mapaB F g bs c s) = tamB F"
    "addrI (con_mapaB F g bs c s) = addrI F" "tamI (con_mapaB F g bs c s) = tamI F"
    "cntI (con_mapaB F g bs c s) = cntI F" "cntB (con_mapaB F g bs c s) = (cntB F)(g := unat c)"
    "cantGrupos (f_sb (con_mapaB F g bs c s)) = cantGrupos (f_sb F)"
    "geom_ok (con_mapaB F g bs c s) = geom_ok F"
  using assms
  by (auto simp: con_mapaB_def addrB_def tamB_def addrI_def tamI_def cntB_def cntI_def geom_ok_def
      nth_list_update fun_eq_iff)

lemma con_mapaI_view [frame_simps]:
  assumes "g < nGr F"
  shows "nGr (con_mapaI F g bs c s) = nGr F" "bpg (con_mapaI F g bs c s) = bpg F"
    "ipg (con_mapaI F g bs c s) = ipg F" "primero (con_mapaI F g bs c s) = primero F"
    "addrB (con_mapaI F g bs c s) = addrB F" "tamB (con_mapaI F g bs c s) = tamB F"
    "addrI (con_mapaI F g bs c s) = addrI F" "tamI (con_mapaI F g bs c s) = tamI F"
    "cntB (con_mapaI F g bs c s) = cntB F" "cntI (con_mapaI F g bs c s) = (cntI F)(g := unat c)"
    "cantGrupos (f_sb (con_mapaI F g bs c s)) = cantGrupos (f_sb F)"
    "geom_ok (con_mapaI F g bs c s) = geom_ok F"
  using assms
  by (auto simp: con_mapaI_def addrB_def tamB_def addrI_def tamI_def cntB_def cntI_def geom_ok_def
      nth_list_update fun_eq_iff)

section \<open>One proof for blocks and inodes\<close>

text \<open>
  Blocks and inodes are handled by the same algorithm on two families of bitmaps. The locale
  \<open>familia\<close> states what the two have in common, in terms of the state \<open>con F g bs c s\<close> in which
  bitmap \<open>g\<close> holds the bytes \<open>bs\<close> and the counters are \<open>c\<close> and \<open>s\<close>; the correctness of the
  operations is proved once inside it.
\<close>

lemma set_bit_len: "bitarray_set_bit b k = Some b' \<Longrightarrow>
    tam b' = tam b \<and> length (bitarray b') = length (bitarray b)"
  by (auto simp: bitarray_set_bit_def Let_def split: if_splits)

lemma clean_bit_len: "bitarray_clean_bit b k = Some b' \<Longrightarrow>
    tam b' = tam b \<and> length (bitarray b') = length (bitarray b)"
  by (auto simp: bitarray_clean_bit_def Let_def split: if_splits)

lemma sum_list_bound: "(\<And>g. g < G \<Longrightarrow> f g \<le> k) \<Longrightarrow> sum_list (map f [0..<G]) \<le> G * (k :: nat)"
proof (induction G)
  case (Suc G)
  then have "sum_list (map f [0..<G]) \<le> G * k" "f G \<le> k" by simp_all
  then show ?case by simp
qed simp

lemma div_mod_inj: "m div p = n div p \<Longrightarrow> m mod p = n mod p \<Longrightarrow> m = (n :: nat)"
  by (metis div_mult_mod_eq)

locale familia =
  fixes addr tm :: "fs \<Rightarrow> nat \<Rightarrow> nat"
    and base per :: "fs \<Rightarrow> nat"
    and cw :: "fs \<Rightarrow> nat \<Rightarrow> u16"
    and sw :: "fs \<Rightarrow> u32"
    and con :: "fs \<Rightarrow> nat \<Rightarrow> u8 list \<Rightarrow> u16 \<Rightarrow> u32 \<Rightarrow> fs"
    and utilizar liberar :: "fs \<Rightarrow> u32 \<Rightarrow> fs option"
    and buscar :: "fs \<Rightarrow> u32 option"
    and pedir :: "fs \<Rightarrow> (u32 \<times> fs) option"
    and valido ocupado :: "fs \<Rightarrow> u32 \<Rightarrow> bool"
  assumes mapas: "fs_ok F \<Longrightarrow> mapas_ok (f_ext2fs F) (nGr F) (addr F) (tm F)
          (\<lambda>g. unat (cw F g)) (unat (sw F))"
    and medidas: "fs_ok F \<Longrightarrow> 0 < per F \<and> per F < 2 ^ 16 \<and> nGr F * per F < 2 ^ 31"
    and tm_le: "fs_ok F \<Longrightarrow> g < nGr F \<Longrightarrow> 8 * tm F g \<le> per F"
    and con_disco: "f_ext2fs (con F g bs c s) = put_bytes (f_ext2fs F) (addr F g) bs"
    and con_vista: "g < nGr F \<Longrightarrow> nGr (con F g bs c s) = nGr F \<and> addr (con F g bs c s) = addr F
          \<and> tm (con F g bs c s) = tm F \<and> base (con F g bs c s) = base F \<and> per (con F g bs c s) = per F
          \<and> cw (con F g bs c s) = (cw F)(g := c) \<and> sw (con F g bs c s) = s"
    and con_ok: "fs_ok F \<Longrightarrow> g < nGr F \<Longrightarrow> length bs = tm F g \<Longrightarrow>
          mapas_ok (put_bytes (f_ext2fs F) (addr F g) bs) (nGr F) (addr F) (tm F)
            (\<lambda>h. unat (((cw F)(g := c)) h)) (unat s) \<Longrightarrow> fs_ok (con F g bs c s)"
    and valido_eq: "valido F n \<longleftrightarrow> base F \<le> unat n \<and> (unat n - base F) div per F < nGr F
          \<and> (unat n - base F) mod per F < 8 * tm F ((unat n - base F) div per F)"
    and ocupado_eq: "ocupado F n \<longleftrightarrow>
          bits_en (f_ext2fs F) (addr F ((unat n - base F) div per F)) (tm F ((unat n - base F) div per F))
            ! ((unat n - base F) mod per F)"
    and utilizar_eq: "fs_ok F \<Longrightarrow> valido F n \<Longrightarrow> g = (unat n - base F) div per F \<Longrightarrow>
          utilizar F n =
            map_option (\<lambda>bm. con F g (bitarray bm) (cw F g - 1) (sw F - 1))
              (bitarray_set_bit (bitarray_create (bytes_at (f_ext2fs F) (addr F g) (tm F g)) (tm F g))
                ((unat n - base F) mod per F))"
    and liberar_eq: "fs_ok F \<Longrightarrow> valido F n \<Longrightarrow> g = (unat n - base F) div per F \<Longrightarrow>
          liberar F n =
            map_option (\<lambda>bm. con F g (bitarray bm) (cw F g + 1) (sw F + 1))
              (bitarray_clean_bit (bitarray_create (bytes_at (f_ext2fs F) (addr F g) (tm F g)) (tm F g))
                ((unat n - base F) mod per F))"
    and buscar_eq: "fs_ok F \<Longrightarrow> g < nGr F \<Longrightarrow> cw F g \<noteq> 0 \<Longrightarrow> \<forall>h < g. cw F h = 0 \<Longrightarrow>
          bitarray_buscarPosicionLibre
            (bitarray_create (bytes_at (f_ext2fs F) (addr F g) (tm F g)) (tm F g)) = Some (int k) \<Longrightarrow>
          k < per F \<Longrightarrow> \<exists>n. buscar F = Some n \<and> unat n = base F + g * per F + k"
    and pedir_eq: "pedir F = do { n \<leftarrow> buscar F; F' \<leftarrow> utilizar F n; Some (n, F') }"
begin

abbreviation gr :: "fs \<Rightarrow> u32 \<Rightarrow> nat" where
  "gr F n \<equiv> (unat n - base F) div per F"

abbreviation ps :: "fs \<Rightarrow> u32 \<Rightarrow> nat" where
  "ps F n \<equiv> (unat n - base F) mod per F"

abbreviation vec :: "fs \<Rightarrow> nat \<Rightarrow> bool list" where
  "vec F g \<equiv> bits_en (f_ext2fs F) (addr F g) (tm F g)"

lemma total_lt:
  assumes "fs_ok F"
  shows "unat (sw F) < 2 ^ 31" and "g < nGr F \<Longrightarrow> unat (cw F g) \<le> unat (sw F)"
proof -
  note m = mapas [OF assms]
  have c: "unat (cw F g) \<le> per F" if "g < nGr F" for g
    using mapas_okD(3) [OF m that] libres_le [of "vec F g"] tm_le [OF assms that] by simp
  have t: "unat (sw F) = sum_list (map (\<lambda>g. unat (cw F g)) [0..<nGr F])"
    using m by (simp add: mapas_ok_def)
  have "unat (sw F) \<le> nGr F * per F" unfolding t using c by (rule sum_list_bound)
  with medidas [OF assms] show "unat (sw F) < 2 ^ 31" by linarith
  show "unat (cw F g) \<le> unat (sw F)" if "g < nGr F"
    unfolding t using that by (intro member_le_sum_list) simp_all
qed

lemma escribir_mapa:
  assumes ok: "fs_ok F" and v: "valido F n" and len: "length bs = tm F (gr F n)"
    and bits: "bits_en (put_bytes (f_ext2fs F) (addr F (gr F n)) bs) (addr F (gr F n)) (tm F (gr F n))
        = (vec F (gr F n))[ps F n := x]"
    and c: "unat c = libres ((vec F (gr F n))[ps F n := x])"
    and s: "unat s + unat (cw F (gr F n)) = unat (sw F) + unat c"
  shows "fs_ok (con F (gr F n) bs c s) \<and> sw (con F (gr F n) bs c s) = s
    \<and> (\<forall>m. valido (con F (gr F n) bs c s) m = valido F m)
    \<and> (\<forall>m. valido F m \<longrightarrow> ocupado (con F (gr F n) bs c s) m = (if m = n then x else ocupado F m))"
proof -
  let ?g = "gr F n" let ?F = "con F (gr F n) bs c s"
  have g: "?g < nGr F" and k: "ps F n < 8 * tm F ?g" and b: "base F \<le> unat n"
    using v by (simp_all add: valido_eq)
  note m = mapas [OF ok]
  note vista = con_vista [OF g, of bs c s]
  have "mapas_ok (put_bytes (f_ext2fs F) (addr F ?g) bs) (nGr F) (addr F) (tm F)
      ((\<lambda>h. unat (cw F h))(?g := unat c)) (unat s)"
    using mapas_ok_escribir [OF m g len, of "unat c" "unat s"] c s bits by simp
  then have "fs_ok ?F"
    by (intro con_ok [OF ok g len]) (erule mapas_ok_cong, simp)
  moreover have "ocupado ?F m = (if m = n then x else ocupado F m)" if m_ok: "valido F m" for m
  proof -
    have h: "gr F m < nGr F" and bm: "base F \<le> unat m" using m_ok by (simp_all add: valido_eq)
    have eq: "m = n" if "gr F m = ?g" "ps F m = ps F n"
      using div_mod_inj [OF that] b bm by (simp add: word_unat_eq_iff)
    have "vec ?F (gr F m) = (if gr F m = ?g then (vec F ?g)[ps F n := x] else vec F (gr F m))"
      using mapas_ok_disj [OF m h g] mapas_okD [OF m h] len bits
      by (auto simp: vista con_disco disjuntos_def intro!: bits_en_put_disj)
    then show ?thesis using eq k by (auto simp: ocupado_eq vista nth_list_update)
  qed
  ultimately show ?thesis by (simp add: vista valido_eq)
qed

lemma utilizar_ok:
  assumes ok: "fs_ok F" and v: "valido F n" and libre: "\<not> ocupado F n"
  shows "\<exists>bs F'. utilizar F n = Some F' \<and> F' = con F (gr F n) bs (cw F (gr F n) - 1) (sw F - 1)
    \<and> length bs = tm F (gr F n) \<and> fs_ok F'
    \<and> unat (sw F') + 1 = unat (sw F) \<and> (\<forall>m. valido F' m = valido F m)
    \<and> (\<forall>m. valido F m \<longrightarrow> ocupado F' m = (m = n \<or> ocupado F m))"
proof -
  let ?g = "gr F n"
  have g: "?g < nGr F" and k: "ps F n < 8 * tm F ?g" using v by (simp_all add: valido_eq)
  obtain bm where bm: "bitarray_set_bit (bitarray_create (bytes_at (f_ext2fs F) (addr F ?g) (tm F ?g))
        (tm F ?g)) (ps F n) = Some bm" "length (bitarray bm) = tm F ?g"
      "bits_en (put_bytes (f_ext2fs F) (addr F ?g) (bitarray bm)) (addr F ?g) (tm F ?g)
        = (vec F ?g)[ps F n := True]"
    using marca_en_disco [OF k, of "f_ext2fs F" "addr F ?g"] by blast
  have lib: "Suc (libres ((vec F ?g)[ps F n := True])) = unat (cw F ?g)"
    using libres_set [of "ps F n" "vec F ?g"] k libre mapas_okD(3) [OF mapas [OF ok] g]
    by (simp add: ocupado_eq)
  then have c: "unat (cw F ?g - 1) = libres ((vec F ?g)[ps F n := True])"
    by (subst unat_pred_u16) auto
  have sw: "unat (sw F - 1) + 1 = unat (sw F)"
    using lib total_lt(2) [OF ok g] by (subst unat_pred_u32) auto
  have "utilizar F n = Some (con F ?g (bitarray bm) (cw F ?g - 1) (sw F - 1))"
    using utilizar_eq [OF ok v refl] bm(1) by simp
  moreover note escribir_mapa [OF ok v bm(2,3) c, of "sw F - 1"]
  ultimately show ?thesis using bm(2) c lib sw by auto
qed

lemma liberar_ok:
  assumes ok: "fs_ok F" and v: "valido F n" and usado: "ocupado F n"
  shows "\<exists>bs F'. liberar F n = Some F' \<and> F' = con F (gr F n) bs (cw F (gr F n) + 1) (sw F + 1)
    \<and> length bs = tm F (gr F n) \<and> fs_ok F'
    \<and> unat (sw F') = unat (sw F) + 1 \<and> (\<forall>m. valido F' m = valido F m)
    \<and> (\<forall>m. valido F m \<longrightarrow> ocupado F' m = (m \<noteq> n \<and> ocupado F m))"
proof -
  let ?g = "gr F n"
  have g: "?g < nGr F" and k: "ps F n < 8 * tm F ?g" using v by (simp_all add: valido_eq)
  obtain bm where bm: "bitarray_clean_bit (bitarray_create (bytes_at (f_ext2fs F) (addr F ?g) (tm F ?g))
        (tm F ?g)) (ps F n) = Some bm" "length (bitarray bm) = tm F ?g"
      "bits_en (put_bytes (f_ext2fs F) (addr F ?g) (bitarray bm)) (addr F ?g) (tm F ?g)
        = (vec F ?g)[ps F n := False]"
    using limpia_en_disco [OF k, of "f_ext2fs F" "addr F ?g"] by blast
  have lib: "libres ((vec F ?g)[ps F n := False]) = Suc (unat (cw F ?g))"
    using libres_clean [of "ps F n" "vec F ?g"] k usado mapas_okD(3) [OF mapas [OF ok] g]
    by (simp add: ocupado_eq)
  moreover have "libres ((vec F ?g)[ps F n := False]) < 2 ^ 16"
    using libres_le [of "(vec F ?g)[ps F n := False]"] tm_le [OF ok g] medidas [OF ok] by simp
  ultimately have c: "unat (cw F ?g + 1) = libres ((vec F ?g)[ps F n := False])"
    by (subst unat_succ_u16) auto
  have sw: "unat (sw F + 1) = unat (sw F) + 1"
    using total_lt(1) [OF ok] by (subst unat_succ_u32) auto
  have "liberar F n = Some (con F ?g (bitarray bm) (cw F ?g + 1) (sw F + 1))"
    using liberar_eq [OF ok v refl] bm(1) by simp
  moreover note escribir_mapa [OF ok v bm(2,3) c, of "sw F + 1"]
  ultimately show ?thesis using bm(2) c lib sw by auto
qed

lemma hay_grupo:
  assumes "fs_ok F" and "0 < unat (sw F)"
  shows "\<exists>g < nGr F. cw F g \<noteq> 0 \<and> (\<forall>h < g. cw F h = 0)"
proof -
  have "unat (sw F) = sum_list (map (\<lambda>g. unat (cw F g)) [0..<nGr F])"
    using mapas [OF assms(1)] by (simp add: mapas_ok_def)
  with assms(2) have "\<exists>g. g < nGr F \<and> cw F g \<noteq> 0"
    by (auto simp: sum_list_eq_0_iff neq0_conv [symmetric] simp del: neq0_conv)
  then obtain g where g: "g < nGr F \<and> cw F g \<noteq> 0"
    and least: "\<forall>h < g. \<not> (h < nGr F \<and> cw F h \<noteq> 0)"
    using exists_least_iff [of "\<lambda>g. g < nGr F \<and> cw F g \<noteq> 0"] by blast
  then show ?thesis by auto
qed

lemma pedir_ok:
  assumes ok: "fs_ok F" and hay: "0 < unat (sw F)"
  shows "\<exists>n bs F'. pedir F = Some (n, F')
    \<and> F' = con F (gr F n) bs (cw F (gr F n) - 1) (sw F - 1) \<and> length bs = tm F (gr F n)
    \<and> valido F n \<and> \<not> ocupado F n \<and> fs_ok F'
    \<and> unat (sw F') + 1 = unat (sw F) \<and> (\<forall>m. valido F' m = valido F m)
    \<and> (\<forall>m. valido F m \<longrightarrow> ocupado F' m = (m = n \<or> ocupado F m))"
proof -
  from hay_grupo [OF assms] obtain g where
    g: "g < nGr F" "cw F g \<noteq> 0" "\<forall>h < g. cw F h = 0" by blast
  let ?b = "bitarray_create (bytes_at (f_ext2fs F) (addr F g) (tm F g)) (tm F g)"
  have "0 < unat (cw F g)" using g(2) by (simp add: unat_gt_0)
  then have "0 < libres (bits ?b)"
    using mapas_okD(3) [OF mapas [OF ok] g(1)] by (simp add: bits_en_def)
  then have "False \<in> set (bits ?b)" by (simp only: libres_pos_iff)
  from buscar_found [OF create_ok this] obtain k where
    k: "k < 8 * tm F g" "bitarray_buscarPosicionLibre ?b = Some (int k)" "\<not> vec F g ! k"
    unfolding bits_en_def tam_create by blast
  have kp: "k < per F" using k(1) tm_le [OF ok g(1)] by simp
  then obtain n where n: "buscar F = Some n" "unat n = base F + g * per F + k"
    using buscar_eq [OF ok g k(2)] by blast
  have dm: "gr F n = g" "ps F n = k" using n(2) kp by simp_all
  then have v: "valido F n" "\<not> ocupado F n"
    using n(2) g(1) k by (simp_all add: valido_eq ocupado_eq)
  from utilizar_ok [OF ok v] obtain bs F' where "utilizar F n = Some F'"
      "F' = con F (gr F n) bs (cw F (gr F n) - 1) (sw F - 1)"
      "length bs = tm F (gr F n)" "fs_ok F'"
      "unat (sw F') + 1 = unat (sw F)" "\<forall>m. valido F' m = valido F m"
      "\<forall>m. valido F m \<longrightarrow> ocupado F' m = (m = n \<or> ocupado F m)" by blast
  with n(1) v show ?thesis by (auto simp: pedir_eq)
qed

end

section \<open>The contract of an allocator\<close>

text \<open>
  What the callers rely on: with something free, a request returns an object that was free,
  marks it and nothing else, and takes one from the count; giving it back undoes this.
\<close>

locale asignador =
  fixes pide :: "'s \<Rightarrow> ('n \<times> 's) option"
    and devuelve :: "'s \<Rightarrow> 'n \<Rightarrow> 's option"
    and vale ocup :: "'s \<Rightarrow> 'n \<Rightarrow> bool"
    and hay :: "'s \<Rightarrow> nat"
    and bien :: "'s \<Rightarrow> bool"
  assumes pide: "bien s \<Longrightarrow> 0 < hay s \<Longrightarrow>
      \<exists>n s'. pide s = Some (n, s') \<and> bien s' \<and> vale s n \<and> \<not> ocup s n \<and> hay s' + 1 = hay s
        \<and> (\<forall>m. vale s' m = vale s m) \<and> (\<forall>m. vale s m \<longrightarrow> ocup s' m = (m = n \<or> ocup s m))"
    and devuelve: "bien s \<Longrightarrow> vale s n \<Longrightarrow> ocup s n \<Longrightarrow>
      \<exists>s'. devuelve s n = Some s' \<and> bien s' \<and> hay s' = hay s + 1
        \<and> (\<forall>m. vale s' m = vale s m) \<and> (\<forall>m. vale s m \<longrightarrow> ocup s' m = (m \<noteq> n \<and> ocup s m))"
begin

primrec pide_n :: "nat \<Rightarrow> 's \<Rightarrow> ('n list \<times> 's) option" where
  "pide_n 0 s = Some ([], s)"
| "pide_n (Suc k) s = do { (n, s) \<leftarrow> pide s; (ns, s) \<leftarrow> pide_n k s; Some (n # ns, s) }"

text \<open>As many requests as there are free objects succeed, with distinct results.\<close>

lemma pide_n_distintos:
  "bien s \<Longrightarrow> k \<le> hay s \<Longrightarrow>
   \<exists>ns s'. pide_n k s = Some (ns, s') \<and> length ns = k \<and> distinct ns \<and> bien s' \<and> hay s' + k = hay s
     \<and> (\<forall>n \<in> set ns. vale s n \<and> \<not> ocup s n) \<and> (\<forall>m. vale s' m = vale s m)
     \<and> (\<forall>m. vale s m \<longrightarrow> ocup s' m = (m \<in> set ns \<or> ocup s m))"
proof (induction k arbitrary: s)
  case (Suc k)
  from pide [OF Suc.prems(1)] Suc.prems(2) obtain n s1 where
    n: "pide s = Some (n, s1)" "bien s1" "vale s n" "\<not> ocup s n" "hay s1 + 1 = hay s"
      "\<forall>m. vale s1 m = vale s m" "\<forall>m. vale s m \<longrightarrow> ocup s1 m = (m = n \<or> ocup s m)" by auto
  from Suc.IH [OF n(2)] Suc.prems(2) n(5) obtain ns s' where
    ns: "pide_n k s1 = Some (ns, s')" "length ns = k" "distinct ns" "bien s'" "hay s' + k = hay s1"
      "\<forall>n \<in> set ns. vale s1 n \<and> \<not> ocup s1 n" "\<forall>m. vale s' m = vale s1 m"
      "\<forall>m. vale s1 m \<longrightarrow> ocup s' m = (m \<in> set ns \<or> ocup s1 m)" by auto
  have "n \<notin> set ns" using ns(6) n(3,7) by blast
  with n ns show ?case by auto
qed simp

lemma pide_devuelve:
  assumes "bien s" "0 < hay s"
  shows "\<exists>n s1 s2. pide s = Some (n, s1) \<and> devuelve s1 n = Some s2 \<and> bien s2 \<and> hay s2 = hay s
    \<and> (\<forall>m. vale s m \<longrightarrow> ocup s2 m = ocup s m)"
proof -
  from pide [OF assms] obtain n s1 where
    n: "pide s = Some (n, s1)" "bien s1" "vale s n" "\<not> ocup s n" "hay s1 + 1 = hay s"
      "\<forall>m. vale s1 m = vale s m" "\<forall>m. vale s m \<longrightarrow> ocup s1 m = (m = n \<or> ocup s m)" by blast
  then obtain s2 where "devuelve s1 n = Some s2" "bien s2" "hay s2 = hay s1 + 1"
      "\<forall>m. vale s1 m \<longrightarrow> ocup s2 m = (m \<noteq> n \<and> ocup s1 m)"
    using devuelve [OF n(2), of n] by blast
  with n show ?thesis by auto
qed

end

sublocale familia \<subseteq> asignador pedir liberar valido ocupado "\<lambda>F. unat (sw F)" fs_ok
proof unfold_locales
  fix F n
  show "fs_ok F \<Longrightarrow> 0 < unat (sw F) \<Longrightarrow>
      \<exists>n F'. pedir F = Some (n, F') \<and> fs_ok F' \<and> valido F n \<and> \<not> ocupado F n
        \<and> unat (sw F') + 1 = unat (sw F) \<and> (\<forall>m. valido F' m = valido F m)
        \<and> (\<forall>m. valido F m \<longrightarrow> ocupado F' m = (m = n \<or> ocupado F m))"
    using pedir_ok [of F] by metis
  show "fs_ok F \<Longrightarrow> valido F n \<Longrightarrow> ocupado F n \<Longrightarrow>
      \<exists>F'. liberar F n = Some F' \<and> fs_ok F' \<and> unat (sw F') = unat (sw F) + 1
        \<and> (\<forall>m. valido F' m = valido F m)
        \<and> (\<forall>m. valido F m \<longrightarrow> ocupado F' m = (m \<noteq> n \<and> ocupado F m))"
    using liberar_ok [of F n] by metis
qed

section \<open>Blocks and inodes satisfy the contract\<close>

lemma unat_grupo:
  "unat b \<le> unat n \<Longrightarrow> unat ((n - b) div p :: u32) = (unat n - unat b) div unat p"
  by (simp add: unat_div unat_sub_u32)

lemma unat_posicion:
  assumes "unat b \<le> unat n"
  shows "unat (n - b - (n - b) div p * p :: u32) = (unat n - unat b) mod unat p"
  using assms by (simp add: minus_div_mult_eq_mod unat_mod unat_sub_u32)

lemma fs_okD:
  assumes "fs_ok F"
  shows "geom_ok F"
    and "mapas_ok (f_ext2fs F) (nGr F) (addrB F) (tamB F) (cntB F) (unat (s_free_blocks_count (f_sb F)))"
    and "mapas_ok (f_ext2fs F) (nGr F) (addrI F) (tamI F) (cntI F) (unat (s_free_inodes_count (f_sb F)))"
    and "g < nGr F \<Longrightarrow> h < nGr F \<Longrightarrow> disjuntos (addrB F g) (tamB F g) (addrI F h) (tamI F h)"
  using assms by (simp_all add: fs_ok_def)

lemma nGr_lt:
  assumes "geom_ok F"
  shows "nGr F < 2 ^ 31"
proof -
  have "0 < bpg F" "nGr F * bpg F < 2 ^ 31" using assms by (simp_all add: geom_ok_def)
  moreover from this(1) have "nGr F \<le> nGr F * bpg F" by simp
  ultimately show ?thesis by linarith
qed

lemma leer_mapaB:
  assumes ok: "fs_ok F" and g: "unat gw < nGr F"
  shows "Grupos_leerBlockBitmap (f_ext2fs F) gw (f_sb F) (f_bgdt F) =
    Some (bitarray_create (bytes_at (f_ext2fs F) (addrB F (unat gw)) (tamB F (unat gw))) (tamB F (unat gw)))"
proof -
  note d = mapas_okD [OF fs_okD(2) [OF ok] g]
  have a: "unat (bg_block_bitmap (f_bgdt F ! unat gw) * block_size (f_sb F)) = addrB F (unat gw)"
    using d(1) by (subst unat_mult_u32) (simp_all add: addrB_def)
  obtain t where "tam_block_bitmap (f_sb F) gw = Some t"
    using fs_okD(1) [OF ok] by (auto simp: tam_block_bitmap_def geom_ok_def)
  moreover from this have "unat t = tamB F (unat gw)" by (simp add: tamB_def)
  ultimately show ?thesis
    using d g by (simp add: Grupos_leerBlockBitmap_def disk_read_def a)
qed

lemma escribir_mapaB:
  assumes ok: "fs_ok F" and g: "unat gw < nGr F"
    and "tam bm = tamB F (unat gw)" "length (bitarray bm) = tamB F (unat gw)"
  shows "Grupos_escribirBlockBitmap (f_ext2fs F) gw (f_sb F) (f_bgdt F) bm =
    Some (put_bytes (f_ext2fs F) (addrB F (unat gw)) (bitarray bm))"
proof -
  note d = mapas_okD [OF fs_okD(2) [OF ok] g]
  have "unat (bg_block_bitmap (f_bgdt F ! unat gw) * block_size (f_sb F)) = addrB F (unat gw)"
    using d(1) by (subst unat_mult_u32) (simp_all add: addrB_def)
  then show ?thesis
    using d g assms(3,4) by (simp add: Grupos_escribirBlockBitmap_def disk_write_def)
qed

lemma leer_mapaI:
  assumes ok: "fs_ok F" and g: "unat gw < nGr F"
  shows "Grupos_leerInodeBitmap (f_ext2fs F) gw (f_sb F) (f_bgdt F) =
    Some (bitarray_create (bytes_at (f_ext2fs F) (addrI F (unat gw)) (tamI F (unat gw))) (tamI F (unat gw)))"
proof -
  note d = mapas_okD [OF fs_okD(3) [OF ok] g]
  have a: "unat (bg_inode_bitmap (f_bgdt F ! unat gw) * block_size (f_sb F)) = addrI F (unat gw)"
    using d(1) by (subst unat_mult_u32) (simp_all add: addrI_def)
  then show ?thesis
    using d g by (simp add: Grupos_leerInodeBitmap_def disk_read_def Let_def a tamI_def)
qed

lemma escribir_mapaI:
  assumes ok: "fs_ok F" and g: "unat gw < nGr F"
    and "tam bm = tamI F (unat gw)" "length (bitarray bm) = tamI F (unat gw)"
  shows "Grupos_escribirInodeBitmap (f_ext2fs F) gw (f_sb F) (f_bgdt F) bm =
    Some (put_bytes (f_ext2fs F) (addrI F (unat gw)) (bitarray bm))"
proof -
  note d = mapas_okD [OF fs_okD(3) [OF ok] g]
  have "unat (bg_inode_bitmap (f_bgdt F ! unat gw) * block_size (f_sb F)) = addrI F (unat gw)"
    using d(1) by (subst unat_mult_u32) (simp_all add: addrI_def)
  then show ?thesis
    using d g assms(3,4) by (simp add: Grupos_escribirInodeBitmap_def disk_write_def)
qed

lemma utilizarBloque_con:
  assumes ok: "fs_ok F" and v: "bloque_valido F n" and g: "g = (unat n - primero F) div bpg F"
  shows "Grupos_utilizarBloqueEnBitmap F n =
    map_option (\<lambda>bm. con_mapaB F g (bitarray bm) (bg_free_blocks_count (f_bgdt F ! g) - 1)
        (s_free_blocks_count (f_sb F) - 1))
      (bitarray_set_bit (bitarray_create (bytes_at (f_ext2fs F) (addrB F g) (tamB F g)) (tamB F g))
        ((unat n - primero F) mod bpg F))"
proof -
  let ?gw = "(n - s_first_data_block (f_sb F)) div s_blocks_per_group (f_sb F)"
  have b: "primero F \<le> unat n" and gl: "g < nGr F" using v g by (simp_all add: bloque_valido_def)
  have gw: "unat ?gw = g" using unat_grupo [OF b] g by simp
  have "s_blocks_per_group (f_sb F) \<noteq> 0" using fs_okD(1) [OF ok] by (auto simp: geom_ok_def)
  moreover note leer_mapaB [OF ok, of ?gw, unfolded gw, OF gl] unat_posicion [OF b]
  moreover have "tam bm = tamB F g \<and> length (bitarray bm) = tamB F g"
    if "bitarray_set_bit (bitarray_create (bytes_at (f_ext2fs F) (addrB F g) (tamB F g)) (tamB F g)) k
          = Some bm" for bm k
    using set_bit_len [OF that] by (simp add: tam_create)
  ultimately show ?thesis
    using escribir_mapaB [OF ok, of ?gw, unfolded gw, OF gl]
    by (auto simp: Grupos_utilizarBloqueEnBitmap_def Let_def gw con_mapaB_def
        split: option.splits bind_splits)
qed

lemma liberarBloque_con:
  assumes ok: "fs_ok F" and v: "bloque_valido F n" and g: "g = (unat n - primero F) div bpg F"
  shows "Grupos_liberarBloqueEnBitmap F n =
    map_option (\<lambda>bm. con_mapaB F g (bitarray bm) (bg_free_blocks_count (f_bgdt F ! g) + 1)
        (s_free_blocks_count (f_sb F) + 1))
      (bitarray_clean_bit (bitarray_create (bytes_at (f_ext2fs F) (addrB F g) (tamB F g)) (tamB F g))
        ((unat n - primero F) mod bpg F))"
proof -
  let ?gw = "(n - s_first_data_block (f_sb F)) div s_blocks_per_group (f_sb F)"
  have b: "primero F \<le> unat n" and gl: "g < nGr F" using v g by (simp_all add: bloque_valido_def)
  have gw: "unat ?gw = g" using unat_grupo [OF b] g by simp
  have "s_blocks_per_group (f_sb F) \<noteq> 0" using fs_okD(1) [OF ok] by (auto simp: geom_ok_def)
  moreover note leer_mapaB [OF ok, of ?gw, unfolded gw, OF gl] unat_posicion [OF b]
  moreover have "tam bm = tamB F g \<and> length (bitarray bm) = tamB F g"
    if "bitarray_clean_bit (bitarray_create (bytes_at (f_ext2fs F) (addrB F g) (tamB F g)) (tamB F g)) k
          = Some bm" for bm k
    using clean_bit_len [OF that] by (simp add: tam_create)
  ultimately show ?thesis
    using escribir_mapaB [OF ok, of ?gw, unfolded gw, OF gl]
    by (auto simp: Grupos_liberarBloqueEnBitmap_def Let_def gw con_mapaB_def
        split: option.splits bind_splits)
qed

lemma utilizarInodo_con:
  assumes ok: "fs_ok F" and v: "inodo_valido F n" and g: "g = (unat n - 1) div ipg F"
  shows "Grupos_utilizarInodoEnBitmap F n =
    map_option (\<lambda>bm. con_mapaI F g (bitarray bm) (bg_free_inodes_count (f_bgdt F ! g) - 1)
        (s_free_inodes_count (f_sb F) - 1))
      (bitarray_set_bit (bitarray_create (bytes_at (f_ext2fs F) (addrI F g) (tamI F g)) (tamI F g))
        ((unat n - 1) mod ipg F))"
proof -
  let ?gw = "(n - 1) div s_inodes_per_group (f_sb F)"
  have b: "unat (1 :: u32) \<le> unat n" and gl: "g < nGr F" using v g by (simp_all add: inodo_valido_def)
  have gw: "unat ?gw = g" using unat_grupo [OF b] g by simp
  have "s_inodes_per_group (f_sb F) \<noteq> 0" using fs_okD(1) [OF ok] by (auto simp: geom_ok_def)
  moreover note leer_mapaI [OF ok, of ?gw, unfolded gw, OF gl] unat_posicion [OF b]
  moreover have "tam bm = tamI F g \<and> length (bitarray bm) = tamI F g"
    if "bitarray_set_bit (bitarray_create (bytes_at (f_ext2fs F) (addrI F g) (tamI F g)) (tamI F g)) k
          = Some bm" for bm k
    using set_bit_len [OF that] by (simp add: tam_create)
  ultimately show ?thesis
    using escribir_mapaI [OF ok, of ?gw, unfolded gw, OF gl]
    by (auto simp: Grupos_utilizarInodoEnBitmap_def Let_def gw con_mapaI_def
        split: option.splits bind_splits)
qed

lemma liberarInodo_con:
  assumes ok: "fs_ok F" and v: "inodo_valido F n" and g: "g = (unat n - 1) div ipg F"
  shows "Grupos_liberarInodoEnBitmap F n =
    map_option (\<lambda>bm. con_mapaI F g (bitarray bm) (bg_free_inodes_count (f_bgdt F ! g) + 1)
        (s_free_inodes_count (f_sb F) + 1))
      (bitarray_clean_bit (bitarray_create (bytes_at (f_ext2fs F) (addrI F g) (tamI F g)) (tamI F g))
        ((unat n - 1) mod ipg F))"
proof -
  let ?gw = "(n - 1) div s_inodes_per_group (f_sb F)"
  have b: "unat (1 :: u32) \<le> unat n" and gl: "g < nGr F" using v g by (simp_all add: inodo_valido_def)
  have gw: "unat ?gw = g" using unat_grupo [OF b] g by simp
  have "s_inodes_per_group (f_sb F) \<noteq> 0" using fs_okD(1) [OF ok] by (auto simp: geom_ok_def)
  moreover note leer_mapaI [OF ok, of ?gw, unfolded gw, OF gl] unat_posicion [OF b]
  moreover have "tam bm = tamI F g \<and> length (bitarray bm) = tamI F g"
    if "bitarray_clean_bit (bitarray_create (bytes_at (f_ext2fs F) (addrI F g) (tamI F g)) (tamI F g)) k
          = Some bm" for bm k
    using clean_bit_len [OF that] by (simp add: tam_create)
  ultimately show ?thesis
    using escribir_mapaI [OF ok, of ?gw, unfolded gw, OF gl]
    by (auto simp: Grupos_liberarInodoEnBitmap_def Let_def gw con_mapaI_def
        split: option.splits bind_splits)
qed

lemma upt_partido: "g < n \<Longrightarrow> [0..<n] = [0..<g] @ g # [Suc g..<n]"
  by (metis le_add1 less_imp_le_nat plus_nat.add_0 upt_add_eq_append upt_conv_Cons le_add_diff_inverse)

lemma buscarBloque_prefijo:
  "\<forall>h \<in> set xs. h < length bgdt \<and> bg_free_blocks_count (bgdt ! h) = 0 \<Longrightarrow>
   buscarBloqueLibre_loop d sb bgdt (xs @ ys) = buscarBloqueLibre_loop d sb bgdt ys"
  by (induction xs) auto

lemma buscarInodo_prefijo:
  "\<forall>h \<in> set xs. h < length bgdt \<and> bg_free_inodes_count (bgdt ! h) = 0 \<Longrightarrow>
   buscarInodoLibre_loop d sb bgdt (xs @ ys) = buscarInodoLibre_loop d sb bgdt ys"
  by (induction xs) auto

lemma numero_lt:
  assumes "g < n" "k < p" "b + n * p < 2 ^ 31"
  shows "b + g * p + k < (2 ^ 31 :: nat)"
proof -
  have "Suc g * p \<le> n * p" using assms(1) by (intro mult_le_mono1) simp
  then show ?thesis using assms(2,3) by simp
qed

lemma buscarBloque_eq:
  assumes ok: "fs_ok F" and g: "g < nGr F" "bg_free_blocks_count (f_bgdt F ! g) \<noteq> 0"
    "\<forall>h < g. bg_free_blocks_count (f_bgdt F ! h) = 0"
    and k: "bitarray_buscarPosicionLibre
      (bitarray_create (bytes_at (f_ext2fs F) (addrB F g) (tamB F g)) (tamB F g)) = Some (int k)"
      "k < bpg F"
  shows "\<exists>n. Grupos_buscarBloqueLibre (f_ext2fs F) (f_sb F) (f_bgdt F) = Some n
    \<and> unat n = primero F + g * bpg F + k"
proof -
  note G = fs_okD(1) [OF ok]
  have lt: "primero F + g * bpg F + k < 2 ^ 31"
    using numero_lt [OF g(1) k(2), of "primero F"] G by (simp add: geom_ok_def)
  have gw: "unat (word_of_nat g :: u32) = g"
    using nGr_lt [OF G] g(1) by (intro unat_of_nat_u32) simp
  have "Grupos_buscarBloqueLibre (f_ext2fs F) (f_sb F) (f_bgdt F) =
      buscarBloqueLibre_loop (f_ext2fs F) (f_sb F) (f_bgdt F) [0..<nGr F]"
    using G nGr_lt [OF G]
    by (simp add: Grupos_buscarBloqueLibre_def geom_ok_def unat_of_nat_u32)
  also have "\<dots> = Some (word_of_nat g * s_blocks_per_group (f_sb F) + word_of_nat k
      + s_first_data_block (f_sb F))"
    unfolding upt_partido [OF g(1)] using g k(1) leer_mapaB [OF ok, of "word_of_nat g"] gw
    by (subst buscarBloque_prefijo) (auto simp: Grupos_buscarBloqueLibrePorGrupo_def)
  finally show ?thesis
    using lt gw by (simp add: unat_add_u32 unat_mult_u32 unat_of_nat_u32)
qed

lemma buscarInodo_eq:
  assumes ok: "fs_ok F" and g: "g < nGr F" "bg_free_inodes_count (f_bgdt F ! g) \<noteq> 0"
    "\<forall>h < g. bg_free_inodes_count (f_bgdt F ! h) = 0"
    and k: "bitarray_buscarPosicionLibre
      (bitarray_create (bytes_at (f_ext2fs F) (addrI F g) (tamI F g)) (tamI F g)) = Some (int k)"
      "k < ipg F"
  shows "\<exists>n. Inode_buscarLibre (f_ext2fs F) (f_sb F) (f_bgdt F) = Some n
    \<and> unat n = 1 + g * ipg F + k"
proof -
  note G = fs_okD(1) [OF ok]
  have lt: "g * ipg F + k < 2 ^ 31"
    using numero_lt [OF g(1) k(2), of 0] G by (simp add: geom_ok_def)
  have gw: "unat (word_of_nat g :: u32) = g"
    using nGr_lt [OF G] g(1) by (intro unat_of_nat_u32) simp
  have "unat (word_of_nat (nGr F) - 1 :: u32) + 1 = nGr F"
    using G nGr_lt [OF G] by (subst unat_pred_u32) (auto simp: geom_ok_def unat_of_nat_u32 Suc_leI)
  then have "Inode_buscarLibre (f_ext2fs F) (f_sb F) (f_bgdt F) =
      buscarInodoLibre_loop (f_ext2fs F) (f_sb F) (f_bgdt F) [0..<nGr F]"
    using G by (simp add: Inode_buscarLibre_def geom_ok_def del: upt_Suc)
  also have "\<dots> = Some (word_of_nat g * s_inodes_per_group (f_sb F) + 1 + word_of_nat k)"
    unfolding upt_partido [OF g(1)] using g k(1) leer_mapaI [OF ok, of "word_of_nat g"] gw
    by (subst buscarInodo_prefijo) (auto simp: Inode_buscarLibrePorGrupo_def)
  finally show ?thesis
    using lt gw by (simp add: unat_add_u32 unat_mult_u32 unat_of_nat_u32)
qed

lemma con_mapaB_ok:
  assumes ok: "fs_ok F" and g: "g < nGr F" and len: "length bs = tamB F g"
    and m: "mapas_ok (put_bytes (f_ext2fs F) (addrB F g) bs) (nGr F) (addrB F) (tamB F)
      (\<lambda>h. unat (((\<lambda>h. bg_free_blocks_count (f_bgdt F ! h))(g := c)) h)) (unat s)"
  shows "fs_ok (con_mapaB F g bs c s)"
proof -
  note mI = fs_okD(3) [OF ok]
  have "(\<lambda>h. unat (((\<lambda>h. bg_free_blocks_count (f_bgdt F ! h))(g := c)) h)) = (cntB F)(g := unat c)"
    by (auto simp: cntB_def)
  with m have "mapas_ok (put_bytes (f_ext2fs F) (addrB F g) bs) (nGr F) (addrB F) (tamB F)
      ((cntB F)(g := unat c)) (unat s)" by simp
  moreover have "\<forall>h < nGr F. disjuntos (addrI F h) (tamI F h) (addrB F g) (length bs)"
    using fs_okD(4) [OF ok g] len by (auto simp: disjuntos_def)
  then have "mapas_ok (put_bytes (f_ext2fs F) (addrB F g) bs) (nGr F) (addrI F) (tamI F) (cntI F)
      (unat (s_free_inodes_count (f_sb F)))"
    using mapas_ok_ajeno [OF mI] mapas_okD(2) [OF fs_okD(2) [OF ok] g] len by simp
  ultimately show ?thesis
    using ok g unfolding fs_ok_def con_mapaB_view [OF g] by (simp add: con_mapaB_def)
qed

lemma con_mapaI_ok:
  assumes ok: "fs_ok F" and g: "g < nGr F" and len: "length bs = tamI F g"
    and m: "mapas_ok (put_bytes (f_ext2fs F) (addrI F g) bs) (nGr F) (addrI F) (tamI F)
      (\<lambda>h. unat (((\<lambda>h. bg_free_inodes_count (f_bgdt F ! h))(g := c)) h)) (unat s)"
  shows "fs_ok (con_mapaI F g bs c s)"
proof -
  note mB = fs_okD(2) [OF ok]
  have "(\<lambda>h. unat (((\<lambda>h. bg_free_inodes_count (f_bgdt F ! h))(g := c)) h)) = (cntI F)(g := unat c)"
    by (auto simp: cntI_def)
  with m have "mapas_ok (put_bytes (f_ext2fs F) (addrI F g) bs) (nGr F) (addrI F) (tamI F)
      ((cntI F)(g := unat c)) (unat s)" by simp
  moreover have "\<forall>h < nGr F. disjuntos (addrB F h) (tamB F h) (addrI F g) (length bs)"
    using fs_okD(4) [OF ok _ g] len by (auto simp: disjuntos_def)
  then have "mapas_ok (put_bytes (f_ext2fs F) (addrI F g) bs) (nGr F) (addrB F) (tamB F) (cntB F)
      (unat (s_free_blocks_count (f_sb F)))"
    using mapas_ok_ajeno [OF mB] mapas_okD(2) [OF fs_okD(3) [OF ok] g] len by simp
  ultimately show ?thesis
    using ok g unfolding fs_ok_def con_mapaI_view [OF g] by (simp add: con_mapaI_def)
qed

interpretation bl: familia addrB tamB primero bpg "\<lambda>F g. bg_free_blocks_count (f_bgdt F ! g)"
  "\<lambda>F. s_free_blocks_count (f_sb F)" con_mapaB Grupos_utilizarBloqueEnBitmap
  Grupos_liberarBloqueEnBitmap "\<lambda>F. Grupos_buscarBloqueLibre (f_ext2fs F) (f_sb F) (f_bgdt F)"
  Grupos_pedirBloqueLibre bloque_valido bloque_ocupado
proof (unfold_locales, goal_cases)
  case (1 F)
  then show ?case using fs_okD(2) [of F] by (simp add: cntB_def [abs_def])
next
  case (2 F)
  then show ?case using fs_okD(1) [of F] by (simp add: geom_ok_def)
next
  case (5 g F bs c s)
  then show ?case
    using con_mapaB_view [of g F bs c s] by (auto simp: con_mapaB_def nth_list_update fun_eq_iff)
next
  case (6 F g bs c s)
  then show ?case by (rule con_mapaB_ok)
next
  case (9 F n g)
  then show ?case by (rule utilizarBloque_con)
next
  case (10 F n g)
  then show ?case by (rule liberarBloque_con)
next
  case (11 F g k)
  then show ?case by (rule buscarBloque_eq)
qed (auto simp: fs_ok_def geom_ok_def con_mapaB_def bloque_valido_def bloque_ocupado_def mapaB_def
    Grupos_pedirBloqueLibre_def)

interpretation ino: familia addrI tamI "\<lambda>_. 1" ipg "\<lambda>F g. bg_free_inodes_count (f_bgdt F ! g)"
  "\<lambda>F. s_free_inodes_count (f_sb F)" con_mapaI Grupos_utilizarInodoEnBitmap
  Grupos_liberarInodoEnBitmap "\<lambda>F. Inode_buscarLibre (f_ext2fs F) (f_sb F) (f_bgdt F)"
  Inode_pedirInodoLibre inodo_valido inodo_ocupado
proof (unfold_locales, goal_cases)
  case (1 F)
  then show ?case using fs_okD(3) [of F] by (simp add: cntI_def [abs_def])
next
  case (2 F)
  then show ?case using fs_okD(1) [of F] by (simp add: geom_ok_def)
next
  case (5 g F bs c s)
  then show ?case
    using con_mapaI_view [of g F bs c s] by (auto simp: con_mapaI_def nth_list_update fun_eq_iff)
next
  case (6 F g bs c s)
  then show ?case by (rule con_mapaI_ok)
next
  case (9 F n g)
  then show ?case by (rule utilizarInodo_con)
next
  case (10 F n g)
  then show ?case by (rule liberarInodo_con)
next
  case (11 F g k)
  then show ?case by (rule buscarInodo_eq)
qed (auto simp: fs_ok_def geom_ok_def con_mapaI_def inodo_valido_def inodo_ocupado_def mapaI_def
    Inode_pedirInodoLibre_def)

section \<open>An image for the witnesses\<close>

text \<open>
  Two groups of 64 blocks and 64 inodes on an image of 100 blocks: every block of the first
  group is taken, blocks 69 to 72 and inodes 5 to 8 and 69 to 72 are free.
\<close>

definition disco_ej :: disk where
  "disco_ej = \<lparr>dk_len = 102400, dk_byte = (\<lambda>i.
     if i < 3072 then 0 else if i < 3080 then 0xFF
     else if i = 4096 then 0x0F else if 4096 < i \<and> i < 4104 then 0xFF
     else if i = 5120 then 0x0F else if 5120 < i \<and> i < 5125 then 0xFF
     else if i = 6144 then 0x0F else if 6144 < i \<and> i < 6152 then 0xFF
     else 0)\<rparr>"

definition sb_ej :: Superblock where
  "sb_ej = (dec_Superblock (replicate 84 0))
     \<lparr>s_inodes_count := 128, s_blocks_count := 100, s_free_blocks_count := 4,
      s_free_inodes_count := 8, s_first_data_block := 1, s_log_block_size := 0,
      s_blocks_per_group := 64, s_inodes_per_group := 64\<rparr>"

definition bgdt_ej :: "Group_descriptor list" where
  "bgdt_ej =
     [(dec_Group_descriptor (replicate 32 0))\<lparr>bg_block_bitmap := 3, bg_inode_bitmap := 4,
        bg_inode_table := 10, bg_free_blocks_count := 0, bg_free_inodes_count := 4\<rparr>,
      (dec_Group_descriptor (replicate 32 0))\<lparr>bg_block_bitmap := 5, bg_inode_bitmap := 6,
        bg_inode_table := 20, bg_free_blocks_count := 4, bg_free_inodes_count := 4\<rparr>]"

definition fs_ej :: fs where
  "fs_ej = \<lparr>f_ext2fs = disco_ej, f_sb = sb_ej, f_bgdt = bgdt_ej\<rparr>"

lemma libres_append [simp]: "libres (xs @ ys) = libres xs + libres ys"
  by (simp add: libres_def)

lemma bits_en_Suc: "bits_en d p (Suc t) = map (bit (dk_byte d p)) [0..<8] @ bits_en d (Suc p) t"
proof (rule nth_equalityI)
  fix i assume "i < length (bits_en d p (Suc t))"
  then have i: "i < 8 * Suc t" by simp
  show "bits_en d p (Suc t) ! i = (map (bit (dk_byte d p)) [0..<8] @ bits_en d (Suc p) t) ! i"
  proof (cases "i < 8")
    case True
    then show ?thesis by (simp add: bits_en_def tam_create nth_append)
  next
    case False
    then have "i div 8 = Suc ((i - 8) div 8)" "i mod 8 = (i - 8) mod 8"
      by (simp_all add: div_if mod_if)
    moreover have "(i - 8) div 8 < t" using i False by (intro div8_less) simp
    ultimately show ?thesis using i False by (simp add: bits_en_def tam_create nth_append)
  qed
qed simp

lemma bits_en_0: "bits_en d p 0 = []"
  by (simp add: bits_en_def bits_def tam_create)

lemma bits_en_numeral:
  "bits_en d p (numeral n) = map (bit (dk_byte d p)) [0..<8] @ bits_en d (p + 1) (pred_numeral n)"
  by (simp add: numeral_eq_Suc bits_en_Suc)

lemma bits_en_1: "bits_en d p 1 = map (bit (dk_byte d p)) [0..<8]"
  by (simp add: bits_en_Suc bits_en_0)

lemma upt_8: "[0..<8] = [0, 1, 2, 3, 4, 5, 6, 7 :: nat]"
  by (simp add: upt_rec)

lemmas bits_en_eval = upt_8 bits_en_numeral bits_en_1 bits_en_1 [unfolded One_nat_def] bits_en_0

lemma ej_sel:
  "length bgdt_ej = 2" "s_blocks_per_group sb_ej = 64" "s_inodes_per_group sb_ej = 64"
  "s_blocks_count sb_ej = 100" "s_first_data_block sb_ej = 1" "block_size sb_ej = 1024"
  "s_free_blocks_count sb_ej = 4" "s_free_inodes_count sb_ej = 8"
  "cantGrupos sb_ej = Some 2" "dk_len disco_ej = 102400"
  by (simp_all add: bgdt_ej_def sb_ej_def block_size_def cantGrupos_def disco_ej_def)

lemma ej_vista:
  "addrB fs_ej 0 = 3072" "addrB fs_ej (Suc 0) = 5120" "addrI fs_ej 0 = 4096" "addrI fs_ej (Suc 0) = 6144"
  "tamB fs_ej 0 = 8" "tamB fs_ej (Suc 0) = 5" "tamI fs_ej g = 8"
  "cntB fs_ej 0 = 0" "cntB fs_ej (Suc 0) = 4" "cntI fs_ej 0 = 4" "cntI fs_ej (Suc 0) = 4"
  by (simp_all add: addrB_def addrI_def tamB_def tamI_def cntB_def cntI_def fs_ej_def ej_sel
      tam_block_bitmap_def redondeo8_def bgdt_ej_def)

lemma ej_libres:
  "libres (bits_en disco_ej 3072 8) = 0" "libres (bits_en disco_ej 5120 5) = 4"
  "libres (bits_en disco_ej 4096 8) = 4" "libres (bits_en disco_ej 6144 8) = 4"
  by (simp_all add: bits_en_eval disco_ej_def)

lemma All_less_2: "(\<forall>g < 2. P g) \<longleftrightarrow> P 0 \<and> P (Suc 0)"
  by (auto simp: less_Suc_eq numeral_2_eq_2)

lemma fs_ok_ej: "fs_ok fs_ej"
proof -
  have s: "f_ext2fs fs_ej = disco_ej" "f_sb fs_ej = sb_ej" "f_bgdt fs_ej = bgdt_ej"
    by (simp_all add: fs_ej_def)
  have "geom_ok fs_ej"
    by (simp add: geom_ok_def s ej_sel All_less_2 ej_vista flip: length_0_conv)
  moreover have "mapas_ok disco_ej 2 (addrB fs_ej) (tamB fs_ej) (cntB fs_ej) 4"
    by (simp add: mapas_ok_def All_less_2 ej_vista ej_sel ej_libres disjuntos_def upt_rec [of _ 2])
  moreover have "mapas_ok disco_ej 2 (addrI fs_ej) (tamI fs_ej) (cntI fs_ej) 8"
    by (simp add: mapas_ok_def All_less_2 ej_vista ej_sel ej_libres disjuntos_def upt_rec [of _ 2])
  ultimately show ?thesis
    by (simp add: fs_ok_def s ej_sel All_less_2 ej_vista disjuntos_def)
qed

section \<open>Properties\<close>

lemma mapa_ajeno:
  assumes ok: "fs_ok F" and g: "g < nGr F" and h: "h < nGr F"
  shows "length bs = tamB F g \<Longrightarrow> mapaI (con_mapaB F g bs c s) h = mapaI F h"
    and "length bs = tamI F g \<Longrightarrow> mapaB (con_mapaI F g bs c s) h = mapaB F h"
proof -
  show "mapaI (con_mapaB F g bs c s) h = mapaI F h" if "length bs = tamB F g"
    using fs_okD(4) [OF ok g h] mapas_okD [OF fs_okD(3) [OF ok] h] that
    unfolding mapaI_def con_mapaB_view [OF g]
    by (auto simp: con_mapaB_def disjuntos_def intro!: bits_en_put_disj)
  show "mapaB (con_mapaI F g bs c s) h = mapaB F h" if "length bs = tamI F g"
    using fs_okD(4) [OF ok h g] mapas_okD [OF fs_okD(2) [OF ok] h] that
    unfolding mapaB_def con_mapaI_view [OF g]
    by (auto simp: con_mapaI_def disjuntos_def intro!: bits_en_put_disj)
qed

lemma ocupado_ajeno:
  assumes ok: "fs_ok F" and g: "g < nGr F"
  shows "length bs = tamB F g \<Longrightarrow> inodo_valido F m \<Longrightarrow>
      inodo_ocupado (con_mapaB F g bs c s) m = inodo_ocupado F m"
    and "length bs = tamI F g \<Longrightarrow> bloque_valido F m \<Longrightarrow>
      bloque_ocupado (con_mapaI F g bs c s) m = bloque_ocupado F m"
  using mapa_ajeno [OF ok g]
  by (simp_all add: inodo_ocupado_def inodo_valido_def bloque_ocupado_def bloque_valido_def
      con_mapaB_view(3) [OF g] con_mapaI_view(2,4) [OF g])

text \<open>
  C1: with a free block left, \<^verbatim>\<open>Grupos_pedirBloqueLibre\<close> returns a block that was free, marks
  that block and no other, takes one from the counters so that they keep counting the clear bits
  of the bitmaps, and writes nothing but block bitmaps.
\<close>

theorem Grupos_pedirBloqueLibre_correcto:
  assumes "fs_ok F" and "s_free_blocks_count (f_sb F) \<noteq> 0"
  shows "\<exists>b F'. Grupos_pedirBloqueLibre F = Some (b, F') \<and> fs_ok F'
    \<and> bloque_valido F b \<and> \<not> bloque_ocupado F b
    \<and> s_free_blocks_count (f_sb F') = s_free_blocks_count (f_sb F) - 1
    \<and> (\<forall>m. bloque_valido F m \<longrightarrow> bloque_ocupado F' m = (m = b \<or> bloque_ocupado F m))
    \<and> (\<forall>m. inodo_valido F m \<longrightarrow> inodo_ocupado F' m = inodo_ocupado F m)
    \<and> (\<forall>i < dk_len (f_ext2fs F). (\<forall>g < nGr F. i < addrB F g \<or> addrB F g + tamB F g \<le> i) \<longrightarrow>
          dk_byte (f_ext2fs F') i = dk_byte (f_ext2fs F) i)"
proof -
  have "0 < unat (s_free_blocks_count (f_sb F))" using assms(2) by (simp add: unat_gt_0)
  from bl.pedir_ok [OF assms(1) this] obtain b bs F' where
    p: "Grupos_pedirBloqueLibre F = Some (b, F')" "bloque_valido F b" "\<not> bloque_ocupado F b" "fs_ok F'"
      "\<forall>m. bloque_valido F m \<longrightarrow> bloque_ocupado F' m = (m = b \<or> bloque_ocupado F m)"
    and c: "F' = con_mapaB F ((unat b - primero F) div bpg F) bs
        (bg_free_blocks_count (f_bgdt F ! ((unat b - primero F) div bpg F)) - 1)
        (s_free_blocks_count (f_sb F) - 1)"
      "length bs = tamB F ((unat b - primero F) div bpg F)" by blast
  have g: "(unat b - primero F) div bpg F < nGr F" using p(2) by (simp add: bloque_valido_def)
  have "\<forall>i < dk_len (f_ext2fs F). (\<forall>g < nGr F. i < addrB F g \<or> addrB F g + tamB F g \<le> i) \<longrightarrow>
      dk_byte (f_ext2fs F') i = dk_byte (f_ext2fs F) i"
    unfolding c(1) using g c(2) by (auto simp: con_mapaB_def intro!: dk_byte_put_outside)
  moreover have "\<forall>m. inodo_valido F m \<longrightarrow> inodo_ocupado F' m = inodo_ocupado F m"
    unfolding c(1) using ocupado_ajeno(1) [OF assms(1) g c(2)] by blast
  moreover have "s_free_blocks_count (f_sb F') = s_free_blocks_count (f_sb F) - 1"
    unfolding c(1) by (simp add: con_mapaB_def)
  ultimately show ?thesis using p by blast
qed

theorem Grupos_pedirBloqueLibre_correcto_witness:
  "\<exists>b F'. Grupos_pedirBloqueLibre fs_ej = Some (b, F') \<and> fs_ok F'
    \<and> bloque_valido fs_ej b \<and> \<not> bloque_ocupado fs_ej b
    \<and> s_free_blocks_count (f_sb F') = s_free_blocks_count (f_sb fs_ej) - 1"
  using Grupos_pedirBloqueLibre_correcto [OF fs_ok_ej] by (auto simp: fs_ej_def ej_sel)

text \<open>
  With a free inode left, \<^verbatim>\<open>Inode_pedirInodoLibre\<close> returns an inode that was free and marks
  it and nothing else; inodes are numbered from one.
\<close>

lemma Inode_pedirInodoLibre_correcto:
  assumes "fs_ok F" and "s_free_inodes_count (f_sb F) \<noteq> 0"
  shows "\<exists>n F'. Inode_pedirInodoLibre F = Some (n, F') \<and> fs_ok F' \<and> 1 \<le> unat n
    \<and> inodo_valido F n \<and> \<not> inodo_ocupado F n
    \<and> s_free_inodes_count (f_sb F') = s_free_inodes_count (f_sb F) - 1
    \<and> (\<forall>m. inodo_valido F m \<longrightarrow> inodo_ocupado F' m = (m = n \<or> inodo_ocupado F m))
    \<and> (\<forall>m. bloque_valido F m \<longrightarrow> bloque_ocupado F' m = bloque_ocupado F m)"
proof -
  have "0 < unat (s_free_inodes_count (f_sb F))" using assms(2) by (simp add: unat_gt_0)
  from ino.pedir_ok [OF assms(1) this] obtain n bs F' where
    p: "Inode_pedirInodoLibre F = Some (n, F')" "inodo_valido F n" "\<not> inodo_ocupado F n" "fs_ok F'"
      "\<forall>m. inodo_valido F m \<longrightarrow> inodo_ocupado F' m = (m = n \<or> inodo_ocupado F m)"
    and c: "F' = con_mapaI F ((unat n - 1) div ipg F) bs
        (bg_free_inodes_count (f_bgdt F ! ((unat n - 1) div ipg F)) - 1)
        (s_free_inodes_count (f_sb F) - 1)"
      "length bs = tamI F ((unat n - 1) div ipg F)" by blast
  have g: "(unat n - 1) div ipg F < nGr F" "1 \<le> unat n" using p(2) by (simp_all add: inodo_valido_def)
  have "\<forall>m. bloque_valido F m \<longrightarrow> bloque_ocupado F' m = bloque_ocupado F m"
    unfolding c(1) using ocupado_ajeno(2) [OF assms(1) g(1) c(2)] by blast
  moreover have "s_free_inodes_count (f_sb F') = s_free_inodes_count (f_sb F) - 1"
    unfolding c(1) by (simp add: con_mapaI_def)
  ultimately show ?thesis using p g(2) by blast
qed

lemma Inode_pedirInodoLibre_correcto_ej:
  "\<exists>n F'. Inode_pedirInodoLibre fs_ej = Some (n, F') \<and> fs_ok F' \<and> 1 \<le> unat n
    \<and> inodo_valido fs_ej n \<and> \<not> inodo_ocupado fs_ej n"
  using Inode_pedirInodoLibre_correcto [OF fs_ok_ej] by (auto simp: fs_ej_def ej_sel)

text \<open>
  Requests never hand out a block twice. As many requests in a row as there are free blocks
  all succeed, with pairwise distinct blocks that were free before.
\<close>

lemma Grupos_pedir_distintos:
  assumes "fs_ok F" and "k \<le> unat (s_free_blocks_count (f_sb F))"
  shows "\<exists>bs F'. asignador.pide_n Grupos_pedirBloqueLibre k F = Some (bs, F')
    \<and> length bs = k \<and> distinct bs \<and> fs_ok F'
    \<and> (\<forall>b \<in> set bs. bloque_valido F b \<and> \<not> bloque_ocupado F b)
    \<and> (\<forall>m. bloque_valido F m \<longrightarrow> bloque_ocupado F' m = (m \<in> set bs \<or> bloque_ocupado F m))"
  using bl.pide_n_distintos [OF assms] by blast

lemma Grupos_pedir_distintos_ej:
  "\<exists>bs F'. asignador.pide_n Grupos_pedirBloqueLibre 4 fs_ej = Some (bs, F')
    \<and> length bs = 4 \<and> distinct bs \<and> fs_ok F'"
  using Grupos_pedir_distintos [OF fs_ok_ej, of 4] by (auto simp: fs_ej_def ej_sel)

text \<open>
  Giving back the block just requested restores the bitmaps of blocks and the counters.
\<close>

lemma Grupos_pedir_liberar:
  assumes "fs_ok F" and "0 < unat (s_free_blocks_count (f_sb F))"
  shows "\<exists>b F' F''. Grupos_pedirBloqueLibre F = Some (b, F')
    \<and> Grupos_liberarBloqueEnBitmap F' b = Some F'' \<and> fs_ok F''
    \<and> s_free_blocks_count (f_sb F'') = s_free_blocks_count (f_sb F)
    \<and> (\<forall>m. bloque_valido F m \<longrightarrow> bloque_ocupado F'' m = bloque_ocupado F m)"
  using bl.pide_devuelve [OF assms] by (simp add: word_unat_eq_iff)

lemma Grupos_pedir_liberar_ej:
  "\<exists>b F' F''. Grupos_pedirBloqueLibre fs_ej = Some (b, F')
    \<and> Grupos_liberarBloqueEnBitmap F' b = Some F''
    \<and> s_free_blocks_count (f_sb F'') = s_free_blocks_count (f_sb fs_ej)"
  using Grupos_pedir_liberar [OF fs_ok_ej] by (auto simp: fs_ej_def ej_sel)

lemma leer_escrita_Tabla:
  assumes c: "cantGrupos sb = Some c" "length bgdt = unat c" "0 < unat c" "32 * unat c < 2 ^ 32"
    and p: "unat (block_size sb * (s_first_data_block sb + 1)) < 2 ^ 31"
  shows "\<exists>d'. Grupos_escribirTabla d sb bgdt = Some d' \<and> Grupos_leerTabla d' sb = Some bgdt
    \<and> d' = put_bytes d (unat (block_size sb * (s_first_data_block sb + 1)))
             (concat (map enc_Group_descriptor bgdt))"
proof -
  let ?bs = "concat (map enc_Group_descriptor bgdt)"
  let ?p = "block_size sb * (s_first_data_block sb + 1)"
  have n: "unat (32 * c) = 32 * unat c" using c(4) by (subst unat_mult_u32) simp_all
  have len: "length ?bs = 32 * unat c"
    using length_concat_fixed [of bgdt enc_Group_descriptor 32] c(2) by (simp add: gdc.enc_width)
  have w: "Grupos_escribirTabla d sb bgdt = Some (put_bytes d (unat ?p) ?bs)"
    using c p n by (simp add: Grupos_escribirTabla_def disk_write_def Let_def)
  have "disk_write d ?p ?bs = Some (put_bytes d (unat ?p) ?bs)" using p by (simp add: disk_write_def)
  moreover have "?bs \<noteq> []" using len c(3) by (metis list.size(3) mult_pos_pos less_irrefl zero_less_numeral)
  ultimately have r: "disk_read (put_bytes d (unat ?p) ?bs) ?p (32 * unat c) = Some ?bs"
    using dk.rd_wr_same len by metis
  have "map (\<lambda>i. dec_Group_descriptor (take 32 (drop (32 * i) ?bs))) [0..<unat c] = bgdt"
    using nth_concat_fixed [of bgdt enc_Group_descriptor 32] c(2)
    by (intro nth_equalityI) (simp_all add: gdc.enc_width gdc.dec_enc)
  then show ?thesis
    using w r c n by (simp add: Grupos_leerTabla_def Let_def)
qed

text \<open>
  The descriptor table written to the disk is read back as it was, and writing it does not
  touch the superblock.
\<close>

lemma Grupos_Tabla_roundtrip:
  assumes "cantGrupos sb = Some c" "length bgdt = unat c" "0 < unat c" "32 * unat c < 2 ^ 32"
    and "unat (block_size sb * (s_first_data_block sb + 1)) < 2 ^ 31"
    and "1108 \<le> unat (block_size sb * (s_first_data_block sb + 1))" and "1108 \<le> dk_len d"
  shows "\<exists>d'. Grupos_escribirTabla d sb bgdt = Some d' \<and> Grupos_leerTabla d' sb = Some bgdt
    \<and> Superblock_leer d' = Superblock_leer d"
proof -
  from leer_escrita_Tabla [OF assms(1-5)] obtain d' where
    d': "Grupos_escribirTabla d sb bgdt = Some d'" "Grupos_leerTabla d' sb = Some bgdt"
      "d' = put_bytes d (unat (block_size sb * (s_first_data_block sb + 1)))
         (concat (map enc_Group_descriptor bgdt))" by blast
  have "disk_read d 1024 84 = Some (bytes_at d 1024 84)"
    using assms(7) by (simp add: disk_read_def)
  moreover have "disk_write d (block_size sb * (s_first_data_block sb + 1))
      (concat (map enc_Group_descriptor bgdt)) = Some d'"
    using assms(5) d'(3) by (simp add: disk_write_def)
  ultimately have "disk_read d' 1024 84 = disk_read d 1024 84"
    using dk.rd_wr_disj assms(6) by fastforce
  then show ?thesis using d'(1,2) by (simp add: Superblock_leer_def)
qed

lemma Grupos_Tabla_roundtrip_ej:
  "\<exists>d'. Grupos_escribirTabla disco_ej sb_ej bgdt_ej = Some d' \<and> Grupos_leerTabla d' sb_ej = Some bgdt_ej
    \<and> Superblock_leer d' = Superblock_leer disco_ej"
  by (rule Grupos_Tabla_roundtrip [where c = 2]) (simp_all add: ej_sel)

lemma sin_cuentas:
  assumes "mapas_ok d G addr tm cnt 0" "g < G"
  shows "cnt g = 0"
  using assms by (auto simp: mapas_ok_def sum_list_eq_0_iff)

lemma fuera_de_tabla:
  assumes "0 < p" "b + n * p \<le> 2 ^ 31"
  shows "n \<le> (2 ^ 32 - 1 - b) div (p :: nat)"
  using assms by (simp add: less_eq_div_iff_mult_less_eq)

text \<open>
  C32: with nothing free, the search returns minus one and the two request functions use it as a
  number: they read a descriptor far outside the table. The callers of \<^verbatim>\<open>Grupos_pedirBloqueLibre\<close>
  test the count of free blocks first; nothing tests the count of free inodes.
\<close>

theorem pedir_sin_libres:
  assumes "fs_ok F"
  shows "(s_free_blocks_count (f_sb F) = 0 \<longrightarrow>
      Grupos_buscarBloqueLibre (f_ext2fs F) (f_sb F) (f_bgdt F) = Some (- 1)
      \<and> Grupos_pedirBloqueLibre F = None)
    \<and> (s_free_inodes_count (f_sb F) = 0 \<longrightarrow>
      Inode_buscarLibre (f_ext2fs F) (f_sb F) (f_bgdt F) = Some (- 1)
      \<and> Inode_pedirInodoLibre F = None)"
proof (intro conjI impI)
  note G = fs_okD(1) [OF assms]
  have cant: "cantGrupos (f_sb F) = Some (word_of_nat (nGr F))" "unat (word_of_nat (nGr F) :: u32) = nGr F"
    using G nGr_lt [OF G] by (simp_all add: geom_ok_def unat_of_nat_u32)
  have nz: "s_blocks_per_group (f_sb F) \<noteq> 0" "s_inodes_per_group (f_sb F) \<noteq> 0"
    using G by (auto simp: geom_ok_def)
  {
    assume z: "s_free_blocks_count (f_sb F) = 0"
    have "bg_free_blocks_count (f_bgdt F ! g) = 0" if "g < nGr F" for g
      using sin_cuentas [OF _ that, of _ "addrB F" "tamB F" "cntB F"] fs_okD(2) [OF assms] z
      by (simp add: cntB_def unsigned_eq_0_iff)
    then show b: "Grupos_buscarBloqueLibre (f_ext2fs F) (f_sb F) (f_bgdt F) = Some (- 1)"
      using buscarBloque_prefijo [of "[0..<nGr F]" "f_bgdt F" _ _ "[]"] cant
      by (simp add: Grupos_buscarBloqueLibre_def)
    have "unat (- 1 - s_first_data_block (f_sb F)) = 2 ^ 32 - 1 - primero F"
      by (subst unat_sub_u32) (simp_all add: unat_m1_u32 less_Suc_eq_le [symmetric])
    then have "nGr F \<le> unat ((- 1 - s_first_data_block (f_sb F)) div s_blocks_per_group (f_sb F))"
      using fuera_de_tabla [of "bpg F" "primero F" "nGr F"] G by (simp add: geom_ok_def unat_div)
    then show "Grupos_pedirBloqueLibre F = None"
      using b nz by (simp add: Grupos_pedirBloqueLibre_def Grupos_utilizarBloqueEnBitmap_def Let_def
          Grupos_leerBlockBitmap_def bind_eq_None_conv)
  next
    assume z: "s_free_inodes_count (f_sb F) = 0"
    have "bg_free_inodes_count (f_bgdt F ! g) = 0" if "g < nGr F" for g
      using sin_cuentas [OF _ that, of _ "addrI F" "tamI F" "cntI F"] fs_okD(3) [OF assms] z
      by (simp add: cntI_def unsigned_eq_0_iff)
    moreover have "unat (word_of_nat (nGr F) - 1 :: u32) + 1 = nGr F"
      using G cant(2) by (subst unat_pred_u32) (auto simp: geom_ok_def)
    ultimately show b: "Inode_buscarLibre (f_ext2fs F) (f_sb F) (f_bgdt F) = Some (- 1)"
      using buscarInodo_prefijo [of "[0..<nGr F]" "f_bgdt F" _ _ "[]"] cant
      by (simp add: Inode_buscarLibre_def del: upt_Suc)
    have "nGr F \<le> unat ((- 1 - 1) div s_inodes_per_group (f_sb F))"
      using fuera_de_tabla [of "ipg F" 1 "nGr F"] G by (simp add: geom_ok_def unat_div)
    then show "Inode_pedirInodoLibre F = None"
      using b nz by (simp add: Inode_pedirInodoLibre_def Grupos_utilizarInodoEnBitmap_def Let_def
          Grupos_leerInodeBitmap_def bind_eq_None_conv)
  }
qed

definition fs_lleno :: fs where
  "fs_lleno = \<lparr>f_ext2fs = \<lparr>dk_len = 102400, dk_byte = (\<lambda>_. 0xFF)\<rparr>,
     f_sb = sb_ej\<lparr>s_free_blocks_count := 0, s_free_inodes_count := 0\<rparr>,
     f_bgdt = map (\<lambda>g. g\<lparr>bg_free_blocks_count := 0, bg_free_inodes_count := 0\<rparr>) bgdt_ej\<rparr>"

lemma fs_ok_lleno: "fs_ok fs_lleno"
proof -
  have s: "nGr fs_lleno = 2" "f_sb fs_lleno = sb_ej\<lparr>s_free_blocks_count := 0, s_free_inodes_count := 0\<rparr>"
    "dk_len (f_ext2fs fs_lleno) = 102400" "dk_byte (f_ext2fs fs_lleno) = (\<lambda>_. 0xFF)"
    by (simp_all add: fs_lleno_def ej_sel)
  have v: "addrB fs_lleno 0 = 3072" "addrB fs_lleno (Suc 0) = 5120"
    "addrI fs_lleno 0 = 4096" "addrI fs_lleno (Suc 0) = 6144"
    "tamB fs_lleno 0 = 8" "tamB fs_lleno (Suc 0) = 5" "\<And>g. tamI fs_lleno g = 8"
    "cntB fs_lleno 0 = 0" "cntB fs_lleno (Suc 0) = 0" "cntI fs_lleno 0 = 0" "cntI fs_lleno (Suc 0) = 0"
    by (simp_all add: addrB_def addrI_def tamB_def tamI_def cntB_def cntI_def fs_lleno_def ej_sel
        tam_block_bitmap_def redondeo8_def bgdt_ej_def cantGrupos_def block_size_def sb_ej_def)
  have l: "libres (bits_en (f_ext2fs fs_lleno) p 8) = 0" "libres (bits_en (f_ext2fs fs_lleno) p 5) = 0" for p
    by (simp_all add: bits_en_eval s)
  have c: "cantGrupos (f_sb fs_lleno) = Some 2" by (simp add: s ej_sel)
  have "geom_ok fs_lleno"
    unfolding geom_ok_def c s(1) by (simp add: s ej_sel All_less_2 v)
  moreover have "mapas_ok (f_ext2fs fs_lleno) 2 (addrB fs_lleno) (tamB fs_lleno) (cntB fs_lleno) 0"
    by (simp add: mapas_ok_def All_less_2 v s l disjuntos_def upt_rec [of _ 2])
  moreover have "mapas_ok (f_ext2fs fs_lleno) 2 (addrI fs_lleno) (tamI fs_lleno) (cntI fs_lleno) 0"
    by (simp add: mapas_ok_def All_less_2 v s l disjuntos_def upt_rec [of _ 2])
  ultimately show ?thesis
    unfolding fs_ok_def s(1) by (simp add: s All_less_2 v disjuntos_def)
qed

theorem pedir_sin_libres_witness:
  "Grupos_pedirBloqueLibre fs_lleno = None \<and> Inode_pedirInodoLibre fs_lleno = None"
  using pedir_sin_libres [OF fs_ok_lleno] by (simp add: fs_lleno_def)

end
