(* ===== verification/Inodos.thy ===== *)
theory Inodos
  imports Grupos
begin

text \<open>
  The inodes, \<^verbatim>\<open>rfs/Inode.c\<close>: reading and writing an inode of the table, finding the disk block
  that holds block \<open>n\<close> of a file through up to three levels of indirection, giving a file one
  more block or taking its last one away, and the two directions of truncation.

  The functions of the source that change the inode they are given return it here, together
  with the file system state; \<open>None\<close> is again an access outside an object or an image that ends
  too early.
\<close>

section \<open>The inode table\<close>

record t_permisos =
  otherExec :: bool
  otherWrite :: bool
  otherRead :: bool
  groupExec :: bool
  groupWrite :: bool
  groupRead :: bool
  userExec :: bool
  userWrite :: bool
  userRead :: bool

text \<open>The bit fields of the struct are allocated from the least significant bit on.\<close>

definition Inode_leerPermisos :: "u16 \<Rightarrow> t_permisos" where
  "Inode_leerPermisos imodo =
     \<lparr>otherExec = bit imodo 0, otherWrite = bit imodo 1, otherRead = bit imodo 2,
      groupExec = bit imodo 3, groupWrite = bit imodo 4, groupRead = bit imodo 5,
      userExec = bit imodo 6, userWrite = bit imodo 7, userRead = bit imodo 8\<rparr>"

definition Inode_leerTabla ::
  "disk \<Rightarrow> u32 \<Rightarrow> u32 \<Rightarrow> Group_descriptor list \<Rightarrow> u32 \<Rightarrow> Inode list option" where
  "Inode_leerTabla ext2fs nroGrupo cantInodos bgdt bs =
     (let n = unat (128 * cantInodos) in
      if unat nroGrupo < length bgdt \<and> n \<noteq> 0 then do {
        t \<leftarrow> disk_read ext2fs (bg_inode_table (bgdt ! unat nroGrupo) * bs) n;
        Some (map (\<lambda>i. dec_Inode (take 128 (drop (128 * i) t))) [0..<n div 128]) }
      else None)"

text \<open>The byte at which an inode starts.\<close>

definition pos_inodo :: "u32 \<Rightarrow> Group_descriptor list \<Rightarrow> u32 \<Rightarrow> u32 \<Rightarrow> u32 option" where
  "pos_inodo inodos_por_grupo bgdt nroInodo bs =
     (if inodos_por_grupo = 0 then None else
      let grupo_inodo = (nroInodo - 1) div inodos_por_grupo;
          indiceEnGrupo = (nroInodo - 1) mod inodos_por_grupo in
      if unat grupo_inodo < length bgdt
      then Some (bg_inode_table (bgdt ! unat grupo_inodo) * bs + indiceEnGrupo * 128)
      else None)"

definition Inode_leerInodo ::
  "disk \<Rightarrow> u32 \<Rightarrow> Group_descriptor list \<Rightarrow> u32 \<Rightarrow> u32 \<Rightarrow> Inode option" where
  "Inode_leerInodo ext2fs inodos_por_grupo bgdt nroInodo bs =
     do { p \<leftarrow> pos_inodo inodos_por_grupo bgdt nroInodo bs;
          map_option dec_Inode (disk_read ext2fs p 128) }"

definition Inode_escribirInodo ::
  "disk \<Rightarrow> u32 \<Rightarrow> Group_descriptor list \<Rightarrow> u32 \<Rightarrow> u32 \<Rightarrow> Inode \<Rightarrow> disk option" where
  "Inode_escribirInodo ext2fs inodos_por_grupo bgdt nroInodo bs inodo =
     do { p \<leftarrow> pos_inodo inodos_por_grupo bgdt nroInodo bs;
          disk_write ext2fs p (enc_Inode inodo) }"

section \<open>Blocks of pointers\<close>

definition buscarBloque :: "disk \<Rightarrow> u32 \<Rightarrow> u32 \<Rightarrow> u32 \<Rightarrow> u32 \<Rightarrow> u32 option" where
  "buscarBloque ext2fs bloque pos tamPuntero bs =
     map_option dec32 (disk_read ext2fs (bloque * bs + pos * tamPuntero) (unat tamPuntero))"

definition esCero :: "disk \<Rightarrow> u32 \<Rightarrow> u32 \<Rightarrow> u32 \<Rightarrow> u32 \<Rightarrow> u32 option" where
  "esCero ext2fs bloque bs pos tamPuntero =
     map_option dec32 (disk_read ext2fs (bloque * bs + pos * tamPuntero) 4)"

definition escribirCero :: "disk \<Rightarrow> u32 \<Rightarrow> u32 \<Rightarrow> u32 \<Rightarrow> u32 \<Rightarrow> disk option" where
  "escribirCero ext2fs bloque pos tamPuntero bs =
     disk_write ext2fs (bloque * bs + pos * tamPuntero) (enc32 0)"

definition escribirPtroBloq :: "disk \<Rightarrow> u32 \<Rightarrow> u32 \<Rightarrow> u32 \<Rightarrow> u32 \<Rightarrow> u32 \<Rightarrow> disk option" where
  "escribirPtroBloq ext2fs bloque pos tamPuntero bs bloqAbs =
     disk_write ext2fs (bloque * bs + pos * tamPuntero) (enc32 bloqAbs)"

definition inicializarBloqdePtros :: "disk \<Rightarrow> u32 \<Rightarrow> u32 \<Rightarrow> u32 \<Rightarrow> u32 \<Rightarrow> disk option" where
  "inicializarBloqdePtros ext2fs bloque tamPuntero cantPunteros bs =
     disk_write ext2fs (bloque * bs) (replicate (unat bs) 0)"

text \<open>
  Block \<open>nroBloque\<close> of a file. Twelve blocks are named by the inode itself; the next ones are
  reached through one, two and three blocks of pointers.
\<close>

definition Inode_leerBloque :: "disk \<Rightarrow> u32 \<Rightarrow> Inode \<Rightarrow> u32 \<Rightarrow> u32 option" where
  "Inode_leerBloque ext2fs nroBloque inodo bs =
     (let tamPuntero = 4; cantPunteros = bs div tamPuntero in
      if nroBloque < 12 then Some (i_block inodo ! unat nroBloque)
      else let nroBloque = nroBloque - 12 in
      if nroBloque < cantPunteros
      then buscarBloque ext2fs (i_block inodo ! 12) nroBloque tamPuntero bs
      else let nroBloque = nroBloque - cantPunteros in
      if nroBloque < cantPunteros * cantPunteros
      then let pos2 = nroBloque mod cantPunteros; pos = nroBloque div cantPunteros in
           do { b \<leftarrow> buscarBloque ext2fs (i_block inodo ! 13) pos tamPuntero bs;
                buscarBloque ext2fs b pos2 tamPuntero bs }
      else let nroBloque = nroBloque - cantPunteros * cantPunteros in
      if nroBloque < cantPunteros * cantPunteros * cantPunteros
      then let pos3 = nroBloque mod cantPunteros;
               pos2 = (nroBloque div cantPunteros) mod cantPunteros;
               pos = (nroBloque div cantPunteros) div cantPunteros in
           do { b \<leftarrow> buscarBloque ext2fs (i_block inodo ! 14) pos tamPuntero bs;
                b \<leftarrow> buscarBloque ext2fs b pos2 tamPuntero bs;
                buscarBloque ext2fs b pos3 tamPuntero bs }
      else Some 0)"

section \<open>Taking blocks away\<close>

abbreviation en_disco :: "fs \<Rightarrow> (disk \<Rightarrow> disk option) \<Rightarrow> fs option" where
  "en_disco F f \<equiv> map_option (\<lambda>d. F\<lparr>f_ext2fs := d\<rparr>) (f (f_ext2fs F))"

abbreviation pon_bloque :: "Inode \<Rightarrow> nat \<Rightarrow> u32 \<Rightarrow> Inode" where
  "pon_bloque inodo i b \<equiv> inodo\<lparr>i_block := (i_block inodo)[i := b]\<rparr>"

definition Inode_liberarBloque :: "fs \<Rightarrow> u32 \<Rightarrow> Inode \<Rightarrow> (fs \<times> Inode) option" where
  "Inode_liberarBloque F nroBloque inodo =
     (let tamPuntero = 4; bs = block_size (f_sb F); cantPunteros = bs div tamPuntero in
      if nroBloque < 12 then
        let bloque1 = i_block inodo ! unat nroBloque; inodo = pon_bloque inodo (unat nroBloque) 0 in
        do { F \<leftarrow> Grupos_liberarBloqueEnBitmap F bloque1; Some (F, inodo) }
      else let nroBloque = nroBloque - 12 in
      if nroBloque < cantPunteros then
        let pos = nroBloque; bloque1 = i_block inodo ! 12 in
        do { bloque2 \<leftarrow> buscarBloque (f_ext2fs F) bloque1 pos tamPuntero bs;
             (F, inodo) \<leftarrow>
               (if pos = 0
                then do { F \<leftarrow> Grupos_liberarBloqueEnBitmap F bloque1;
                          Some (F, pon_bloque inodo 12 0) }
                else Some (F, inodo));
             F \<leftarrow> en_disco F (\<lambda>d. escribirCero d bloque1 pos tamPuntero bs);
             F \<leftarrow> Grupos_liberarBloqueEnBitmap F bloque2;
             Some (F, inodo) }
      else let nroBloque = nroBloque - cantPunteros in
      if nroBloque < cantPunteros * cantPunteros then
        let pos2 = nroBloque mod cantPunteros; pos = nroBloque div cantPunteros;
            bloque1 = i_block inodo ! 13 in
        do { bloque2 \<leftarrow> buscarBloque (f_ext2fs F) bloque1 pos tamPuntero bs;
             bloque3 \<leftarrow> buscarBloque (f_ext2fs F) bloque2 pos2 tamPuntero bs;
             (F, inodo) \<leftarrow>
               (if pos2 = 0
                then do { F \<leftarrow> en_disco F (\<lambda>d. escribirCero d bloque1 pos tamPuntero bs);
                          F \<leftarrow> Grupos_liberarBloqueEnBitmap F bloque2;
                          if pos = 0
                          then do { F \<leftarrow> Grupos_liberarBloqueEnBitmap F bloque1;
                                    Some (F, pon_bloque inodo 13 0) }
                          else Some (F, inodo) }
                else Some (F, inodo));
             F \<leftarrow> en_disco F (\<lambda>d. escribirCero d bloque2 pos2 tamPuntero bs);
             F \<leftarrow> Grupos_liberarBloqueEnBitmap F bloque3;
             Some (F, inodo) }
      else let nroBloque = nroBloque - cantPunteros * cantPunteros in
      if nroBloque < cantPunteros * cantPunteros * cantPunteros then
        let pos3 = nroBloque mod cantPunteros;
            pos2 = (nroBloque div cantPunteros) mod cantPunteros;
            pos = (nroBloque div cantPunteros) div cantPunteros;
            bloque1 = i_block inodo ! 14 in
        do { bloque2 \<leftarrow> buscarBloque (f_ext2fs F) bloque1 pos tamPuntero bs;
             bloque3 \<leftarrow> buscarBloque (f_ext2fs F) bloque2 pos2 tamPuntero bs;
             bloque4 \<leftarrow> buscarBloque (f_ext2fs F) bloque3 pos3 tamPuntero bs;
             (F, inodo) \<leftarrow>
               (if pos3 = 0
                then do { F \<leftarrow> en_disco F (\<lambda>d. escribirCero d bloque2 pos2 tamPuntero bs);
                          F \<leftarrow> Grupos_liberarBloqueEnBitmap F bloque3;
                          if pos2 = 0
                          then do { F \<leftarrow> en_disco F (\<lambda>d. escribirCero d bloque1 pos tamPuntero bs);
                                    F \<leftarrow> Grupos_liberarBloqueEnBitmap F bloque2;
                                    if pos = 0
                                    then do { F \<leftarrow> Grupos_liberarBloqueEnBitmap F bloque1;
                                              Some (F, pon_bloque inodo 14 0) }
                                    else Some (F, inodo) }
                          else Some (F, inodo) }
                else Some (F, inodo));
             F \<leftarrow> en_disco F (\<lambda>d. escribirCero d bloque3 pos3 tamPuntero bs);
             F \<leftarrow> Grupos_liberarBloqueEnBitmap F bloque4;
             Some (F, inodo) }
      else Some (F, inodo))"

text \<open>The number of blocks a size needs.\<close>

definition cant_bloques :: "u32 \<Rightarrow> u32 \<Rightarrow> u32 option" where
  "cant_bloques sz bs =
     (if bs = 0 then None else Some (if sz mod bs > 0 then sz div bs + 1 else sz div bs))"

primrec liberar_bloques :: "nat list \<Rightarrow> fs \<times> Inode \<Rightarrow> (fs \<times> Inode) option" where
  "liberar_bloques [] s = Some s"
| "liberar_bloques (i # is) s =
     do { s \<leftarrow> Inode_liberarBloque (fst s) (word_of_nat i) (snd s); liberar_bloques is s }"

text \<open>\<open>for(i=cantBloques;i>cantBloquesNuevo;i--)\<close> frees block \<open>i - 1\<close>.\<close>

definition Inode_truncarAbajo :: "fs \<Rightarrow> Inode \<Rightarrow> u32 \<Rightarrow> (fs \<times> Inode) option" where
  "Inode_truncarAbajo F inodo nuevoTam =
     do { let bs = block_size (f_sb F);
          cantBloques \<leftarrow> cant_bloques (i_size inodo) bs;
          cantBloquesNuevo \<leftarrow> cant_bloques nuevoTam bs;
          (F, inodo) \<leftarrow>
            liberar_bloques (rev [unat cantBloquesNuevo..<unat cantBloques]) (F, inodo);
          Some (F, inodo\<lparr>i_size := nuevoTam\<rparr>) }"

section \<open>Giving blocks\<close>

definition Inode_asignarBloque :: "fs \<Rightarrow> u32 \<Rightarrow> Inode \<Rightarrow> (int \<times> fs \<times> Inode) option" where
  "Inode_asignarBloque F nroBloque inodo =
     (let tamPuntero = 4; bs = block_size (f_sb F); cantPunteros = bs div tamPuntero;
          libres = s_free_blocks_count (f_sb F); d = f_ext2fs F in
      if nroBloque < 12 then
        if libres < 1 then Some (- 1, F, inodo) else
        do { (bloque1, F) \<leftarrow> Grupos_pedirBloqueLibre F;
             Some (0, F, pon_bloque inodo (unat nroBloque) bloque1) }
      else let nroBloque = nroBloque - 12 in
      if nroBloque < cantPunteros then
        let pos = nroBloque in
        if i_block inodo ! 12 = 0 then
          if libres < 2 then Some (- 1, F, inodo) else
          do { (bloque1, F) \<leftarrow> Grupos_pedirBloqueLibre F;
               let inodo = pon_bloque inodo 12 bloque1;
               (bloque2, F) \<leftarrow> Grupos_pedirBloqueLibre F;
               F \<leftarrow> en_disco F (\<lambda>d. inicializarBloqdePtros d bloque1 tamPuntero cantPunteros bs);
               F \<leftarrow> en_disco F (\<lambda>d. escribirPtroBloq d bloque1 pos tamPuntero bs bloque2);
               Some (0, F, inodo) }
        else
          if libres < 1 then Some (- 1, F, inodo) else
          do { let bloque1 = i_block inodo ! 12;
               (bloque2, F) \<leftarrow> Grupos_pedirBloqueLibre F;
               F \<leftarrow> en_disco F (\<lambda>d. escribirPtroBloq d bloque1 pos tamPuntero bs bloque2);
               Some (0, F, inodo) }
      else let nroBloque = nroBloque - cantPunteros in
      if nroBloque < cantPunteros * cantPunteros then
        let pos2 = nroBloque mod cantPunteros; pos = nroBloque div cantPunteros in
        if i_block inodo ! 13 = 0 then
          if libres < 3 then Some (- 1, F, inodo) else
          do { (bloque1, F) \<leftarrow> Grupos_pedirBloqueLibre F;
               let inodo = pon_bloque inodo 13 bloque1;
               (bloque2, F) \<leftarrow> Grupos_pedirBloqueLibre F;
               (bloque3, F) \<leftarrow> Grupos_pedirBloqueLibre F;
               F \<leftarrow> en_disco F (\<lambda>d. inicializarBloqdePtros d bloque1 tamPuntero cantPunteros bs);
               F \<leftarrow> en_disco F (\<lambda>d. inicializarBloqdePtros d bloque2 tamPuntero cantPunteros bs);
               F \<leftarrow> en_disco F (\<lambda>d. escribirPtroBloq d bloque1 pos tamPuntero bs bloque2);
               F \<leftarrow> en_disco F (\<lambda>d. escribirPtroBloq d bloque2 pos2 tamPuntero bs bloque3);
               Some (0, F, inodo) }
        else
          let bloque1 = i_block inodo ! 13 in
          do { z \<leftarrow> esCero d bloque1 bs pos tamPuntero;
               if z = 0 then
                 if libres < 2 then Some (- 1, F, inodo) else
                 do { (bloque2, F) \<leftarrow> Grupos_pedirBloqueLibre F;
                      (bloque3, F) \<leftarrow> Grupos_pedirBloqueLibre F;
                      F \<leftarrow> en_disco F (\<lambda>d. inicializarBloqdePtros d bloque2 tamPuntero cantPunteros bs);
                      F \<leftarrow> en_disco F (\<lambda>d. escribirPtroBloq d bloque1 pos tamPuntero bs bloque2);
                      F \<leftarrow> en_disco F (\<lambda>d. escribirPtroBloq d bloque2 pos2 tamPuntero bs bloque3);
                      Some (0, F, inodo) }
               else
                 if libres < 1 then Some (- 1, F, inodo) else
                 do { bloque2 \<leftarrow> buscarBloque d bloque1 pos tamPuntero bs;
                      (bloque3, F) \<leftarrow> Grupos_pedirBloqueLibre F;
                      F \<leftarrow> en_disco F (\<lambda>d. escribirPtroBloq d bloque2 pos2 tamPuntero bs bloque3);
                      Some (0, F, inodo) } }
      else let nroBloque = nroBloque - cantPunteros * cantPunteros in
      if nroBloque < cantPunteros * cantPunteros * cantPunteros then
        let pos3 = nroBloque mod cantPunteros;
            pos2 = (nroBloque div cantPunteros) mod cantPunteros;
            pos = (nroBloque div cantPunteros) div cantPunteros in
        if i_block inodo ! 14 = 0 then
          if libres < 4 then Some (- 1, F, inodo) else
          do { (bloque1, F) \<leftarrow> Grupos_pedirBloqueLibre F;
               let inodo = pon_bloque inodo 14 bloque1;
               (bloque2, F) \<leftarrow> Grupos_pedirBloqueLibre F;
               (bloque3, F) \<leftarrow> Grupos_pedirBloqueLibre F;
               (bloque4, F) \<leftarrow> Grupos_pedirBloqueLibre F;
               F \<leftarrow> en_disco F (\<lambda>d. inicializarBloqdePtros d bloque1 tamPuntero cantPunteros bs);
               F \<leftarrow> en_disco F (\<lambda>d. inicializarBloqdePtros d bloque2 tamPuntero cantPunteros bs);
               F \<leftarrow> en_disco F (\<lambda>d. inicializarBloqdePtros d bloque3 tamPuntero cantPunteros bs);
               F \<leftarrow> en_disco F (\<lambda>d. escribirPtroBloq d bloque1 pos tamPuntero bs bloque2);
               F \<leftarrow> en_disco F (\<lambda>d. escribirPtroBloq d bloque2 pos2 tamPuntero bs bloque3);
               F \<leftarrow> en_disco F (\<lambda>d. escribirPtroBloq d bloque3 pos3 tamPuntero bs bloque4);
               Some (0, F, inodo) }
        else
          let bloque1 = i_block inodo ! 14 in
          do { z \<leftarrow> esCero d bloque1 bs pos tamPuntero;
               if z = 0 then
                 if libres < 3 then Some (- 1, F, inodo) else
                 do { (bloque2, F) \<leftarrow> Grupos_pedirBloqueLibre F;
                      (bloque3, F) \<leftarrow> Grupos_pedirBloqueLibre F;
                      (bloque4, F) \<leftarrow> Grupos_pedirBloqueLibre F;
                      F \<leftarrow> en_disco F (\<lambda>d. inicializarBloqdePtros d bloque2 tamPuntero cantPunteros bs);
                      F \<leftarrow> en_disco F (\<lambda>d. inicializarBloqdePtros d bloque3 tamPuntero cantPunteros bs);
                      F \<leftarrow> en_disco F (\<lambda>d. escribirPtroBloq d bloque1 pos tamPuntero bs bloque2);
                      F \<leftarrow> en_disco F (\<lambda>d. escribirPtroBloq d bloque2 pos2 tamPuntero bs bloque3);
                      F \<leftarrow> en_disco F (\<lambda>d. escribirPtroBloq d bloque3 pos3 tamPuntero bs bloque4);
                      Some (0, F, inodo) }
               else
                 do { bloque2 \<leftarrow> buscarBloque d bloque1 pos tamPuntero bs;
                      z \<leftarrow> esCero d bloque2 bs pos2 tamPuntero;
                      if z = 0 then
                        if libres < 2 then Some (- 1, F, inodo) else
                        do { (bloque3, F) \<leftarrow> Grupos_pedirBloqueLibre F;
                             (bloque4, F) \<leftarrow> Grupos_pedirBloqueLibre F;
                             F \<leftarrow> en_disco F (\<lambda>d. inicializarBloqdePtros d bloque3 tamPuntero cantPunteros bs);
                             F \<leftarrow> en_disco F (\<lambda>d. escribirPtroBloq d bloque2 pos2 tamPuntero bs bloque3);
                             F \<leftarrow> en_disco F (\<lambda>d. escribirPtroBloq d bloque3 pos3 tamPuntero bs bloque4);
                             Some (0, F, inodo) }
                      else
                        if libres < 1 then Some (- 1, F, inodo) else
                        do { bloque3 \<leftarrow> buscarBloque d bloque2 pos2 tamPuntero bs;
                             (bloque4, F) \<leftarrow> Grupos_pedirBloqueLibre F;
                             F \<leftarrow> en_disco F (\<lambda>d. escribirPtroBloq d bloque3 pos3 tamPuntero bs bloque4);
                             Some (0, F, inodo) } } }
      else Some (0, F, inodo))"

text \<open>
  The loop of \<^verbatim>\<open>Inode_truncarArriba\<close>: it stops after the first request that fails, with the
  counter one past the block that could not be given.
\<close>

primrec asignar_bloques :: "nat \<Rightarrow> nat \<Rightarrow> fs \<times> Inode \<Rightarrow> (nat \<times> int \<times> fs \<times> Inode) option" where
  "asignar_bloques 0 i s = Some (i, 0, s)"
| "asignar_bloques (Suc n) i s =
     do { (error, s) \<leftarrow> Inode_asignarBloque (fst s) (word_of_nat i) (snd s);
          if error = 0 then asignar_bloques n (i + 1) s else Some (i + 1, error, s) }"

definition Inode_truncarArriba :: "fs \<Rightarrow> Inode \<Rightarrow> u32 \<Rightarrow> (int \<times> fs \<times> Inode) option" where
  "Inode_truncarArriba F inodo nuevoTam =
     do { let bs = block_size (f_sb F);
          cantBloques \<leftarrow> cant_bloques (i_size inodo) bs;
          cantBloquesNuevo \<leftarrow> cant_bloques nuevoTam bs;
          (i, error, F, inodo) \<leftarrow>
            asignar_bloques (unat cantBloquesNuevo - unat cantBloques) (unat cantBloques) (F, inodo);
          if error = - 1 then
            do { let tamanio_anterior = i_size inodo;
                 (F, inodo) \<leftarrow> Inode_truncarAbajo F
                    (inodo\<lparr>i_size := (word_of_nat i - 1) * bs\<rparr>) tamanio_anterior;
                 Some (- 1, F, inodo) }
          else Some (0, F, inodo\<lparr>i_size := nuevoTam\<rparr>) }"

section \<open>A new inode\<close>

definition Inode_asignarInodo :: "fs \<Rightarrow> u16 \<Rightarrow> u16 \<Rightarrow> (u32 \<times> fs) option" where
  "Inode_asignarInodo F mode links =
     do { let bs = block_size (f_sb F);
          (nroInodo, F) \<leftarrow> Inode_pedirInodoLibre F;
          if nroInodo = - 1 then Some (- 1, F) else
          do { inodo \<leftarrow> Inode_leerInodo (f_ext2fs F) (s_inodes_per_group (f_sb F)) (f_bgdt F) nroInodo bs;
               d \<leftarrow> Inode_escribirInodo (f_ext2fs F) (s_inodes_per_group (f_sb F)) (f_bgdt F) nroInodo bs
                     (inodo\<lparr>i_links_count := links, i_mode := mode\<rparr>);
               Some (nroInodo, F\<lparr>f_ext2fs := d\<rparr>) } }"

section \<open>Reading back an inode\<close>

text \<open>
  The table of every group lies below the seek limit, and no two inodes of the image share a byte.
\<close>

definition tabla_ok :: "u32 \<Rightarrow> Group_descriptor list \<Rightarrow> u32 \<Rightarrow> bool" where
  "tabla_ok ipg' bgdt bs \<longleftrightarrow> 0 < unat ipg' \<and> unat bs \<noteq> 0
     \<and> (\<forall>g < length bgdt. unat (bg_inode_table (bgdt ! g)) * unat bs + unat ipg' * 128 \<le> 2 ^ 31)
     \<and> (\<forall>g < length bgdt. \<forall>h < g.
          disjuntos (unat (bg_inode_table (bgdt ! g)) * unat bs) (unat ipg' * 128)
                    (unat (bg_inode_table (bgdt ! h)) * unat bs) (unat ipg' * 128))"

abbreviation base_tabla :: "Group_descriptor list \<Rightarrow> u32 \<Rightarrow> nat \<Rightarrow> nat" where
  "base_tabla bgdt bs g \<equiv> unat (bg_inode_table (bgdt ! g)) * unat bs"

lemma pos_inodo_eq:
  assumes t: "tabla_ok ip bgdt bs" and n: "1 \<le> unat n" and g: "(unat n - 1) div unat ip < length bgdt"
  shows "\<exists>p. pos_inodo ip bgdt n bs = Some p
    \<and> unat p = base_tabla bgdt bs ((unat n - 1) div unat ip) + (unat n - 1) mod unat ip * 128
    \<and> unat p + 128 \<le> 2 ^ 31"
proof -
  let ?g = "(unat n - 1) div unat ip"
  have ip: "0 < unat ip" and lim: "base_tabla bgdt bs ?g + unat ip * 128 \<le> 2 ^ 31"
    using t g by (auto simp: tabla_ok_def)
  have m: "(unat n - 1) mod unat ip * 128 + 128 \<le> unat ip * 128"
    using mod_less_divisor [OF ip, of "unat n - 1"] by simp
  have gw: "unat ((n - 1) div ip) = ?g" using n by (simp add: unat_div unat_sub_u32)
  have pw: "unat ((n - 1) mod ip * 128) = (unat n - 1) mod unat ip * 128"
    using n m lim by (subst unat_mult_u32) (simp_all add: unat_mod unat_sub_u32)
  have bw: "unat (bg_inode_table (bgdt ! ?g) * bs) = base_tabla bgdt bs ?g"
    using lim by (subst unat_mult_u32) simp_all
  have "ip \<noteq> 0" using ip by auto
  then show ?thesis
    using g gw pw bw m lim by (auto simp: pos_inodo_def Let_def unat_add_u32)
qed

lemma pos_inodo_disj:
  assumes t: "tabla_ok ip bgdt bs" and n: "1 \<le> unat n" "(unat n - 1) div unat ip < length bgdt"
    and m: "1 \<le> unat m" "(unat m - 1) div unat ip < length bgdt" and ne: "m \<noteq> n"
    and p: "pos_inodo ip bgdt n bs = Some p" and q: "pos_inodo ip bgdt m bs = Some q"
  shows "unat q + 128 \<le> unat p \<or> unat p + 128 \<le> unat q"
proof -
  let ?g = "(unat n - 1) div unat ip" and ?h = "(unat m - 1) div unat ip"
  let ?k = "(unat n - 1) mod unat ip" and ?l = "(unat m - 1) mod unat ip"
  have ip: "0 < unat ip" using t by (simp add: tabla_ok_def)
  have up: "unat p = base_tabla bgdt bs ?g + ?k * 128" "unat q = base_tabla bgdt bs ?h + ?l * 128"
    using pos_inodo_eq [OF t n] pos_inodo_eq [OF t m] p q by auto
  have kl: "?k * 128 + 128 \<le> unat ip * 128" "?l * 128 + 128 \<le> unat ip * 128"
    using mod_less_divisor [OF ip, of "unat n - 1"] mod_less_divisor [OF ip, of "unat m - 1"]
    by linarith+
  show ?thesis
  proof (cases "?g = ?h")
    case True
    moreover have "?k \<noteq> ?l"
    proof
      assume "?k = ?l"
      with True have "unat n - 1 = unat m - 1" by (metis div_mod_inj)
      then show False using n(1) m(1) ne by (simp add: word_unat_eq_iff)
    qed
    ultimately show ?thesis using up by auto
  next
    case False
    then consider "?h < ?g" | "?g < ?h" by linarith
    then have "disjuntos (base_tabla bgdt bs ?g) (unat ip * 128) (base_tabla bgdt bs ?h) (unat ip * 128)"
      using t n(2) m(2) by cases (auto simp: tabla_ok_def disjuntos_def)
    then show ?thesis using up kl by (auto simp: disjuntos_def)
  qed
qed

text \<open>
  C18: an inode written to the table is read back as it was, whatever its fields, and every other
  inode of the image is left as it was.
\<close>

theorem Inode_leer_escribir:
  assumes "tabla_ok ip bgdt bs" and "inode_ok x"
    and "1 \<le> unat n" "(unat n - 1) div unat ip < length bgdt"
    and "1 \<le> unat m" "(unat m - 1) div unat ip < length bgdt" and "m \<noteq> n"
    and "Inode_leerInodo d ip bgdt m bs = Some y"
  shows "\<exists>d'. Inode_escribirInodo d ip bgdt n bs x = Some d'
    \<and> Inode_leerInodo d' ip bgdt n bs = Some x \<and> Inode_leerInodo d' ip bgdt m bs = Some y"
proof -
  from pos_inodo_eq [OF assms(1,3,4)] obtain p where
    p: "pos_inodo ip bgdt n bs = Some p" "unat p + 128 \<le> 2 ^ 31" by blast
  from pos_inodo_eq [OF assms(1,5,6)] obtain q where q: "pos_inodo ip bgdt m bs = Some q" by blast
  have w: "disk_write d p (enc_Inode x) = Some (put_bytes d (unat p) (enc_Inode x))"
    using p(2) by (simp add: disk_write_def)
  from assms(8) q obtain cs where cs: "disk_read d q 128 = Some cs" "dec_Inode cs = y"
    by (auto simp: Inode_leerInodo_def)
  have "disk_read (put_bytes d (unat p) (enc_Inode x)) q 128 = Some cs"
    using inc.leer_otro [OF w assms(2) cs(1)] pos_inodo_disj [OF assms(1,3-7) p(1) q] by blast
  then show ?thesis
    using inc.leer_escrito [OF w assms(2)] p(1) q w cs(2)
    by (auto simp: Inode_escribirInodo_def Inode_leerInodo_def)
qed

definition inodo_ej :: Inode where
  "inodo_ej = (dec_Inode (replicate 128 0))\<lparr>i_mode := 0x81A4, i_size := 1500, i_links_count := 1,
     i_block := [70, 71, 0, 0, 0, 0, 0, 0, 0, 0, 0, 0, 0, 0, 0]\<rparr>"

lemma ej_tabla: "bg_inode_table (bgdt_ej ! 0) = 10" "bg_inode_table (bgdt_ej ! Suc 0) = 20"
  by (simp_all add: bgdt_ej_def)

lemma tabla_ok_ej: "tabla_ok 64 bgdt_ej 1024"
  by (simp add: tabla_ok_def ej_sel ej_tabla All_less_2 disjuntos_def)

theorem Inode_leer_escribir_witness:
  "\<exists>d'. Inode_escribirInodo disco_ej 64 bgdt_ej 66 1024 inodo_ej = Some d'
    \<and> Inode_leerInodo d' 64 bgdt_ej 66 1024 = Some inodo_ej
    \<and> Inode_leerInodo d' 64 bgdt_ej 2 1024 = Some (dec_Inode (bytes_at disco_ej 10368 128))"
  by (rule Inode_leer_escribir [OF tabla_ok_ej])
    (simp_all add: inode_ok_def inodo_ej_def ej_sel ej_tabla Inode_leerInodo_def pos_inodo_def disk_read_def)

section \<open>The reference: a tree of pointers\<close>

text \<open>
  The specification of the block tree. With \<open>c\<close> pointers to a block, level \<open>k\<close> of the tree holds
  \<open>c ^ k\<close> blocks of the file, and a block of level \<open>k\<close> is found by the \<open>k\<close> digits of its number in
  base \<open>c\<close>, the most significant one first, from slot \<open>11 + k\<close> of the inode.
\<close>

primrec digitos :: "nat \<Rightarrow> nat \<Rightarrow> nat \<Rightarrow> nat list" where
  "digitos c 0 n = []"
| "digitos c (Suc k) n = n div c ^ k mod c # digitos c k n"

fun nivel :: "nat \<Rightarrow> nat \<Rightarrow> nat list \<Rightarrow> (nat \<times> nat) option" where
  "nivel c n [] = None"
| "nivel c n (k # ks) = (if n < c ^ k then Some (k, n) else nivel c (n - c ^ k) ks)"

definition camino :: "nat \<Rightarrow> nat \<Rightarrow> (nat \<times> nat list) option" where
  "camino c n =
     (if n < 12 then Some (n, [])
      else map_option (\<lambda>(k, r). (11 + k, digitos c k r)) (nivel c (n - 12) [1, 2, 3]))"

primrec sigue :: "disk \<Rightarrow> u32 \<Rightarrow> u32 \<Rightarrow> nat list \<Rightarrow> u32 option" where
  "sigue d bs b [] = Some b"
| "sigue d bs b (p # ps) =
     do { b' \<leftarrow> buscarBloque d b (word_of_nat p) 4 bs; sigue d bs b' ps }"

primrec valor :: "nat \<Rightarrow> nat list \<Rightarrow> nat" where
  "valor c [] = 0"
| "valor c (p # ps) = p * c ^ length ps + valor c ps"

lemma length_digitos [simp]: "length (digitos c k n) = k"
  by (induction k) auto

lemma valor_digitos: "0 < c \<Longrightarrow> valor c (digitos c k n) = n mod c ^ k"
proof (induction k)
  case (Suc k)
  have "n mod c ^ Suc k = c ^ k * (n div c ^ k mod c) + n mod c ^ k"
    using mod_mult2_eq [of n "c ^ k" c] by (simp add: mult.commute)
  then show ?case using Suc by (simp add: mult.commute)
qed simp

lemma digitos_lt: "0 < c \<Longrightarrow> p \<in> set (digitos c k n) \<Longrightarrow> p < c"
  by (induction k) auto

lemma nivelD:
  "nivel c n ks = Some (k, r) \<Longrightarrow> k \<in> set ks \<and> r < c ^ k \<and> r \<le> n"
proof (induction ks arbitrary: n)
  case (Cons k' ks)
  show ?case
  proof (cases "n < c ^ k'")
    case False
    then show ?thesis using Cons.IH [of "n - c ^ k'"] Cons.prems by auto
  qed (use Cons.prems in auto)
qed simp

lemma nivel_inj:
  "nivel c n ks = Some (k, r) \<Longrightarrow> nivel c m ks = Some (k, r) \<Longrightarrow> distinct ks \<Longrightarrow> n = m"
proof (induction ks arbitrary: n m)
  case (Cons k' ks)
  have "k \<in> set ks" if "nivel c x ks = Some (k, r)" for x using nivelD [OF that] by simp
  then show ?case using Cons by (auto split: if_splits) (metis le_add_diff_inverse not_less)
qed simp

text \<open>
  The tree has no sharing. Two different blocks of a file are never reached by the same path,
  every digit of a path is a valid index into a block of pointers, and the blocks the tree can
  hold are exactly the first \<open>12 + c + c\<^sup>2 + c\<^sup>3\<close>.
\<close>

lemma camino_inyectivo:
  assumes "0 < c"
  shows "(camino c n = camino c m \<and> camino c n \<noteq> None \<longrightarrow> n = m)
    \<and> (camino c n = Some (s, ps) \<longrightarrow> s < 15 \<and> length ps = s - 11 \<and> (\<forall>p \<in> set ps. p < c))
    \<and> (camino c n \<noteq> None \<longleftrightarrow> n < 12 + c + c ^ 2 + c ^ 3)"
proof (intro conjI impI)
  assume eq: "camino c n = camino c m \<and> camino c n \<noteq> None"
  show "n = m"
  proof (cases "n < 12 \<or> m < 12")
    case True
    then show ?thesis using eq by (auto simp: camino_def split: if_splits prod.splits)
  next
    case False
    let ?f = "\<lambda>(k, r). (11 + k, digitos c k r)"
    have e: "map_option ?f (nivel c (n - 12) [1, 2, 3]) = map_option ?f (nivel c (m - 12) [1, 2, 3])"
      "nivel c (n - 12) [1, 2, 3] \<noteq> None"
      using eq False by (auto simp: camino_def simp del: nivel.simps)
    have "nivel c (m - 12) [1, 2, 3] \<noteq> None"
      using e(2) arg_cong [OF e(1), of "\<lambda>x. x = None"] 
      by (simp only: option.map_disc_iff not_False_eq_True)
    with e(2) obtain k r k' r' where
      n: "nivel c (n - 12) [1, 2, 3] = Some (k, r)" and m: "nivel c (m - 12) [1, 2, 3] = Some (k', r')"
      by fast
    from e(1) have kd: "k = k'" "digitos c k r = digitos c k' r'" unfolding n m by auto
    have "r < c ^ k" "r' < c ^ k" using nivelD [OF n] nivelD [OF m] kd(1) by blast+
    moreover have "r mod c ^ k = r' mod c ^ k"
      using kd by (simp only: valor_digitos [OF assms, symmetric])
    ultimately have "r = r'" by simp
    then have "n - 12 = m - 12" using nivel_inj [OF n] m kd by simp
    then show ?thesis using False by linarith
  qed
next
  assume "camino c n = Some (s, ps)"
  then show "s < 15" "length ps = s - 11" "\<forall>p \<in> set ps. p < c"
    using digitos_lt [OF assms] by (auto simp: camino_def split: if_splits dest!: nivelD)
next
  show "camino c n \<noteq> None \<longleftrightarrow> n < 12 + c + c ^ 2 + c ^ 3"
    by (auto simp: camino_def)
qed

lemma digitos_3:
  "digitos c 1 n = [n mod c]" "digitos c 2 n = [n div c mod c, n mod c]"
  "digitos c 3 n = [n div c div c mod c, n div c mod c, n mod c]"
  by (simp_all add: numeral_eq_Suc div_mult2_eq)

lemma div_lt_square: "n < c * c \<Longrightarrow> n div c < (c :: nat)"
  by (simp add: less_mult_imp_div_less)

text \<open>The bound under which the index arithmetic of the source does not wrap around.\<close>

definition cabe_arbol :: "nat \<Rightarrow> bool" where
  "cabe_arbol c \<longleftrightarrow> 0 < c \<and> 12 + c + c ^ 2 + c ^ 3 < 2 ^ 32"

lemma cabe_arbol_words:
  assumes "cabe_arbol (unat (bs div 4 :: u32))"
  defines "c \<equiv> unat (bs div 4)"
  shows "unat (bs div 4 * (bs div 4)) = c * c" "unat (bs div 4 * (bs div 4) * (bs div 4)) = c * c * c"
proof -
  have c: "0 < c" "c * c * c < 4294967296" using assms by (auto simp: cabe_arbol_def power2_eq_square power3_eq_cube)
  have "c * c \<le> c * c * c" using c(1) by simp
  then have "c * c < 4294967296" using c(2) by linarith
  then show 1: "unat (bs div 4 * (bs div 4)) = c * c"
    unfolding c_def by (rule unat_mult_u32)
  show "unat (bs div 4 * (bs div 4) * (bs div 4)) = c * c * c"
    using 1 c(2) by (subst unat_mult_u32) (simp_all add: c_def)
qed

lemma word_digit: "0 < unat c \<Longrightarrow> word_of_nat (unat n mod unat c) = (n mod c :: u32)"
  "word_of_nat (unat n div unat c) = (n div c :: u32)"
  by (simp_all add: unat_mod [symmetric] unat_div [symmetric])

text \<open>The blocks behind the double indirection.\<close>

lemma leerBloque_triple:
  assumes "cabe_arbol (unat (bs div 4))" and 4: "\<not> unat n < 12" "\<not> unat n - 12 < unat (bs div 4)"
    "\<not> unat n - 12 - unat (bs div 4) < unat (bs div 4) * unat (bs div 4)"
  shows "Inode_leerBloque d n inodo bs =
    (case camino (unat (bs div 4)) (unat n) of None \<Rightarrow> Some 0 | Some (s, ps) \<Rightarrow> sigue d bs (i_block inodo ! s) ps)"
proof -
  let ?c = "bs div 4" let ?k = "unat (bs div 4)"
  have c: "0 < ?k" using assms(1) by (simp add: cabe_arbol_def)
  note w = cabe_arbol_words [OF assms(1)]
  have n12: "unat (n - 12) = unat n - 12" using 4(1) by (subst unat_sub_u32) simp_all
  have u: "unat (n - 12 - ?c) = unat n - 12 - ?k" using 4 n12 by (subst unat_sub_u32) simp_all
  then have v: "unat (n - 12 - ?c - ?c * ?c) = unat n - 12 - ?k - ?k * ?k"
    using 4 w(1) by (subst unat_sub_u32) simp_all
  have "(unat n - 12 - ?k - ?k * ?k) div ?k div ?k < ?k"
    if "unat n - 12 - ?k - ?k * ?k < ?k * ?k * ?k"
    using that by (intro div_lt_square less_mult_imp_div_less) (simp add: ac_simps)
  then have "digitos ?k 3 (unat n - 12 - ?k - ?k * ?k) =
      [(unat n - 12 - ?k - ?k * ?k) div ?k div ?k, (unat n - 12 - ?k - ?k * ?k) div ?k mod ?k,
       (unat n - 12 - ?k - ?k * ?k) mod ?k]"
    if "unat n - 12 - ?k - ?k * ?k < ?k * ?k * ?k" using that by (simp add: digitos_3)
  moreover define r where "r = n - 12 - ?c - ?c * ?c"
  have "word_of_nat (unat r div ?k div ?k) = r div ?c div ?c"
    "word_of_nat (unat r div ?k mod ?k) = r div ?c mod ?c" "word_of_nat (unat r mod ?k) = r mod ?c"
    using c by (simp_all add: unat_mod [symmetric] unat_div [symmetric])
  ultimately show ?thesis
    using 4 n12 u v w unfolding r_def [symmetric]
    by (simp add: Inode_leerBloque_def camino_def word_less_nat_alt Let_def r_def [symmetric]
        power2_eq_square power3_eq_cube)
qed

text \<open>
  C11: \<^verbatim>\<open>Inode_leerBloque\<close>, with its four unrolled cases, follows the tree of the specification:
  it reads the pointers along the path of the block number, and returns 0 exactly for the numbers
  beyond the triple indirect level. Two different block numbers never have the same path.
\<close>

theorem Inode_leerBloque_arbol:
  assumes "cabe_arbol (unat (bs div 4))"
  shows "Inode_leerBloque d n inodo bs =
      (case camino (unat (bs div 4)) (unat n) of
         None \<Rightarrow> Some 0
       | Some (s, ps) \<Rightarrow> sigue d bs (i_block inodo ! s) ps)
    \<and> (m \<noteq> n \<longrightarrow> camino (unat (bs div 4)) (unat n) \<noteq> None \<longrightarrow>
         camino (unat (bs div 4)) (unat m) \<noteq> camino (unat (bs div 4)) (unat n))"
proof
  let ?c = "bs div 4" let ?k = "unat (bs div 4)"
  have c: "0 < ?k" using assms by (simp add: cabe_arbol_def)
  note w = cabe_arbol_words [OF assms]
  have n12: "unat (n - 12) = unat n - 12" if "\<not> unat n < 12"
    using that by (subst unat_sub_u32) simp_all
  consider "unat n < 12" | "\<not> unat n < 12" "unat n - 12 < ?k"
    | "\<not> unat n < 12" "\<not> unat n - 12 < ?k" "unat n - 12 - ?k < ?k * ?k"
    | "\<not> unat n < 12" "\<not> unat n - 12 < ?k" "\<not> unat n - 12 - ?k < ?k * ?k" by blast
  then show "Inode_leerBloque d n inodo bs =
      (case camino ?k (unat n) of None \<Rightarrow> Some 0 | Some (s, ps) \<Rightarrow> sigue d bs (i_block inodo ! s) ps)"
  proof cases
    case 1
    then show ?thesis by (simp add: Inode_leerBloque_def camino_def word_less_nat_alt)
  next
    case 2
    then show ?thesis
      using n12 by (simp add: Inode_leerBloque_def camino_def word_less_nat_alt Let_def digitos_3 [simplified])
  next
    case 3
    have u: "unat (n - 12 - ?c) = unat n - 12 - ?k" using 3 n12 by (subst unat_sub_u32) simp_all
    have "(unat n - 12 - ?k) div ?k < ?k" using 3(3) by (rule div_lt_square)
    then show ?thesis
      using 3 n12 u w(1) c
      by (simp add: Inode_leerBloque_def camino_def word_less_nat_alt Let_def digitos_3
          power2_eq_square word_digit [symmetric])
  next
    case 4
    then show ?thesis by (rule leerBloque_triple [OF assms])
  qed
next
  have c: "0 < unat (bs div 4)" using assms by (simp add: cabe_arbol_def)
  show "m \<noteq> n \<longrightarrow> camino (unat (bs div 4)) (unat n) \<noteq> None \<longrightarrow>
      camino (unat (bs div 4)) (unat m) \<noteq> camino (unat (bs div 4)) (unat n)"
    using camino_inyectivo [OF c, of "unat n" "unat m"] by (metis word_unat_eq_iff)
qed

lemma cabe_arbol_ej: "cabe_arbol (unat (1024 div 4 :: u32))"
  by (simp add: unat_div cabe_arbol_def)

lemma digitos_2: "digitos c 2 n = [n div c mod c, n mod c]"
  by (simp add: numeral_2_eq_2)

lemma camino_ej:
  "unat (1024 div 4 :: u32) = 256" "camino 256 300 = Some (13, [0, 32])" "camino 256 301 = Some (13, [0, 33])"
  by (simp_all add: unat_div camino_def digitos_2)

theorem Inode_leerBloque_arbol_witness:
  "Inode_leerBloque disco_ej 300 inodo_ej 1024 = sigue disco_ej 1024 (i_block inodo_ej ! 13) [0, 32]
    \<and> camino 256 301 \<noteq> camino 256 300"
  using Inode_leerBloque_arbol [of 1024 disco_ej 300 inodo_ej 301, OF cabe_arbol_ej]
  by (simp add: camino_ej)

end
