(* ===== verification/Cache.thy ===== *)
theory Cache
  imports Prelude
begin

text \<open>
  The two interfaces to the cache, \<^verbatim>\<open>rfs/cacheInterface.c\<close> (blocks, keyed by their number in
  decimal) and \<^verbatim>\<open>fsc/cacheInterface.c\<close> (answers of the server, keyed by an operation letter
  followed by the path). The client library of memcached is not part of the repository: it is
  the parameter \<open>'c memcached\<close>, a record of the three calls that are used. What the code relies
  on is the locale \<open>almacen_clave\<close>: a lookup that succeeds returns the value last stored under the
  key; a lookup may always miss. The theory of the cache engine interprets it.
\<close>

section \<open>The client library\<close>

record 'c memcached =
  memcached_get :: "'c \<Rightarrow> u8 list \<Rightarrow> u8 list option \<times> 'c"
  memcached_set :: "'c \<Rightarrow> u8 list \<Rightarrow> u8 list \<Rightarrow> 'c"
  memcached_delete :: "'c \<Rightarrow> u8 list \<Rightarrow> 'c"

section \<open>The server's keys\<close>

text \<open>\<^verbatim>\<open>sprintf(clave,"%d",nroBloque)\<close>: decimal digits, with a sign from two to the 31 on.\<close>

fun decimal :: "nat \<Rightarrow> u8 list" where
  "decimal n = (if n < 10 then [word_of_nat (48 + n)]
                else decimal (n div 10) @ [word_of_nat (48 + n mod 10)])"

declare decimal.simps [simp del]

text \<open>
  The number of the block is printed as a signed one into a buffer of eleven bytes; the sign and ten digits of a block between
  \<open>2 ^ 31\<close> and \<open>2 ^ 32 - 10 ^ 9\<close> do not fit in it. No image has blocks with such numbers, and the model has the text only.
\<close>

definition cache_armarClaveServer :: "u32 \<Rightarrow> u8 list" where
  "cache_armarClaveServer nroBloque =
     (let i = sint nroBloque in
      if i < 0 then 45 # decimal (nat (- i)) else decimal (nat i))"

definition cache_borrarClaveServer :: "'c memcached \<Rightarrow> 'c \<Rightarrow> u32 \<Rightarrow> 'c" where
  "cache_borrarClaveServer M st_cache nroBloque =
     memcached_delete M st_cache (cache_armarClaveServer nroBloque)"

text \<open>
  The length is a \<^verbatim>\<open>uint16_t\<close> parameter; \<open>None\<close> when the payload is shorter than it says.
\<close>

definition cache_subir_infoServer ::
  "'c memcached \<Rightarrow> 'c \<Rightarrow> u32 \<Rightarrow> u8 list \<Rightarrow> u16 \<Rightarrow> 'c option" where
  "cache_subir_infoServer M st_cache nroBloque payload payloadLenght =
     (if unat payloadLenght \<le> length payload
      then Some (memcached_set M st_cache (cache_armarClaveServer nroBloque)
                   (take (unat payloadLenght) payload))
      else None)"

definition cache_bajar_infoServer :: "'c memcached \<Rightarrow> 'c \<Rightarrow> u32 \<Rightarrow> u8 list option \<times> 'c" where
  "cache_bajar_infoServer M st_cache nroBloque =
     memcached_get M st_cache (cache_armarClaveServer nroBloque)"

section \<open>The client's keys\<close>

definition CACHEGETATR :: u8 where "CACHEGETATR = 97"
definition CACHEREADDIR :: u8 where "CACHEREADDIR = 100"

definition cache_armarClave :: "u8 \<Rightarrow> u8 list \<Rightarrow> u8 list" where
  "cache_armarClave tipoOp path = tipoOp # path"

text \<open>\<^verbatim>\<open>strlen(key)\<close>: the key ends at its first zero byte.\<close>

definition hasta_nul :: "u8 list \<Rightarrow> u8 list" where
  "hasta_nul s = takeWhile (\<lambda>b. b \<noteq> 0) s"

definition cache_subir_info ::
  "'c memcached \<Rightarrow> 'c \<Rightarrow> u8 \<Rightarrow> u8 list \<Rightarrow> u8 list \<Rightarrow> u16 \<Rightarrow> 'c option" where
  "cache_subir_info M st_cache tipoOp path payload payloadLenght =
     (if unat payloadLenght \<le> length payload
      then Some (memcached_set M st_cache (hasta_nul (cache_armarClave tipoOp path))
                   (take (unat payloadLenght) payload))
      else None)"

definition cache_bajar_info :: "'c memcached \<Rightarrow> 'c \<Rightarrow> u8 \<Rightarrow> u8 list \<Rightarrow> u8 list option \<times> 'c" where
  "cache_bajar_info M st_cache tipoOp path =
     memcached_get M st_cache (hasta_nul (cache_armarClave tipoOp path))"

definition cache_borrarClave :: "'c memcached \<Rightarrow> 'c \<Rightarrow> u8 \<Rightarrow> u8 list \<Rightarrow> 'c" where
  "cache_borrarClave M st_cache tipoOp path =
     memcached_delete M st_cache (hasta_nul (cache_armarClave tipoOp path))"

definition cache_existeClave :: "'c memcached \<Rightarrow> 'c \<Rightarrow> u8 \<Rightarrow> u8 list \<Rightarrow> bool \<times> 'c" where
  "cache_existeClave M st_cache tipoOp path =
     (case memcached_get M st_cache (hasta_nul (cache_armarClave tipoOp path)) of
        (r, c) \<Rightarrow> (r \<noteq> None, c))"

section \<open>Different blocks have different keys\<close>

definition valor_decimal :: "u8 list \<Rightarrow> nat" where
  "valor_decimal bs = foldl (\<lambda>n b. 10 * n + (unat b - 48)) 0 bs"

lemma unat_digito: "n < 10 \<Longrightarrow> unat (word_of_nat (48 + n) :: u8) = 48 + n"
  by (subst unat_of_nat) simp

lemma valor_decimal_decimal: "valor_decimal (decimal n) = n"
proof (induction n rule: decimal.induct)
  case (1 n)
  show ?case
  proof (cases "n < 10")
    case True
    then show ?thesis using unat_digito [OF True] by (simp add: valor_decimal_def decimal.simps [of n])
  next
    case False
    have "unat (word_of_nat (48 + n mod 10) :: u8) = 48 + n mod 10" by (rule unat_digito) simp
    then show ?thesis using 1 False by (simp add: valor_decimal_def decimal.simps [of n])
  qed
qed

lemma decimal_inj: "decimal n = decimal m \<Longrightarrow> n = m"
  by (metis valor_decimal_decimal)

lemma decimal_digitos: "b \<in> set (decimal n) \<Longrightarrow> 48 \<le> unat b \<and> unat b < 58"
proof (induction n rule: decimal.induct)
  case (1 n)
  have "unat (word_of_nat (48 + n mod 10) :: u8) = 48 + n mod 10" by (rule unat_digito) simp
  moreover have "unat (word_of_nat (48 + n) :: u8) = 48 + n" if "n < 10" using that by (rule unat_digito)
  ultimately show ?case
    using 1 mod_less_divisor [of 10 n] by (cases "n < 10") (auto simp: decimal.simps [of n])
qed

lemma decimal_not_Nil: "decimal n \<noteq> []"
  by (subst decimal.simps) simp

lemma length_decimal: "n < 10 ^ Suc k \<Longrightarrow> length (decimal n) \<le> Suc k"
proof (induction k arbitrary: n)
  case 0
  then show ?case by (simp add: valor_decimal_def decimal.simps [of n])
next
  case (Suc k)
  have "n div 10 < 10 ^ Suc k" using Suc.prems by (simp add: less_mult_imp_div_less mult.commute)
  then show ?case using Suc.IH [of "n div 10"] by (subst decimal.simps) simp
qed

lemma clave_servidor_inj: "cache_armarClaveServer b = cache_armarClaveServer b' \<longleftrightarrow> b = b'"
proof
  assume eq: "cache_armarClaveServer b = cache_armarClaveServer b'"
  have s: "45 # xs \<noteq> decimal n" for xs n
  proof
    assume "45 # xs = decimal n"
    then have "(45 :: u8) \<in> set (decimal n)" by (metis list.set_intros(1))
    then show False using decimal_digitos [of 45 n] by simp
  qed
  have "sint b = sint b'"
    using eq s s [symmetric]
    by (auto simp: cache_armarClaveServer_def Let_def split: if_splits dest!: decimal_inj)
  then show "b = b'" by (rule signed_word_eqI)
qed simp

text \<open>
  Two blocks of the image never share a cache key, and the key of a block below two to the 31
  fits the eleven bytes allocated for it.
\<close>

lemma cache_armarClaveServer_inyectiva:
  "(cache_armarClaveServer b = cache_armarClaveServer b' \<longleftrightarrow> b = b')
   \<and> (0 \<le> sint b \<longrightarrow> length (cache_armarClaveServer b) + 1 \<le> 11)"
proof (intro conjI impI)
  show "cache_armarClaveServer b = cache_armarClaveServer b' \<longleftrightarrow> b = b'" by (rule clave_servidor_inj)
  assume "0 \<le> sint b"
  moreover have "sint b < 2 ^ 31" using sint_less [of b] by simp
  then have "nat (sint b) < 10 ^ Suc 9" by simp
  ultimately show "length (cache_armarClaveServer b) + 1 \<le> 11"
    using length_decimal [of "nat (sint b)" 9] by (simp add: cache_armarClaveServer_def Let_def)
qed

lemma cache_armarClaveServer_inyectiva_ej:
  "length (cache_armarClaveServer 2147483647) + 1 \<le> 11"
  using cache_armarClaveServer_inyectiva [of 2147483647] by simp

section \<open>What the code relies on\<close>

text \<open>
  \<open>rep c m\<close>: the cache state \<open>c\<close> holds at most the bindings of \<open>m\<close>, the values last stored and not
  deleted since. A cache may forget; it may not invent. The laws are for the keys and the values that
  the store admits, \<open>clave_ok\<close> and \<open>valor_ok\<close>.
\<close>

datatype operacion = OpSet "u8 list" "u8 list" | OpGet "u8 list" | OpDel "u8 list"

primrec clave_de :: "operacion \<Rightarrow> u8 list" where
  "clave_de (OpSet k v) = k"
| "clave_de (OpGet k) = k"
| "clave_de (OpDel k) = k"

text \<open>The answers to the lookups of a sequence of requests, of a store and of a map.\<close>

fun respuestas ::
  "('c \<Rightarrow> u8 list \<Rightarrow> u8 list option \<times> 'c) \<Rightarrow> ('c \<Rightarrow> u8 list \<Rightarrow> u8 list \<Rightarrow> 'c) \<Rightarrow> ('c \<Rightarrow> u8 list \<Rightarrow> 'c)
    \<Rightarrow> 'c \<Rightarrow> operacion list \<Rightarrow> u8 list option list" where
  "respuestas get put del c [] = []"
| "respuestas get put del c (OpSet k v # ops) = respuestas get put del (put c k v) ops"
| "respuestas get put del c (OpDel k # ops) = respuestas get put del (del c k) ops"
| "respuestas get put del c (OpGet k # ops) =
     (let (r, c) = get c k in r # respuestas get put del c ops)"

fun respuestas_mapa :: "(u8 list \<Rightarrow> u8 list option) \<Rightarrow> operacion list \<Rightarrow> u8 list option list" where
  "respuestas_mapa m [] = []"
| "respuestas_mapa m (OpSet k v # ops) = respuestas_mapa (m(k \<mapsto> v)) ops"
| "respuestas_mapa m (OpDel k # ops) = respuestas_mapa (m(k := None)) ops"
| "respuestas_mapa m (OpGet k # ops) = m k # respuestas_mapa m ops"

locale almacen_clave =
  fixes get :: "'c \<Rightarrow> u8 list \<Rightarrow> u8 list option \<times> 'c"
    and put :: "'c \<Rightarrow> u8 list \<Rightarrow> u8 list \<Rightarrow> 'c"
    and del :: "'c \<Rightarrow> u8 list \<Rightarrow> 'c"
    and rep :: "'c \<Rightarrow> (u8 list \<Rightarrow> u8 list option) \<Rightarrow> bool"
    and clave_ok :: "u8 list \<Rightarrow> bool" and valor_ok :: "u8 list \<Rightarrow> bool"
  assumes get_rep: "rep c m \<Longrightarrow> clave_ok k \<Longrightarrow> get c k = (r, c') \<Longrightarrow> rep c' m \<and> (r = None \<or> r = m k)"
    and put_rep: "rep c m \<Longrightarrow> clave_ok k \<Longrightarrow> valor_ok v \<Longrightarrow> rep (put c k v) (m(k \<mapsto> v))"
    and del_rep: "rep c m \<Longrightarrow> clave_ok k \<Longrightarrow> rep (del c k) (m(k := None))"
begin

lemma get_hit: "rep c m \<Longrightarrow> clave_ok k \<Longrightarrow> get c k = (Some v, c') \<Longrightarrow> m k = Some v \<and> rep c' m"
  using get_rep by fastforce

lemma get_after_put:
  assumes "rep c m" "clave_ok k" "valor_ok v" "get (put c k v) k = (r, c')"
  shows "r = None \<or> r = Some v"
  using get_rep [OF put_rep [OF assms(1-3)] assms(2,4)] by simp

lemma get_after_del: "rep c m \<Longrightarrow> clave_ok k \<Longrightarrow> get (del c k) k = (r, c') \<Longrightarrow> r = None"
  using get_rep [OF del_rep] by fastforce

text \<open>Along any sequence of admitted requests every answer is a miss or the answer of the map.\<close>

lemma corrida:
  assumes "rep c m" "\<forall>x \<in> set ops. clave_ok (clave_de x)" "\<forall>k v. OpSet k v \<in> set ops \<longrightarrow> valor_ok v"
  shows "list_all2 (\<lambda>r s. r = None \<or> r = s) (respuestas get put del c ops) (respuestas_mapa m ops)"
  using assms
proof (induction ops arbitrary: c m)
  case (Cons a ops)
  then have t: "\<forall>x \<in> set ops. clave_ok (clave_de x)" "\<forall>k v. OpSet k v \<in> set ops \<longrightarrow> valor_ok v" by simp_all
  show ?case
  proof (cases a)
    case (OpSet k v)
    have "rep (put c k v) (m(k \<mapsto> v))" by (rule put_rep) (use Cons.prems OpSet in auto)
    from Cons.IH [OF this t] show ?thesis unfolding OpSet respuestas.simps respuestas_mapa.simps .
  next
    case (OpDel k)
    have "rep (del c k) (m(k := None))" by (rule del_rep) (use Cons.prems OpDel in auto)
    from Cons.IH [OF this t] show ?thesis unfolding OpDel respuestas.simps respuestas_mapa.simps .
  next
    case (OpGet k)
    obtain r c' where g: "get c k = (r, c')" by (cases "get c k")
    then have "rep c' m \<and> (r = None \<or> r = m k)" using get_rep Cons.prems OpGet by auto
    then show ?thesis using Cons.IH [OF _ t, of c' m] OpGet g by simp
  qed
qed simp

lemma get_after_put_other:
  assumes "rep c m" "clave_ok k" "clave_ok k'" "valor_ok v" "k' \<noteq> k" "get (put c k v) k' = (r, c')"
  shows "r = None \<or> r = m k'"
  using get_rep [OF put_rep [OF assms(1,2,4)] assms(3,6)] assms(5) by simp

end

end
