(* ===== verification/Directorio.thy ===== *)
theory Directorio
  imports Inodos Cache
begin

text \<open>
  Directories and file contents, \<^verbatim>\<open>rfs/Dir.c\<close>: walking the entries of a directory, resolving a
  path, inserting and removing an entry, and reading and writing the bytes of a file through the
  cache of blocks.

  The lists of entries are HOL lists: the list library they are kept in is the subject of the
  theory \<open>Lista\<close>. A walk over a block advances by the length stored in each entry, and never ends
  when a stored length is zero; the loops are therefore partial functions, \<open>None\<close> standing also for
  not returning, and that they do return on a well-formed directory is proved separately.
\<close>

section \<open>Entries\<close>

record Dir =
  d_inode :: u32
  d_rec_len :: u16
  d_name_len :: u8
  d_filetype :: u8
  d_name :: "u8 list option"  \<comment> \<open>\<open>None\<close> is the null pointer\<close>

definition OFF_NAME :: nat where "OFF_NAME = 8"
definition INODO_RAIZ :: u32 where "INODO_RAIZ = 2"

text \<open>The first eight bytes of an entry, and the entry with its name.\<close>

definition leer_etiqueta :: "disk \<Rightarrow> u32 \<Rightarrow> Dir option" where
  "leer_etiqueta ext2fs p =
     map_option (\<lambda>bs. \<lparr>d_inode = campo32 0 bs, d_rec_len = campo16 4 bs,
                       d_name_len = bs ! 6, d_filetype = bs ! 7, d_name = None\<rparr>)
       (disk_read ext2fs p OFF_NAME)"

definition leer_entrada :: "disk \<Rightarrow> u32 \<Rightarrow> Dir option" where
  "leer_entrada ext2fs p =
     do { e \<leftarrow> leer_etiqueta ext2fs p;
          nombre \<leftarrow> disk_read ext2fs (p + word_of_nat OFF_NAME) (unat (d_name_len e));
          Some (e\<lparr>d_name := Some nombre\<rparr>) }"

definition nombre_de :: "Dir \<Rightarrow> u8 list" where
  "nombre_de e = (case d_name e of None \<Rightarrow> [] | Some n \<Rightarrow> hasta_nul n)"

definition serializarDir :: "Dir \<Rightarrow> u32 \<Rightarrow> u8 list option" where
  "serializarDir entrada tamEntrada =
     (let etiqueta = enc32 (d_inode entrada) @ enc16 (d_rec_len entrada)
                     @ enc8 (d_name_len entrada) @ enc8 (d_filetype entrada) in
      case d_name entrada of
        None \<Rightarrow> if unat tamEntrada = OFF_NAME then Some etiqueta else None
      | Some n \<Rightarrow>
          if unat (d_name_len entrada) \<le> length n
             \<and> unat tamEntrada = OFF_NAME + unat (d_name_len entrada)
          then Some (etiqueta @ take (unat (d_name_len entrada)) n) else None)"

section \<open>Listing a directory\<close>

partial_function (option) listar_bloque :: "disk \<Rightarrow> u32 \<Rightarrow> u32 \<Rightarrow> u32 \<Rightarrow> Dir list option" where
  "listar_bloque ext2fs bloqueDatos bs offset =
     (if offset < bs
      then Option.bind (leer_entrada ext2fs (bloqueDatos * bs + offset)) (\<lambda>e.
           Option.bind (listar_bloque ext2fs bloqueDatos bs (offset + ucast (d_rec_len e))) (\<lambda>resto.
             Some (if d_inode e \<noteq> 0 then e # resto else resto)))
      else Some [])"

primrec listar_bloques :: "disk \<Rightarrow> Inode \<Rightarrow> u32 \<Rightarrow> nat list \<Rightarrow> Dir list option" where
  "listar_bloques ext2fs inodo bs [] = Some []"
| "listar_bloques ext2fs inodo bs (i # is) =
     do { bloqueDatos \<leftarrow> Inode_leerBloque ext2fs (word_of_nat i) inodo bs;
          lista \<leftarrow> listar_bloque ext2fs bloqueDatos bs 0;
          resto \<leftarrow> listar_bloques ext2fs inodo bs is;
          Some (lista @ resto) }"

definition Dir_listar ::
  "disk \<Rightarrow> u32 \<Rightarrow> u32 \<Rightarrow> Group_descriptor list \<Rightarrow> u32 \<Rightarrow> Dir list option" where
  "Dir_listar ext2fs nroInodo inodos_por_grupo bgdt bs =
     do { inodo \<leftarrow> Inode_leerInodo ext2fs inodos_por_grupo bgdt nroInodo bs;
          cantBloques \<leftarrow> cant_bloques (i_size inodo) bs;
          listar_bloques ext2fs inodo bs [0..<unat cantBloques] }"

definition Dir_cantDirectorios :: "Inode \<Rightarrow> disk \<Rightarrow> u32 \<Rightarrow> nat option" where
  "Dir_cantDirectorios inodo ext2fs bs =
     do { cantBloques \<leftarrow> cant_bloques (i_size inodo) bs;
          lista \<leftarrow> listar_bloques ext2fs inodo bs [0..<unat cantBloques];
          Some (length lista) }"

section \<open>Resolving a path\<close>

primrec buscarNombreEnLista :: "Dir list \<Rightarrow> u8 list \<Rightarrow> u32" where
  "buscarNombreEnLista [] archivo = 0"
| "buscarNombreEnLista (e # es) archivo =
     (if nombre_de e = hasta_nul archivo then d_inode e else buscarNombreEnLista es archivo)"

text \<open>\<^verbatim>\<open>strtok_r(path,"/")\<close>: the non-empty pieces between the slashes.\<close>

primrec trozos :: "u8 list \<Rightarrow> u8 list \<Rightarrow> u8 list list" where
  "trozos acum [] = (if acum = [] then [] else [acum])"
| "trozos acum (b # bs) =
     (if b = 47 then (if acum = [] then trozos [] bs else acum # trozos [] bs)
      else trozos (acum @ [b]) bs)"

definition strtok_todos :: "u8 list \<Rightarrow> u8 list list" where
  "strtok_todos path = trozos [] (hasta_nul path)"

primrec buscar_partes ::
  "disk \<Rightarrow> u32 \<Rightarrow> Group_descriptor list \<Rightarrow> u32 \<Rightarrow> u8 list list \<Rightarrow> u32 \<Rightarrow> u32 option" where
  "buscar_partes ext2fs ip bgdt bs [] nroInodo = Some nroInodo"
| "buscar_partes ext2fs ip bgdt bs (archivo # partes) nroInodo =
     (if nroInodo = 0 then Some 0 else
      do { contenidoDir \<leftarrow> Dir_listar ext2fs nroInodo ip bgdt bs;
           buscar_partes ext2fs ip bgdt bs partes (buscarNombreEnLista contenidoDir archivo) })"

definition Dir_buscarPath ::
  "disk \<Rightarrow> u8 list \<Rightarrow> u32 \<Rightarrow> Group_descriptor list \<Rightarrow> u32 \<Rightarrow> u32 option" where
  "Dir_buscarPath ext2fs path inodos_por_grupo bgdt bs =
     buscar_partes ext2fs inodos_por_grupo bgdt bs (strtok_todos path) INODO_RAIZ"

section \<open>Reading a file\<close>

text \<open>
  The blocks are collected one after the other; a block found in the cache is not read from the
  disk, a block read from the disk is stored in the cache.
\<close>

primrec leer_bloques ::
  "'c memcached \<Rightarrow> disk \<Rightarrow> Inode \<Rightarrow> u32 \<Rightarrow> nat \<Rightarrow> u32 \<Rightarrow> 'c \<Rightarrow> (u8 list \<times> 'c) option" where
  "leer_bloques M ext2fs inodo bs 0 nroBloque c = Some ([], c)"
| "leer_bloques M ext2fs inodo bs (Suc n) nroBloque c =
     do { bloque \<leftarrow> Inode_leerBloque ext2fs nroBloque inodo bs;
          (case cache_bajar_infoServer M c bloque of
             (None, c) \<Rightarrow>
               do { datos \<leftarrow> disk_read ext2fs (bloque * bs) (unat bs);
                    c \<leftarrow> cache_subir_infoServer M c bloque datos (ucast bs);
                    (resto, c) \<leftarrow> leer_bloques M ext2fs inodo bs n (nroBloque + 1) c;
                    Some (datos @ resto, c) }
           | (Some lectCache, c) \<Rightarrow>
               if length lectCache < unat bs then None
               else do { (resto, c) \<leftarrow> leer_bloques M ext2fs inodo bs n (nroBloque + 1) c;
                         Some (take (unat bs) lectCache @ resto, c) }) }"

text \<open>
  The number of blocks is computed from the size alone. The bytes the final copy takes from beyond
  the blocks read were never written: \<open>None\<close>.
\<close>

definition Dir_leerArchivo ::
  "'c memcached \<Rightarrow> 'c \<Rightarrow> disk \<Rightarrow> Inode \<Rightarrow> u32 \<Rightarrow> u32 \<Rightarrow> u32 \<Rightarrow> (u8 list \<times> 'c) option" where
  "Dir_leerArchivo M c ext2fs inodo offset size' bs =
     do { cantBloques \<leftarrow> cant_bloques size' bs;
          let nroBloqueComienzo = offset div bs;
          let offsetEnBufferComienzo = offset mod bs;
          (buffTemp, c) \<leftarrow> leer_bloques M ext2fs inodo bs (unat cantBloques) nroBloqueComienzo c;
          if unat offsetEnBufferComienzo + unat size' \<le> length buffTemp
          then Some (take (unat size') (drop (unat offsetEnBufferComienzo) buffTemp), c)
          else None }"

section \<open>Writing a file\<close>

text \<open>After each write one block length is read from \<open>p\<close> on and stored in the cache.\<close>

definition subir_desde :: "'c memcached \<Rightarrow> 'c \<Rightarrow> disk \<Rightarrow> u32 \<Rightarrow> u32 \<Rightarrow> u32 \<Rightarrow> 'c option" where
  "subir_desde M c ext2fs p bloque bs =
     do { escCache \<leftarrow> disk_read ext2fs p (unat bs);
          cache_subir_infoServer M c bloque escCache (ucast bs) }"

text \<open>The loop \<open>while(size>block_size)\<close>, which writes whole blocks.\<close>

partial_function (option) escribir_bloques ::
  "'c memcached \<Rightarrow> Inode \<Rightarrow> u32 \<Rightarrow> 'c \<Rightarrow> disk \<Rightarrow> u32 \<Rightarrow> u32 \<Rightarrow> u8 list \<Rightarrow>
   ('c \<times> disk \<times> u32 \<times> u32 \<times> u8 list) option" where
  "escribir_bloques M inodo bs c ext2fs nroBloque size' buf =
     (if size' > bs
      then Option.bind (Inode_leerBloque ext2fs (nroBloque + 1) inodo bs) (\<lambda>bloque.
           Option.bind (disk_write ext2fs (bloque * bs) (take (unat bs) buf)) (\<lambda>d.
           Option.bind (subir_desde M c d (bloque * bs) bloque bs) (\<lambda>c.
             escribir_bloques M inodo bs c d (nroBloque + 1) (size' - bs) (drop (unat bs) buf))))
      else Some (c, ext2fs, nroBloque, size', buf))"

definition Dir_escribirArchivo ::
  "'c memcached \<Rightarrow> 'c \<Rightarrow> fs \<Rightarrow> Inode \<Rightarrow> u32 \<Rightarrow> u32 \<Rightarrow> u8 list \<Rightarrow>
   (int \<times> 'c \<times> fs \<times> Inode) option" where
  "Dir_escribirArchivo M c F inodo offset size' buf =
     (let bs = block_size (f_sb F) in
      if bs = 0 \<or> length buf < unat size' then None else
      let nroBloqueComienzo = offset div bs; offsetEnBloqueComienzo = offset mod bs;
          bytesAEscribir = bs - offset mod bs in
      do { (error, F, inodo) \<leftarrow>
             (if offset + size' > i_size inodo then Inode_truncarArriba F inodo (offset + size')
              else Some (0, F, inodo));
           if error = - 1 then Some (- 1, c, F, inodo) else
           do { bloque \<leftarrow> Inode_leerBloque (f_ext2fs F) nroBloqueComienzo inodo bs;
                let p = bloque * bs + offsetEnBloqueComienzo;
                if size' < bytesAEscribir then
                  do { d \<leftarrow> disk_write (f_ext2fs F) p (take (unat size') buf);
                       c \<leftarrow> subir_desde M c d p bloque bs;
                       Some (int (unat size'), c, F\<lparr>f_ext2fs := d\<rparr>, inodo) }
                else
                  do { d \<leftarrow> disk_write (f_ext2fs F) p (take (unat bytesAEscribir) buf);
                       c \<leftarrow> subir_desde M c d p bloque bs;
                       (c, d, nroBloque, resto, buf) \<leftarrow>
                         escribir_bloques M inodo bs c d nroBloqueComienzo (size' - bytesAEscribir)
                           (drop (unat bytesAEscribir) buf);
                       bloque \<leftarrow> Inode_leerBloque d (nroBloque + 1) inodo bs;
                       d \<leftarrow> disk_write d (bloque * bs) (take (unat resto) buf);
                       c \<leftarrow> subir_desde M c d (bloque * bs) bloque bs;
                       Some (int (unat size'), c, F\<lparr>f_ext2fs := d\<rparr>, inodo) } } })"

section \<open>Inserting an entry\<close>

definition redondeo4 :: "u32 \<Rightarrow> u32" where
  "redondeo4 n = (if n mod 4 \<noteq> 0 then (n div 4 + 1) * 4 else n)"

text \<open>
  The search for an entry with enough slack: \<open>Some None\<close> when the block has none. The
  difference of the lengths is computed in unsigned arithmetic.
\<close>

partial_function (option) buscar_lugar ::
  "disk \<Rightarrow> u32 \<Rightarrow> u32 \<Rightarrow> u32 \<Rightarrow> u32 \<Rightarrow> (u32 \<times> Dir \<times> u32) option option" where
  "buscar_lugar ext2fs bloqueDatos bs tamNuevaEntrada offset =
     (if offset < bs
      then Option.bind (leer_etiqueta ext2fs (bloqueDatos * bs + offset)) (\<lambda>e.
           let tamEntrada = redondeo4 (word_of_nat OFF_NAME + ucast (d_name_len e)) in
           if ucast (d_rec_len e) - tamEntrada \<ge> tamNuevaEntrada
           then Some (Some (offset, e, tamEntrada))
           else buscar_lugar ext2fs bloqueDatos bs tamNuevaEntrada (offset + ucast (d_rec_len e)))
      else Some None)"

primrec buscar_lugar_bloques ::
  "disk \<Rightarrow> Inode \<Rightarrow> u32 \<Rightarrow> u32 \<Rightarrow> nat list \<Rightarrow> (u32 \<times> u32 \<times> Dir \<times> u32) option option" where
  "buscar_lugar_bloques ext2fs inodo bs tamNueva [] = Some None"
| "buscar_lugar_bloques ext2fs inodo bs tamNueva (i # is) =
     do { bloqueDatos \<leftarrow> Inode_leerBloque ext2fs (word_of_nat i) inodo bs;
          r \<leftarrow> buscar_lugar ext2fs bloqueDatos bs tamNueva 0;
          case r of Some (offset, e, tamEntrada) \<Rightarrow> Some (Some (bloqueDatos, offset, e, tamEntrada))
          | None \<Rightarrow> buscar_lugar_bloques ext2fs inodo bs tamNueva is }"

definition Dir_crearNuevaEntrada :: "fs \<Rightarrow> u8 list \<Rightarrow> u32 \<Rightarrow> u32 \<Rightarrow> (int \<times> fs) option" where
  "Dir_crearNuevaEntrada F nombreArch nroInodoDir nroInodoCreado =
     (let bs = block_size (f_sb F); ip = s_inodes_per_group (f_sb F); nombre = hasta_nul nombreArch;
          nueva = \<lparr>d_inode = nroInodoCreado, d_rec_len = 0, d_name_len = word_of_nat (length nombre),
                   d_filetype = 0, d_name = Some nombre\<rparr>;
          tamNueva = redondeo4 (word_of_nat OFF_NAME + ucast (d_name_len nueva)) in
      do { inodo \<leftarrow> Inode_leerInodo (f_ext2fs F) ip (f_bgdt F) nroInodoDir bs;
           if i_mode inodo = 0 then Some (- 1, F) else
           do { cantBloques \<leftarrow> cant_bloques (i_size inodo) bs;
                lugar \<leftarrow> buscar_lugar_bloques (f_ext2fs F) inodo bs tamNueva [0..<unat cantBloques];
                (F, p, nueva) \<leftarrow>
                  (case lugar of
                     Some (bloqueDatos, offset, e, tamEntrada) \<Rightarrow>
                       do { etiqueta \<leftarrow> serializarDir (e\<lparr>d_rec_len := ucast tamEntrada, d_name := None\<rparr>)
                                         (word_of_nat OFF_NAME);
                            d \<leftarrow> disk_write (f_ext2fs F) (bloqueDatos * bs + offset) etiqueta;
                            Some (F\<lparr>f_ext2fs := d\<rparr>, bloqueDatos * bs + (offset + tamEntrada),
                                  nueva\<lparr>d_rec_len := ucast (ucast (d_rec_len e) - tamEntrada)\<rparr>) }
                   | None \<Rightarrow>
                       do { (_, F, inodo) \<leftarrow> Inode_truncarArriba F inodo (i_size inodo + bs);
                            d \<leftarrow> Inode_escribirInodo (f_ext2fs F) ip (f_bgdt F) nroInodoDir bs inodo;
                            bloqueDatos \<leftarrow> Inode_leerBloque d cantBloques inodo bs;
                            Some (F\<lparr>f_ext2fs := d\<rparr>, bloqueDatos * bs + 0,
                                  nueva\<lparr>d_rec_len := ucast bs\<rparr>) });
                etiqueta \<leftarrow> serializarDir nueva (word_of_nat OFF_NAME + ucast (d_name_len nueva));
                d \<leftarrow> disk_write (f_ext2fs F) p etiqueta;
                Some (0, F\<lparr>f_ext2fs := d\<rparr>) } })"

section \<open>Removing an entry\<close>

text \<open>
  The inner loop keeps the entry before the one it looks at: the result is the offset of the entry
  found and that of its predecessor, with both.
\<close>

partial_function (option) buscar_borrar ::
  "disk \<Rightarrow> u32 \<Rightarrow> u32 \<Rightarrow> u32 \<Rightarrow> u32 \<Rightarrow> u32 \<Rightarrow> Dir \<Rightarrow> (u32 \<times> u32 \<times> Dir \<times> Dir) option option" where
  "buscar_borrar ext2fs bloqueDatos bs nroInodoBorrar offsetAnt offset entradaDir =
     (if offset < bs
      then Option.bind (leer_etiqueta ext2fs (bloqueDatos * bs + offset)) (\<lambda>sgte.
           if d_inode sgte = nroInodoBorrar then Some (Some (offset, offsetAnt, entradaDir, sgte))
           else buscar_borrar ext2fs bloqueDatos bs nroInodoBorrar offset
                  (offset + ucast (d_rec_len sgte)) sgte)
      else Some None)"

definition buscar_borrar_bloque ::
  "disk \<Rightarrow> u32 \<Rightarrow> u32 \<Rightarrow> u32 \<Rightarrow> (u32 \<times> u32 \<times> Dir \<times> Dir) option option" where
  "buscar_borrar_bloque ext2fs bloqueDatos bs nroInodoBorrar =
     do { e \<leftarrow> leer_etiqueta ext2fs (bloqueDatos * bs);
          if d_inode e = nroInodoBorrar then Some (Some (0, 0, e, e))
          else buscar_borrar ext2fs bloqueDatos bs nroInodoBorrar 0 (ucast (d_rec_len e)) e }"

primrec buscar_borrar_bloques ::
  "disk \<Rightarrow> Inode \<Rightarrow> u32 \<Rightarrow> u32 \<Rightarrow> nat list \<Rightarrow> (u32 \<times> u32 \<times> u32 \<times> Dir \<times> Dir) option option" where
  "buscar_borrar_bloques ext2fs inodo bs nroInodoBorrar [] = Some None"
| "buscar_borrar_bloques ext2fs inodo bs nroInodoBorrar (i # is) =
     do { bloqueDatos \<leftarrow> Inode_leerBloque ext2fs (word_of_nat i) inodo bs;
          r \<leftarrow> buscar_borrar_bloque ext2fs bloqueDatos bs nroInodoBorrar;
          case r of Some (offset, offsetAnt, e, sgte) \<Rightarrow> Some (Some (bloqueDatos, offset, offsetAnt, e, sgte))
          | None \<Rightarrow> buscar_borrar_bloques ext2fs inodo bs nroInodoBorrar is }"

definition Dir_borrarEntrada :: "fs \<Rightarrow> u32 \<Rightarrow> u32 \<Rightarrow> (int \<times> fs) option" where
  "Dir_borrarEntrada F nroInodoDir nroInodoBorrar =
     (let bs = block_size (f_sb F); ip = s_inodes_per_group (f_sb F) in
      do { inodo \<leftarrow> Inode_leerInodo (f_ext2fs F) ip (f_bgdt F) nroInodoDir bs;
           if i_mode inodo = 0 then Some (- 1, F) else
           do { cantBloques \<leftarrow> cant_bloques (i_size inodo) bs;
                r \<leftarrow> buscar_borrar_bloques (f_ext2fs F) inodo bs nroInodoBorrar [0..<unat cantBloques];
                case r of
                  None \<Rightarrow> Some (0, F)
                | Some (bloqueDatos, offset, offsetAnt, entradaDir, sgte) \<Rightarrow>
                    do { let e = (if offset = 0 \<and> offsetAnt = 0 then entradaDir\<lparr>d_inode := 0\<rparr>
                                  else entradaDir\<lparr>d_rec_len := d_rec_len entradaDir + d_rec_len sgte\<rparr>);
                         etiqueta \<leftarrow> serializarDir (e\<lparr>d_name := None\<rparr>) (word_of_nat OFF_NAME);
                         d \<leftarrow> disk_write (f_ext2fs F) (bloqueDatos * bs + offsetAnt) etiqueta;
                         Some (0, F\<lparr>f_ext2fs := d\<rparr>) } } })"

section \<open>What a block of entries represents\<close>

definition etiqueta :: "Dir \<Rightarrow> u8 list" where
  "etiqueta e = enc32 (d_inode e) @ enc16 (d_rec_len e) @ enc8 (d_name_len e) @ enc8 (d_filetype e)"

definition entrada_en :: "disk \<Rightarrow> nat \<Rightarrow> Dir \<Rightarrow> bool" where
  "entrada_en d q e \<longleftrightarrow> bytes_at d q 8 = etiqueta e
     \<and> d_name e = Some (bytes_at d (q + 8) (unat (d_name_len e)))"

text \<open>
  The bytes from \<open>off\<close> to the end of the block of \<open>n\<close> bytes at \<open>p\<close> are the entries \<open>es\<close>, one after the
  other: each is long enough for its name and the last one ends where the block ends.
\<close>

primrec entradas_en :: "disk \<Rightarrow> nat \<Rightarrow> nat \<Rightarrow> nat \<Rightarrow> Dir list \<Rightarrow> bool" where
  "entradas_en d p n off [] = (off = n)"
| "entradas_en d p n off (e # es) =
     (off < n \<and> entrada_en d (p + off) e \<and> 8 + unat (d_name_len e) \<le> unat (d_rec_len e)
      \<and> off + unat (d_rec_len e) \<le> n \<and> entradas_en d p n (off + unat (d_rec_len e)) es)"

definition ocupa :: "Dir list \<Rightarrow> nat" where
  "ocupa es = sum_list (map (unat \<circ> d_rec_len) es)"

definition vivas :: "Dir list \<Rightarrow> Dir list" where
  "vivas es = filter (\<lambda>e. d_inode e \<noteq> 0) es"

text \<open>A data block that can be addressed.\<close>

definition bloque_en :: "disk \<Rightarrow> u32 \<Rightarrow> u32 \<Rightarrow> bool" where
  "bloque_en d b bs \<longleftrightarrow> 0 < unat bs \<and> unat b * unat bs + unat bs < 2 ^ 31
     \<and> unat b * unat bs + unat bs \<le> dk_len d"

lemma length_etiqueta [simp]: "length (etiqueta e) = 8"
  by (simp add: etiqueta_def)

lemma campos_etiqueta:
  "campo32 0 (etiqueta e) = d_inode e" "campo16 4 (etiqueta e) = d_rec_len e"
  "etiqueta e ! 6 = d_name_len e" "etiqueta e ! 7 = d_filetype e"
  by (simp_all add: etiqueta_def campo_enc campo_skip nth_append enc8_def)

lemma unat_dir_pos:
  assumes "bloque_en d b bs" "unat off \<le> unat bs"
  shows "unat (b * bs + off) = unat b * unat bs + unat off"
proof -
  have "unat (b * bs) = unat b * unat bs"
    using assms by (intro unat_mult_u32) (simp add: bloque_en_def)
  then show ?thesis using assms by (subst unat_add_u32) (simp_all add: bloque_en_def)
qed

lemma leer_etiqueta_en:
  assumes "bloque_en d b bs" "entrada_en d (unat b * unat bs + unat off) e" "unat off + 8 \<le> unat bs"
  shows "leer_etiqueta d (b * bs + off) = Some (e\<lparr>d_name := None\<rparr>)"
proof -
  have "unat (b * bs + off) = unat b * unat bs + unat off" using assms by (intro unat_dir_pos) simp_all
  then show ?thesis
    using assms by (simp add: leer_etiqueta_def disk_read_def OFF_NAME_def entrada_en_def bloque_en_def
        campos_etiqueta)
qed

lemma leer_entrada_en:
  assumes "bloque_en d b bs" "entrada_en d (unat b * unat bs + unat off) e"
    and "unat off + 8 + unat (d_name_len e) \<le> unat bs"
  shows "leer_entrada d (b * bs + off) = Some e"
proof -
  have a: "unat (b * bs + off) = unat b * unat bs + unat off"
    using assms by (intro unat_dir_pos) simp_all
  have "unat (b * bs + off + 8) = unat b * unat bs + unat off + 8"
    using a assms(1,3) by (subst unat_add_u32) (simp_all add: bloque_en_def)
  then have "disk_read d (b * bs + off + 8) (unat (d_name_len e))
      = Some (bytes_at d (unat b * unat bs + unat off + 8) (unat (d_name_len e)))"
    using assms by (auto simp: disk_read_def bloque_en_def)
  then show ?thesis
    using leer_etiqueta_en [OF assms(1,2)] assms(2,3)
    by (simp add: leer_entrada_def OFF_NAME_def entrada_en_def)
qed

lemma unat_sum_rec:
  "unat off + unat r \<le> n \<Longrightarrow> n < 4294967296 \<Longrightarrow> unat (off + ucast (r :: u16) :: u32) = unat off + unat r"
  by (subst unat_add_u32) simp_all

lemma listar_bloque_en:
  assumes b: "bloque_en d b bs"
  shows "entradas_en d (unat b * unat bs) (unat bs) (unat off) es \<Longrightarrow>
    listar_bloque d b bs off = Some (vivas es)"
proof (induction es arbitrary: off)
  case Nil
  then show ?case by (subst listar_bloque.simps) (simp add: word_less_nat_alt vivas_def)
next
  case (Cons e es)
  have off: "unat (off + ucast (d_rec_len e)) = unat off + unat (d_rec_len e)"
    using Cons.prems(1) by (intro unat_sum_rec [of _ _ "unat bs"]) simp_all
  have "leer_entrada d (b * bs + off) = Some e"
    using Cons.prems by (intro leer_entrada_en [OF b]) auto
  moreover have "listar_bloque d b bs (off + ucast (d_rec_len e)) = Some (vivas es)"
    using Cons.prems off by (intro Cons.IH) auto
  ultimately show ?case
    using Cons.prems by (subst listar_bloque.simps) (simp add: word_less_nat_alt vivas_def)
qed

end
