(* ===== verification/Entradas.thy ===== *)
theory Entradas
  imports Directorio
begin

text \<open>
  What the operations of \<^verbatim>\<open>rfs/Dir.c\<close> do to a well-formed directory. A directory is a list of blocks, each
  of them a list of entries that fill it; listing returns the entries whose inode is not zero,
  inserting splits one entry, removing joins an entry to the one before it. The directories considered
  have at most the twelve blocks that the inode names itself, and rounded lengths, as every directory that
  \<^verbatim>\<open>mke2fs\<close> or this program writes.
\<close>

section \<open>Segments of entries\<close>

definition entrada_ok :: "Dir \<Rightarrow> bool" where
  "entrada_ok e \<longleftrightarrow> (8 + unat (d_name_len e) + 3) div 4 * 4 \<le> unat (d_rec_len e)"

lemma entradas_le: "entradas_en d p n off es \<Longrightarrow> off \<le> n"
  by (cases es) auto

lemma entradas_ocupa: "entradas_en d p n off es \<Longrightarrow> off + ocupa es = n"
proof (induction es arbitrary: off)
  case (Cons e es)
  then have "off + unat (d_rec_len e) + ocupa es = n" by (intro Cons.IH) simp
  then show ?case by (simp add: ocupa_def add.assoc)
qed (simp add: ocupa_def)

lemma ocupa_simps [simp]:
  "ocupa [] = 0" "ocupa (e # es) = unat (d_rec_len e) + ocupa es" "ocupa (xs @ ys) = ocupa xs + ocupa ys"
  by (simp_all add: ocupa_def)

lemma entradas_append:
  "entradas_en d p n off (xs @ ys) \<longleftrightarrow>
     entradas_en d p (off + ocupa xs) off xs \<and> entradas_en d p n (off + ocupa xs) ys"
proof (induction xs arbitrary: off)
  case (Cons e xs)
  have le: "off + unat (d_rec_len e) \<le> n" if "entradas_en d p n (off + unat (d_rec_len e) + ocupa xs) ys"
    using entradas_le [OF that] by simp
  show ?case using Cons.IH [of "off + unat (d_rec_len e)"] le
    by (auto simp: add.assoc dest: entradas_le)
qed simp

lemma entradas_frame:
  assumes "\<And>i. p + off \<le> i \<Longrightarrow> i < p + n \<Longrightarrow> dk_byte d' i = dk_byte d i"
  shows "entradas_en d p n off es \<Longrightarrow> entradas_en d' p n off es"
  using assms
proof (induction es arbitrary: off)
  case (Cons e es)
  have "bytes_at d' (p + off) 8 = bytes_at d (p + off) 8"
    "bytes_at d' (p + off + 8) (unat (d_name_len e)) = bytes_at d (p + off + 8) (unat (d_name_len e))"
    using Cons.prems by (intro bytes_at_cong; auto)+
  then have "entrada_en d' (p + off) e" using Cons.prems(1) by (simp add: entrada_en_def)
  moreover have "entradas_en d' p n (off + unat (d_rec_len e)) es"
    using Cons.prems by (intro Cons.IH) auto
  ultimately show ?case using Cons.prems(1) by simp
qed simp

lemma unat_redondeo4:
  assumes "unat n < 4294967200"
  shows "unat (redondeo4 n) = (unat n + 3) div 4 * 4"
proof -
  have d: "unat (n div 4) = unat n div 4" "unat (n mod 4) = unat n mod 4" by (simp_all add: unat_div unat_mod)
  show ?thesis
  proof (cases "n mod 4 = 0")
    case True
    then have "unat n mod 4 = 0" using d(2) by simp
    then show ?thesis using True by (simp add: redondeo4_def) presburger
  next
    case False
    then have "unat n mod 4 \<noteq> 0" using d(2) by (metis unsigned_0 word_unat_eq_iff)
    moreover have "unat (n div 4 + 1) = unat n div 4 + 1" using d(1) assms by (subst unat_succ_u32) simp_all
    then have "unat ((n div 4 + 1) * 4) = (unat n div 4 + 1) * 4" using assms by (subst unat_mult_u32) simp_all
    ultimately show ?thesis using False by (simp add: redondeo4_def) presburger
  qed
qed

abbreviation tam_entrada :: "u8 \<Rightarrow> nat" where
  "tam_entrada nl \<equiv> (8 + unat nl + 3) div 4 * 4"

lemma unat_tam_entrada: "unat (redondeo4 (word_of_nat OFF_NAME + ucast (nl :: u8)) :: u32) = tam_entrada nl"
proof -
  have "unat nl < 256" by simp
  then have "unat nl < 4294967288" by linarith
  then have "unat (word_of_nat OFF_NAME + ucast nl :: u32) = 8 + unat nl"
    by (subst unat_add_u32) (simp_all add: OFF_NAME_def)
  then show ?thesis using unat_redondeo4 [of "word_of_nat OFF_NAME + ucast nl"] \<open>unat nl < 256\<close> by simp
qed

section \<open>Directories\<close>

text \<open>
  \<open>dir_en d bs inodo ess\<close>: the blocks of the directory hold the lists of entries \<open>ess\<close>. The blocks are
  different ones.
\<close>

abbreviation base :: "u32 \<Rightarrow> u32 \<Rightarrow> nat" where
  "base bs b \<equiv> unat b * unat bs"

definition dir_en :: "disk \<Rightarrow> u32 \<Rightarrow> Inode \<Rightarrow> Dir list list \<Rightarrow> bool" where
  "dir_en d bs inodo ess \<longleftrightarrow> length ess \<le> 12 \<and> cant_bloques (i_size inodo) bs = Some (word_of_nat (length ess))
     \<and> (\<forall>i < length ess. bloque_en d (i_block inodo ! i) bs
          \<and> entradas_en d (base bs (i_block inodo ! i)) (unat bs) 0 (ess ! i)
          \<and> (\<forall>e \<in> set (ess ! i). entrada_ok e))
     \<and> distinct (map ((!) (i_block inodo)) [0..<length ess])"

lemma leerBloque_directo: "i < 12 \<Longrightarrow> Inode_leerBloque d (word_of_nat i) inodo bs = Some (i_block inodo ! i)"
  by (simp add: Inode_leerBloque_def word_less_nat_alt unat_of_nat)

lemma listar_bloques_en:
  assumes "dir_en d bs inodo ess" "k \<le> length ess"
  shows "listar_bloques d inodo bs [k..<length ess] = Some (concat (map vivas (drop k ess)))"
  using assms(2)
proof (induction "length ess - k" arbitrary: k)
  case 0
  then show ?case by simp
next
  case (Suc n)
  then have k: "k < length ess" by simp
  then have b: "Inode_leerBloque d (word_of_nat k) inodo bs = Some (i_block inodo ! k)"
    using assms(1) by (intro leerBloque_directo) (simp add: dir_en_def)
  have e: "bloque_en d (i_block inodo ! k) bs" "entradas_en d (base bs (i_block inodo ! k)) (unat bs) (unat (0 :: u32)) (ess ! k)"
    using assms(1) k by (simp_all add: dir_en_def)
  have "drop k ess = ess ! k # drop (Suc k) ess" using k by (simp add: Cons_nth_drop_Suc)
  moreover have "[k..<length ess] = k # [Suc k..<length ess]" using k by (simp add: upt_conv_Cons)
  moreover have "listar_bloques d inodo bs [Suc k..<length ess] = Some (concat (map vivas (drop (Suc k) ess)))"
    using Suc k by (intro Suc.hyps) auto
  ultimately show ?case using b listar_bloque_en [OF e] by simp
qed

lemma cant_dir: "dir_en d bs inodo ess \<Longrightarrow> unat (word_of_nat (length ess) :: u32) = length ess"
  by (simp add: dir_en_def unat_of_nat_u32)

lemma Dir_listar_existe:
  assumes "Inode_leerInodo d ip bgdt n bs = Some inodo" "dir_en d bs inodo ess"
  shows "Dir_listar d n ip bgdt bs = Some (concat (map vivas ess))
    \<and> Dir_cantDirectorios inodo d bs = Some (length (concat (map vivas ess)))"
proof -
  have c: "cant_bloques (i_size inodo) bs = Some (word_of_nat (length ess))" using assms(2) by (simp add: dir_en_def)
  have "listar_bloques d inodo bs [0..<length ess] = Some (concat (map vivas ess))"
    using listar_bloques_en [OF assms(2), of 0] by simp
  then show ?thesis using assms(1) c cant_dir [OF assms(2)] by (simp add: Dir_listar_def Dir_cantDirectorios_def)
qed

text \<open>
  C21: listing a well-formed directory ends and returns the entries in use, in the order they are on disk; the count
  of a directory is their number.
\<close>

theorem Dir_listar_correcto:
  assumes "Inode_leerInodo d ip bgdt n bs = Some inodo" "dir_en d bs inodo ess"
  shows "Dir_listar d n ip bgdt bs = Some (concat (map vivas ess))
    \<and> Dir_cantDirectorios inodo d bs = Some (length (concat (map vivas ess)))"
  using Dir_listar_existe [OF assms] .

section \<open>Looking for room\<close>

definition cabe :: "nat \<Rightarrow> Dir \<Rightarrow> bool" where
  "cabe tn e \<longleftrightarrow> tam_entrada (d_name_len e) + tn \<le> unat (d_rec_len e)"

lemma cabe_word:
  assumes "entrada_ok e"
  shows "tn \<le> ucast (d_rec_len e) - redondeo4 (word_of_nat OFF_NAME + ucast (d_name_len e)) \<longleftrightarrow> cabe (unat tn) e"
proof -
  have "unat (ucast (d_rec_len e) - redondeo4 (word_of_nat OFF_NAME + ucast (d_name_len e)) :: u32)
      = unat (d_rec_len e) - tam_entrada (d_name_len e)"
    using assms by (subst unat_sub_u32) (simp_all add: unat_tam_entrada entrada_ok_def)
  then show ?thesis using assms by (auto simp: word_le_nat_alt cabe_def entrada_ok_def)
qed

lemma buscar_lugar_en:
  assumes b: "bloque_en d b bs"
  shows "entradas_en d (base bs b) (unat bs) (unat off) es \<Longrightarrow> \<forall>e \<in> set es. entrada_ok e \<Longrightarrow>
    (\<forall>e \<in> set es. \<not> cabe (unat tn) e) \<and> buscar_lugar d b bs tn off = Some None
    \<or> (\<exists>pre e post off'. es = pre @ e # post \<and> cabe (unat tn) e \<and> unat off' = unat off + ocupa pre
        \<and> buscar_lugar d b bs tn off = Some (Some (off', e\<lparr>d_name := None\<rparr>,
            redondeo4 (word_of_nat OFF_NAME + ucast (d_name_len e)))))"
proof (induction es arbitrary: off)
  case Nil
  then show ?case by (subst buscar_lugar.simps) (simp add: word_less_nat_alt)
next
  case (Cons e es)
  have h: "unat off < unat bs" "entrada_en d (base bs b + unat off) e" "8 + unat (d_name_len e) \<le> unat (d_rec_len e)"
    "unat off + unat (d_rec_len e) \<le> unat bs" "entradas_en d (base bs b) (unat bs) (unat off + unat (d_rec_len e)) es"
    using Cons.prems(1) by simp_all
  have off: "unat (off + ucast (d_rec_len e)) = unat off + unat (d_rec_len e)"
    using h(4) by (intro unat_sum_rec [of _ _ "unat bs"]) simp_all
  have l: "leer_etiqueta d (b * bs + off) = Some (e\<lparr>d_name := None\<rparr>)"
    using h by (intro leer_etiqueta_en [OF b]) auto
  have ok: "entrada_ok e" using Cons.prems(2) by simp
  have s: "buscar_lugar d b bs tn off =
      (if cabe (unat tn) e then Some (Some (off, e\<lparr>d_name := None\<rparr>, redondeo4 (word_of_nat OFF_NAME + ucast (d_name_len e))))
       else buscar_lugar d b bs tn (off + ucast (d_rec_len e)))"
    using l h(1) cabe_word [OF ok, of tn] by (subst buscar_lugar.simps) (simp add: word_less_nat_alt Let_def)
  show ?case
  proof (cases "cabe (unat tn) e")
    case True
    then show ?thesis unfolding s by (intro disjI2 exI [of _ "[]"]) auto
  next
    case False
    have "entradas_en d (base bs b) (unat bs) (unat (off + ucast (d_rec_len e))) es" using h(5) off by simp
    from Cons.IH [OF this] Cons.prems(2) False show ?thesis
      unfolding s off by (auto; metis append_Cons ocupa_simps(2) add.assoc)
  qed
qed

lemma buscar_lugar_bloques_en:
  assumes D: "dir_en d bs inodo ess" and k: "k \<le> length ess" and hay: "\<exists>e \<in> set (concat (drop k ess)). cabe (unat tn) e"
  shows "\<exists>i pre e post off. i < length ess \<and> ess ! i = pre @ e # post \<and> cabe (unat tn) e \<and> unat off = ocupa pre
    \<and> buscar_lugar_bloques d inodo bs tn [k..<length ess] = Some (Some (i_block inodo ! i, off, e\<lparr>d_name := None\<rparr>,
        redondeo4 (word_of_nat OFF_NAME + ucast (d_name_len e))))"
  using k hay
proof (induction "length ess - k" arbitrary: k)
  case 0
  then show ?case by simp
next
  case (Suc n)
  then have k: "k < length ess" by simp
  then have b: "Inode_leerBloque d (word_of_nat k) inodo bs = Some (i_block inodo ! k)"
    using D by (intro leerBloque_directo) (simp add: dir_en_def)
  have e: "bloque_en d (i_block inodo ! k) bs" "entradas_en d (base bs (i_block inodo ! k)) (unat bs) (unat (0 :: u32)) (ess ! k)"
    "\<forall>e \<in> set (ess ! k). entrada_ok e"
    using D k by (simp_all add: dir_en_def)
  have dk: "drop k ess = ess ! k # drop (Suc k) ess" using k by (simp add: Cons_nth_drop_Suc)
  have uk: "[k..<length ess] = k # [Suc k..<length ess]" using k by (simp add: upt_conv_Cons)
  from buscar_lugar_en [OF e, of tn] show ?case
  proof (elim disjE conjE exE)
    assume no: "\<forall>e \<in> set (ess ! k). \<not> cabe (unat tn) e" "buscar_lugar d (i_block inodo ! k) bs tn 0 = Some None"
    have "\<exists>e \<in> set (concat (drop (Suc k) ess)). cabe (unat tn) e" using Suc.prems(2) no(1) unfolding dk by auto
    moreover have "n = length ess - Suc k" "Suc k \<le> length ess" using Suc.hyps(2) k by simp_all
    ultimately obtain i pre e post off where I: "i < length ess" "ess ! i = pre @ e # post" "cabe (unat tn) e" "unat off = ocupa pre"
        "buscar_lugar_bloques d inodo bs tn [Suc k..<length ess] = Some (Some (i_block inodo ! i, off, e\<lparr>d_name := None\<rparr>,
          redondeo4 (word_of_nat OFF_NAME + ucast (d_name_len e))))"
      using Suc.hyps(1) [of "Suc k"] by blast
    then show ?case unfolding uk using b no(2) by (intro exI [of _ i] exI conjI) auto
  next
    fix pre e post off'
    assume I: "ess ! k = pre @ e # post" "cabe (unat tn) e" "unat off' = unat (0 :: u32) + ocupa pre"
      "buscar_lugar d (i_block inodo ! k) bs tn 0 = Some (Some (off', e\<lparr>d_name := None\<rparr>,
            redondeo4 (word_of_nat OFF_NAME + ucast (d_name_len e))))"
    show ?case unfolding uk using b I k by (intro exI [of _ k] exI [of _ pre] exI [of _ e] exI conjI) auto
  qed
qed

section \<open>Changing one block\<close>

lemma bloques_disj: "b \<noteq> b' \<Longrightarrow> base bs b + unat bs \<le> base bs b' \<or> base bs b' + unat bs \<le> base bs b"
proof -
  assume "b \<noteq> b'"
  then have "unat b \<noteq> unat b'" by (simp add: word_unat_eq_iff)
  then consider "Suc (unat b) \<le> unat b'" | "Suc (unat b') \<le> unat b" by linarith
  then show ?thesis
  proof cases
    case 1
    from mult_le_mono1 [OF this, of "unat bs"] show ?thesis by simp
  next
    case 2
    from mult_le_mono1 [OF this, of "unat bs"] show ?thesis by simp
  qed
qed

definition solo_bloque :: "disk \<Rightarrow> disk \<Rightarrow> nat \<Rightarrow> nat \<Rightarrow> bool" where
  "solo_bloque d d' p n \<longleftrightarrow> dk_len d' = dk_len d
     \<and> (\<forall>j < dk_len d. j < p \<or> p + n \<le> j \<longrightarrow> dk_byte d' j = dk_byte d j)"

lemma solo_bloque_put:
  assumes "solo_bloque d d' p n" "p \<le> q" "q + length bs \<le> p + n" "p + n \<le> dk_len d"
  shows "solo_bloque d (put_bytes d' q bs) p n"
  using assms by (auto simp: solo_bloque_def dk_byte_put_outside)

lemma dir_enD:
  assumes "dir_en d bs inodo ess" "i < length ess"
  shows "bloque_en d (i_block inodo ! i) bs" "entradas_en d (base bs (i_block inodo ! i)) (unat bs) 0 (ess ! i)"
    "\<And>e. e \<in> set (ess ! i) \<Longrightarrow> entrada_ok e"
  using assms unfolding dir_en_def by blast+

lemma dir_en_distintos:
  assumes "dir_en d bs inodo ess" "i < length ess" "j < length ess" "i \<noteq> j"
  shows "i_block inodo ! i \<noteq> i_block inodo ! j"
proof -
  have "distinct (map ((!) (i_block inodo)) [0..<length ess])" using assms(1) unfolding dir_en_def by blast
  then have "inj_on ((!) (i_block inodo)) {0..<length ess}" by (simp only: distinct_map set_upt)
  from inj_onD [OF this, of i j] assms(2-4) show ?thesis by auto
qed

lemma bloque_en_cambia: "bloque_en d b bs \<Longrightarrow> solo_bloque d d' p n \<Longrightarrow> bloque_en d' b bs"
  unfolding bloque_en_def solo_bloque_def by simp

lemma bloque_en_limite: "bloque_en d b bs \<Longrightarrow> base bs b + unat bs \<le> dk_len d"
  unfolding bloque_en_def by blast

lemma solo_bloqueD: "solo_bloque d d' p n \<Longrightarrow> j < dk_len d \<Longrightarrow> j < p \<or> p + n \<le> j \<Longrightarrow> dk_byte d' j = dk_byte d j"
  unfolding solo_bloque_def by blast

lemma otro_bloque:
  assumes D: "dir_en d bs inodo ess" and i: "i < length ess" and j: "j < length ess" "j \<noteq> i"
    and s: "solo_bloque d d' (base bs (i_block inodo ! i)) (unat bs)"
  shows "entradas_en d' (base bs (i_block inodo ! j)) (unat bs) 0 (ess ! j)"
proof (rule entradas_frame [OF _ dir_enD(2) [OF D j(1)]])
  fix k
  assume k: "base bs (i_block inodo ! j) + 0 \<le> k" "k < base bs (i_block inodo ! j) + unat bs"
  have "k < base bs (i_block inodo ! i) \<or> base bs (i_block inodo ! i) + unat bs \<le> k"
    using bloques_disj [OF dir_en_distintos [OF D j(1) i j(2)], of bs] k by linarith
  moreover have "k < dk_len d" using bloque_en_limite [OF dir_enD(1) [OF D j(1)]] k(2) by linarith
  ultimately show "dk_byte d' k = dk_byte d k" by (intro solo_bloqueD [OF s])
qed

lemma dir_en_cambia:
  assumes D: "dir_en d bs inodo ess" and i: "i < length ess"
    and s: "solo_bloque d d' (base bs (i_block inodo ! i)) (unat bs)"
    and e: "entradas_en d' (base bs (i_block inodo ! i)) (unat bs) 0 es'" "\<forall>e \<in> set es'. entrada_ok e"
  shows "dir_en d' bs inodo (ess[i := es'])"
proof -
  have "bloque_en d' (i_block inodo ! j) bs \<and> entradas_en d' (base bs (i_block inodo ! j)) (unat bs) 0 (ess[i := es'] ! j)
      \<and> (\<forall>e \<in> set (ess[i := es'] ! j). entrada_ok e)" if j: "j < length ess" for j
    using bloque_en_cambia [OF dir_enD(1) [OF D j] s] otro_bloque [OF D i j _ s] dir_enD(3) [OF D j] e i
    by (cases "j = i") simp_all
  then show ?thesis using D unfolding dir_en_def length_list_update by blast
qed

lemma leerInodo_frame:
  assumes "Inode_leerInodo d ip bgdt n bs = Some inodo" "pos_inodo ip bgdt n bs = Some q"
    "solo_bloque d d' p k" "unat q + 128 \<le> p \<or> p + k \<le> unat q"
  shows "Inode_leerInodo d' ip bgdt n bs = Some inodo"
proof -
  have l: "unat q + 128 \<le> dk_len d" using assms(1,2) by (auto simp: Inode_leerInodo_def disk_read_def split: if_splits)
  have "bytes_at d' (unat q) 128 = bytes_at d (unat q) 128"
    by (rule bytes_at_cong, rule solo_bloqueD [OF assms(3)]) (use assms(4) l in linarith)+
  moreover have "dk_len d' = dk_len d" using assms(3) by (simp add: solo_bloque_def)
  ultimately show ?thesis using assms(1,2) l by (auto simp: Inode_leerInodo_def disk_read_def split: if_splits)
qed

text \<open>Splitting an entry: its length becomes the rounded one and the rest is the new entry.\<close>

lemma inserta_en:
  assumes E: "entradas_en d B n 0 (pre @ e # post)" and B: "B + n \<le> dk_len d"
    and c: "cabe (tam_entrada (d_name_len x)) e"
    and x: "d_name x = Some nombre" "unat (d_name_len x) = length nombre"
      "unat (d_rec_len x) = unat (d_rec_len e) - tam_entrada (d_name_len e)"
    and e1: "e1 = e\<lparr>d_rec_len := r\<rparr>" "unat r = tam_entrada (d_name_len e)"
  defines "q \<equiv> B + ocupa pre"
  defines "d1 \<equiv> put_bytes d q (etiqueta e1)"
  defines "d2 \<equiv> put_bytes d1 (q + tam_entrada (d_name_len e)) (etiqueta x @ nombre)"
  shows "entradas_en d2 B n 0 (pre @ e1 # x # post)" "solo_bloque d d2 B n"
proof -
  let ?t = "tam_entrada (d_name_len e)"
  have h: "entradas_en d B (ocupa pre) 0 pre" "ocupa pre < n" "entrada_en d q e"
    "8 + unat (d_name_len e) \<le> unat (d_rec_len e)" "ocupa pre + unat (d_rec_len e) \<le> n"
    "entradas_en d B n (ocupa pre + unat (d_rec_len e)) post"
    using E by (auto simp: entradas_append q_def)
  have t: "8 + unat (d_name_len e) \<le> ?t" "8 + length nombre \<le> tam_entrada (d_name_len x)" using x(2) by linarith+
  have ct: "?t + tam_entrada (d_name_len x) \<le> unat (d_rec_len e)" using c by (simp add: cabe_def)
  have s1: "solo_bloque d d1 B n"
    unfolding d1_def by (rule solo_bloque_put) (use h t ct B in \<open>auto simp: solo_bloque_def q_def\<close>)
  show "solo_bloque d d2 B n"
    unfolding d2_def by (rule solo_bloque_put [OF s1]) (use h t ct B in \<open>auto simp: q_def\<close>)
  have l1: "dk_len d1 = dk_len d" using s1 by (simp add: solo_bloque_def)
  have fr: "dk_byte d2 i = dk_byte d i" if "i < q \<or> (q + 8 \<le> i \<and> i < q + ?t) \<or> q + unat (d_rec_len e) \<le> i" "i < dk_len d" for i
    using that t ct x(2) l1 by (auto simp: d2_def d1_def dk_byte_put_outside)
  have lim: "q + unat (d_rec_len e) \<le> dk_len d" using h(5) B by (simp add: q_def)
  have "bytes_at d2 q 8 = bytes_at d1 q 8"
    unfolding d2_def using t ct lim l1 by (intro bytes_at_put_disj) auto
  moreover have "bytes_at d1 q 8 = etiqueta e1" unfolding d1_def by simp
  moreover have "bytes_at d2 (q + 8) (unat (d_name_len e)) = bytes_at d (q + 8) (unat (d_name_len e))"
    using fr t lim h(4) by (intro bytes_at_cong) auto
  ultimately have en1: "entrada_en d2 q e1" using h(3) e1 by (simp add: entrada_en_def)
  have b2: "bytes_at d2 (q + ?t) (8 + length nombre) = etiqueta x @ nombre" unfolding d2_def by simp
  have "bytes_at d2 (q + ?t) (8 + length nombre) = bytes_at d2 (q + ?t) 8 @ bytes_at d2 (q + ?t + 8) (length nombre)"
    by (simp add: bytes_at_def upt_add_eq_append [symmetric] flip: map_append add.assoc)
  then have "bytes_at d2 (q + ?t) 8 = etiqueta x" "bytes_at d2 (q + ?t + 8) (length nombre) = nombre"
    using b2 by simp_all
  then have en2: "entrada_en d2 (q + ?t) x" using x by (simp add: entrada_en_def)
  have p1: "entradas_en d2 B (ocupa pre) 0 pre"
    by (rule entradas_frame [OF _ h(1)]) (use fr lim in \<open>auto simp: q_def\<close>)
  have p2: "entradas_en d2 B n (ocupa pre + unat (d_rec_len e)) post"
    by (rule entradas_frame [OF _ h(6)]) (use fr B in \<open>auto simp: q_def\<close>)
  have "ocupa pre + ?t + unat (d_rec_len x) = ocupa pre + unat (d_rec_len e)" using x(3) ct by simp
  then show "entradas_en d2 B n 0 (pre @ e1 # x # post)"
    using p1 p2 en1 en2 e1 x t ct h(5) by (simp add: entradas_append q_def add.assoc)
qed

section \<open>Inserting\<close>

abbreviation par :: "Dir \<Rightarrow> u32 \<times> u8 list option" where
  "par e \<equiv> (d_inode e, d_name e)"

abbreviation listado :: "Dir list list \<Rightarrow> Dir list" where
  "listado ess \<equiv> concat (map vivas ess)"

lemma vivas_append [simp]: "vivas (xs @ ys) = vivas xs @ vivas ys"
  and vivas_Cons [simp]: "vivas (e # xs) = (if d_inode e \<noteq> 0 then e # vivas xs else vivas xs)"
  and vivas_Nil [simp]: "vivas [] = []"
  by (simp_all add: vivas_def)

text \<open>A list of blocks around the one that changes.\<close>

lemma listado_update:
  assumes "i < length ess"
  shows "listado (ess[i := es']) = listado (take i ess) @ vivas es' @ listado (drop (Suc i) ess)"
    and "listado ess = listado (take i ess) @ vivas (ess ! i) @ listado (drop (Suc i) ess)"
proof -
  show "listado (ess[i := es']) = listado (take i ess) @ vivas es' @ listado (drop (Suc i) ess)"
    using assms by (simp add: upd_conv_take_nth_drop)
  have "ess = take i ess @ ess ! i # drop (Suc i) ess" using assms by (simp add: id_take_nth_drop)
  then have "listado ess = listado (take i ess @ ess ! i # drop (Suc i) ess)" by simp
  then show "listado ess = listado (take i ess) @ vivas (ess ! i) @ listado (drop (Suc i) ess)" by simp
qed

lemma disk_write_en:
  assumes "bloque_en d b bs" "dk_len d' = dk_len d" "unat off + length xs \<le> unat bs"
  shows "disk_write d' (b * bs + off) xs = Some (put_bytes d' (base bs b + unat off) xs)"
proof -
  have "unat (b * bs + off) = base bs b + unat off" using assms by (intro unat_dir_pos) simp_all
  then show ?thesis using assms by (auto simp: disk_write_def bloque_en_def)
qed

lemma serializar_etiqueta: "serializarDir (e\<lparr>d_name := None\<rparr>) (word_of_nat OFF_NAME) = Some (etiqueta e)"
  by (simp add: serializarDir_def etiqueta_def OFF_NAME_def)

lemma serializar_entrada:
  assumes "d_name e = Some nombre" "unat (d_name_len e) = length nombre"
  shows "serializarDir e (word_of_nat OFF_NAME + ucast (d_name_len e)) = Some (etiqueta e @ nombre)"
proof -
  have "unat (d_name_len e) < 256" by simp
  then have "unat (d_name_len e) < 4294967288" by linarith
  then have "unat (word_of_nat OFF_NAME + ucast (d_name_len e) :: u32) = 8 + unat (d_name_len e)"
    by (subst unat_add_u32) (simp_all add: OFF_NAME_def)
  then show ?thesis using assms by (simp add: serializarDir_def etiqueta_def OFF_NAME_def)
qed

text \<open>
  A directory of the file system: its inode can be read, is in use and does not lie in a block of the directory.
\<close>

definition directorio :: "fs \<Rightarrow> u32 \<Rightarrow> Inode \<Rightarrow> Dir list list \<Rightarrow> bool" where
  "directorio F n inodo ess \<longleftrightarrow>
     Inode_leerInodo (f_ext2fs F) (s_inodes_per_group (f_sb F)) (f_bgdt F) n (block_size (f_sb F)) = Some inodo
     \<and> i_mode inodo \<noteq> 0 \<and> dir_en (f_ext2fs F) (block_size (f_sb F)) inodo ess
     \<and> (\<forall>i < length ess. let p = base (block_size (f_sb F)) (i_block inodo ! i) in
          case pos_inodo (s_inodes_per_group (f_sb F)) (f_bgdt F) n (block_size (f_sb F)) of None \<Rightarrow> False
          | Some q \<Rightarrow> unat q + 128 \<le> p \<or> p + unat (block_size (f_sb F)) \<le> unat q)"

lemma directorio_lista:
  "directorio F n inodo ess \<Longrightarrow>
   Dir_listar (f_ext2fs F) n (s_inodes_per_group (f_sb F)) (f_bgdt F) (block_size (f_sb F)) = Some (listado ess)"
  using Dir_listar_existe unfolding directorio_def by blast

lemma directorio_cambia:
  assumes D: "directorio F n inodo ess" and i: "i < length ess"
    and s: "solo_bloque (f_ext2fs F) d' (base (block_size (f_sb F)) (i_block inodo ! i)) (unat (block_size (f_sb F)))"
    and e: "entradas_en d' (base (block_size (f_sb F)) (i_block inodo ! i)) (unat (block_size (f_sb F))) 0 es'"
      "\<forall>e \<in> set es'. entrada_ok e"
  shows "directorio (F\<lparr>f_ext2fs := d'\<rparr>) n inodo (ess[i := es'])"
proof -
  have dir: "dir_en (f_ext2fs F) (block_size (f_sb F)) inodo ess" using D unfolding directorio_def by blast
  have dir': "dir_en d' (block_size (f_sb F)) inodo (ess[i := es'])" by (rule dir_en_cambia [OF dir i s e])
  obtain q where q: "pos_inodo (s_inodes_per_group (f_sb F)) (f_bgdt F) n (block_size (f_sb F)) = Some q"
    "unat q + 128 \<le> base (block_size (f_sb F)) (i_block inodo ! i)
       \<or> base (block_size (f_sb F)) (i_block inodo ! i) + unat (block_size (f_sb F)) \<le> unat q"
    using D i unfolding directorio_def Let_def by (auto split: option.splits)
  have "Inode_leerInodo d' (s_inodes_per_group (f_sb F)) (f_bgdt F) n (block_size (f_sb F)) = Some inodo"
    using D q s unfolding directorio_def by (blast intro: leerInodo_frame)
  then show ?thesis using D dir' unfolding directorio_def by (simp add: Let_def cong: option.case_cong)
qed

lemma inserta_vivas:
  assumes "d_inode x \<noteq> 0" "d_inode e1 = d_inode e" "d_name e1 = d_name e"
  shows "\<exists>a b. map par (A @ vivas (pre @ e # post) @ B) = a @ b \<and> map par (A @ vivas (pre @ e1 # x # post) @ B) = a @ par x # b"
  using assms
  by (intro exI [of _ "map par (A @ vivas (pre @ [e]))"] exI [of _ "map par (vivas post @ B)"]) simp

lemma crear_en_lugar:
  fixes F n inodo ess i pre e post off
  defines "bs \<equiv> block_size (f_sb F)" and "b \<equiv> i_block inodo ! i"
  assumes D: "directorio F n inodo ess" and i: "i < length ess" "ess ! i = pre @ e # post"
    and c: "cabe (tam_entrada (d_name_len x)) e" and off: "unat off = ocupa pre"
    and x: "d_name x = Some nombre" "unat (d_name_len x) = length nombre" "d_inode x \<noteq> 0"
    and t: "t = redondeo4 (word_of_nat OFF_NAME + ucast (d_name_len e))"
    and y: "y = x\<lparr>d_rec_len := ucast (ucast (d_rec_len e) - t :: u32)\<rparr>"
  shows "\<exists>d1 d2 ess' as cs. disk_write (f_ext2fs F) (b * bs + off) (etiqueta (e\<lparr>d_rec_len := ucast t\<rparr>)) = Some d1
    \<and> disk_write d1 (b * bs + (off + t)) (etiqueta y @ nombre) = Some d2
    \<and> directorio (F\<lparr>f_ext2fs := d2\<rparr>) n inodo ess' \<and> solo_bloque (f_ext2fs F) d2 (base bs b) (unat bs)
    \<and> map par (listado ess) = as @ cs \<and> map par (listado ess') = as @ par x # cs"
proof -
  let ?e1 = "e\<lparr>d_rec_len := ucast t\<rparr>"
  let ?p = "base bs b"
  let ?d1 = "put_bytes (f_ext2fs F) (?p + ocupa pre) (etiqueta ?e1)"
  let ?d2 = "put_bytes ?d1 (?p + ocupa pre + tam_entrada (d_name_len e)) (etiqueta y @ nombre)"
  have dir: "dir_en (f_ext2fs F) bs inodo ess" using D unfolding directorio_def bs_def by blast
  have B: "bloque_en (f_ext2fs F) b bs" and E: "entradas_en (f_ext2fs F) ?p (unat bs) 0 (pre @ e # post)"
    and ok: "\<And>e'. e' \<in> set (pre @ e # post) \<Longrightarrow> entrada_ok e'"
    using dir_enD [OF dir i(1)] i(2) unfolding b_def by simp_all
  have ut: "unat t = tam_entrada (d_name_len e)" unfolding t by (rule unat_tam_entrada)
  have "unat (d_name_len e) < 256" by simp
  then have "tam_entrada (d_name_len e) < 65536" by linarith
  then have ut': "unat (ucast t :: u16) = tam_entrada (d_name_len e)" using ut unat_ucast_down [of t] by simp
  have ct: "tam_entrada (d_name_len e) + tam_entrada (d_name_len x) \<le> unat (d_rec_len e)" using c by (simp add: cabe_def)
  have "unat (ucast (d_rec_len e) - t :: u32) = unat (d_rec_len e) - tam_entrada (d_name_len e)"
    using ut ct by (subst unat_sub_u32) simp_all
  moreover have "unat (d_rec_len e) < 65536" by simp
  then have "unat (d_rec_len e) - tam_entrada (d_name_len e) < 65536" by linarith
  ultimately have ur: "unat (d_rec_len y) = unat (d_rec_len e) - tam_entrada (d_name_len e)"
    unfolding y using unat_ucast_down [of "ucast (d_rec_len e) - t"] by simp
  have sum: "ocupa pre + unat (d_rec_len e) \<le> unat bs" using entradas_ocupa [OF E] by simp
  have tx: "8 + length nombre \<le> tam_entrada (d_name_len x)" "8 \<le> tam_entrada (d_name_len e)" using x(2) by linarith+
  have off2: "unat (off + t) = ocupa pre + tam_entrada (d_name_len e)"
    using off ut ct sum by (subst unat_add_u32) (use B in \<open>simp_all add: bloque_en_def\<close>)
  have w1: "disk_write (f_ext2fs F) (b * bs + off) (etiqueta ?e1) = Some ?d1"
    using disk_write_en [OF B refl, of off "etiqueta ?e1"] off ct sum tx by simp
  have l1: "dk_len ?d1 = dk_len (f_ext2fs F)" using bloque_en_limite [OF B] ct sum tx by simp
  have w2: "disk_write ?d1 (b * bs + (off + t)) (etiqueta y @ nombre) = Some ?d2"
    using disk_write_en [OF B l1, of "off + t" "etiqueta y @ nombre"] off2 ct sum tx by (simp add: add.assoc)
  have cy: "cabe (tam_entrada (d_name_len y)) e" "d_name y = Some nombre" "unat (d_name_len y) = length nombre"
    using c x y by simp_all
  note I = inserta_en [OF E bloque_en_limite [OF B] cy ur refl ut']
  have "tam_entrada (d_name_len x) \<le> unat (d_rec_len y)" using ur ct by linarith
  then have "entrada_ok y" "entrada_ok ?e1" using ut' y by (simp_all add: entrada_ok_def)
  then have oks: "\<forall>e' \<in> set (pre @ ?e1 # y # post). entrada_ok e'" using ok by auto
  have dd: "directorio (F\<lparr>f_ext2fs := ?d2\<rparr>) n inodo (ess[i := pre @ ?e1 # y # post])"
    by (rule directorio_cambia [OF D i(1)]) (use I oks in \<open>simp_all add: bs_def b_def\<close>)
  obtain as cs where "map par (listado ess) = as @ cs" "map par (listado (ess[i := pre @ ?e1 # y # post])) = as @ par y # cs"
    using inserta_vivas [of y ?e1 e "listado (take i ess)" pre post "listado (drop (Suc i) ess)"] x(3) y i
    unfolding listado_update [OF i(1)] by auto
  moreover have "solo_bloque (f_ext2fs F) ?d2 ?p (unat bs)" using I by blast
  ultimately show ?thesis using w1 w2 dd y by (intro exI conjI) auto
qed

lemma Dir_crearNuevaEntrada_existe:
  assumes D: "directorio F n inodo ess" and nom: "length (hasta_nul nombre) < 256" and nuevo: "nuevo \<noteq> 0"
    and hay: "\<exists>e \<in> set (concat ess). cabe (tam_entrada (word_of_nat (length (hasta_nul nombre)))) e"
  shows "\<exists>d ess' as cs. Dir_crearNuevaEntrada F nombre n nuevo = Some (0, F\<lparr>f_ext2fs := d\<rparr>)
    \<and> directorio (F\<lparr>f_ext2fs := d\<rparr>) n inodo ess'
    \<and> (\<exists>i < length ess. solo_bloque (f_ext2fs F) d (base (block_size (f_sb F)) (i_block inodo ! i)) (unat (block_size (f_sb F))))
    \<and> map par (listado ess) = as @ cs \<and> map par (listado ess') = as @ (nuevo, Some (hasta_nul nombre)) # cs"
proof -
  let ?bs = "block_size (f_sb F)"
  let ?x = "\<lparr>d_inode = nuevo, d_rec_len = 0, d_name_len = word_of_nat (length (hasta_nul nombre)),
      d_filetype = 0, d_name = Some (hasta_nul nombre)\<rparr>"
  let ?tn = "redondeo4 (word_of_nat OFF_NAME + ucast (d_name_len ?x)) :: u32"
  have r: "Inode_leerInodo (f_ext2fs F) (s_inodes_per_group (f_sb F)) (f_bgdt F) n ?bs = Some inodo" "i_mode inodo \<noteq> 0"
    and dir: "dir_en (f_ext2fs F) ?bs inodo ess" using D unfolding directorio_def by blast+
  have cb: "cant_bloques (i_size inodo) ?bs = Some (word_of_nat (length ess))" using dir unfolding dir_en_def by blast
  have utn: "unat ?tn = tam_entrada (d_name_len ?x)" by (rule unat_tam_entrada)
  have x: "d_name ?x = Some (hasta_nul nombre)" "unat (d_name_len ?x) = length (hasta_nul nombre)" "d_inode ?x \<noteq> 0"
    using nom nuevo by (simp_all add: unat_of_nat)
  have "\<exists>e \<in> set (concat (drop 0 ess)). cabe (unat ?tn) e" using hay unfolding utn by simp
  from buscar_lugar_bloques_en [OF dir _ this]
  obtain i pre e post off where I: "i < length ess" "ess ! i = pre @ e # post" "cabe (unat ?tn) e" "unat off = ocupa pre"
    "buscar_lugar_bloques (f_ext2fs F) inodo ?bs ?tn [0..<length ess] = Some (Some (i_block inodo ! i, off, e\<lparr>d_name := None\<rparr>,
        redondeo4 (word_of_nat OFF_NAME + ucast (d_name_len e))))" by auto
  let ?t = "redondeo4 (word_of_nat OFF_NAME + ucast (d_name_len e)) :: u32"
  let ?y = "?x\<lparr>d_rec_len := ucast (ucast (d_rec_len e) - ?t :: u32)\<rparr>"
  from crear_en_lugar [OF D I(1,2) I(3) [unfolded utn] I(4) x refl refl]
  obtain d1 d2 ess' as cs where W:
    "disk_write (f_ext2fs F) (i_block inodo ! i * ?bs + off) (etiqueta (e\<lparr>d_rec_len := ucast ?t\<rparr>)) = Some d1"
    "disk_write d1 (i_block inodo ! i * ?bs + (off + ?t)) (etiqueta ?y @ hasta_nul nombre) = Some d2"
    "directorio (F\<lparr>f_ext2fs := d2\<rparr>) n inodo ess'" "solo_bloque (f_ext2fs F) d2 (base ?bs (i_block inodo ! i)) (unat ?bs)"
    "map par (listado ess) = as @ cs" "map par (listado ess') = as @ par ?x # cs" by blast
  have s1: "serializarDir (e\<lparr>d_rec_len := ucast ?t, d_name := None\<rparr>) (word_of_nat OFF_NAME)
      = Some (etiqueta (e\<lparr>d_rec_len := ucast ?t\<rparr>))" by (rule serializar_etiqueta)
  have s2: "serializarDir ?y (word_of_nat OFF_NAME + ucast (d_name_len ?y)) = Some (etiqueta ?y @ hasta_nul nombre)"
    by (rule serializar_entrada) (use x in simp_all)
  have "Dir_crearNuevaEntrada F nombre n nuevo = Some (0, F\<lparr>f_ext2fs := d2\<rparr>)"
    using r cb I(5) W(1,2) s1 s2 cant_dir [OF dir] unfolding Dir_crearNuevaEntrada_def Let_def by simp
  then show ?thesis using W(3-6) I(1) by (intro exI [of _ d2] exI [of _ ess'] exI [of _ as] exI [of _ cs]) auto
qed

text \<open>
  C10: inserting an entry in a directory that has room for it ends with code 0; the directory is well formed again, only
  one of its blocks changed, and its listing is the old one with the new inode and name inserted at one place.
\<close>

theorem Dir_crearNuevaEntrada_correcto:
  assumes D: "directorio F n inodo ess" and nom: "length (hasta_nul nombre) < 256" and nuevo: "nuevo \<noteq> 0"
    and hay: "\<exists>e \<in> set (concat ess). cabe (tam_entrada (word_of_nat (length (hasta_nul nombre)))) e"
  shows "\<exists>d ess' as cs. Dir_crearNuevaEntrada F nombre n nuevo = Some (0, F\<lparr>f_ext2fs := d\<rparr>)
    \<and> directorio (F\<lparr>f_ext2fs := d\<rparr>) n inodo ess'
    \<and> (\<exists>i < length ess. solo_bloque (f_ext2fs F) d (base (block_size (f_sb F)) (i_block inodo ! i)) (unat (block_size (f_sb F))))
    \<and> map par (listado ess) = as @ cs \<and> map par (listado ess') = as @ (nuevo, Some (hasta_nul nombre)) # cs"
  using Dir_crearNuevaEntrada_existe [OF assms] .

section \<open>Removing\<close>

primrec quitar_inodo :: "u32 \<Rightarrow> (u32 \<times> 'a) list \<Rightarrow> (u32 \<times> 'a) list" where
  "quitar_inodo n [] = []"
| "quitar_inodo n (x # xs) = (if fst x = n then xs else x # quitar_inodo n xs)"

abbreviation sin_inodo :: "u32 \<Rightarrow> Dir list \<Rightarrow> bool" where
  "sin_inodo n es \<equiv> \<forall>e \<in> set es. d_inode e \<noteq> n"

lemma quitar_inodo_append: "sin_inodo n es \<Longrightarrow> quitar_inodo n (map par es @ ys) = map par es @ quitar_inodo n ys"
  by (induction es) auto

lemma quitar_inodo_nada: "sin_inodo n es \<Longrightarrow> quitar_inodo n (map par es) = map par es"
  by (induction es) auto

text \<open>
  What the search in a block returns: nothing when no entry has the inode; otherwise the first entry that has it, with
  the one before it when there is one.
\<close>

definition hallado :: "Dir list \<Rightarrow> u32 \<Rightarrow> (u32 \<times> u32 \<times> Dir \<times> Dir) option \<Rightarrow> bool" where
  "hallado es n r \<longleftrightarrow> (case r of None \<Rightarrow> sin_inodo n es
     | Some (off, ant, a, s) \<Rightarrow>
         (\<exists>e post. es = e # post \<and> d_inode e = n \<and> off = 0 \<and> ant = 0 \<and> a = e\<lparr>d_name := None\<rparr>)
         \<or> (\<exists>pre a' e post. es = pre @ a' # e # post \<and> d_inode e = n \<and> sin_inodo n (pre @ [a'])
              \<and> unat ant = ocupa pre \<and> off \<noteq> 0 \<and> a = a'\<lparr>d_name := None\<rparr> \<and> s = e\<lparr>d_name := None\<rparr>))"

lemma buscar_borrar_en:
  assumes b: "bloque_en d b bs"
  shows "entradas_en d (base bs b) (unat bs) (unat ant) (a # es) \<Longrightarrow> unat ant = ocupa pre \<Longrightarrow> sin_inodo n (pre @ [a]) \<Longrightarrow>
    \<exists>r. buscar_borrar d b bs n ant (ant + ucast (d_rec_len a)) (a\<lparr>d_name := None\<rparr>) = Some r \<and> hallado (pre @ a # es) n r"
proof (induction es arbitrary: a ant pre)
  case Nil
  then have "unat (ant + ucast (d_rec_len a)) = unat bs"
    by (subst unat_sum_rec [of _ _ "unat bs"]) simp_all
  then show ?case using Nil.prems(3) by (subst buscar_borrar.simps) (simp add: word_less_nat_alt hallado_def)
next
  case (Cons e es)
  let ?off = "ant + ucast (d_rec_len a)"
  have h: "8 + unat (d_name_len a) \<le> unat (d_rec_len a)" "unat ant + unat (d_rec_len a) \<le> unat bs"
    and h': "entradas_en d (base bs b) (unat bs) (unat ant + unat (d_rec_len a)) (e # es)"
    using Cons.prems(1) by simp_all
  have off: "unat ?off = unat ant + unat (d_rec_len a)"
    using h(2) by (intro unat_sum_rec [of _ _ "unat bs"]) simp_all
  have E: "entradas_en d (base bs b) (unat bs) (unat ?off) (e # es)" using h' off by simp
  then have e: "unat ?off < unat bs" "entrada_en d (base bs b + unat ?off) e" "unat ?off + 8 \<le> unat bs" by auto
  have l: "leer_etiqueta d (b * bs + ?off) = Some (e\<lparr>d_name := None\<rparr>)" by (rule leer_etiqueta_en [OF b e(2,3)])
  have s: "buscar_borrar d b bs n ant ?off (a\<lparr>d_name := None\<rparr>) =
      (if d_inode e = n then Some (Some (?off, ant, a\<lparr>d_name := None\<rparr>, e\<lparr>d_name := None\<rparr>))
       else buscar_borrar d b bs n ?off (?off + ucast (d_rec_len e)) (e\<lparr>d_name := None\<rparr>))"
    using l e(1) by (subst buscar_borrar.simps) (simp add: word_less_nat_alt)
  show ?case
  proof (cases "d_inode e = n")
    case True
    have "?off \<noteq> 0" using off h(1) by auto
    then show ?thesis unfolding s hallado_def using True Cons.prems(2,3) by auto
  next
    case False
    have "unat ?off = ocupa (pre @ [a])" using off Cons.prems(2) by simp
    moreover have "sin_inodo n ((pre @ [a]) @ [e])" using Cons.prems(3) False by simp
    ultimately show ?thesis using Cons.IH [OF E, of "pre @ [a]"] False unfolding s by simp
  qed
qed

lemma buscar_borrar_bloque_en:
  assumes b: "bloque_en d b bs" and E: "entradas_en d (base bs b) (unat bs) 0 es"
  shows "\<exists>r. buscar_borrar_bloque d b bs n = Some r \<and> hallado es n r"
proof (cases es)
  case Nil
  then show ?thesis using b E by (simp add: bloque_en_def)
next
  case (Cons e es')
  then have e: "entrada_en d (base bs b + unat (0 :: u32)) e" "unat (0 :: u32) + 8 \<le> unat bs" using E by auto
  have l: "leer_etiqueta d (b * bs) = Some (e\<lparr>d_name := None\<rparr>)" using leer_etiqueta_en [OF b e] by simp
  show ?thesis
  proof (cases "d_inode e = n")
    case True
    then show ?thesis using l Cons by (simp add: buscar_borrar_bloque_def hallado_def)
  next
    case False
    have "\<exists>r. buscar_borrar d b bs n 0 (0 + ucast (d_rec_len e)) (e\<lparr>d_name := None\<rparr>) = Some r \<and> hallado ([] @ e # es') n r"
      by (rule buscar_borrar_en [OF b]) (use E Cons False in simp_all)
    then show ?thesis using l Cons False by (simp add: buscar_borrar_bloque_def)
  qed
qed

lemma buscar_borrar_bloques_en:
  assumes D: "dir_en d bs inodo ess" and k: "k \<le> length ess"
  shows "\<exists>r. buscar_borrar_bloques d inodo bs n [k..<length ess] = Some r \<and>
    (case r of None \<Rightarrow> sin_inodo n (concat (drop k ess))
     | Some (b, rr) \<Rightarrow> \<exists>i. k \<le> i \<and> i < length ess \<and> b = i_block inodo ! i
         \<and> (\<forall>j. k \<le> j \<and> j < i \<longrightarrow> sin_inodo n (ess ! j)) \<and> hallado (ess ! i) n (Some rr))"
  using k
proof (induction "length ess - k" arbitrary: k)
  case 0
  then show ?case by simp
next
  case (Suc m)
  then have k: "k < length ess" by simp
  then have b: "Inode_leerBloque d (word_of_nat k) inodo bs = Some (i_block inodo ! k)"
    using D by (intro leerBloque_directo) (simp add: dir_en_def)
  obtain r where r: "buscar_borrar_bloque d (i_block inodo ! k) bs n = Some r" "hallado (ess ! k) n r"
    using buscar_borrar_bloque_en [OF dir_enD(1,2) [OF D k]] by blast
  have dk: "drop k ess = ess ! k # drop (Suc k) ess" using k by (simp add: Cons_nth_drop_Suc)
  have uk: "[k..<length ess] = k # [Suc k..<length ess]" using k by (simp add: upt_conv_Cons)
  show ?case
  proof (cases r)
    case (Some rr)
    obtain off ant a s where rr: "rr = (off, ant, a, s)" by (cases rr)
    have "buscar_borrar_bloques d inodo bs n [k..<length ess] = Some (Some (i_block inodo ! k, rr))"
      unfolding uk using b r(1) Some rr by simp
    then show ?thesis using k r(2) Some by (auto intro!: exI [of _ k])
  next
    case None
    then have no: "sin_inodo n (ess ! k)" using r(2) by (simp add: hallado_def)
    have "m = length ess - Suc k" "Suc k \<le> length ess" using Suc.hyps(2) k by simp_all
    from Suc.hyps(1) [OF this] obtain r' where r': "buscar_borrar_bloques d inodo bs n [Suc k..<length ess] = Some r'"
      "case r' of None \<Rightarrow> sin_inodo n (concat (drop (Suc k) ess))
     | Some (b, rr) \<Rightarrow> \<exists>i. Suc k \<le> i \<and> i < length ess \<and> b = i_block inodo ! i
         \<and> (\<forall>j. Suc k \<le> j \<and> j < i \<longrightarrow> sin_inodo n (ess ! j)) \<and> hallado (ess ! i) n (Some rr)" by blast
    have st: "buscar_borrar_bloques d inodo bs n [k..<length ess] = Some r'" unfolding uk using b r(1) None r'(1) by simp
    show ?thesis
    proof (cases r')
      case (Some x)
      obtain b' rr where x: "x = (b', rr)" by (cases x)
      then obtain i where i: "Suc k \<le> i" "i < length ess" "b' = i_block inodo ! i"
        "\<forall>j. Suc k \<le> j \<and> j < i \<longrightarrow> sin_inodo n (ess ! j)" "hallado (ess ! i) n (Some rr)" using r'(2) Some by auto
      have "\<forall>j. k \<le> j \<and> j < i \<longrightarrow> sin_inodo n (ess ! j)" using i(4) no by (metis Suc_leI le_neq_implies_less)
      then show ?thesis using st Some x i by (auto intro!: exI [of _ i])
    qed (use st r'(2) no dk in auto)
  qed
qed

text \<open>Joining an entry to the one before it, and clearing the inode of the first entry.\<close>

lemma une_en:
  assumes E: "entradas_en d B n 0 (pre @ a # e # post)" and B: "B + n \<le> dk_len d"
    and r: "unat r = unat (d_rec_len a) + unat (d_rec_len e)" and a1: "a1 = a\<lparr>d_rec_len := r\<rparr>"
  shows "entradas_en (put_bytes d (B + ocupa pre) (etiqueta a1)) B n 0 (pre @ a1 # post)"
    and "solo_bloque d (put_bytes d (B + ocupa pre) (etiqueta a1)) B n"
proof -
  let ?q = "B + ocupa pre" and ?d = "put_bytes d (B + ocupa pre) (etiqueta a1)"
  have h: "entradas_en d B (ocupa pre) 0 pre" "ocupa pre < n" "entrada_en d ?q a"
    "8 + unat (d_name_len a) \<le> unat (d_rec_len a)" "ocupa pre + unat (d_rec_len a) + unat (d_rec_len e) \<le> n"
    "entradas_en d B n (ocupa pre + unat (d_rec_len a) + unat (d_rec_len e)) post"
    using E by (auto simp: entradas_append)
  show s: "solo_bloque d ?d B n" by (rule solo_bloque_put) (use h B in \<open>auto simp: solo_bloque_def\<close>)
  have fr: "dk_byte ?d i = dk_byte d i" if "i < ?q \<or> ?q + 8 \<le> i" "i < dk_len d" for i
    using that by (simp add: dk_byte_put_outside)
  have "bytes_at ?d (?q + 8) (unat (d_name_len a)) = bytes_at d (?q + 8) (unat (d_name_len a))"
    using fr h(4,5) B by (intro bytes_at_cong) auto
  then have en: "entrada_en ?d ?q a1" using h(3) a1 by (simp add: entrada_en_def)
  have p1: "entradas_en ?d B (ocupa pre) 0 pre"
    by (rule entradas_frame [OF _ h(1)]) (use fr h(2) B in auto)
  have p2: "entradas_en ?d B n (ocupa pre + unat (d_rec_len a) + unat (d_rec_len e)) post"
    by (rule entradas_frame [OF _ h(6)]) (use fr h(4) B in auto)
  show "entradas_en ?d B n 0 (pre @ a1 # post)"
    using p1 p2 en h(2,4,5) a1 r by (simp add: entradas_append add.assoc)
qed

lemma anula_en:
  assumes E: "entradas_en d B n 0 (e # post)" and B: "B + n \<le> dk_len d" and e1: "e1 = e\<lparr>d_inode := z\<rparr>"
  shows "entradas_en (put_bytes d B (etiqueta e1)) B n 0 (e1 # post)"
    and "solo_bloque d (put_bytes d B (etiqueta e1)) B n"
proof -
  let ?d = "put_bytes d B (etiqueta e1)"
  have h: "0 < n" "entrada_en d B e" "8 + unat (d_name_len e) \<le> unat (d_rec_len e)" "unat (d_rec_len e) \<le> n"
    "entradas_en d B n (unat (d_rec_len e)) post" using E by simp_all
  show s: "solo_bloque d ?d B n" by (rule solo_bloque_put) (use h B in \<open>auto simp: solo_bloque_def\<close>)
  have fr: "dk_byte ?d i = dk_byte d i" if "B + 8 \<le> i" "i < dk_len d" for i
    using that by (simp add: dk_byte_put_outside)
  have "bytes_at ?d (B + 8) (unat (d_name_len e)) = bytes_at d (B + 8) (unat (d_name_len e))"
    using fr h(3,4) B by (intro bytes_at_cong) auto
  then have en: "entrada_en ?d B e1" using h(2) e1 by (simp add: entrada_en_def)
  have "entradas_en ?d B n (unat (d_rec_len e)) post"
    by (rule entradas_frame [OF _ h(5)]) (use fr h(3) B in auto)
  then show "entradas_en ?d B n 0 (e1 # post)" using en h e1 by simp
qed

definition entrada_sin :: "u32 \<Rightarrow> u32 \<Rightarrow> Dir \<Rightarrow> Dir \<Rightarrow> Dir" where
  "entrada_sin off ant a s = (if off = 0 \<and> ant = 0 then a\<lparr>d_inode := 0\<rparr> else a\<lparr>d_rec_len := d_rec_len a + d_rec_len s\<rparr>)"

lemma borra_en_bloque:
  assumes b: "bloque_en d b bs" "unat bs < 65536" and E: "entradas_en d (base bs b) (unat bs) 0 es"
    and ok: "\<forall>e \<in> set es. entrada_ok e" and n: "n \<noteq> 0" and H: "hallado es n (Some (off, ant, a, s))"
  shows "\<exists>d' es'. disk_write d (b * bs + ant) (etiqueta (entrada_sin off ant a s)) = Some d'
    \<and> solo_bloque d d' (base bs b) (unat bs) \<and> entradas_en d' (base bs b) (unat bs) 0 es' \<and> (\<forall>e \<in> set es'. entrada_ok e)
    \<and> map par (vivas es' @ C) = quitar_inodo n (map par (vivas es @ C))"
proof -
  note B = bloque_en_limite [OF b(1)]
  from H consider (primera) e post where "es = e # post" "d_inode e = n" "off = 0" "ant = 0" "a = e\<lparr>d_name := None\<rparr>"
    | (otra) pre a' e post where "es = pre @ a' # e # post" "d_inode e = n" "sin_inodo n (pre @ [a'])"
        "unat ant = ocupa pre" "off \<noteq> 0" "a = a'\<lparr>d_name := None\<rparr>" "s = e\<lparr>d_name := None\<rparr>"
    unfolding hallado_def by auto
  then show ?thesis
  proof cases
    case primera
    let ?e = "e\<lparr>d_inode := 0\<rparr>"
    have w: "disk_write d (b * bs + ant) (etiqueta ?e) = Some (put_bytes d (base bs b) (etiqueta ?e))"
      using disk_write_en [OF b(1) refl, of 0 "etiqueta ?e"] E primera by auto
    have et: "etiqueta (entrada_sin off ant a s) = etiqueta ?e" using primera by (simp add: entrada_sin_def etiqueta_def)
    note A = anula_en [OF E [unfolded primera(1)] B refl, of 0]
    have "map par (vivas (?e # post) @ C) = quitar_inodo n (map par (vivas es @ C))" using primera n by simp
    moreover have "\<forall>x \<in> set (?e # post). entrada_ok x" using ok primera by (auto simp: entrada_ok_def)
    ultimately show ?thesis using w A unfolding et by blast
  next
    case otra
    let ?r = "d_rec_len a' + d_rec_len e" and ?a = "a'\<lparr>d_rec_len := d_rec_len a' + d_rec_len e\<rparr>"
    have sum: "ocupa pre + unat (d_rec_len a') + unat (d_rec_len e) \<le> unat bs" "8 \<le> unat (d_rec_len a')"
      using entradas_ocupa [OF E] E otra by (auto simp: entradas_append)
    then have r: "unat ?r = unat (d_rec_len a') + unat (d_rec_len e)" using b(2) by (subst unat_plus_simple [THEN iffD1]) (auto simp: word_le_nat_alt unat_word_ariths)
    have w: "disk_write d (b * bs + ant) (etiqueta ?a) = Some (put_bytes d (base bs b + ocupa pre) (etiqueta ?a))"
      using disk_write_en [OF b(1) refl, of ant "etiqueta ?a"] sum otra(4) by simp
    have et: "etiqueta (entrada_sin off ant a s) = etiqueta ?a" using otra by (simp add: entrada_sin_def etiqueta_def)
    note A = une_en [OF E [unfolded otra(1)] B r refl]
    have v: "sin_inodo n (vivas (pre @ [a']))" using otra(3) by (auto simp: vivas_def)
    have "map par (vivas es @ C) = map par (vivas (pre @ [a'])) @ (n, d_name e) # map par (vivas post @ C)"
      using otra n by simp
    then have "quitar_inodo n (map par (vivas es @ C)) = map par (vivas (pre @ [a'])) @ map par (vivas post @ C)"
      using quitar_inodo_append [OF v] by simp
    then have q: "map par (vivas (pre @ ?a # post) @ C) = quitar_inodo n (map par (vivas es @ C))" by simp
    have "\<forall>x \<in> set (pre @ ?a # post). entrada_ok x" using ok otra r by (auto simp: entrada_ok_def)
    then show ?thesis using w A q unfolding et by blast
  qed
qed

lemma borrar_en_lugar:
  assumes D: "directorio F n inodo ess" and bs: "unat (block_size (f_sb F)) < 65536" and borrar: "borrar \<noteq> 0"
    and i: "i < length ess" "\<forall>j < i. sin_inodo borrar (ess ! j)" "hallado (ess ! i) borrar (Some (off, ant, a, s))"
  shows "\<exists>d ess'. disk_write (f_ext2fs F) (i_block inodo ! i * block_size (f_sb F) + ant) (etiqueta (entrada_sin off ant a s)) = Some d
    \<and> solo_bloque (f_ext2fs F) d (base (block_size (f_sb F)) (i_block inodo ! i)) (unat (block_size (f_sb F)))
    \<and> directorio (F\<lparr>f_ext2fs := d\<rparr>) n inodo ess' \<and> map par (listado ess') = quitar_inodo borrar (map par (listado ess))"
proof -
  let ?bs = "block_size (f_sb F)" and ?d = "f_ext2fs F" and ?A = "listado (take i ess)" and ?C = "listado (drop (Suc i) ess)"
  have dir: "dir_en ?d ?bs inodo ess" using D unfolding directorio_def by blast
  obtain d' es' where W: "disk_write ?d (i_block inodo ! i * ?bs + ant) (etiqueta (entrada_sin off ant a s)) = Some d'"
      "solo_bloque ?d d' (base ?bs (i_block inodo ! i)) (unat ?bs)"
      "entradas_en d' (base ?bs (i_block inodo ! i)) (unat ?bs) 0 es'" "\<forall>e \<in> set es'. entrada_ok e"
      "map par (vivas es' @ ?C) = quitar_inodo borrar (map par (vivas (ess ! i) @ ?C))"
    using borra_en_bloque [OF dir_enD(1) [OF dir i(1)] bs dir_enD(2) [OF dir i(1)] _ borrar i(3), of ?C] dir_enD(3) [OF dir i(1)]
    by blast
  have "\<exists>j < i. es = ess ! j" if "es \<in> set (take i ess)" for es using that i(1) by (auto simp: in_set_conv_nth)
  then have "sin_inodo borrar ?A" using i(2) by (fastforce simp: vivas_def)
  then have "map par (listado (ess[i := es'])) = quitar_inodo borrar (map par (listado ess))"
    using W(5) quitar_inodo_append [of ?A borrar] unfolding listado_update [OF i(1)] by simp
  moreover have "directorio (F\<lparr>f_ext2fs := d'\<rparr>) n inodo (ess[i := es'])" by (rule directorio_cambia [OF D i(1) W(2-4)])
  ultimately show ?thesis using W(1,2) by blast
qed

lemma Dir_borrarEntrada_existe:
  assumes D: "directorio F n inodo ess" and bs: "unat (block_size (f_sb F)) < 65536" and borrar: "borrar \<noteq> 0"
  shows "\<exists>d ess'. Dir_borrarEntrada F n borrar = Some (0, F\<lparr>f_ext2fs := d\<rparr>) \<and> directorio (F\<lparr>f_ext2fs := d\<rparr>) n inodo ess'
    \<and> (d = f_ext2fs F \<or> (\<exists>i < length ess. solo_bloque (f_ext2fs F) d (base (block_size (f_sb F)) (i_block inodo ! i)) (unat (block_size (f_sb F)))))
    \<and> map par (listado ess') = quitar_inodo borrar (map par (listado ess))"
proof -
  let ?bs = "block_size (f_sb F)" and ?d = "f_ext2fs F"
  have r: "Inode_leerInodo ?d (s_inodes_per_group (f_sb F)) (f_bgdt F) n ?bs = Some inodo" "i_mode inodo \<noteq> 0"
    and dir: "dir_en ?d ?bs inodo ess" using D unfolding directorio_def by blast+
  have cb: "cant_bloques (i_size inodo) ?bs = Some (word_of_nat (length ess))" using dir unfolding dir_en_def by blast
  from buscar_borrar_bloques_en [OF dir, of 0 borrar] obtain rr where
    R: "buscar_borrar_bloques ?d inodo ?bs borrar [0..<length ess] = Some rr"
      "case rr of None \<Rightarrow> sin_inodo borrar (concat (drop 0 ess))
       | Some (b, rr) \<Rightarrow> \<exists>i. 0 \<le> i \<and> i < length ess \<and> b = i_block inodo ! i
         \<and> (\<forall>j. 0 \<le> j \<and> j < i \<longrightarrow> sin_inodo borrar (ess ! j)) \<and> hallado (ess ! i) borrar (Some rr)" by blast
  show ?thesis
  proof (cases rr)
    case None
    then have "sin_inodo borrar (listado ess)" using R(2) by (auto simp: vivas_def)
    moreover have "Dir_borrarEntrada F n borrar = Some (0, F)"
      using r cb R(1) None cant_dir [OF dir] unfolding Dir_borrarEntrada_def Let_def by simp
    ultimately show ?thesis using D by (intro exI [of _ ?d] exI [of _ ess]) (simp add: quitar_inodo_nada)
  next
    case (Some x)
    then obtain off ant a s i where x: "x = (i_block inodo ! i, off, ant, a, s)" "i < length ess"
      "\<forall>j < i. sin_inodo borrar (ess ! j)" "hallado (ess ! i) borrar (Some (off, ant, a, s))"
      using R(2) by (cases x) auto
    from borrar_en_lugar [OF D bs borrar x(2-4)] obtain d' ess' where
      W: "disk_write ?d (i_block inodo ! i * ?bs + ant) (etiqueta (entrada_sin off ant a s)) = Some d'"
        "solo_bloque ?d d' (base ?bs (i_block inodo ! i)) (unat ?bs)" "directorio (F\<lparr>f_ext2fs := d'\<rparr>) n inodo ess'"
        "map par (listado ess') = quitar_inodo borrar (map par (listado ess))" by blast
    have "Dir_borrarEntrada F n borrar = Some (0, F\<lparr>f_ext2fs := d'\<rparr>)"
      using r cb R(1) Some x(1) cant_dir [OF dir] W(1) serializar_etiqueta [of "entrada_sin off ant a s"]
      unfolding Dir_borrarEntrada_def Let_def entrada_sin_def by simp
    then show ?thesis using W(2-4) x(2) by blast
  qed
qed

text \<open>
  C15: removing an inode from a directory whose blocks have less than 64 KiB ends with code 0; the directory is well formed
  again, and its listing is the old one without the first entry of that inode, or the old one when there is none; at most one of its blocks is written.
\<close>

theorem Dir_borrarEntrada_correcto:
  assumes D: "directorio F n inodo ess" and bs: "unat (block_size (f_sb F)) < 65536" and borrar: "borrar \<noteq> 0"
  shows "\<exists>d ess'. Dir_borrarEntrada F n borrar = Some (0, F\<lparr>f_ext2fs := d\<rparr>) \<and> directorio (F\<lparr>f_ext2fs := d\<rparr>) n inodo ess'
    \<and> (d = f_ext2fs F \<or> (\<exists>i < length ess. solo_bloque (f_ext2fs F) d (base (block_size (f_sb F)) (i_block inodo ! i)) (unat (block_size (f_sb F)))))
    \<and> map par (listado ess') = quitar_inodo borrar (map par (listado ess))"
  using Dir_borrarEntrada_existe [OF assms] .

section \<open>A directory for the witnesses\<close>

text \<open>The root directory, inode 2, with one block, number 70, and two entries.\<close>

definition dir_ej :: "Dir list" where
  "dir_ej = [\<lparr>d_inode = 2, d_rec_len = 12, d_name_len = 1, d_filetype = 0, d_name = Some [46]\<rparr>,
             \<lparr>d_inode = 5, d_rec_len = 1012, d_name_len = 1, d_filetype = 0, d_name = Some [97]\<rparr>]"

definition inodo_dir_ej :: Inode where
  "inodo_dir_ej = inodo_ej\<lparr>i_mode := 0x41ED, i_size := 1024, i_block := [70, 0, 0, 0, 0, 0, 0, 0, 0, 0, 0, 0, 0, 0, 0]\<rparr>"

definition fs_dir_ej :: fs where
  "fs_dir_ej = fs_ej\<lparr>f_ext2fs := put_bytes (put_bytes disco_ej 10368 (enc_Inode inodo_dir_ej)) 71680
     [2, 0, 0, 0, 12, 0, 1, 0, 46, 0, 0, 0, 5, 0, 0, 0, 0xF4, 3, 1, 0, 97]\<rparr>"

lemma enc_dir_ej: "length (enc_Inode inodo_dir_ej) = 128" "dec_Inode (enc_Inode inodo_dir_ej) = inodo_dir_ej"
  by (simp_all add: inc.enc_width inc.dec_enc inode_ok_def inodo_dir_ej_def)

lemma fs_dir_ej_sel:
  "f_sb fs_dir_ej = sb_ej" "f_bgdt fs_dir_ej = bgdt_ej" "dk_len (f_ext2fs fs_dir_ej) = 102400"
  "i_block inodo_dir_ej ! 0 = 70" "i_size inodo_dir_ej = 1024" "i_mode inodo_dir_ej \<noteq> 0"
  by (simp_all add: fs_dir_ej_def fs_ej_def ej_sel enc_dir_ej) (simp_all add: inodo_dir_ej_def)

lemma pos_dir_ej: "pos_inodo 64 bgdt_ej 2 1024 = Some 10368"
  by (simp add: pos_inodo_def ej_sel ej_tabla)

lemma leer_dir_ej: "Inode_leerInodo (f_ext2fs fs_dir_ej) 64 bgdt_ej 2 1024 = Some inodo_dir_ej"
proof -
  have "bytes_at (f_ext2fs fs_dir_ej) 10368 128 = enc_Inode inodo_dir_ej"
    unfolding fs_dir_ej_def by (simp add: bytes_at_put_disj ej_sel enc_dir_ej)
  then show ?thesis by (simp add: Inode_leerInodo_def pos_dir_ej disk_read_def fs_dir_ej_sel enc_dir_ej)
qed

lemma etiquetas_ej: "map etiqueta dir_ej = [[2, 0, 0, 0, 12, 0, 1, 0], [5, 0, 0, 0, 0xF4, 3, 1, 0]]"
  by code_simp

lemma entradas_dir_ej: "entradas_en (f_ext2fs fs_dir_ej) 71680 1024 0 dir_ej"
  using etiquetas_ej by (simp add: fs_dir_ej_def dir_ej_def entrada_en_def bytes_at_def upt_rec put_bytes_def)

lemma directorio_ej: "directorio fs_dir_ej 2 inodo_dir_ej [dir_ej]"
proof -
  have "\<forall>e \<in> set dir_ej. entrada_ok e" by (simp add: dir_ej_def entrada_ok_def)
  then have "dir_en (f_ext2fs fs_dir_ej) 1024 inodo_dir_ej [dir_ej]"
    using entradas_dir_ej by (simp add: dir_en_def cant_bloques_def fs_dir_ej_sel bloque_en_def)
  then show ?thesis using leer_dir_ej by (simp add: directorio_def fs_dir_ej_sel ej_sel pos_dir_ej)
qed

theorem Dir_listar_correcto_witness:
  "Dir_listar (f_ext2fs fs_dir_ej) 2 64 bgdt_ej 1024 = Some dir_ej \<and> Dir_cantDirectorios inodo_dir_ej (f_ext2fs fs_dir_ej) 1024 = Some 2"
  using Dir_listar_correcto [OF leer_dir_ej, of "[dir_ej]"] directorio_ej
  by (simp add: directorio_def fs_dir_ej_sel ej_sel) (simp add: dir_ej_def)

theorem Dir_crearNuevaEntrada_correcto_witness:
  "\<exists>d ess' as cs. Dir_crearNuevaEntrada fs_dir_ej [98] 2 9 = Some (0, fs_dir_ej\<lparr>f_ext2fs := d\<rparr>)
    \<and> directorio (fs_dir_ej\<lparr>f_ext2fs := d\<rparr>) 2 inodo_dir_ej ess'
    \<and> [(2, Some [46]), (5, Some [97])] = as @ cs \<and> map par (listado ess') = as @ (9, Some [98]) # cs"
  using Dir_crearNuevaEntrada_correcto [OF directorio_ej, of "[98]" 9]
  by (simp add: hasta_nul_def dir_ej_def cabe_def) blast

theorem Dir_borrarEntrada_correcto_witness:
  "\<exists>d ess'. Dir_borrarEntrada fs_dir_ej 2 5 = Some (0, fs_dir_ej\<lparr>f_ext2fs := d\<rparr>)
    \<and> directorio (fs_dir_ej\<lparr>f_ext2fs := d\<rparr>) 2 inodo_dir_ej ess' \<and> map par (listado ess') = [(2, Some [46])]"
proof -
  have "unat (block_size (f_sb fs_dir_ej)) < 65536" by (simp add: fs_dir_ej_sel ej_sel)
  from Dir_borrarEntrada_correcto [OF directorio_ej this, of 5] obtain d ess' where
    "Dir_borrarEntrada fs_dir_ej 2 5 = Some (0, fs_dir_ej\<lparr>f_ext2fs := d\<rparr>)"
    "directorio (fs_dir_ej\<lparr>f_ext2fs := d\<rparr>) 2 inodo_dir_ej ess'" "map par (listado ess') = quitar_inodo 5 (map par (listado [dir_ej]))" by auto
  moreover have "quitar_inodo 5 (map par (listado [dir_ej])) = [(2, Some [46])]" by (simp add: dir_ej_def)
  ultimately show ?thesis by (intro exI [of _ d] exI [of _ ess']) simp
qed

section \<open>Inserting and looking up\<close>

definition nombre_ok :: "u8 list \<Rightarrow> bool" where
  "nombre_ok nombre \<longleftrightarrow> nombre \<noteq> [] \<and> 0 \<notin> set nombre \<and> 47 \<notin> set nombre"

lemma hasta_nul_sin_nul: "0 \<notin> set s \<Longrightarrow> hasta_nul s = s"
  unfolding hasta_nul_def by (rule takeWhile_eq_all_conv [THEN iffD2]) auto

lemma hasta_nul_barra: "0 \<notin> set s \<Longrightarrow> hasta_nul (47 # s) = 47 # s"
  by (simp add: hasta_nul_sin_nul)

lemma trozos_sin_barra: "47 \<notin> set bs \<Longrightarrow> trozos acum bs = (if acum @ bs = [] then [] else [acum @ bs])"
  by (induction bs arbitrary: acum) auto

lemma strtok_uno: "nombre_ok nombre \<Longrightarrow> strtok_todos (47 # nombre) = [nombre]"
  by (simp add: strtok_todos_def nombre_ok_def hasta_nul_sin_nul trozos_sin_barra)

text \<open>The lookup depends on the inodes and the names of the listing only.\<close>

primrec buscar_par :: "(u32 \<times> u8 list option) list \<Rightarrow> u8 list \<Rightarrow> u32" where
  "buscar_par [] archivo = 0"
| "buscar_par (x # xs) archivo =
     (if (case snd x of None \<Rightarrow> [] | Some n \<Rightarrow> hasta_nul n) = hasta_nul archivo then fst x else buscar_par xs archivo)"

lemma buscarNombre_par: "buscarNombreEnLista es archivo = buscar_par (map par es) archivo"
  by (induction es) (auto simp: nombre_de_def)

lemma buscar_par_inserta:
  assumes "nombre_ok nombre" "nombre_ok otro" "otro = nombre \<Longrightarrow> buscar_par (as @ cs) nombre = 0" "0 \<notin> fst ` set (as @ cs)"
  shows "buscar_par (as @ (n, Some nombre) # cs) otro = (if otro = nombre then n else buscar_par (as @ cs) otro)"
  using assms by (induction as) (auto simp: nombre_ok_def hasta_nul_sin_nul)

lemma buscarPath_raiz:
  assumes "directorio F INODO_RAIZ inodo ess" "nombre_ok nombre"
  shows "Dir_buscarPath (f_ext2fs F) (47 # nombre) (s_inodes_per_group (f_sb F)) (f_bgdt F) (block_size (f_sb F))
    = Some (buscar_par (map par (listado ess)) nombre)"
  using directorio_lista [OF assms(1)] strtok_uno [OF assms(2)]
  by (simp add: Dir_buscarPath_def buscarNombre_par INODO_RAIZ_def)

lemma listado_vivo: "0 \<notin> fst ` set (map par (listado ess))"
  by (auto simp: vivas_def)

text \<open>
  After inserting a name that the root directory did not have, resolving that path gives the new inode, and every other
  path directly under the root resolves as before.
\<close>

lemma Dir_crear_buscar:
  assumes D: "directorio F INODO_RAIZ inodo ess" and nom: "nombre_ok nombre" "length nombre < 256" and nuevo: "nuevo \<noteq> 0"
    and hay: "\<exists>e \<in> set (concat ess). cabe (tam_entrada (word_of_nat (length nombre))) e"
    and no: "Dir_buscarPath (f_ext2fs F) (47 # nombre) (s_inodes_per_group (f_sb F)) (f_bgdt F) (block_size (f_sb F)) = Some 0"
  shows "\<exists>d. Dir_crearNuevaEntrada F nombre INODO_RAIZ nuevo = Some (0, F\<lparr>f_ext2fs := d\<rparr>)
    \<and> (\<forall>otro. nombre_ok otro \<longrightarrow>
         Dir_buscarPath d (47 # otro) (s_inodes_per_group (f_sb F)) (f_bgdt F) (block_size (f_sb F)) =
         (if otro = nombre then Some nuevo
          else Dir_buscarPath (f_ext2fs F) (47 # otro) (s_inodes_per_group (f_sb F)) (f_bgdt F) (block_size (f_sb F))))"
proof -
  have hn: "hasta_nul nombre = nombre" using nom(1) by (simp add: nombre_ok_def hasta_nul_sin_nul)
  obtain d ess' as cs where C: "Dir_crearNuevaEntrada F nombre INODO_RAIZ nuevo = Some (0, F\<lparr>f_ext2fs := d\<rparr>)"
    "directorio (F\<lparr>f_ext2fs := d\<rparr>) INODO_RAIZ inodo ess'"
    "map par (listado ess) = as @ cs" "map par (listado ess') = as @ (nuevo, Some nombre) # cs"
    using Dir_crearNuevaEntrada_existe [OF D, of nombre nuevo] nom hay nuevo unfolding hn by blast
  have z: "buscar_par (as @ cs) nombre = 0" using no buscarPath_raiz [OF D nom(1)] C(3) by simp
  have v: "0 \<notin> fst ` set (as @ cs)" using listado_vivo [of ess] unfolding C(3) .
  have "Dir_buscarPath d (47 # otro) (s_inodes_per_group (f_sb F)) (f_bgdt F) (block_size (f_sb F))
      = Some (if otro = nombre then nuevo else buscar_par (as @ cs) otro)" if "nombre_ok otro" for otro
    using buscarPath_raiz [OF C(2) that] buscar_par_inserta [OF nom(1) that z v, of nuevo] C(4) by simp
  moreover have "Dir_buscarPath (f_ext2fs F) (47 # otro) (s_inodes_per_group (f_sb F)) (f_bgdt F) (block_size (f_sb F))
      = Some (buscar_par (as @ cs) otro)" if "nombre_ok otro" for otro
    using buscarPath_raiz [OF D that] C(3) by simp
  ultimately show ?thesis using C(1) by auto
qed

lemma Dir_crear_buscar_ej:
  "\<exists>d. Dir_crearNuevaEntrada fs_dir_ej [98] INODO_RAIZ 9 = Some (0, fs_dir_ej\<lparr>f_ext2fs := d\<rparr>)
    \<and> Dir_buscarPath d [47, 98] 64 bgdt_ej 1024 = Some 9 \<and> Dir_buscarPath d [47, 97] 64 bgdt_ej 1024 = Some 5"
proof -
  have D: "directorio fs_dir_ej INODO_RAIZ inodo_dir_ej [dir_ej]" using directorio_ej by (simp add: INODO_RAIZ_def)
  have b: "Dir_buscarPath (f_ext2fs fs_dir_ej) [47, 98] 64 bgdt_ej 1024 = Some 0"
    "Dir_buscarPath (f_ext2fs fs_dir_ej) [47, 97] 64 bgdt_ej 1024 = Some 5"
    using buscarPath_raiz [OF D, of "[98]"] buscarPath_raiz [OF D, of "[97]"]
    by (simp_all add: fs_dir_ej_sel ej_sel nombre_ok_def dir_ej_def hasta_nul_def)
  have "\<exists>e \<in> set (concat [dir_ej]). cabe (tam_entrada (word_of_nat (length [98 :: u8]))) e" by (simp add: dir_ej_def cabe_def)
  from Dir_crear_buscar [OF D _ _ _ this, of 9] b obtain d where
    d: "Dir_crearNuevaEntrada fs_dir_ej [98] INODO_RAIZ 9 = Some (0, fs_dir_ej\<lparr>f_ext2fs := d\<rparr>)"
      "\<forall>otro. nombre_ok otro \<longrightarrow> Dir_buscarPath d (47 # otro) 64 bgdt_ej 1024 =
         (if otro = [98] then Some 9 else Dir_buscarPath (f_ext2fs fs_dir_ej) (47 # otro) 64 bgdt_ej 1024)"
    by (auto simp: fs_dir_ej_sel ej_sel nombre_ok_def)
  have "nombre_ok [98]" "nombre_ok [97]" by (simp_all add: nombre_ok_def)
  with d b(2) show ?thesis by auto
qed

end
