(* ===== verification/Sincro.thy ===== *)
theory Sincro
  imports Serial
begin

text \<open>
  The monitor of inodes, \<^verbatim>\<open>rfs/sincro.c\<close>. The list \<^verbatim>\<open>listaInodos\<close> has one node for each inode that
  some thread is using; a node counts the threads that entered and not left, and holds a
  read-write lock. \<^verbatim>\<open>Sincro_monitorLock\<close> finds or adds the node and counts the thread under the
  mutex of the list, leaves the mutex, and only then waits for the lock; \<^verbatim>\<open>Sincro_monitorUnlock\<close>
  discounts the thread under the mutex and either releases the lock or, for the last thread,
  removes and frees the node with its lock still taken.

  The first part has the two functions as operations on the list. The second part is the
  concurrent program: sessions between a lock and its unlock interleave in any order, each section
  under the mutex and each acquisition being one step. It shows that the count of a node is the
  number of sessions using it (so a node is never freed under a session that is waiting or
  working) and that a writer is alone.
\<close>

section \<open>The list of nodes\<close>

record rwlock =
  lectores :: nat
  escritor :: bool

record t_nodoInodo =
  nroInodo :: u32
  cantHilos :: u32
  mt_inodo :: rwlock

definition rwlock_init :: rwlock where
  "rwlock_init = \<lparr>lectores = 0, escritor = False\<rparr>"

definition Sincro_agregarALista :: "u32 \<Rightarrow> t_nodoInodo list \<Rightarrow> t_nodoInodo list" where
  "Sincro_agregarALista n listaInodos =
     listaInodos @ [\<lparr>nroInodo = n, cantHilos = 0, mt_inodo = rwlock_init\<rparr>]"

text \<open>The section of \<^verbatim>\<open>Sincro_monitorLock\<close> under the mutex.\<close>

primrec monitor_entrar :: "u32 \<Rightarrow> t_nodoInodo list \<Rightarrow> t_nodoInodo list" where
  "monitor_entrar n [] = [\<lparr>nroInodo = n, cantHilos = 1, mt_inodo = rwlock_init\<rparr>]"
| "monitor_entrar n (nodo # nodos) =
     (if nroInodo nodo = n then nodo\<lparr>cantHilos := cantHilos nodo + 1\<rparr> # nodos
      else nodo # monitor_entrar n nodos)"

text \<open>
  The acquisition that follows: \<open>None\<close> while the lock is not available. An operation code other
  than the two acquires nothing.
\<close>

definition rwlock_tomar :: "u8 \<Rightarrow> rwlock \<Rightarrow> rwlock option" where
  "rwlock_tomar operacion l =
     (if operacion = TIPOREAD
      then (if escritor l then None else Some (l\<lparr>lectores := lectores l + 1\<rparr>))
      else if operacion = TIPOWRITE
      then (if escritor l \<or> 0 < lectores l then None else Some (l\<lparr>escritor := True\<rparr>))
      else Some l)"

primrec monitor_tomar :: "u32 \<Rightarrow> u8 \<Rightarrow> t_nodoInodo list \<Rightarrow> t_nodoInodo list option" where
  "monitor_tomar n operacion [] = None"
| "monitor_tomar n operacion (nodo # nodos) =
     (if nroInodo nodo = n
      then map_option (\<lambda>l. nodo\<lparr>mt_inodo := l\<rparr> # nodos) (rwlock_tomar operacion (mt_inodo nodo))
      else map_option ((#) nodo) (monitor_tomar n operacion nodos))"

definition Sincro_monitorLock :: "u32 \<Rightarrow> t_nodoInodo list \<Rightarrow> u8 \<Rightarrow> t_nodoInodo list option" where
  "Sincro_monitorLock n listaInodos operacion = monitor_tomar n operacion (monitor_entrar n listaInodos)"

text \<open>\<^verbatim>\<open>pthread_rwlock_unlock\<close> releases the hold of the writer, or else of one reader.\<close>

definition rwlock_soltar :: "rwlock \<Rightarrow> rwlock" where
  "rwlock_soltar l = (if escritor l then l\<lparr>escritor := False\<rparr> else l\<lparr>lectores := lectores l - 1\<rparr>)"

primrec Sincro_monitorUnlock :: "u32 \<Rightarrow> t_nodoInodo list \<Rightarrow> t_nodoInodo list" where
  "Sincro_monitorUnlock n [] = []"
| "Sincro_monitorUnlock n (nodo # nodos) =
     (if nroInodo nodo = n
      then (if cantHilos nodo - 1 = 0 then nodos
            else nodo\<lparr>cantHilos := cantHilos nodo - 1, mt_inodo := rwlock_soltar (mt_inodo nodo)\<rparr> # nodos)
      else nodo # Sincro_monitorUnlock n nodos)"

section \<open>Sessions\<close>

text \<open>
  A session is what a thread does between a call of \<^verbatim>\<open>Sincro_monitorLock\<close> and the matching unlock;
  a thread that locks two inodes has two sessions. Sessions may start and end in any order, which covers every order of the
  threads; the theory \<open>Cerrojos\<close> adds the order in which a thread takes and gives back its locks.
\<close>

datatype sesion =
  Fuera
| Espera u32 u8
| Dentro u32 u8

record monitor =
  listaInodos :: "t_nodoInodo list"
  sesiones :: "sesion list"

inductive paso :: "monitor \<Rightarrow> monitor \<Rightarrow> bool" where
  entrar: "\<lbrakk>s < length (sesiones m); sesiones m ! s = Fuera;
            operacion = TIPOREAD \<or> operacion = TIPOWRITE\<rbrakk> \<Longrightarrow>
     paso m \<lparr>listaInodos = monitor_entrar n (listaInodos m),
             sesiones = (sesiones m)[s := Espera n operacion]\<rparr>"
| tomar: "\<lbrakk>s < length (sesiones m); sesiones m ! s = Espera n operacion;
           monitor_tomar n operacion (listaInodos m) = Some l\<rbrakk> \<Longrightarrow>
     paso m \<lparr>listaInodos = l, sesiones = (sesiones m)[s := Dentro n operacion]\<rparr>"
| salir: "\<lbrakk>s < length (sesiones m); sesiones m ! s = Dentro n operacion\<rbrakk> \<Longrightarrow>
     paso m \<lparr>listaInodos = Sincro_monitorUnlock n (listaInodos m),
             sesiones = (sesiones m)[s := Fuera]\<rparr>"

inductive_cases pasoE: "paso m m'"

definition monitor_inicial :: "nat \<Rightarrow> monitor" where
  "monitor_inicial k = \<lparr>listaInodos = [], sesiones = replicate k Fuera\<rparr>"

inductive alcanzable :: "nat \<Rightarrow> monitor \<Rightarrow> bool" for k where
  inicio: "alcanzable k (monitor_inicial k)"
| sigue_paso: "\<lbrakk>alcanzable k m; paso m m'\<rbrakk> \<Longrightarrow> alcanzable k m'"

section \<open>The invariant\<close>

fun usa :: "u32 \<Rightarrow> sesion \<Rightarrow> bool" where
  "usa n Fuera = False"
| "usa n (Espera m _) = (m = n)"
| "usa n (Dentro m _) = (m = n)"

definition usan :: "sesion list \<Rightarrow> u32 \<Rightarrow> nat" where
  "usan ss n = length (filter (usa n) ss)"

definition leyendo :: "sesion list \<Rightarrow> u32 \<Rightarrow> nat" where
  "leyendo ss n = length (filter (\<lambda>s. s = Dentro n TIPOREAD) ss)"

definition escribiendo :: "sesion list \<Rightarrow> u32 \<Rightarrow> nat" where
  "escribiendo ss n = length (filter (\<lambda>s. s = Dentro n TIPOWRITE) ss)"

text \<open>What one node says of the sessions.\<close>

definition nodo_ok :: "sesion list \<Rightarrow> t_nodoInodo \<Rightarrow> bool" where
  "nodo_ok ss x \<longleftrightarrow> unat (cantHilos x) = usan ss (nroInodo x) \<and> 0 < usan ss (nroInodo x)
     \<and> lectores (mt_inodo x) = leyendo ss (nroInodo x)
     \<and> escritor (mt_inodo x) = (0 < escribiendo ss (nroInodo x))
     \<and> leyendo ss (nroInodo x) * escribiendo ss (nroInodo x) = 0
     \<and> escribiendo ss (nroInodo x) \<le> 1"

definition ses_ok :: "sesion \<Rightarrow> bool" where
  "ses_ok s \<longleftrightarrow> (\<forall>n operacion. s = Espera n operacion \<or> s = Dentro n operacion \<longrightarrow>
     operacion = TIPOREAD \<or> operacion = TIPOWRITE)"

definition monitor_ok :: "monitor \<Rightarrow> bool" where
  "monitor_ok m \<longleftrightarrow> length (sesiones m) < 2 ^ 32
     \<and> distinct (map nroInodo (listaInodos m))
     \<and> (\<forall>x \<in> set (listaInodos m). nodo_ok (sesiones m) x)
     \<and> (\<forall>n. 0 < usan (sesiones m) n \<longrightarrow> n \<in> nroInodo ` set (listaInodos m))
     \<and> (\<forall>s \<in> set (sesiones m). ses_ok s)"

section \<open>Every step keeps the invariant\<close>

lemma TIPO_distintos [simp]: "TIPOREAD \<noteq> TIPOWRITE" "TIPOWRITE \<noteq> TIPOREAD"
  by (simp_all add: TIPOREAD_def TIPOWRITE_def)

lemma cuenta_update:
  "i < length xs \<Longrightarrow> length (filter P (xs[i := y])) + (if P (xs ! i) then 1 else 0)
     = length (filter P xs) + (if P y then 1 else 0)"
proof (induction xs arbitrary: i)
  case (Cons x xs)
  then show ?case by (cases i) auto
qed simp

lemma cuentas_update:
  assumes "s < length ss"
  shows "usan (ss[s := y]) n + (if usa n (ss ! s) then 1 else 0) = usan ss n + (if usa n y then 1 else 0)"
    and "leyendo (ss[s := y]) n + (if ss ! s = Dentro n TIPOREAD then 1 else 0)
      = leyendo ss n + (if y = Dentro n TIPOREAD then 1 else 0)"
    and "escribiendo (ss[s := y]) n + (if ss ! s = Dentro n TIPOWRITE then 1 else 0)
      = escribiendo ss n + (if y = Dentro n TIPOWRITE then 1 else 0)"
  unfolding usan_def leyendo_def escribiendo_def by (rule cuenta_update [OF assms])+

lemma usan_le: "usan ss n \<le> length ss"
  by (simp add: usan_def)

lemma dentro_le_usan: "leyendo ss n + escribiendo ss n \<le> usan ss n"
  unfolding leyendo_def escribiendo_def usan_def by (induction ss) auto

definition igual_salvo :: "u32 \<Rightarrow> sesion list \<Rightarrow> sesion list \<Rightarrow> bool" where
  "igual_salvo n ss ss' \<longleftrightarrow> (\<forall>k. k \<noteq> n \<longrightarrow> usan ss' k = usan ss k \<and> leyendo ss' k = leyendo ss k
     \<and> escribiendo ss' k = escribiendo ss k)"

lemma nodo_ok_otro:
  "nodo_ok ss x \<Longrightarrow> igual_salvo n ss ss' \<Longrightarrow> nroInodo x \<noteq> n \<Longrightarrow> nodo_ok ss' x"
  by (simp add: nodo_ok_def igual_salvo_def)

lemma resto_ok:
  assumes "\<forall>x \<in> set (a # l). nodo_ok ss x" "distinct (map nroInodo (a # l))"
    and "igual_salvo (nroInodo a) ss ss'"
  shows "\<forall>x \<in> set l. nodo_ok ss' x"
proof
  fix x assume x: "x \<in> set l"
  then have "nroInodo x \<in> nroInodo ` set l" by simp
  moreover have "nroInodo a \<notin> nroInodo ` set l" using assms(2) by simp
  ultimately have "nroInodo x \<noteq> nroInodo a" by metis
  then show "nodo_ok ss' x" using x assms(1) nodo_ok_otro [OF _ assms(3), of x] by simp
qed

text \<open>What the operations do to the numbers of the nodes and to the nodes of other inodes.\<close>

lemma entrar_nodos:
  "map nroInodo (monitor_entrar n l) =
     (if n \<in> nroInodo ` set l then map nroInodo l else map nroInodo l @ [n])"
  by (induction l) auto

lemma tomar_nodos: "monitor_tomar n operacion l = Some l' \<Longrightarrow> map nroInodo l' = map nroInodo l"
  by (induction l arbitrary: l') (auto split: if_splits)

lemma entrar_nodo_ok:
  assumes "\<forall>x \<in> set l. nodo_ok ss x" "distinct (map nroInodo l)"
    and "n \<notin> nroInodo ` set l \<Longrightarrow> usan ss n = 0" "length ss < 2 ^ 32"
    and otros: "igual_salvo n ss ss'"
    and "usan ss' n = usan ss n + 1" "usan ss' n \<le> length ss"
    and "leyendo ss' = leyendo ss" "escribiendo ss' = escribiendo ss"
  shows "\<forall>x \<in> set (monitor_entrar n l). nodo_ok ss' x"
  using assms(1-3)
proof (induction l)
  case Nil
  then have "usan ss n = 0" by simp
  then have "leyendo ss n = 0" "escribiendo ss n = 0" using dentro_le_usan [of ss n] by simp_all
  then show ?case using assms Nil by (simp add: nodo_ok_def rwlock_init_def)
next
  case (Cons a l)
  show ?case
  proof (cases "nroInodo a = n")
    case True
    have a: "nodo_ok ss a" using Cons.prems(1) by simp
    then have "unat (cantHilos a) = usan ss n" using True by (simp add: nodo_ok_def)
    then have "unat (cantHilos a + 1) = usan ss' n"
      using assms(4,6,7) by (subst unat_succ_u32) simp_all
    then have "nodo_ok ss' (a\<lparr>cantHilos := cantHilos a + 1\<rparr>)"
      using True a assms(6,8,9) by (simp add: nodo_ok_def)
    moreover have "\<forall>x \<in> set l. nodo_ok ss' x"
      using resto_ok [OF Cons.prems(1,2)] otros True by simp
    ultimately show ?thesis using True by simp
  next
    case False
    then have "nodo_ok ss' a" using nodo_ok_otro [OF _ otros] Cons.prems(1) by simp
    then show ?thesis using Cons False by auto
  qed
qed

lemma tomar_nodo_ok:
  assumes "\<forall>x \<in> set l. nodo_ok ss x" "distinct (map nroInodo l)" "monitor_tomar n operacion l = Some l'"
    and op: "operacion = TIPOREAD \<or> operacion = TIPOWRITE"
    and u: "usan ss' = usan ss"
    and otros: "igual_salvo n ss ss'"
    and "leyendo ss' n = leyendo ss n + (if operacion = TIPOREAD then 1 else 0)"
    and "escribiendo ss' n = escribiendo ss n + (if operacion = TIPOWRITE then 1 else 0)"
  shows "\<forall>x \<in> set l'. nodo_ok ss' x"
  using assms(1-3)
proof (induction l arbitrary: l')
  case (Cons a l)
  show ?case
  proof (cases "nroInodo a = n")
    case True
    then obtain lk where lk: "rwlock_tomar operacion (mt_inodo a) = Some lk" "l' = a\<lparr>mt_inodo := lk\<rparr> # l"
      using Cons.prems(3) by auto
    have "nodo_ok ss a" using Cons.prems(1) by simp
    then have "nodo_ok ss' (a\<lparr>mt_inodo := lk\<rparr>)"
      using op lk(1) True assms(7,8) u
      by (elim disjE) (auto simp: nodo_ok_def rwlock_tomar_def split: if_splits)
    moreover have "\<forall>x \<in> set l. nodo_ok ss' x"
      using resto_ok [OF Cons.prems(1,2)] otros True by simp
    ultimately show ?thesis using lk(2) by simp
  next
    case False
    then obtain l2 where l2: "monitor_tomar n operacion l = Some l2" "l' = a # l2"
      using Cons.prems(3) by auto
    have "nodo_ok ss' a" using nodo_ok_otro [OF _ otros] Cons.prems(1) False by simp
    then show ?thesis using Cons l2 by auto
  qed
qed simp

lemma salir_nodo_ok:
  assumes "\<forall>x \<in> set l. nodo_ok ss x" "distinct (map nroInodo l)" "n \<in> nroInodo ` set l"
    and op: "operacion = TIPOREAD \<or> operacion = TIPOWRITE"
    and otros: "igual_salvo n ss ss'"
    and "usan ss' n + 1 = usan ss n"
    and "leyendo ss' n + (if operacion = TIPOREAD then 1 else 0) = leyendo ss n"
    and "escribiendo ss' n + (if operacion = TIPOWRITE then 1 else 0) = escribiendo ss n"
  shows "(\<forall>x \<in> set (Sincro_monitorUnlock n l). nodo_ok ss' x)
    \<and> nroInodo ` set (Sincro_monitorUnlock n l)
        = (if usan ss' n = 0 then nroInodo ` set l - {n} else nroInodo ` set l)
    \<and> distinct (map nroInodo (Sincro_monitorUnlock n l))"
  using assms(1-3)
proof (induction l)
  case (Cons a l)
  show ?case
  proof (cases "nroInodo a = n")
    case True
    then have a: "unat (cantHilos a) = usan ss n" "nodo_ok ss a" using Cons.prems(1) by (auto simp: nodo_ok_def)
    have c: "unat (cantHilos a - 1) = usan ss' n"
      using a(1) assms(6) by (subst unat_pred_u32) simp_all
    then have z: "cantHilos a - 1 = 0 \<longleftrightarrow> usan ss' n = 0" by (metis unsigned_eq_0_iff)
    have rest: "\<forall>x \<in> set l. nodo_ok ss' x"
      using resto_ok [OF Cons.prems(1,2)] otros True by simp
    have "nodo_ok ss' (a\<lparr>cantHilos := cantHilos a - 1, mt_inodo := rwlock_soltar (mt_inodo a)\<rparr>)"
      if "usan ss' n \<noteq> 0"
      using op that a(2) c True assms(7,8)
      by (elim disjE) (auto simp: nodo_ok_def rwlock_soltar_def le_Suc_eq)
    then show ?thesis using True z rest Cons.prems(2) by auto
  next
    case False
    then have "nodo_ok ss' a" using nodo_ok_otro [OF _ otros] Cons.prems(1) by simp
    then show ?thesis using Cons False by auto
  qed
qed simp

lemma ses_ok_update: "\<forall>x \<in> set ss. ses_ok x \<Longrightarrow> ses_ok y \<Longrightarrow> \<forall>x \<in> set (ss[s := y]). ses_ok x"
  using set_update_subset_insert [of ss s y] by blast

lemma paso_entrar_ok:
  assumes ok: "monitor_ok m" and s: "s < length (sesiones m)" "sesiones m ! s = Fuera"
    and op: "operacion = TIPOREAD \<or> operacion = TIPOWRITE"
  shows "monitor_ok \<lparr>listaInodos = monitor_entrar n (listaInodos m),
      sesiones = (sesiones m)[s := Espera n operacion]\<rparr>"
proof -
  let ?ss = "sesiones m" let ?ss' = "(sesiones m)[s := Espera n operacion]"
  have u: "usan ?ss' k = usan ?ss k + (if k = n then 1 else 0)" for k
    using cuentas_update(1) [OF s(1), of "Espera n operacion" k] s(2) by auto
  have le: "leyendo ?ss' = leyendo ?ss" "escribiendo ?ss' = escribiendo ?ss"
    using cuentas_update(2,3) [OF s(1), of "Espera n operacion"] s(2) by auto
  have otros: "igual_salvo n ?ss ?ss'" using u le by (simp add: igual_salvo_def)
  have "\<forall>x \<in> set (monitor_entrar n (listaInodos m)). nodo_ok ?ss' x"
  proof (rule entrar_nodo_ok [OF _ _ _ _ otros])
    show "n \<notin> nroInodo ` set (listaInodos m) \<Longrightarrow> usan ?ss n = 0"
      using ok by (auto simp: monitor_ok_def)
    show "usan ?ss' n \<le> length ?ss" using usan_le [of ?ss' n] by simp
  qed (use ok u le in \<open>auto simp: monitor_ok_def\<close>)
  moreover have "distinct (map nroInodo (monitor_entrar n (listaInodos m)))"
    using ok unfolding entrar_nodos by (auto simp: monitor_ok_def)
  moreover have "\<forall>k. 0 < usan ?ss' k \<longrightarrow> k \<in> nroInodo ` set (monitor_entrar n (listaInodos m))"
    using ok u unfolding list.set_map [symmetric] entrar_nodos by (auto simp: monitor_ok_def)
  moreover have "\<forall>x \<in> set ?ss'. ses_ok x"
    using ok op by (intro ses_ok_update) (auto simp: monitor_ok_def ses_ok_def)
  ultimately show ?thesis using ok by (simp add: monitor_ok_def)
qed

lemma paso_tomar_ok:
  assumes ok: "monitor_ok m" and s: "s < length (sesiones m)" "sesiones m ! s = Espera n operacion"
    and l: "monitor_tomar n operacion (listaInodos m) = Some l"
  shows "monitor_ok \<lparr>listaInodos = l, sesiones = (sesiones m)[s := Dentro n operacion]\<rparr>"
proof -
  let ?ss = "sesiones m" let ?ss' = "(sesiones m)[s := Dentro n operacion]"
  have "ses_ok (sesiones m ! s)" using ok s(1) by (simp add: monitor_ok_def)
  then have op: "operacion = TIPOREAD \<or> operacion = TIPOWRITE" using s(2) by (simp add: ses_ok_def)
  have u: "usan ?ss' = usan ?ss"
    using cuentas_update(1) [OF s(1), of "Dentro n operacion"] s(2) by auto
  have lr: "leyendo ?ss' k = leyendo ?ss k + (if k = n \<and> operacion = TIPOREAD then 1 else 0)"
    "escribiendo ?ss' k = escribiendo ?ss k + (if k = n \<and> operacion = TIPOWRITE then 1 else 0)" for k
    using cuentas_update(2,3) [OF s(1), of "Dentro n operacion" k] s(2) by auto
  have otros: "igual_salvo n ?ss ?ss'" using u lr by (simp add: igual_salvo_def)
  have "\<forall>x \<in> set l. nodo_ok ?ss' x"
    by (rule tomar_nodo_ok [OF _ _ l op u otros]) (use ok lr in \<open>auto simp: monitor_ok_def\<close>)
  moreover have "nroInodo ` set l = nroInodo ` set (listaInodos m)"
    using tomar_nodos [OF l] by (metis list.set_map)
  moreover have "\<forall>x \<in> set ?ss'. ses_ok x"
    using ok op by (intro ses_ok_update) (auto simp: monitor_ok_def ses_ok_def)
  ultimately show ?thesis using ok tomar_nodos [OF l] u by (simp add: monitor_ok_def)
qed

lemma paso_salir_ok:
  assumes ok: "monitor_ok m" and s: "s < length (sesiones m)" "sesiones m ! s = Dentro n operacion"
  shows "monitor_ok \<lparr>listaInodos = Sincro_monitorUnlock n (listaInodos m),
      sesiones = (sesiones m)[s := Fuera]\<rparr>"
proof -
  let ?ss = "sesiones m" let ?ss' = "(sesiones m)[s := Fuera]"
  have "ses_ok (sesiones m ! s)" using ok s(1) by (simp add: monitor_ok_def)
  then have op: "operacion = TIPOREAD \<or> operacion = TIPOWRITE" using s(2) by (simp add: ses_ok_def)
  have u: "usan ?ss' k + (if k = n then 1 else 0) = usan ?ss k"
    "leyendo ?ss' k + (if k = n \<and> operacion = TIPOREAD then 1 else 0) = leyendo ?ss k"
    "escribiendo ?ss' k + (if k = n \<and> operacion = TIPOWRITE then 1 else 0) = escribiendo ?ss k" for k
    using cuentas_update [OF s(1), of Fuera k] s(2) by (auto split: if_splits)
  have otros: "igual_salvo n ?ss ?ss'"
    unfolding igual_salvo_def
  proof (intro allI impI)
    fix k assume "k \<noteq> n"
    then show "usan ?ss' k = usan ?ss k \<and> leyendo ?ss' k = leyendo ?ss k
        \<and> escribiendo ?ss' k = escribiendo ?ss k" using u [of k] by simp
  qed
  have "0 < usan ?ss n" using u(1) [of n] by simp
  then have n: "n \<in> nroInodo ` set (listaInodos m)" using ok by (simp add: monitor_ok_def)
  have "(\<forall>x \<in> set (Sincro_monitorUnlock n (listaInodos m)). nodo_ok ?ss' x)
    \<and> nroInodo ` set (Sincro_monitorUnlock n (listaInodos m))
        = (if usan ?ss' n = 0 then nroInodo ` set (listaInodos m) - {n} else nroInodo ` set (listaInodos m))
    \<and> distinct (map nroInodo (Sincro_monitorUnlock n (listaInodos m)))"
    by (rule salir_nodo_ok [OF _ _ n op otros]) (use ok u [of n] in \<open>auto simp: monitor_ok_def\<close>)
  moreover have "\<forall>k. 0 < usan ?ss' k \<longrightarrow> k \<in> (if usan ?ss' n = 0 then nroInodo ` set (listaInodos m) - {n}
      else nroInodo ` set (listaInodos m))"
  proof (intro allI impI)
    fix k assume k: "0 < usan ?ss' k"
    then have "0 < usan ?ss k" using u(1) [of k] by linarith
    then show "k \<in> (if usan ?ss' n = 0 then nroInodo ` set (listaInodos m) - {n}
      else nroInodo ` set (listaInodos m))" using ok k by (auto simp: monitor_ok_def)
  qed
  moreover have "\<forall>x \<in> set ?ss'. ses_ok x"
    using ok by (intro ses_ok_update) (auto simp: monitor_ok_def ses_ok_def)
  ultimately show ?thesis using ok by (simp add: monitor_ok_def)
qed

lemma paso_ok: "paso m m' \<Longrightarrow> monitor_ok m \<Longrightarrow> monitor_ok m'"
  by (erule pasoE) (auto intro: paso_entrar_ok paso_tomar_ok paso_salir_ok)

lemma inicial_ok: "k < 2 ^ 32 \<Longrightarrow> monitor_ok (monitor_inicial k)"
  by (auto simp: monitor_ok_def monitor_inicial_def usan_def ses_ok_def)

lemma alcanzable_ok: "alcanzable k m \<Longrightarrow> k < 2 ^ 32 \<Longrightarrow> monitor_ok m"
  by (induction rule: alcanzable.induct) (auto intro: inicial_ok paso_ok)

section \<open>Properties\<close>

lemma dos_cuentan:
  assumes "i < length xs" "j < length xs" "i \<noteq> j" "P (xs ! i)" "P (xs ! j)"
  shows "2 \<le> length (filter P xs)"
proof -
  have "{i, j} \<subseteq> {k. k < length xs \<and> P (xs ! k)}" using assms by auto
  then have "card {i, j} \<le> card {k. k < length xs \<and> P (xs ! k)}" by (intro card_mono) auto
  then show ?thesis using assms(3) by (simp add: length_filter_conv_card)
qed

lemma uno_cuenta: "i < length xs \<Longrightarrow> P (xs ! i) \<Longrightarrow> 0 < length (filter P xs)"
  by (simp add: filter_empty_conv) (metis nth_mem)

text \<open>
  C12: a writer is alone. In every state the concurrent sessions can reach, while a session is
  inside the monitor of an inode to write, no other session is inside the monitor of that inode,
  neither to write nor to read.
\<close>

theorem monitor_escritor_solo:
  assumes "alcanzable k m" and "k < 2 ^ 32"
    and "i < length (sesiones m)" "sesiones m ! i = Dentro n TIPOWRITE"
    and "j < length (sesiones m)" "sesiones m ! j = Dentro n operacion"
  shows "i = j"
proof (rule ccontr)
  assume ne: "i \<noteq> j"
  have ok: "monitor_ok m" by (rule alcanzable_ok [OF assms(1,2)])
  have e: "0 < escribiendo (sesiones m) n"
    unfolding escribiendo_def using assms(3,4) by (rule uno_cuenta)
  then have "0 < usan (sesiones m) n" using dentro_le_usan [of "sesiones m" n] by linarith
  then obtain x where x: "x \<in> set (listaInodos m)" "nroInodo x = n" using ok by (auto simp: monitor_ok_def)
  then have nk: "leyendo (sesiones m) n * escribiendo (sesiones m) n = 0" "escribiendo (sesiones m) n \<le> 1"
    using ok by (auto simp: monitor_ok_def nodo_ok_def)
  have "ses_ok (sesiones m ! j)" using ok assms(5) by (simp add: monitor_ok_def)
  then consider "operacion = TIPOREAD" | "operacion = TIPOWRITE" using assms(6) by (auto simp: ses_ok_def)
  then show False
  proof cases
    case 1
    then have "0 < leyendo (sesiones m) n"
      unfolding leyendo_def using uno_cuenta [OF assms(5)] assms(6) by simp
    then show ?thesis using nk(1) e by simp
  next
    case 2
    then have "2 \<le> escribiendo (sesiones m) n"
      unfolding escribiendo_def using dos_cuentan [OF assms(3,5) ne] assms(4,6) by simp
    then show ?thesis using nk(2) by simp
  qed
qed

definition monitor_ej :: monitor where
  "monitor_ej = \<lparr>listaInodos = [\<lparr>nroInodo = 12, cantHilos = 1, mt_inodo = \<lparr>lectores = 0, escritor = True\<rparr>\<rparr>],
     sesiones = [Fuera, Dentro 12 TIPOWRITE]\<rparr>"

lemma alcanzable_ej: "alcanzable 2 monitor_ej"
proof -
  let ?m1 = "\<lparr>listaInodos = monitor_entrar 12 [], sesiones = [Fuera, Espera 12 TIPOWRITE]\<rparr>"
  have "paso (monitor_inicial 2) ?m1"
    using paso.entrar [of 1 "monitor_inicial 2" TIPOWRITE 12]
    by (simp add: monitor_inicial_def numeral_2_eq_2)
  moreover have "paso ?m1 monitor_ej"
    using paso.tomar [of 1 ?m1 12 TIPOWRITE]
    by (simp add: monitor_ej_def rwlock_tomar_def rwlock_init_def)
  ultimately show ?thesis by (blast intro: alcanzable.intros)
qed

theorem monitor_escritor_solo_witness:
  "alcanzable 2 monitor_ej \<and> sesiones monitor_ej ! 1 = Dentro 12 TIPOWRITE \<and> (1 :: nat) = 1"
  using alcanzable_ej monitor_escritor_solo [OF alcanzable_ej, of 1 12 1 TIPOWRITE]
  by (simp add: monitor_ej_def)

text \<open>
  C23: no node is freed too early and none is left behind. In every reachable state the inodes of
  the list are exactly those that some session waits for or works on, each has one node, and the
  count of the node is the number of these sessions.
\<close>

theorem monitor_nodos_en_uso:
  assumes "alcanzable k m" and "k < 2 ^ 32"
  shows "distinct (map nroInodo (listaInodos m))
    \<and> nroInodo ` set (listaInodos m) = {n. 0 < usan (sesiones m) n}
    \<and> (\<forall>x \<in> set (listaInodos m). unat (cantHilos x) = usan (sesiones m) (nroInodo x))"
  using alcanzable_ok [OF assms] by (auto simp: monitor_ok_def nodo_ok_def)

theorem monitor_nodos_en_uso_witness:
  "distinct (map nroInodo (listaInodos monitor_ej))
    \<and> nroInodo ` set (listaInodos monitor_ej) = {n. 0 < usan (sesiones monitor_ej) n}"
  using monitor_nodos_en_uso [OF alcanzable_ej] by simp

lemma tomar_libre:
  assumes "\<forall>x \<in> set l. nroInodo x = n \<longrightarrow> mt_inodo x = rwlock_init" "n \<in> nroInodo ` set l"
  shows "\<exists>l'. monitor_tomar n operacion l = Some l'"
  using assms by (induction l) (auto simp: rwlock_tomar_def rwlock_init_def)

section \<open>One session after another\<close>

text \<open>A lock followed by its unlock leaves the list as it was, when nobody else uses the inode.\<close>

lemma lock_unlock:
  "n \<notin> nroInodo ` set l \<Longrightarrow> operacion = TIPOREAD \<or> operacion = TIPOWRITE \<Longrightarrow>
   \<exists>l'. Sincro_monitorLock n l operacion = Some l' \<and> Sincro_monitorUnlock n l' = l
     \<and> nroInodo ` set l' = insert n (nroInodo ` set l)"
  unfolding Sincro_monitorLock_def
  by (induction l) (auto simp: rwlock_tomar_def rwlock_init_def)

end
