(* ===== verification/Servidor.thy ===== *)
theory Servidor
  imports Directorio Sincro
begin

text \<open>
  The file server, \<^verbatim>\<open>rfs/Rfs.c\<close>: what a thread of the pool does with one request. The state is the
  file system, the cache of blocks and the list of the inode monitor; a handler takes the payload
  of the request and returns the state and the bytes it sends to the client. The requests are
  taken here one at a time: the interleaving of the threads is the subject of the theory \<open>Sincro\<close>.
  A call of \<^verbatim>\<open>Sincro_monitorLock\<close> that would wait for itself is \<open>None\<close>. Logging and the artificial delay
  have no effect on the state and are left out.
\<close>

section \<open>The clients\<close>

text \<open>
  A client is the address of a struct \<^verbatim>\<open>t_socket_client\<close>. The memory maps the address of each struct that exists to the
  descriptor of its socket; an address is handed out once, and \<open>abiertos\<close> are the descriptors of clients that are open. A
  client that does not exist, the null pointer among them, is \<open>None\<close>: reading or destroying it is undefined.
\<close>

record t_clientes =
  cl_mem :: "nat \<rightharpoonup> int"
  cl_brk :: nat
  abiertos :: "int set"

definition clientes_vacio :: t_clientes where
  "clientes_vacio = \<lparr>cl_mem = Map.empty, cl_brk = 1, abiertos = {}\<rparr>"

definition sockets_accept :: "t_clientes \<Rightarrow> int \<Rightarrow> nat option \<times> t_clientes" where
  "sockets_accept K fd =
     (if fd = - 1 then (None, K)
      else (Some (cl_brk K), \<lparr>cl_mem = (cl_mem K)(cl_brk K \<mapsto> fd), cl_brk = Suc (cl_brk K), abiertos = insert fd (abiertos K)\<rparr>))"

definition sockets_destroy_client :: "t_clientes \<Rightarrow> nat \<Rightarrow> t_clientes option" where
  "sockets_destroy_client K cliente =
     do { fd \<leftarrow> cl_mem K cliente;
          Some (K\<lparr>cl_mem := (cl_mem K)(cliente := None), abiertos := abiertos K - {fd}\<rparr>) }"

definition sockets_send :: "t_clientes \<Rightarrow> nat \<Rightarrow> u8 list \<Rightarrow> (int \<times> u8 list) option" where
  "sockets_send K cliente envio = do { fd \<leftarrow> cl_mem K cliente; Some (fd, envio) }"

text \<open>
  Both loops over the connected clients leave the index of the entry found in \<open>i - 1\<close>, and that of the last entry when there
  is none.
\<close>

primrec indice_fd :: "t_clientes \<Rightarrow> nat list \<Rightarrow> int \<Rightarrow> nat \<Rightarrow> nat option" where
  "indice_fd K [] fd i = Some i"
| "indice_fd K (c # cs) fd i = do { d \<leftarrow> cl_mem K c; if d = fd then Some (i + 1) else indice_fd K cs fd (i + 1) }"

definition buscarFd :: "t_clientes \<Rightarrow> nat list \<Rightarrow> int \<Rightarrow> nat option" where
  "buscarFd K lista fd = do { i \<leftarrow> indice_fd K lista fd 0; if i = 0 then None else Some (lista ! (i - 1)) }"

definition eliminarFd :: "t_clientes \<Rightarrow> nat list \<Rightarrow> int \<Rightarrow> (t_clientes \<times> nat list) option" where
  "eliminarFd K lista fd =
     do { i \<leftarrow> indice_fd K lista fd 0;
          if i = 0 then None else
          do { K \<leftarrow> sockets_destroy_client K (lista ! (i - 1));
               Some (K, take (i - 1) lista @ drop i lista) } }"

section \<open>Requests and paths\<close>

record Pedido =
  p_client :: nat
  p_buffer :: "u8 list"
  p_tipoPaquete :: u8
  p_payloadLength :: u16

definition crearPedido :: "nat \<Rightarrow> u8 list \<Rightarrow> u8 \<Rightarrow> u16 \<Rightarrow> Pedido option" where
  "crearPedido client buffer tipoPaquete len =
     (if unat len \<le> length buffer
      then Some \<lparr>p_client = client, p_buffer = take (unat len) buffer,
                 p_tipoPaquete = tipoPaquete, p_payloadLength = len\<rparr>
      else None)"

record PathSeparado =
  pathDir :: "u8 list"
  nombreArch :: "u8 list"

text \<open>
  \<open>for(i=len;path[i]!='/';i--);\<close> The counter has sixteen bits; with no slash in the path it runs past
  the start of the string.
\<close>

primrec ultima_barra :: "u8 list \<Rightarrow> nat \<Rightarrow> nat option" where
  "ultima_barra path 0 = (if 0 < length path \<and> path ! 0 = 47 then Some 0 else None)"
| "ultima_barra path (Suc i) =
     (if Suc i < length path \<and> path ! Suc i = 47 then Some (Suc i) else ultima_barra path i)"

lemma ultima_barra_numeral:
  "ultima_barra path (numeral n) =
     (if numeral n < length path \<and> path ! numeral n = 47 then Some (numeral n)
      else ultima_barra path (pred_numeral n))"
  by (simp only: numeral_eq_Suc [of n] ultima_barra.simps)

definition separarPath :: "u8 list \<Rightarrow> PathSeparado option" where
  "separarPath buffer =
     (let path = hasta_nul buffer; len = length path in
      do { i \<leftarrow> ultima_barra path (unat (word_of_nat len :: u16));
           Some (if i = 0
                 then \<lparr>pathDir = [47], nombreArch = take (len - i - 1) (drop (i + 1) path)\<rparr>
                 else \<lparr>pathDir = take i path, nombreArch = take (len - i - 1) (drop (i + 1) path)\<rparr>) })"

section \<open>The state of the server\<close>

record 'c servidor =
  sv_fs :: fs
  sv_cache :: 'c
  sv_monitor :: "t_nodoInodo list"

abbreviation sv_bs :: "'c servidor \<Rightarrow> u32" where
  "sv_bs S \<equiv> block_size (f_sb (sv_fs S))"

abbreviation sv_buscarPath :: "'c servidor \<Rightarrow> u8 list \<Rightarrow> u32 option" where
  "sv_buscarPath S path \<equiv> Dir_buscarPath (f_ext2fs (sv_fs S)) path (s_inodes_per_group (f_sb (sv_fs S)))
     (f_bgdt (sv_fs S)) (sv_bs S)"

abbreviation sv_leerInodo :: "'c servidor \<Rightarrow> u32 \<Rightarrow> Inode option" where
  "sv_leerInodo S n \<equiv> Inode_leerInodo (f_ext2fs (sv_fs S)) (s_inodes_per_group (f_sb (sv_fs S)))
     (f_bgdt (sv_fs S)) n (sv_bs S)"

definition sv_escribirInodo :: "'c servidor \<Rightarrow> u32 \<Rightarrow> Inode \<Rightarrow> 'c servidor option" where
  "sv_escribirInodo S n inodo =
     do { d \<leftarrow> Inode_escribirInodo (f_ext2fs (sv_fs S)) (s_inodes_per_group (f_sb (sv_fs S)))
                 (f_bgdt (sv_fs S)) n (sv_bs S) inodo;
          Some (S\<lparr>sv_fs := (sv_fs S)\<lparr>f_ext2fs := d\<rparr>\<rparr>) }"

definition sv_lock :: "'c servidor \<Rightarrow> u32 \<Rightarrow> u8 \<Rightarrow> 'c servidor option" where
  "sv_lock S n operacion =
     map_option (\<lambda>l. S\<lparr>sv_monitor := l\<rparr>) (Sincro_monitorLock n (sv_monitor S) operacion)"

definition sv_unlock :: "'c servidor \<Rightarrow> u32 \<Rightarrow> 'c servidor" where
  "sv_unlock S n = S\<lparr>sv_monitor := Sincro_monitorUnlock n (sv_monitor S)\<rparr>"

text \<open>Superblock and descriptor table are written back at the end of every handler that changes them.\<close>

definition sv_guardar :: "'c servidor \<Rightarrow> 'c servidor option" where
  "sv_guardar S =
     do { d \<leftarrow> Superblock_escribir (f_ext2fs (sv_fs S)) (f_sb (sv_fs S));
          d \<leftarrow> Grupos_escribirTabla d (f_sb (sv_fs S)) (f_bgdt (sv_fs S));
          Some (S\<lparr>sv_fs := (sv_fs S)\<lparr>f_ext2fs := d\<rparr>\<rparr>) }"

definition ENOENT :: int where "ENOENT = 2"
definition ENOSPC :: int where "ENOSPC = 28"
definition ENOTEMPTY :: int where "ENOTEMPTY = 39"

definition procesarError :: "u8 list" where
  "procesarError = serializar_error"

section \<open>The handlers\<close>

definition procesarReaddir :: "'c servidor \<Rightarrow> u8 list \<Rightarrow> ('c servidor \<times> u8 list) option" where
  "procesarReaddir S buffer =
     do { nroInodo \<leftarrow> sv_buscarPath S buffer;
          if nroInodo = 0 then Some (S, procesarError) else
          do { S \<leftarrow> sv_lock S nroInodo TIPOREAD;
               listaDir \<leftarrow> Dir_listar (f_ext2fs (sv_fs S)) nroInodo
                 (s_inodes_per_group (f_sb (sv_fs S))) (f_bgdt (sv_fs S)) (sv_bs S);
               let S = sv_unlock S nroInodo;
               (tamano, paquete) \<leftarrow> serializar_readdir_Rta (map nombre_de listaDir);
               envio \<leftarrow> lee paquete 0 (unat tamano + 3);
               Some (S, envio) } }"

definition procesarGetattr :: "abi \<Rightarrow> 'c servidor \<Rightarrow> u8 list \<Rightarrow> ('c servidor \<times> u8 list) option" where
  "procesarGetattr A S buffer =
     do { nroInodo \<leftarrow> sv_buscarPath S buffer;
          if nroInodo = 0 then Some (S, procesarError) else
          do { S \<leftarrow> sv_lock S nroInodo TIPOREAD;
               inodo \<leftarrow> sv_leerInodo S nroInodo;
               let S = sv_unlock S nroInodo;
               paqueteRta \<leftarrow> serializar_Gettattr_Rta A (unat (i_mode inodo))
                 (unat (i_links_count inodo)) (unat (i_size inodo));
               envio \<leftarrow> lee paqueteRta 0 (sizeof_mode_t A + sizeof_nlink_t A + sizeof_off_t A + 3);
               Some (S, envio) } }"

text \<open>
  The size read is cut at the end of the file, in unsigned arithmetic.
\<close>

definition procesarRead ::
  "abi \<Rightarrow> 'c memcached \<Rightarrow> 'c servidor \<Rightarrow> u8 list \<Rightarrow> ('c servidor \<times> u8 list) option" where
  "procesarRead A M S buffer =
     do { s_read \<leftarrow> deserializar_Read_Pedido A buffer;
          let offset = (word_of_nat (dr_offset s_read) :: u32);
          let sz = (word_of_nat (dr_size s_read) :: u32);
          nroInodo \<leftarrow> sv_buscarPath S (dr_path s_read);
          S \<leftarrow> sv_lock S nroInodo TIPOREAD;
          if nroInodo = 0 then Some (sv_unlock S nroInodo, procesarError) else
          do { inodo \<leftarrow> sv_leerInodo S nroInodo;
               let sz = (if i_size inodo < offset + sz then i_size inodo - offset else sz);
               (buffread, c) \<leftarrow> Dir_leerArchivo M (sv_cache S) (f_ext2fs (sv_fs S)) inodo offset sz (sv_bs S);
               let S = sv_unlock (S\<lparr>sv_cache := c\<rparr>) nroInodo;
               paqueteRta \<leftarrow> serializar_Read_Rta (ucast sz) buffread;
               envio \<leftarrow> lee paqueteRta 0 (unat (sz + 3));
               Some (S, envio) } }"

definition procesarOpen :: "'c servidor \<Rightarrow> u8 list \<Rightarrow> ('c servidor \<times> u8 list) option" where
  "procesarOpen S buffer =
     do { nroInodo \<leftarrow> sv_buscarPath S buffer;
          if nroInodo = 0 then Some (S, procesarError) else
          do { paqueteRta \<leftarrow> serializar_Result_Rta 0 TIPOOPEN;
               envio \<leftarrow> lee paqueteRta 0 7;
               Some (S, envio) } }"

definition procesarTruncate ::
  "abi \<Rightarrow> 'c servidor \<Rightarrow> u8 list \<Rightarrow> ('c servidor \<times> u8 list) option" where
  "procesarTruncate A S buffer =
     do { s_truncate \<leftarrow> deserializar_Truncate_Pedido A buffer;
          let offset = (word_of_nat (dt_offset s_truncate) :: u32);
          nroInodo \<leftarrow> sv_buscarPath S (dt_path s_truncate);
          if nroInodo = 0 then Some (S, procesarError) else
          do { S \<leftarrow> sv_lock S nroInodo TIPOWRITE;
               inodo \<leftarrow> sv_leerInodo S nroInodo;
               (error, F, inodo) \<leftarrow>
                 (if offset > i_size inodo then Inode_truncarArriba (sv_fs S) inodo offset
                  else Some (0, sv_fs S, inodo));
               (F, inodo) \<leftarrow>
                 (if offset < i_size inodo then Inode_truncarAbajo F inodo offset else Some (F, inodo));
               let S = S\<lparr>sv_fs := F\<rparr>;
               S \<leftarrow> (if error = 0 then sv_escribirInodo S nroInodo inodo else Some S);
               let S = sv_unlock S nroInodo;
               S \<leftarrow> sv_guardar S;
               paqueteRta \<leftarrow> serializar_Result_Rta error TIPOTRUNCATE;
               envio \<leftarrow> lee paqueteRta 0 7;
               Some (S, envio) } }"

definition procesarWrite ::
  "abi \<Rightarrow> 'c memcached \<Rightarrow> 'c servidor \<Rightarrow> u8 list \<Rightarrow> ('c servidor \<times> u8 list) option" where
  "procesarWrite A M S buffer =
     do { s_write \<leftarrow> deserializar_Write_Pedido A buffer;
          let offset = (word_of_nat (dw_offset s_write) :: u32);
          let sz = (word_of_nat (dw_size s_write) :: u32);
          nroInodo \<leftarrow> sv_buscarPath S (dw_path s_write);
          if nroInodo = 0 then Some (S, procesarError) else
          do { S \<leftarrow> sv_lock S nroInodo TIPOWRITE;
               inodo \<leftarrow> sv_leerInodo S nroInodo;
               let truncate = (offset + sz > i_size inodo);
               (cantEscrita, c, F, inodo) \<leftarrow>
                 Dir_escribirArchivo M (sv_cache S) (sv_fs S) inodo offset sz (dw_buf s_write);
               let S = S\<lparr>sv_fs := F, sv_cache := c\<rparr>;
               S \<leftarrow> (if cantEscrita \<noteq> - 1 \<and> truncate then sv_escribirInodo S nroInodo inodo else Some S);
               let cantEscrita = (if cantEscrita = - 1 then - ENOSPC else cantEscrita);
               let S = sv_unlock S nroInodo;
               S \<leftarrow> sv_guardar S;
               paqueteRta \<leftarrow> serializar_Write_Rta cantEscrita;
               envio \<leftarrow> lee paqueteRta 0 7;
               Some (S, envio) } }"

text \<open>\<^verbatim>\<open>S_IFREG | 0444\<close> and \<^verbatim>\<open>S_IFDIR | 0755\<close>.\<close>

definition MODO_ARCHIVO :: u16 where "MODO_ARCHIVO = 0x8124"
definition MODO_DIRECTORIO :: u16 where "MODO_DIRECTORIO = 0x41ED"

text \<open>
  The answer of the handlers that create: an error packet when \<open>error\<close> is zero, after giving the
  inode back, otherwise the result code.
\<close>

definition responder_creacion ::
  "'c servidor \<Rightarrow> u32 \<Rightarrow> u32 \<Rightarrow> int \<Rightarrow> u8 \<Rightarrow> ('c servidor \<times> u8 list) option" where
  "responder_creacion S error nroInodoCreado respuesta t =
     do { (S, envio) \<leftarrow>
            (if error = 0
             then do { F \<leftarrow> Grupos_liberarInodoEnBitmap (sv_fs S) nroInodoCreado;
                       Some (S\<lparr>sv_fs := F\<rparr>, procesarError) }
             else do { paqueteRta \<leftarrow> serializar_Result_Rta respuesta t;
                       envio \<leftarrow> lee paqueteRta 0 7;
                       Some (S, envio) });
          S \<leftarrow> sv_guardar S;
          Some (S, envio) }"

definition procesarCreate :: "'c servidor \<Rightarrow> u8 list \<Rightarrow> ('c servidor \<times> u8 list) option" where
  "procesarCreate S buffer =
     do { st_paths \<leftarrow> separarPath buffer;
          (nroInodoCreado, F) \<leftarrow> Inode_asignarInodo (sv_fs S) MODO_ARCHIVO 1;
          let S = S\<lparr>sv_fs := F\<rparr>;
          if nroInodoCreado = - 1 then responder_creacion S 1 nroInodoCreado (- ENOSPC) TIPOCREATE else
          do { nroInodoDir \<leftarrow> sv_buscarPath S (pathDir st_paths);
               if nroInodoDir = 0 then responder_creacion S 0 nroInodoCreado 0 TIPOCREATE else
               do { S \<leftarrow> sv_lock S nroInodoDir TIPOWRITE;
                    existe \<leftarrow> sv_buscarPath S buffer;
                    let error = (if existe \<noteq> 0 then 0 else nroInodoDir);
                    (r, F) \<leftarrow> Dir_crearNuevaEntrada (sv_fs S) (nombreArch st_paths) nroInodoDir nroInodoCreado;
                    let S = S\<lparr>sv_fs := F\<rparr>;
                    let error = (if r = - 1 \<and> error \<noteq> 0 then 0 else error);
                    responder_creacion (sv_unlock S nroInodoDir) error nroInodoCreado 0 TIPOCREATE } } }"

definition procesarMkdir :: "'c servidor \<Rightarrow> u8 list \<Rightarrow> ('c servidor \<times> u8 list) option" where
  "procesarMkdir S buffer =
     do { st_paths \<leftarrow> separarPath buffer;
          (nroInodoCreado, F) \<leftarrow> Inode_asignarInodo (sv_fs S) MODO_DIRECTORIO 2;
          let S = S\<lparr>sv_fs := F\<rparr>;
          if nroInodoCreado = - 1 then responder_creacion S 1 nroInodoCreado (- ENOSPC) TIPOMKDIR else
          do { nroInodoDir \<leftarrow> sv_buscarPath S (pathDir st_paths);
               if nroInodoDir = 0 then responder_creacion S 0 nroInodoCreado 0 TIPOMKDIR else
               do { S \<leftarrow> sv_lock S nroInodoDir TIPOWRITE;
                    existe \<leftarrow> sv_buscarPath S buffer;
                    let error = (if existe \<noteq> 0 then 0 else nroInodoDir);
                    (r, F) \<leftarrow> Dir_crearNuevaEntrada (sv_fs S) (nombreArch st_paths) nroInodoDir nroInodoCreado;
                    let S = S\<lparr>sv_fs := F\<rparr>;
                    (S, error) \<leftarrow>
                      (if r = - 1 \<and> error \<noteq> 0 then Some (S, 0) else
                       do { (_, F) \<leftarrow> Dir_crearNuevaEntrada (sv_fs S) [46] nroInodoCreado nroInodoCreado;
                            (_, F) \<leftarrow> Dir_crearNuevaEntrada F [46, 46] nroInodoCreado nroInodoDir;
                            let S = S\<lparr>sv_fs := F\<rparr>;
                            inodo \<leftarrow> sv_leerInodo S nroInodoDir;
                            S \<leftarrow> sv_escribirInodo S nroInodoDir
                                  (inodo\<lparr>i_links_count := i_links_count inodo + 1\<rparr>);
                            let g = unat (nroInodoDir div s_inodes_per_group (f_sb (sv_fs S)));
                            let t = f_bgdt (sv_fs S);
                            if g < length t
                            then Some (S\<lparr>sv_fs := (sv_fs S)\<lparr>f_bgdt := t[g := (t ! g)
                                   \<lparr>bg_used_dirs_count := bg_used_dirs_count (t ! g) + 1\<rparr>]\<rparr>\<rparr>, error)
                            else None });
                    responder_creacion (sv_unlock S nroInodoDir) error nroInodoCreado 0 TIPOMKDIR } } }"

text \<open>
  Removing: both inodes are locked to write, the directory first. The error packet is sent without
  writing anything back.
\<close>

definition procesarUnlink :: "'c servidor \<Rightarrow> u8 list \<Rightarrow> ('c servidor \<times> u8 list) option" where
  "procesarUnlink S buffer =
     do { st_paths \<leftarrow> separarPath buffer;
          nroInodoArch \<leftarrow> sv_buscarPath S buffer;
          nroInodoDir \<leftarrow> sv_buscarPath S (pathDir st_paths);
          if nroInodoArch = 0 \<or> nroInodoDir = 0 then Some (S, procesarError) else
          do { S \<leftarrow> sv_lock S nroInodoDir TIPOWRITE;
               S \<leftarrow> sv_lock S nroInodoArch TIPOWRITE;
               inodo \<leftarrow> sv_leerInodo S nroInodoArch;
               (S, error) \<leftarrow>
                 (if i_mode inodo \<noteq> 0
                  then do { (_, F) \<leftarrow> Dir_borrarEntrada (sv_fs S) nroInodoDir nroInodoArch;
                            (F, inodo) \<leftarrow> Inode_truncarAbajo F inodo 0;
                            let inodo = inodo\<lparr>i_links_count := 0, i_mode := 0\<rparr>;
                            F \<leftarrow> Grupos_liberarInodoEnBitmap F nroInodoArch;
                            S \<leftarrow> sv_escribirInodo (S\<lparr>sv_fs := F\<rparr>) nroInodoArch inodo;
                            Some (S, 1 :: nat) }
                  else Some (S, 0));
               let S = sv_unlock (sv_unlock S nroInodoArch) nroInodoDir;
               if error = 0 then Some (S, procesarError) else
               do { paqueteRta \<leftarrow> serializar_Result_Rta 0 TIPOUNLINK;
                    envio \<leftarrow> lee paqueteRta 0 7;
                    S \<leftarrow> sv_guardar S;
                    Some (S, envio) } } }"

definition procesarRmdir :: "'c servidor \<Rightarrow> u8 list \<Rightarrow> ('c servidor \<times> u8 list) option" where
  "procesarRmdir S buffer =
     do { st_paths \<leftarrow> separarPath buffer;
          nroInodoArch \<leftarrow> sv_buscarPath S buffer;
          nroInodoDir \<leftarrow> sv_buscarPath S (pathDir st_paths);
          if nroInodoArch = 0 \<or> nroInodoDir = 0 then Some (S, procesarError) else
          do { S \<leftarrow> sv_lock S nroInodoDir TIPOWRITE;
               S \<leftarrow> sv_lock S nroInodoArch TIPOWRITE;
               inodo \<leftarrow> sv_leerInodo S nroInodoArch;
               cant \<leftarrow> Dir_cantDirectorios inodo (f_ext2fs (sv_fs S)) (sv_bs S);
               (S, respuesta) \<leftarrow>
                 (if cant = 2
                  then do { (_, F) \<leftarrow> Dir_borrarEntrada (sv_fs S) nroInodoDir nroInodoArch;
                            (F, inodo) \<leftarrow> Inode_truncarAbajo F inodo 0;
                            let inodo = inodo\<lparr>i_links_count := 0, i_mode := 0\<rparr>;
                            F \<leftarrow> Grupos_liberarInodoEnBitmap F nroInodoArch;
                            S \<leftarrow> sv_escribirInodo (S\<lparr>sv_fs := F\<rparr>) nroInodoArch inodo;
                            inodo \<leftarrow> sv_leerInodo S nroInodoDir;
                            S \<leftarrow> sv_escribirInodo S nroInodoDir
                                  (inodo\<lparr>i_links_count := i_links_count inodo - 1\<rparr>);
                            let g = unat (nroInodoArch div s_inodes_per_group (f_sb (sv_fs S)));
                            let t = f_bgdt (sv_fs S);
                            if g < length t
                            then Some (S\<lparr>sv_fs := (sv_fs S)\<lparr>f_bgdt := t[g := (t ! g)
                                   \<lparr>bg_used_dirs_count := bg_used_dirs_count (t ! g) - 1\<rparr>]\<rparr>\<rparr>, 0)
                            else None }
                  else Some (S, if i_mode inodo = 0 then - ENOENT else - ENOTEMPTY));
               let S = sv_unlock (sv_unlock S nroInodoArch) nroInodoDir;
               paqueteRta \<leftarrow> serializar_Result_Rta respuesta TIPORMDIR;
               envio \<leftarrow> lee paqueteRta 0 7;
               S \<leftarrow> sv_guardar S;
               Some (S, envio) } }"

section \<open>One request\<close>

text \<open>
  One turn of the loop of \<^verbatim>\<open>procesarPedido\<close>: the request at the head of the queue is dispatched on its
  type; with no request in the queue the thread waits (\<open>None\<close>). A type without a case
  (\<^verbatim>\<open>TIPORELEASE\<close> among them) is dropped without an answer.
\<close>

definition atender ::
  "abi \<Rightarrow> 'c memcached \<Rightarrow> 'c servidor \<Rightarrow> Pedido \<Rightarrow> ('c servidor \<times> u8 list) option" where
  "atender A M S ped =
     (let t = p_tipoPaquete ped; b = p_buffer ped in
      if t = TIPOGETATTR then procesarGetattr A S b
      else if t = TIPOREADDIR then procesarReaddir S b
      else if t = TIPOREAD then procesarRead A M S b
      else if t = TIPOOPEN then procesarOpen S b
      else if t = TIPOTRUNCATE then procesarTruncate A S b
      else if t = TIPOWRITE then procesarWrite A M S b
      else if t = TIPOCREATE then procesarCreate S b
      else if t = TIPOUNLINK then procesarUnlink S b
      else if t = TIPOMKDIR then procesarMkdir S b
      else if t = TIPORMDIR then procesarRmdir S b
      else Some (S, []))"

fun procesarPedido ::
  "abi \<Rightarrow> 'c memcached \<Rightarrow> 'c servidor \<Rightarrow> Pedido list \<Rightarrow>
   ('c servidor \<times> Pedido list \<times> nat \<times> u8 list) option" where
  "procesarPedido A M S [] = None"
| "procesarPedido A M S (ped # cola) =
     do { (S, envio) \<leftarrow> atender A M S ped; Some (S, cola, p_client ped, envio) }"

section \<open>Splitting a path\<close>

lemma ultima_barra_prefijo:
  assumes "length d \<le> i" "47 \<notin> set n"
  shows "ultima_barra (d @ 47 # n) i = Some (length d)"
  using assms(1)
proof (induction i)
  case 0
  then show ?case by simp
next
  case (Suc i)
  show ?case
  proof (cases "Suc i = length d")
    case True
    then show ?thesis unfolding ultima_barra.simps by (simp add: nth_append)
  next
    case False
    then have i: "length d \<le> i" using Suc.prems by simp
    have "(d @ 47 # n) ! Suc i \<noteq> 47" if "Suc i < length (d @ 47 # n)"
    proof -
      have "(d @ 47 # n) ! Suc i = n ! (i - length d)" using i by (simp add: nth_append Suc_diff_le)
      then show ?thesis using assms(2) that i by (metis add_Suc_right diff_less_mono length_Cons length_append
            nth_mem not_less_eq less_diff_conv2 add.commute)
    qed
    then show ?thesis using Suc.IH [OF i] by auto
  qed
qed

text \<open>
  Splitting a path at its last slash gives the directory and the name. The root directory keeps its slash; the
  sixteen bit counter of the loop limits the path to 65535 bytes.
\<close>

lemma separarPath_correcto:
  assumes "path = d @ 47 # n" "47 \<notin> set n" "0 \<notin> set path" "length path < 65536"
  shows "separarPath path = Some \<lparr>pathDir = (if d = [] then [47] else d), nombreArch = n\<rparr>"
proof -
  have h: "hasta_nul path = path" using assms(3) by (auto simp: hasta_nul_def takeWhile_eq_all_conv)
  have l: "unat (word_of_nat (length path) :: u16) = length path"
    using assms(4) by (simp add: unat_of_nat)
  have "ultima_barra path (length path) = Some (length d)"
    unfolding assms(1) by (rule ultima_barra_prefijo) (use assms(2) in simp_all)
  then show ?thesis unfolding separarPath_def h Let_def l using assms(1) by simp
qed

lemma separarPath_correcto_ej:
  "separarPath [47, 97, 47, 98] = Some \<lparr>pathDir = [47, 97], nombreArch = [98]\<rparr>"
  using separarPath_correcto [of "[47, 97, 47, 98]" "[47, 97]" "[98]"] by simp

end
