(* ===== verification/Cliente.thy ===== *)
theory Cliente
  imports Servidor
begin

text \<open>
  The FUSE client, \<^verbatim>\<open>fsc/fsc.c\<close> and \<^verbatim>\<open>fsc/auxCliente.c\<close>: each file operation of the kernel becomes one
  request to the server on a socket of the pool, with the answers about attributes and directories
  kept in the cache. The server is a parameter: a function from the bytes sent to the bytes that
  come back, which the theory of the whole system instantiates with the model of \<^verbatim>\<open>rfs\<close>.

  \<open>None\<close> stands for undefined behaviour and also for waiting forever: for a socket when the pool is
  empty, or for an answer that does not come.
\<close>

section \<open>The pool of sockets\<close>

text \<open>The pool is a queue, first in, first out; the theory \<open>Cola\<close> has the queue of the source.\<close>

definition obtenerSocket :: "int list \<Rightarrow> (int \<times> int list) option" where
  "obtenerSocket pool_sock = (case pool_sock of [] \<Rightarrow> None | s # ss \<Rightarrow> Some (s, ss))"

definition habilitar_socket :: "int list \<Rightarrow> int \<Rightarrow> int list" where
  "habilitar_socket pool_sock sock = pool_sock @ [sock]"

record ('c, 's) cliente =
  cl_cache :: 'c
  cl_pool :: "int list"
  cl_remoto :: 's

type_synonym 's remoto = "'s \<Rightarrow> u8 list \<Rightarrow> ('s \<times> u8 list) option"

definition separarPathCliente :: "u8 list \<Rightarrow> PathSeparado option" where
  "separarPathCliente p =
     (let path = hasta_nul p; len = length path in
      do { i \<leftarrow> ultima_barra path (unat (word_of_nat len :: u16));
           Some (if i = 0
                 then \<lparr>pathDir = [47], nombreArch = take (len - i - 1) (drop (i + 1) path)\<rparr>
                 else \<lparr>pathDir = take i path, nombreArch = take (len - i - 1) (drop (i + 1) path)\<rparr>) })"

definition borrarCacheDirectorios :: "'c memcached \<Rightarrow> u8 list \<Rightarrow> 'c \<Rightarrow> 'c option" where
  "borrarCacheDirectorios M path st_cache =
     (let c = cache_borrarClave M st_cache CACHEGETATR path;
          c = cache_borrarClave M c CACHEREADDIR path in
      do { dir \<leftarrow> separarPathCliente path;
           let c = cache_borrarClave M c CACHEGETATR (pathDir dir);
           Some (cache_borrarClave M c CACHEREADDIR (pathDir dir)) })"

section \<open>One exchange with the server\<close>

text \<open>
  The sequence every operation repeats: take a socket, send \<open>tamano_paq\<close> bytes of the packet, receive
  the header, compare the type; with the type expected receive the payload; give the socket
  back. The result is the length and the payload, or \<open>None\<close> for an answer of another type. The payload of such an answer
  stays on the socket in the code and is dropped here; the only one that the server sends, the error packet, has none.
  The semaphore of the pool counts the sockets of the queue, so that an empty pool is a wait.
\<close>

definition intercambio ::
  "'s remoto \<Rightarrow> ('c, 's) cliente \<Rightarrow> u8 list \<Rightarrow> u16 \<Rightarrow> u8 \<Rightarrow>
   ((u16 \<times> u8 list) option \<times> ('c, 's) cliente) option" where
  "intercambio srv C paquete tamano_paq t =
     do { (sock, pool) \<leftarrow> obtenerSocket (cl_pool C);
          envio \<leftarrow> lee paquete 0 (unat tamano_paq);
          (r, rta) \<leftarrow> srv (cl_remoto C) envio;
          header \<leftarrow> lee rta 0 3;
          let C = C\<lparr>cl_pool := habilitar_socket pool sock, cl_remoto := r\<rparr>;
          if dec8 (take 1 header) \<noteq> t then Some (None, C) else
          do { let n = dec16 (drop 1 header);
               paquete_recv \<leftarrow> lee rta 3 (unat n);
               Some (Some (n, paquete_recv), C) } }"

text \<open>\<open>tamano_header + strlen(path) + 1\<close>, in sixteen bits.\<close>

definition tam_pedido :: "u8 list \<Rightarrow> nat \<Rightarrow> u16" where
  "tam_pedido path extra = word_of_nat (3 + length path + 1 + extra)"

section \<open>The operations\<close>

record stat =
  st_mode :: nat
  st_nlink :: nat
  st_size :: nat

definition fsc_getattr ::
  "abi \<Rightarrow> 'c memcached \<Rightarrow> 's remoto \<Rightarrow> ('c, 's) cliente \<Rightarrow> u8 list \<Rightarrow>
   (int \<times> stat option \<times> ('c, 's) cliente) option" where
  "fsc_getattr A M srv C path =
     (case cache_bajar_info M (cl_cache C) CACHEGETATR path of (enCache, c) \<Rightarrow>
      let C = C\<lparr>cl_cache := c\<rparr> in
      case enCache of
        Some paquete_recv \<Rightarrow>
          do { attr \<leftarrow> deserializar_Gettattr_Rta A paquete_recv;
               Some (0, Some \<lparr>st_mode = modo attr, st_nlink = nlink attr, st_size = total_size attr\<rparr>, C) }
      | None \<Rightarrow>
          do { paquete_send \<leftarrow> serializar_path path TIPOGETATTR;
               (rta, C) \<leftarrow> intercambio srv C paquete_send (tam_pedido path 0) TIPOGETATTR;
               case rta of
                 None \<Rightarrow> Some (- ENOENT, None, C)
               | Some (tamano_paq, paquete_recv) \<Rightarrow>
                   do { c \<leftarrow> cache_subir_info M (cl_cache C) CACHEGETATR path paquete_recv tamano_paq;
                        attr \<leftarrow> deserializar_Gettattr_Rta A paquete_recv;
                        Some (0, Some \<lparr>st_mode = modo attr, st_nlink = nlink attr, st_size = total_size attr\<rparr>,
                              C\<lparr>cl_cache := c\<rparr>) } })"

text \<open>
  The last part of \<^verbatim>\<open>fsc_readdir\<close>, for a listing from either source: the names are handed out and the buffers freed. The
  variable \<^verbatim>\<open>paquete_send\<close> is \<open>None\<close> as long as nothing was assigned to it; passing it to \<^verbatim>\<open>free\<close> is then undefined.
\<close>

definition readdir_fin :: "u8 list option \<Rightarrow> u16 \<Rightarrow> u8 list \<Rightarrow> u8 list list option" where
  "readdir_fin paquete_send tamano_paq paquete_recv =
     do { respuesta \<leftarrow> deserializar_Readdir_Rta tamano_paq paquete_recv;
          nombres \<leftarrow> readdir_filler_loop (lista_nombres respuesta) 0;
          liberado \<leftarrow> paquete_send;
          Some nombres }"

definition fsc_readdir ::
  "'c memcached \<Rightarrow> 's remoto \<Rightarrow> ('c, 's) cliente \<Rightarrow> u8 list \<Rightarrow>
   (int \<times> u8 list list \<times> ('c, 's) cliente) option" where
  "fsc_readdir M srv C path =
     (case cache_bajar_info M (cl_cache C) CACHEREADDIR path of (enCache, c) \<Rightarrow>
      let C = C\<lparr>cl_cache := c\<rparr> in
      case enCache of
        Some paquete_recv \<Rightarrow>
          do { nombres \<leftarrow> readdir_fin None (word_of_nat (length paquete_recv)) paquete_recv;
               Some (0, nombres, C) }
      | None \<Rightarrow>
          do { paquete_send \<leftarrow> serializar_path path TIPOREADDIR;
               (rta, C) \<leftarrow> intercambio srv C paquete_send (tam_pedido path 0) TIPOREADDIR;
               case rta of
                 None \<Rightarrow> Some (- 1, [], C)
               | Some (tamano_paq, paquete_recv) \<Rightarrow>
                   do { c \<leftarrow> cache_subir_info M (cl_cache C) CACHEREADDIR path paquete_recv tamano_paq;
                        nombres \<leftarrow> readdir_fin (Some paquete_send) tamano_paq paquete_recv;
                        Some (0, nombres, C\<lparr>cl_cache := c\<rparr>) } })"

definition fsc_open ::
  "'s remoto \<Rightarrow> ('c, 's) cliente \<Rightarrow> u8 list \<Rightarrow> (int \<times> ('c, 's) cliente) option" where
  "fsc_open srv C path =
     do { paquete_send \<leftarrow> serializar_path path TIPOOPEN;
          (rta, C) \<leftarrow> intercambio srv C paquete_send (tam_pedido path 0) TIPOOPEN;
          case rta of
            None \<Rightarrow> Some (- 1, C)
          | Some (tamano_paq, paquete_recv) \<Rightarrow>
              do { respuesta \<leftarrow> deserializar_Result_Rta paquete_recv; Some (respuesta, C) } }"

text \<open>The server does not answer a release and the client does not wait for it.\<close>

definition fsc_release ::
  "'s remoto \<Rightarrow> ('c, 's) cliente \<Rightarrow> u8 list \<Rightarrow> (int \<times> ('c, 's) cliente) option" where
  "fsc_release srv C path =
     do { paquete_send \<leftarrow> serializar_path path TIPORELEASE;
          (sock, pool) \<leftarrow> obtenerSocket (cl_pool C);
          envio \<leftarrow> lee paquete_send 0 (unat (tam_pedido path 0));
          (r, _) \<leftarrow> srv (cl_remoto C) envio;
          Some (0, C\<lparr>cl_pool := habilitar_socket pool sock, cl_remoto := r\<rparr>) }"

text \<open>\<open>None\<close> also when the server sends more than the \<open>size'\<close> bytes of the kernel's buffer.\<close>

definition fsc_read ::
  "abi \<Rightarrow> 's remoto \<Rightarrow> ('c, 's) cliente \<Rightarrow> u8 list \<Rightarrow> nat \<Rightarrow> nat \<Rightarrow>
   (int \<times> u8 list \<times> ('c, 's) cliente) option" where
  "fsc_read A srv C path size' offset =
     (if size' > 65535 then Some (- ENOENT, [], C) else
      do { paquete_send \<leftarrow> serializar_Read_Pedido A path offset size';
           (rta, C) \<leftarrow> intercambio srv C paquete_send (tam_pedido path (4 + sizeof_size_t A)) TIPOREAD;
           case rta of
             None \<Rightarrow> Some (- 1, [], C)
           | Some (tamano_paq, paquete_recv) \<Rightarrow>
               if tamano_paq = 0 then Some (0, [], C) else
               do { lectura \<leftarrow> deserializar_Read_Rta tamano_paq paquete_recv;
                    if unat tamano_paq \<le> size'
                    then Some (int (unat tamano_paq), take (unat tamano_paq) lectura, C)
                    else None } })"

definition fsc_write ::
  "abi \<Rightarrow> 'c memcached \<Rightarrow> 's remoto \<Rightarrow> ('c, 's) cliente \<Rightarrow> u8 list \<Rightarrow> u8 list \<Rightarrow> nat \<Rightarrow> nat \<Rightarrow>
   (int \<times> ('c, 's) cliente) option" where
  "fsc_write A M srv C path buf size' offset =
     do { paquete_send \<leftarrow> serializar_Write_Pedido A path size' buf offset;
          (rta, C) \<leftarrow> intercambio srv C paquete_send
            (tam_pedido path (4 + sizeof_size_t A + size')) TIPOWRITE;
          case rta of
            None \<Rightarrow> Some (- 1, C)
          | Some (tamano_paq, paquete_recv) \<Rightarrow>
              do { respuesta \<leftarrow> deserializar_Write_Rta paquete_recv;
                   Some (respuesta, C\<lparr>cl_cache := cache_borrarClave M (cl_cache C) CACHEGETATR path\<rparr>) } }"

definition fsc_create ::
  "'c memcached \<Rightarrow> 's remoto \<Rightarrow> ('c, 's) cliente \<Rightarrow> u8 list \<Rightarrow> (int \<times> ('c, 's) cliente) option" where
  "fsc_create M srv C path =
     do { paquete_send \<leftarrow> serializar_path path TIPOCREATE;
          (rta, C) \<leftarrow> intercambio srv C paquete_send (tam_pedido path 0) TIPOCREATE;
          case rta of
            None \<Rightarrow> Some (- 1, C)
          | Some (tamano_paq, paquete_recv) \<Rightarrow>
              do { c \<leftarrow> borrarCacheDirectorios M path (cl_cache C);
                   respuesta \<leftarrow> deserializar_Result_Rta paquete_recv;
                   Some (respuesta, C\<lparr>cl_cache := c\<rparr>) } }"

definition fsc_unlink ::
  "'c memcached \<Rightarrow> 's remoto \<Rightarrow> ('c, 's) cliente \<Rightarrow> u8 list \<Rightarrow> (int \<times> ('c, 's) cliente) option" where
  "fsc_unlink M srv C path =
     do { paquete_send \<leftarrow> serializar_path path TIPOUNLINK;
          (rta, C) \<leftarrow> intercambio srv C paquete_send (tam_pedido path 0) TIPOUNLINK;
          case rta of
            None \<Rightarrow> Some (- 1, C)
          | Some (tamano_paq, paquete_recv) \<Rightarrow>
              do { c \<leftarrow> borrarCacheDirectorios M path (cl_cache C);
                   respuesta \<leftarrow> deserializar_Result_Rta paquete_recv;
                   Some (respuesta, C\<lparr>cl_cache := c\<rparr>) } }"

definition fsc_truncate ::
  "abi \<Rightarrow> 'c memcached \<Rightarrow> 's remoto \<Rightarrow> ('c, 's) cliente \<Rightarrow> u8 list \<Rightarrow> nat \<Rightarrow>
   (int \<times> ('c, 's) cliente) option" where
  "fsc_truncate A M srv C path offset =
     do { paquete_send \<leftarrow> serializar_Truncate_Pedido A path offset;
          (rta, C) \<leftarrow> intercambio srv C paquete_send (tam_pedido path (sizeof_off_t A)) TIPOTRUNCATE;
          case rta of
            None \<Rightarrow> Some (- 1, C)
          | Some (tamano_paq, paquete_recv) \<Rightarrow>
              do { respuesta \<leftarrow> deserializar_Result_Rta paquete_recv;
                   Some (respuesta, C\<lparr>cl_cache := cache_borrarClave M (cl_cache C) CACHEGETATR path\<rparr>) } }"

definition fsc_rmdir ::
  "'c memcached \<Rightarrow> 's remoto \<Rightarrow> ('c, 's) cliente \<Rightarrow> u8 list \<Rightarrow> (int \<times> ('c, 's) cliente) option" where
  "fsc_rmdir M srv C path =
     do { paquete_send \<leftarrow> serializar_path path TIPORMDIR;
          (rta, C) \<leftarrow> intercambio srv C paquete_send (tam_pedido path 0) TIPORMDIR;
          case rta of
            None \<Rightarrow> Some (- 1, C)
          | Some (tamano_paq, paquete_recv) \<Rightarrow>
              do { c \<leftarrow> borrarCacheDirectorios M path (cl_cache C);
                   respuesta \<leftarrow> deserializar_Result_Rta paquete_recv;
                   Some (respuesta, C\<lparr>cl_cache := c\<rparr>) } }"

definition fsc_mkdir ::
  "'c memcached \<Rightarrow> 's remoto \<Rightarrow> ('c, 's) cliente \<Rightarrow> u8 list \<Rightarrow> (int \<times> ('c, 's) cliente) option" where
  "fsc_mkdir M srv C path =
     do { paquete_send \<leftarrow> serializar_path path TIPOMKDIR;
          (rta, C) \<leftarrow> intercambio srv C paquete_send (tam_pedido path 0) TIPOMKDIR;
          case rta of
            None \<Rightarrow> Some (- 1, C)
          | Some (tamano_paq, paquete_recv) \<Rightarrow>
              do { c \<leftarrow> borrarCacheDirectorios M path (cl_cache C);
                   respuesta \<leftarrow> deserializar_Result_Rta paquete_recv;
                   Some (respuesta, C\<lparr>cl_cache := c\<rparr>) } }"

section \<open>The pool is conserved\<close>

lemma readdir_fin_sin_paquete: "readdir_fin None n bs = None"
  by (simp add: readdir_fin_def split: bind_splits)

text \<open>\<open>gira p q\<close>: the socket at the head of the pool \<open>p\<close> was used and put back at its end.\<close>

definition gira :: "int list \<Rightarrow> int list \<Rightarrow> bool" where
  "gira p q \<longleftrightarrow> p \<noteq> [] \<and> q = tl p @ [hd p]"

lemma obtener_habilitar:
  "obtenerSocket p = Some (s, q) \<Longrightarrow> gira p (habilitar_socket q s)"
  by (auto simp: obtenerSocket_def habilitar_socket_def gira_def split: list.splits)

lemma intercambio_pool:
  "intercambio srv C paquete n t = Some (r, C') \<Longrightarrow> gira (cl_pool C) (cl_pool C') \<and> cl_cache C' = cl_cache C"
  by (auto simp: intercambio_def Let_def split: if_splits bind_splits intro!: obtener_habilitar)

lemmas fsc_defs = fsc_open_def fsc_release_def fsc_create_def fsc_unlink_def fsc_rmdir_def fsc_mkdir_def

text \<open>
  C22: no operation loses or duplicates a socket. Every operation that returns leaves the pool
  unchanged, when the answer came from the cache or the request was refused, or with the socket at its
  head moved to its end; in particular the same sockets are available afterwards, on the error
  paths too.
\<close>

theorem fsc_pool_conservado:
  "(fsc_getattr A M srv C path = Some (r1, st, C1) \<longrightarrow>
      cl_pool C1 = cl_pool C \<or> gira (cl_pool C) (cl_pool C1))
   \<and> (fsc_readdir M srv C path = Some (r2, ns, C2) \<longrightarrow> gira (cl_pool C) (cl_pool C2))
   \<and> (fsc_open srv C path = Some (r3, C3) \<longrightarrow> gira (cl_pool C) (cl_pool C3))
   \<and> (fsc_release srv C path = Some (r4, C4) \<longrightarrow> gira (cl_pool C) (cl_pool C4))
   \<and> (fsc_read A srv C path n off = Some (r5, bs, C5) \<longrightarrow>
      cl_pool C5 = cl_pool C \<or> gira (cl_pool C) (cl_pool C5))
   \<and> (fsc_write A M srv C path buf n off = Some (r6, C6) \<longrightarrow> gira (cl_pool C) (cl_pool C6))
   \<and> (fsc_truncate A M srv C path off = Some (r7, C7) \<longrightarrow> gira (cl_pool C) (cl_pool C7))
   \<and> (fsc_create M srv C path = Some (r8, C8) \<longrightarrow> gira (cl_pool C) (cl_pool C8))
   \<and> (fsc_unlink M srv C path = Some (r9, C9) \<longrightarrow> gira (cl_pool C) (cl_pool C9))
   \<and> (fsc_mkdir M srv C path = Some (r10, C10) \<longrightarrow> gira (cl_pool C) (cl_pool C10))
   \<and> (fsc_rmdir M srv C path = Some (r11, C11) \<longrightarrow> gira (cl_pool C) (cl_pool C11))"
proof (intro conjI impI)
  assume "fsc_getattr A M srv C path = Some (r1, st, C1)"
  then show "cl_pool C1 = cl_pool C \<or> gira (cl_pool C) (cl_pool C1)"
    by (fastforce simp: fsc_getattr_def Let_def split: prod.splits option.splits bind_splits
        dest: intercambio_pool)
next
  assume "fsc_readdir M srv C path = Some (r2, ns, C2)"
  then show "gira (cl_pool C) (cl_pool C2)"
    by (fastforce simp: fsc_readdir_def Let_def readdir_fin_sin_paquete split: prod.splits option.splits bind_splits
        dest: intercambio_pool)
next
  assume "fsc_read A srv C path n off = Some (r5, bs, C5)"
  then show "cl_pool C5 = cl_pool C \<or> gira (cl_pool C) (cl_pool C5)"
    by (auto simp: fsc_read_def split: if_splits prod.splits option.splits bind_splits
        dest: intercambio_pool)
next
  assume "fsc_write A M srv C path buf n off = Some (r6, C6)"
  then show "gira (cl_pool C) (cl_pool C6)"
    by (auto simp: fsc_write_def split: prod.splits option.splits bind_splits dest: intercambio_pool)
next
  assume "fsc_truncate A M srv C path off = Some (r7, C7)"
  then show "gira (cl_pool C) (cl_pool C7)"
    by (auto simp: fsc_truncate_def split: prod.splits option.splits bind_splits dest: intercambio_pool)
qed (auto simp: fsc_defs split: prod.splits option.splits bind_splits
    dest: intercambio_pool obtener_habilitar)

text \<open>A cache that never forgets and a server that accepts everything, for the witnesses.\<close>

definition mem_mapa :: "(u8 list \<Rightarrow> u8 list option) memcached" where
  "mem_mapa = \<lparr>memcached_get = (\<lambda>c k. (c k, c)), memcached_set = (\<lambda>c k v. c(k \<mapsto> v)),
     memcached_delete = (\<lambda>c k. c(k := None))\<rparr>"

definition remoto_ej :: "unit remoto" where
  "remoto_ej s envio = map_option (Pair s) (serializar_Result_Rta 0 (hd envio))"

definition cliente_ej :: "(u8 list \<Rightarrow> u8 list option, unit) cliente" where
  "cliente_ej = \<lparr>cl_cache = Map.empty, cl_pool = [5, 6, 7], cl_remoto = ()\<rparr>"

lemma fsc_open_ej:
  "fsc_open remoto_ej cliente_ej [47, 97] = Some (0, cliente_ej\<lparr>cl_pool := [6, 7, 5]\<rparr>)"
  by (simp add: fsc_open_def intercambio_def serializar_path_def arma_payload_def serializar_Nipc_def
      lee_def Let_def tam_pedido_def remoto_ej_def cliente_ej_def obtenerSocket_def habilitar_socket_def
      serializar_Result_Rta_def deserializar_Result_Rta_def enc8_def enc16_def enc32_def dec8_def
      dec16_def dec32_def bytes_le_numeral)

theorem fsc_pool_conservado_witness:
  "fsc_open remoto_ej cliente_ej [47, 97] = Some (0, cliente_ej\<lparr>cl_pool := [6, 7, 5]\<rparr>)
    \<and> gira (cl_pool cliente_ej) (cl_pool (cliente_ej\<lparr>cl_pool := [6, 7, 5]\<rparr>))"
  using fsc_open_ej fsc_pool_conservado [where srv = remoto_ej and C = cliente_ej and path = "[47, 97]"
      and ?r3.0 = 0 and ?C3.0 = "cliente_ej\<lparr>cl_pool := [6, 7, 5]\<rparr>"] by simp

section \<open>The cache does not outlive a change\<close>

lemma borrarCacheDirectorios_rep:
  assumes M: "almacen_clave (memcached_get M) (memcached_set M) (memcached_delete M) rep clave_ok valor_ok"
    and "rep c m" and "borrarCacheDirectorios M path c = Some c'" and "separarPathCliente path = Some dir"
    and k: "k \<in> {CACHEGETATR, CACHEREADDIR}" and p: "p \<in> {path, pathDir dir}"
    and cl: "\<forall>t \<in> {CACHEGETATR, CACHEREADDIR}. \<forall>q \<in> {path, pathDir dir}. clave_ok (hasta_nul (cache_armarClave t q))"
  shows "fst (cache_bajar_info M c' k p) = None"
proof -
  note del = almacen_clave.del_rep [OF M]
  let ?k = "\<lambda>t p. hasta_nul (cache_armarClave t p)"
  let ?m = "m(?k CACHEGETATR path := None, ?k CACHEREADDIR path := None,
      ?k CACHEGETATR (pathDir dir) := None, ?k CACHEREADDIR (pathDir dir) := None)"
  have "rep c' ?m"
    using assms(2-4) cl by (auto simp: borrarCacheDirectorios_def cache_borrarClave_def Let_def intro!: del)
  moreover obtain r c'' where g: "memcached_get M c' (?k k p) = (r, c'')" by (cases "memcached_get M c' (?k k p)")
  moreover have "clave_ok (?k k p)" using cl k p by blast
  ultimately have "r = None \<or> r = ?m (?k k p)" using almacen_clave.get_rep [OF M] by blast
  moreover have "?m (?k k p) = None" using k p by auto
  ultimately show ?thesis using g by (auto simp: cache_bajar_info_def)
qed

lemma fsc_cambio_borra:
  assumes "fsc_create M srv C path = Some (r, C') \<or> fsc_unlink M srv C path = Some (r, C')
      \<or> fsc_mkdir M srv C path = Some (r, C') \<or> fsc_rmdir M srv C path = Some (r, C')" and "r \<noteq> - 1"
  shows "borrarCacheDirectorios M path (cl_cache C) = Some (cl_cache C')"
  using assms
  by (elim disjE) (auto simp: fsc_defs split: prod.splits option.splits bind_splits dest!: intercambio_pool)

text \<open>
  After a file or directory was created or removed, the cache of the client answers neither for
  it nor for its parent directory, so the next request about them reaches the server. The cache is
  any store that returns only values put in it, for the keys it admits.
\<close>

lemma fsc_cambio_invalida:
  assumes M: "almacen_clave (memcached_get M) (memcached_set M) (memcached_delete M) rep clave_ok valor_ok"
    and "rep (cl_cache C) m"
    and "fsc_create M srv C path = Some (r, C') \<or> fsc_unlink M srv C path = Some (r, C')
      \<or> fsc_mkdir M srv C path = Some (r, C') \<or> fsc_rmdir M srv C path = Some (r, C')"
    and "r \<noteq> - 1" and "separarPathCliente path = Some dir"
    and "k \<in> {CACHEGETATR, CACHEREADDIR}" and "p \<in> {path, pathDir dir}"
    and "\<forall>t \<in> {CACHEGETATR, CACHEREADDIR}. \<forall>q \<in> {path, pathDir dir}. clave_ok (hasta_nul (cache_armarClave t q))"
  shows "fst (cache_bajar_info M (cl_cache C') k p) = None"
  by (rule borrarCacheDirectorios_rep [OF M assms(2) fsc_cambio_borra [OF assms(3,4)] assms(5-8)])

lemma mem_mapa_almacen:
  "almacen_clave (memcached_get mem_mapa) (memcached_set mem_mapa) (memcached_delete mem_mapa) (=) (\<lambda>_. True) (\<lambda>_. True)"
  by unfold_locales (auto simp: mem_mapa_def)

lemma separar_ej: "separarPathCliente [47, 97] = Some \<lparr>pathDir = [47], nombreArch = [97]\<rparr>"
  by (simp add: separarPathCliente_def hasta_nul_def Let_def ultima_barra_numeral)

lemma fsc_create_ej:
  "\<exists>C'. fsc_create mem_mapa remoto_ej cliente_ej [47, 97] = Some (0, C')"
  by (simp add: fsc_create_def intercambio_def serializar_path_def arma_payload_def serializar_Nipc_def
      lee_def Let_def tam_pedido_def remoto_ej_def cliente_ej_def obtenerSocket_def habilitar_socket_def
      serializar_Result_Rta_def deserializar_Result_Rta_def enc8_def enc16_def enc32_def dec8_def
      dec16_def dec32_def bytes_le_numeral borrarCacheDirectorios_def separar_ej)

lemma fsc_cambio_invalida_ej:
  "\<exists>C'. fsc_create mem_mapa remoto_ej cliente_ej [47, 97] = Some (0, C')
    \<and> fst (cache_bajar_info mem_mapa (cl_cache C') CACHEREADDIR [47]) = None"
proof -
  obtain C' where C': "fsc_create mem_mapa remoto_ej cliente_ej [47, 97] = Some (0, C')"
    using fsc_create_ej by blast
  from fsc_cambio_invalida [OF mem_mapa_almacen refl disjI1 [OF C'] _ separar_ej, of CACHEREADDIR "[47]"] C'
  show ?thesis by auto
qed

text \<open>
  A listing that comes from the cache: the packet that was never made is freed.
\<close>

lemma fsc_readdir_en_cache:
  assumes "cache_bajar_info M (cl_cache C) CACHEREADDIR path = (Some paquete, c)"
  shows "fsc_readdir M srv C path = None"
  using assms by (simp add: fsc_readdir_def Let_def readdir_fin_sin_paquete)

end
