(* ===== verification/Contenido.thy ===== *)
theory Contenido
  imports Entradas Cliente
begin

text \<open>
  The contents of a file, \<^verbatim>\<open>Dir_leerArchivo\<close> and \<^verbatim>\<open>Dir_escribirArchivo\<close> of \<^verbatim>\<open>rfs/Dir.c\<close>, read and written
  through the cache of blocks. A cache agrees with the image when every block it may return has the bytes
  of the image; reads keep the agreement and return the bytes of the file, a write that starts inside a
  block destroys it.
\<close>

section \<open>The bytes of a file\<close>

text \<open>Byte \<open>j\<close> of the file, found through the block pointers of the inode.\<close>

definition byte_de :: "disk \<Rightarrow> Inode \<Rightarrow> u32 \<Rightarrow> nat \<Rightarrow> u8" where
  "byte_de d inodo bs j =
     (case Inode_leerBloque d (word_of_nat (j div unat bs)) inodo bs of None \<Rightarrow> 0
      | Some b \<Rightarrow> dk_byte d (base bs b + j mod unat bs))"

definition bloque_legible :: "disk \<Rightarrow> Inode \<Rightarrow> u32 \<Rightarrow> nat \<Rightarrow> bool" where
  "bloque_legible d inodo bs k \<longleftrightarrow>
     (case Inode_leerBloque d (word_of_nat k) inodo bs of None \<Rightarrow> False | Some b \<Rightarrow> bloque_en d b bs)"

definition coherente :: "disk \<Rightarrow> u32 \<Rightarrow> (u8 list \<Rightarrow> u8 list option) \<Rightarrow> bool" where
  "coherente d bs m \<longleftrightarrow>
     (\<forall>b v. m (cache_armarClaveServer b) = Some v \<longrightarrow> v = bytes_at d (base bs b) (unat bs))"

lemma bloque_bytes:
  assumes "Inode_leerBloque d (word_of_nat k) inodo bs = Some b" "0 < unat bs"
  shows "bytes_at d (base bs b) (unat bs) = map (byte_de d inodo bs) [k * unat bs..<k * unat bs + unat bs]"
proof (rule nth_equalityI)
  fix i
  assume "i < length (bytes_at d (base bs b) (unat bs))"
  then have i: "i < unat bs" by simp
  then have "(k * unat bs + i) div unat bs = k" "(k * unat bs + i) mod unat bs = i" using assms(2) by simp_all
  then show "bytes_at d (base bs b) (unat bs) ! i = map (byte_de d inodo bs) [k * unat bs..<k * unat bs + unat bs] ! i"
    using i assms(1) by (simp add: byte_de_def)
qed simp

lemma coherente_pone:
  "coherente d bs m \<Longrightarrow> coherente d bs (m(cache_armarClaveServer b \<mapsto> bytes_at d (base bs b) (unat bs)))"
  by (auto simp: coherente_def clave_servidor_inj)

section \<open>Reading\<close>

lemma leer_bloques_bien:
  assumes M: "almacen_clave (memcached_get M) (memcached_set M) (memcached_delete M) rep clave_ok valor_ok"
    and k: "\<And>b. clave_ok (cache_armarClaveServer b)" and v: "\<And>v. length v = unat bs \<Longrightarrow> valor_ok v"
    and bs: "0 < unat bs" "unat bs < 65536"
  shows "rep c m \<Longrightarrow> coherente d bs m \<Longrightarrow> \<forall>i. k \<le> i \<and> i < k + n \<longrightarrow> bloque_legible d inodo bs i \<Longrightarrow>
    \<exists>c' m'. leer_bloques M d inodo bs n (word_of_nat k) c
        = Some (map (byte_de d inodo bs) [k * unat bs..<(k + n) * unat bs], c') \<and> rep c' m' \<and> coherente d bs m'"
proof (induction n arbitrary: k c m)
  case 0
  then show ?case by auto
next
  case (Suc n)
  have "bloque_legible d inodo bs k" using Suc.prems(3) by simp
  then obtain b where b: "Inode_leerBloque d (word_of_nat k) inodo bs = Some b" "bloque_en d b bs"
    by (auto simp: bloque_legible_def split: option.splits)
  let ?D = "bytes_at d (base bs b) (unat bs)" and ?key = "cache_armarClaveServer b"
  have rd: "disk_read d (b * bs) (unat bs) = Some ?D"
    using unat_dir_pos [OF b(2), of 0] b(2) by (simp add: disk_read_def bloque_en_def)
  have w: "unat (ucast bs :: u16) = unat bs" using bs(2) by simp
  have s: "(word_of_nat k :: u32) + 1 = word_of_nat (Suc k)" by simp
  have leg: "\<forall>i. Suc k \<le> i \<and> i < Suc k + n \<longrightarrow> bloque_legible d inodo bs i" using Suc.prems(3) by simp
  have up: "?D @ map (byte_de d inodo bs) [Suc k * unat bs..<(Suc k + n) * unat bs]
      = map (byte_de d inodo bs) [k * unat bs..<(k + Suc n) * unat bs]"
  proof -
    have e: "Suc k * unat bs = k * unat bs + unat bs" "(k + Suc n) * unat bs = k * unat bs + unat bs + n * unat bs"
      "(Suc k + n) * unat bs = k * unat bs + unat bs + n * unat bs" by (simp_all add: algebra_simps)
    have "[k * unat bs..<k * unat bs + unat bs + n * unat bs] = [k * unat bs..<k * unat bs + unat bs]
        @ [k * unat bs + unat bs..<k * unat bs + unat bs + n * unat bs]"
      by (rule upt_add_eq_append) simp
    then show ?thesis unfolding e bloque_bytes [OF b(1) bs(1)] by simp
  qed
  obtain r c1 where g: "memcached_get M c ?key = (r, c1)" by (cases "memcached_get M c ?key")
  have r: "rep c1 m" "r = None \<or> r = m ?key" using almacen_clave.get_rep [OF M Suc.prems(1) k g] by auto
  show ?case
  proof (cases r)
    case None
    have "rep (memcached_set M c1 ?key ?D) (m(?key \<mapsto> ?D))"
      by (rule almacen_clave.put_rep [OF M r(1) k v]) simp
    from Suc.IH [OF this coherente_pone [OF Suc.prems(2)] leg] obtain c' m' where
      I: "leer_bloques M d inodo bs n (word_of_nat (Suc k)) (memcached_set M c1 ?key ?D)
        = Some (map (byte_de d inodo bs) [Suc k * unat bs..<(Suc k + n) * unat bs], c')" "rep c' m'" "coherente d bs m'" by blast
    have "leer_bloques M d inodo bs (Suc n) (word_of_nat k) c
        = Some (?D @ map (byte_de d inodo bs) [Suc k * unat bs..<(Suc k + n) * unat bs], c')"
      using b(1) g None rd I(1) w unfolding leer_bloques.simps s
      by (simp add: cache_bajar_infoServer_def cache_subir_infoServer_def del: upt_Suc mult_Suc)
    then show ?thesis using I(2,3) unfolding up by blast
  next
    case (Some x)
    then have x: "x = ?D" using r(2) Suc.prems(2) by (auto simp: coherente_def)
    from Suc.IH [OF r(1) Suc.prems(2) leg] obtain c' m' where
      I: "leer_bloques M d inodo bs n (word_of_nat (Suc k)) c1
        = Some (map (byte_de d inodo bs) [Suc k * unat bs..<(Suc k + n) * unat bs], c')" "rep c' m'" "coherente d bs m'" by blast
    have "leer_bloques M d inodo bs (Suc n) (word_of_nat k) c
        = Some (?D @ map (byte_de d inodo bs) [Suc k * unat bs..<(Suc k + n) * unat bs], c')"
      using b(1) g Some x I(1) unfolding leer_bloques.simps s
      by (simp add: cache_bajar_infoServer_def del: upt_Suc mult_Suc)
    then show ?thesis using I(2,3) unfolding up by blast
  qed
qed

text \<open>The number of blocks that a size takes.\<close>

definition techo :: "nat \<Rightarrow> nat \<Rightarrow> nat" where
  "techo n k = (if n mod k = 0 then n div k else n div k + 1)"

lemma techo_alcanza: "0 < k \<Longrightarrow> n \<le> techo n k * k"
proof (cases "n mod k = 0")
  case False
  assume "0 < k"
  then have "n mod k \<le> k" by (simp add: less_imp_le)
  then have "n \<le> n div k * k + k" using div_mult_mod_eq [of n k] by linarith
  then show ?thesis using False by (simp add: techo_def)
next
  case True
  then have "n div k * k = n" using div_mult_mod_eq [of n k] by linarith
  then show ?thesis using True by (simp add: techo_def)
qed

lemma cant_bloques_techo:
  assumes "0 < unat bs"
  shows "\<exists>w. cant_bloques sz bs = Some w \<and> unat w = techo (unat sz) (unat bs)"
proof -
  have z: "bs \<noteq> 0" using assms by auto
  have m: "unat (sz mod bs) = unat sz mod unat bs" "unat (sz div bs) = unat sz div unat bs" by (simp_all add: unat_mod unat_div)
  have pos: "0 < sz mod bs \<longleftrightarrow> unat sz mod unat bs \<noteq> 0" using m(1) by (simp add: word_less_nat_alt)
  show ?thesis
  proof (cases "0 < sz mod bs")
    case True
    have "unat bs \<noteq> 1" using True pos by auto
    then have "unat sz div unat bs \<le> unat sz div 2" using assms by (intro div_le_mono2) auto
    moreover have "unat sz < 4294967296" by simp
    ultimately have "unat sz div unat bs < 4294967295" by linarith
    then have "unat (sz div bs + 1) = unat sz div unat bs + 1" using m(2) by (subst unat_succ_u32) simp_all
    then show ?thesis using True z pos by (simp add: cant_bloques_def techo_def)
  qed (use z pos m(2) in \<open>simp add: cant_bloques_def techo_def\<close>)
qed

lemma leerArchivo_bien:
  assumes M: "almacen_clave (memcached_get M) (memcached_set M) (memcached_delete M) rep clave_ok valor_ok"
    and k: "\<And>b. clave_ok (cache_armarClaveServer b)" and v: "\<And>v. length v = unat bs \<Longrightarrow> valor_ok v"
    and bs: "0 < unat bs" "unat bs < 65536"
    and c: "rep c m" "coherente d bs m"
    and leg: "\<forall>i. unat off div unat bs \<le> i \<and> i < unat off div unat bs + techo (unat sz) (unat bs) \<longrightarrow> bloque_legible d inodo bs i"
  shows "\<exists>c' m'. rep c' m' \<and> coherente d bs m' \<and> Dir_leerArchivo M c d inodo off sz bs =
    (if unat off mod unat bs + unat sz \<le> techo (unat sz) (unat bs) * unat bs
     then Some (map (byte_de d inodo bs) [unat off..<unat off + unat sz], c') else None)"
proof -
  let ?k = "unat off div unat bs" and ?n = "techo (unat sz) (unat bs)" and ?r = "unat off mod unat bs"
  obtain w where w: "cant_bloques sz bs = Some w" "unat w = ?n" using cant_bloques_techo [OF bs(1)] by blast
  have ow: "off div bs = word_of_nat ?k" "unat (off mod bs) = ?r"
    by (simp_all add: unat_mod flip: unat_div)
  from leer_bloques_bien [OF M k v bs c leg] obtain c' m' where
    I: "leer_bloques M d inodo bs ?n (word_of_nat ?k) c
      = Some (map (byte_de d inodo bs) [?k * unat bs..<(?k + ?n) * unat bs], c')" "rep c' m'" "coherente d bs m'" by blast
  let ?B = "map (byte_de d inodo bs) [?k * unat bs..<(?k + ?n) * unat bs]"
  have l: "length ?B = ?n * unat bs" by (simp add: algebra_simps)
  have E: "Dir_leerArchivo M c d inodo off sz bs =
      (if ?r + unat sz \<le> ?n * unat bs then Some (take (unat sz) (drop ?r ?B), c') else None)"
    using w I(1) l ow(2) unfolding Dir_leerArchivo_def Let_def ow(1) by (simp del: length_map length_upt)
  have "take (unat sz) (drop ?r ?B) = map (byte_de d inodo bs) [unat off..<unat off + unat sz]" if f: "?r + unat sz \<le> ?n * unat bs"
  proof -
    have o: "?k * unat bs + ?r = unat off" by simp
    have "unat off + unat sz \<le> (?k + ?n) * unat bs" using f o unfolding add_mult_distrib by linarith
    then show ?thesis by (simp add: drop_map take_map o)
  qed
  then show ?thesis using E I(2,3) by (intro exI [of _ c'] exI [of _ m']) simp
qed

text \<open>
  C19: reading a file through a cache that agrees with the image returns exactly the bytes of the file, whatever the cache
  has forgotten, and leaves the cache in agreement, provided the read does not reach past the blocks that its
  size alone takes; every read from the start of a block is of that kind. A read that does reach further copies
  bytes that were never read.
\<close>

theorem Dir_leerArchivo_correcto:
  assumes "almacen_clave (memcached_get M) (memcached_set M) (memcached_delete M) rep clave_ok valor_ok"
    and "\<forall>b. clave_ok (cache_armarClaveServer b)" "\<forall>v. length v = unat bs \<longrightarrow> valor_ok v"
    and "0 < unat bs" "unat bs < 65536" "rep c m" "coherente d bs m"
    and "\<forall>i. unat off div unat bs \<le> i \<and> i < unat off div unat bs + techo (unat sz) (unat bs) \<longrightarrow> bloque_legible d inodo bs i"
  shows "(\<exists>c' m'. rep c' m' \<and> coherente d bs m' \<and> Dir_leerArchivo M c d inodo off sz bs =
      (if unat off mod unat bs + unat sz \<le> techo (unat sz) (unat bs) * unat bs
       then Some (map (byte_de d inodo bs) [unat off..<unat off + unat sz], c') else None))
    \<and> (unat off mod unat bs = 0 \<longrightarrow> unat off mod unat bs + unat sz \<le> techo (unat sz) (unat bs) * unat bs)"
  using leerArchivo_bien [OF assms(1) _ _ assms(4-8)] assms(2,3) techo_alcanza [OF assms(4), of "unat sz"] by simp

section \<open>Writing inside a block\<close>

lemma escribir_en_bloque:
  fixes off :: u32 and F :: fs
  defines "r \<equiv> unat off mod unat (block_size (f_sb F))"
  assumes bs: "0 < unat (block_size (f_sb F))" "unat (block_size (f_sb F)) < 65536"
    and b: "Inode_leerBloque (f_ext2fs F) (off div block_size (f_sb F)) inodo (block_size (f_sb F)) = Some b"
      "bloque_en (f_ext2fs F) b (block_size (f_sb F))"
    and lim: "base (block_size (f_sb F)) b + r + unat (block_size (f_sb F)) \<le> dk_len (f_ext2fs F)"
    and sz: "r + unat sz < unat (block_size (f_sb F))" "unat sz \<le> length buf" "off + sz \<le> i_size inodo"
    and d': "d' = put_bytes (f_ext2fs F) (base (block_size (f_sb F)) b + r) (take (unat sz) buf)"
  shows "Dir_escribirArchivo M c F inodo off sz buf =
    Some (int (unat sz), memcached_set M c (cache_armarClaveServer b) (bytes_at d' (base (block_size (f_sb F)) b + r) (unat (block_size (f_sb F)))),
      F\<lparr>f_ext2fs := d'\<rparr>, inodo)"
proof -
  let ?bs = "block_size (f_sb F)"
  have z: "?bs \<noteq> 0" using bs(1) by auto
  have r: "unat (off mod ?bs) = r" by (simp add: r_def unat_mod)
  have rb: "r < unat ?bs" using bs(1) by (simp add: r_def)
  have "unat (?bs - off mod ?bs) = unat ?bs - r" using r rb by (subst unat_sub_u32) simp_all
  then have lt: "sz < ?bs - off mod ?bs" using sz(1) by (simp add: word_less_nat_alt)
  have p: "unat (b * ?bs + off mod ?bs) = base ?bs b + r" using unat_dir_pos [OF b(2), of "off mod ?bs"] r rb by simp
  have p31: "base ?bs b + r < 2 ^ 31" using b(2) rb by (simp add: bloque_en_def)
  have wr: "disk_write (f_ext2fs F) (b * ?bs + off mod ?bs) (take (unat sz) buf) = Some d'"
    using p p31 d' by (simp add: disk_write_def)
  have "dk_len d' = dk_len (f_ext2fs F)" unfolding d' using sz(1,2) lim by simp
  then have rd: "disk_read d' (b * ?bs + off mod ?bs) (unat ?bs) = Some (bytes_at d' (base ?bs b + r) (unat ?bs))"
    using p p31 lim by (simp add: disk_read_def)
  have "unat (ucast ?bs :: u16) = unat ?bs" using bs(2) by simp
  then have "subir_desde M c d' (b * ?bs + off mod ?bs) b ?bs
      = Some (memcached_set M c (cache_armarClaveServer b) (bytes_at d' (base ?bs b + r) (unat ?bs)))"
    using rd by (simp add: subir_desde_def cache_subir_infoServer_def)
  moreover have "\<not> i_size inodo < off + sz" using sz(3) by simp
  ultimately show ?thesis
    using z sz(2) b(1) lt wr unfolding Dir_escribirArchivo_def Let_def by simp
qed

lemma lee_de_cache:
  assumes "memcached_get M c (cache_armarClaveServer b) = (Some v, c')" "length v = unat bs" "0 < unat bs"
    and "Inode_leerBloque d 0 inodo bs = Some b" "0 < unat sz" "unat sz \<le> unat bs"
  shows "Dir_leerArchivo M c d inodo 0 sz bs = Some (take (unat sz) v, c')"
proof -
  obtain w where w: "cant_bloques sz bs = Some w" "unat w = techo (unat sz) (unat bs)" using cant_bloques_techo [OF assms(3)] by blast
  have "techo (unat sz) (unat bs) = 1"
  proof (cases "unat sz = unat bs")
    case False
    then have "unat sz div unat bs = 0" "unat sz mod unat bs = unat sz" using assms(6) by simp_all
    then show ?thesis using assms(5) by (simp add: techo_def)
  qed (use assms(3) in \<open>simp add: techo_def\<close>)
  then show ?thesis
    using w assms by (simp add: Dir_leerArchivo_def cache_bajar_infoServer_def)
qed

text \<open>
  C20: a write that starts inside the first block of a file stores in the cache, as that block, the bytes of the image from
  the position of the write on. When the cache answers, the next read from the start of the file
  returns the bytes at that position instead of those at the start.
\<close>

theorem Dir_escribir_desfasa:
  fixes F inodo
  defines "bs \<equiv> block_size (f_sb F)"
  assumes "\<forall>c k v. \<exists>c'. memcached_get M (memcached_set M c k v) k = (Some v, c')"
    and "0 < unat bs" "unat bs < 65536" "off < bs" "unat off + unat sz < unat bs" "0 < unat sz" "unat sz \<le> length buf"
    and "off + sz \<le> i_size inodo" "bloque_en (f_ext2fs F) (i_block inodo ! 0) bs"
    and "base bs (i_block inodo ! 0) + unat off + unat bs \<le> dk_len (f_ext2fs F)"
  shows "\<exists>c' d' c''. Dir_escribirArchivo M c F inodo off sz buf = Some (int (unat sz), c', F\<lparr>f_ext2fs := d'\<rparr>, inodo)
    \<and> bytes_at d' (base bs (i_block inodo ! 0) + unat off) (unat sz) = take (unat sz) buf
    \<and> Dir_leerArchivo M c' d' inodo 0 sz bs = Some (take (unat sz) buf, c'')"
proof -
  let ?b = "i_block inodo ! 0"
  let ?p = "base bs ?b + unat off"
  define d' where "d' = put_bytes (f_ext2fs F) ?p (take (unat sz) buf)"
  have o: "unat off < unat bs" using assms(5) by (simp add: word_less_nat_alt)
  have q: "off div bs = 0" using assms(5) by (simp add: div_word_less)
  have B: "Inode_leerBloque d 0 inodo bs = Some ?b" for d using leerBloque_directo [of 0 d inodo bs] by simp
  have W: "Dir_escribirArchivo M c F inodo off sz buf = Some (int (unat sz),
      memcached_set M c (cache_armarClaveServer ?b) (bytes_at d' ?p (unat bs)), F\<lparr>f_ext2fs := d'\<rparr>, inodo)"
    using escribir_en_bloque [where F = F and off = off and inodo = inodo and b = ?b and sz = sz and buf = buf and d' = d']
      assms(3,4,6,8-11) o q B d'_def unfolding bs_def by simp
  let ?c = "memcached_set M c (cache_armarClaveServer ?b) (bytes_at d' ?p (unat bs))"
  obtain c'' where g: "memcached_get M ?c (cache_armarClaveServer ?b) = (Some (bytes_at d' ?p (unat bs)), c'')"
    using assms(2) by blast
  have t: "take (unat sz) (bytes_at d' ?p (unat bs)) = bytes_at d' ?p (unat sz)"
    using assms(6) by (simp add: bytes_at_def take_map)
  have e: "bytes_at d' ?p (unat sz) = take (unat sz) buf" unfolding d'_def using assms(8) by simp
  have "Dir_leerArchivo M ?c d' inodo 0 sz bs = Some (take (unat sz) buf, c'')"
    using lee_de_cache [OF g _ assms(3) B assms(7)] assms(6) t e by simp
  then show ?thesis using W e by blast
qed

section \<open>A file for the witnesses\<close>

text \<open>The block of the directory of the examples, seen as the contents of a file.\<close>

lemma archivo_ej:
  "Inode_leerBloque (f_ext2fs fs_dir_ej) 0 inodo_dir_ej 1024 = Some 70" "bloque_en (f_ext2fs fs_dir_ej) 70 1024"
  "bloque_legible (f_ext2fs fs_dir_ej) inodo_dir_ej 1024 0"
  using leerBloque_directo [of 0 "f_ext2fs fs_dir_ej" inodo_dir_ej 1024]
  by (simp_all add: fs_dir_ej_sel bloque_en_def bloque_legible_def)

theorem Dir_leerArchivo_correcto_witness:
  "\<exists>c'. Dir_leerArchivo mem_mapa Map.empty (f_ext2fs fs_dir_ej) inodo_dir_ej 0 12 1024 =
     Some (map (byte_de (f_ext2fs fs_dir_ej) inodo_dir_ej 1024) [0..<12], c')"
proof -
  have "coherente (f_ext2fs fs_dir_ej) 1024 Map.empty" by (simp add: coherente_def)
  moreover have "\<forall>i. unat (0 :: u32) div unat (1024 :: u32) \<le> i
      \<and> i < unat (0 :: u32) div unat (1024 :: u32) + techo (unat (12 :: u32)) (unat (1024 :: u32))
      \<longrightarrow> bloque_legible (f_ext2fs fs_dir_ej) inodo_dir_ej 1024 i"
    using archivo_ej(3) by (simp add: techo_def)
  ultimately show ?thesis
    using Dir_leerArchivo_correcto [OF mem_mapa_almacen, where bs = 1024 and c = Map.empty and m = Map.empty
        and d = "f_ext2fs fs_dir_ej" and off = 0 and sz = 12 and inodo = inodo_dir_ej]
    by (auto simp: techo_def)
qed

theorem Dir_escribir_desfasa_witness:
  "\<exists>c' d' c''. Dir_escribirArchivo mem_mapa Map.empty fs_dir_ej inodo_dir_ej 4 2 [1, 2] = Some (2, c', fs_dir_ej\<lparr>f_ext2fs := d'\<rparr>, inodo_dir_ej)
    \<and> bytes_at d' 71684 2 = [1, 2] \<and> Dir_leerArchivo mem_mapa c' d' inodo_dir_ej 0 2 1024 = Some ([1, 2], c'')"
  using Dir_escribir_desfasa [of mem_mapa fs_dir_ej 4 2 "[1, 2]" inodo_dir_ej Map.empty] archivo_ej(2)
  by (simp add: mem_mapa_def fs_dir_ej_sel ej_sel)

end
