(* ===== verification/Atencion.thy ===== *)
theory Atencion
  imports Servidor Contenido
begin

text \<open>
  What the handlers of \<^verbatim>\<open>rfs/Rfs.c\<close> do besides their change of the image: every path through a handler gives
  back the locks it took, and a read request is answered with the bytes of the file.
\<close>

section \<open>Locks are given back\<close>

text \<open>The nodes of the monitor, with room for \<open>k\<close> more sessions.\<close>

definition nodos_vivos :: "nat \<Rightarrow> t_nodoInodo list \<Rightarrow> bool" where
  "nodos_vivos k l \<longleftrightarrow> (\<forall>x \<in> set l. 0 < unat (cantHilos x) \<and> unat (cantHilos x) + k < 2 ^ 32)"

lemma rwlock_vuelta:
  assumes "rwlock_tomar operacion r = Some r'" "operacion = TIPOREAD \<or> operacion = TIPOWRITE"
  shows "rwlock_soltar r' = r"
  using assms by (cases r) (auto simp: rwlock_tomar_def rwlock_soltar_def TIPOREAD_def TIPOWRITE_def split: if_splits)

lemma entra_sale:
  assumes "operacion = TIPOREAD \<or> operacion = TIPOWRITE" and k: "k < 4294967295"
  shows "Sincro_monitorLock n l operacion = Some l' \<Longrightarrow> nodos_vivos (Suc k) l \<Longrightarrow>
    Sincro_monitorUnlock n l' = l \<and> nodos_vivos k l'"
proof (induction l arbitrary: l')
  case Nil
  then show ?case using assms(1) k by (auto simp: Sincro_monitorLock_def nodos_vivos_def split: bind_splits)
next
  case (Cons x l)
  show ?case
  proof (cases "nroInodo x = n")
    case True
    have c: "0 < unat (cantHilos x)" "unat (cantHilos x) + Suc k < 2 ^ 32" using Cons.prems(2) by (simp_all add: nodos_vivos_def)
    then have u: "unat (cantHilos x + 1) = unat (cantHilos x) + 1" by (subst unat_succ_u32) simp_all
    obtain r where r: "rwlock_tomar operacion (mt_inodo x) = Some r" "l' = x\<lparr>cantHilos := cantHilos x + 1, mt_inodo := r\<rparr> # l"
      using Cons.prems(1) True by (auto simp: Sincro_monitorLock_def split: bind_splits option.splits)
    have "cantHilos x \<noteq> 0" using c(1) by auto
    then show ?thesis
      using True r rwlock_vuelta [OF r(1) assms(1)] c u Cons.prems(2) by (cases x) (auto simp: nodos_vivos_def)
  next
    case False
    obtain l2 where l2: "Sincro_monitorLock n l operacion = Some l2" "l' = x # l2"
      using Cons.prems(1) False by (auto simp: Sincro_monitorLock_def split: bind_splits option.splits)
    have "nodos_vivos (Suc k) l" using Cons.prems(2) by (simp add: nodos_vivos_def)
    from Cons.IH [OF l2(1) this] show ?thesis using False l2(2) Cons.prems(2) by (auto simp: nodos_vivos_def)
  qed
qed

lemma sv_lock_vuelta:
  assumes "sv_lock S n operacion = Some S1" "nodos_vivos (Suc k) (sv_monitor S)" "k < 4294967295"
    and "operacion = TIPOREAD \<or> operacion = TIPOWRITE"
  shows "Sincro_monitorUnlock n (sv_monitor S1) = sv_monitor S" "nodos_vivos k (sv_monitor S1)"
  using entra_sale [OF assms(4,3) _ assms(2), of n] assms(1) by (auto simp: sv_lock_def)

lemma sv_unlock_monitor [simp]: "sv_monitor (sv_unlock S n) = Sincro_monitorUnlock n (sv_monitor S)"
  by (simp add: sv_unlock_def)

lemma sv_frames:
  "sv_escribirInodo S n inodo = Some S' \<Longrightarrow> sv_monitor S' = sv_monitor S"
  "sv_guardar S = Some S' \<Longrightarrow> sv_monitor S' = sv_monitor S"
  by (auto simp: sv_escribirInodo_def sv_guardar_def split: bind_splits)

lemma responder_frame: "responder_creacion S error n respuesta t = Some (S', envio) \<Longrightarrow> sv_monitor S' = sv_monitor S"
  by (auto simp: responder_creacion_def split: bind_splits if_splits dest!: sv_frames)

lemma lock_lee:
  assumes "sv_lock S n TIPOREAD = Some S1" "nodos_vivos 2 (sv_monitor S)"
  shows "Sincro_monitorUnlock n (sv_monitor S1) = sv_monitor S"
  using sv_lock_vuelta(1) [OF assms(1), of 1] assms(2) by (simp add: numeral_2_eq_2)

lemma lock_escribe:
  assumes "sv_lock S n TIPOWRITE = Some S1" "nodos_vivos 2 (sv_monitor S)"
  shows "Sincro_monitorUnlock n (sv_monitor S1) = sv_monitor S" "nodos_vivos 1 (sv_monitor S1)"
  using sv_lock_vuelta [OF assms(1), of 1] assms(2) by (simp_all add: numeral_2_eq_2)

lemma lock_escribe_otro:
  assumes "sv_lock S n TIPOWRITE = Some S1" "nodos_vivos 1 (sv_monitor S)"
  shows "Sincro_monitorUnlock n (sv_monitor S1) = sv_monitor S"
  using sv_lock_vuelta(1) [OF assms(1), of 0] assms(2) by simp

lemmas libera_splits = bind_splits if_splits prod.splits option.splits

lemma readdir_libera: "procesarReaddir S b = Some (S', e) \<Longrightarrow> nodos_vivos 2 (sv_monitor S) \<Longrightarrow> sv_monitor S' = sv_monitor S"
  by (auto simp: procesarReaddir_def Let_def lock_lee split: libera_splits)

lemma getattr_libera: "procesarGetattr A S b = Some (S', e) \<Longrightarrow> nodos_vivos 2 (sv_monitor S) \<Longrightarrow> sv_monitor S' = sv_monitor S"
  by (auto simp: procesarGetattr_def Let_def lock_lee split: libera_splits)

lemma read_libera: "procesarRead A M S b = Some (S', e) \<Longrightarrow> nodos_vivos 2 (sv_monitor S) \<Longrightarrow> sv_monitor S' = sv_monitor S"
  by (auto simp: procesarRead_def Let_def lock_lee split: libera_splits)

lemma open_libera: "procesarOpen S b = Some (S', e) \<Longrightarrow> sv_monitor S' = sv_monitor S"
  by (auto simp: procesarOpen_def split: libera_splits)

lemma truncate_libera: "procesarTruncate A S b = Some (S', e) \<Longrightarrow> nodos_vivos 2 (sv_monitor S) \<Longrightarrow> sv_monitor S' = sv_monitor S"
  by (auto simp: procesarTruncate_def Let_def lock_escribe(1) split: libera_splits dest!: sv_frames)

lemma write_libera: "procesarWrite A M S b = Some (S', e) \<Longrightarrow> nodos_vivos 2 (sv_monitor S) \<Longrightarrow> sv_monitor S' = sv_monitor S"
  by (auto simp: procesarWrite_def Let_def lock_escribe(1) split: libera_splits dest!: sv_frames)

lemma create_libera: "procesarCreate S b = Some (S', e) \<Longrightarrow> nodos_vivos 2 (sv_monitor S) \<Longrightarrow> sv_monitor S' = sv_monitor S"
  by (auto simp: procesarCreate_def Let_def split: libera_splits dest!: sv_frames responder_frame dest: lock_escribe(1))

lemma mkdir_libera: "procesarMkdir S b = Some (S', e) \<Longrightarrow> nodos_vivos 2 (sv_monitor S) \<Longrightarrow> sv_monitor S' = sv_monitor S"
  by (auto simp: procesarMkdir_def Let_def split: libera_splits dest!: sv_frames responder_frame dest: lock_escribe(1))

lemma dos_locks:
  assumes "sv_lock S n TIPOWRITE = Some S1" "sv_lock S1 m TIPOWRITE = Some S2" "nodos_vivos 2 (sv_monitor S)"
  shows "Sincro_monitorUnlock n (Sincro_monitorUnlock m (sv_monitor S2)) = sv_monitor S"
  using lock_escribe [OF assms(1,3)] lock_escribe_otro [OF assms(2)] by simp

lemma unlink_libera: "procesarUnlink S b = Some (S', e) \<Longrightarrow> nodos_vivos 2 (sv_monitor S) \<Longrightarrow> sv_monitor S' = sv_monitor S"
  by (auto simp: procesarUnlink_def Let_def split: libera_splits dest!: sv_frames dest: dos_locks)

lemma rmdir_libera: "procesarRmdir S b = Some (S', e) \<Longrightarrow> nodos_vivos 2 (sv_monitor S) \<Longrightarrow> sv_monitor S' = sv_monitor S"
  by (auto simp: procesarRmdir_def Let_def split: libera_splits dest!: sv_frames dest: dos_locks)

text \<open>
  C13: no request leaves a lock behind. However a handler ends, with an answer or with an error packet, the monitor is as it
  was before the request, whatever the other sessions hold.
\<close>

theorem procesarPedido_libera:
  assumes "procesarPedido A M S cola = Some (S', cola', cliente, envio)" "nodos_vivos 2 (sv_monitor S)"
  shows "sv_monitor S' = sv_monitor S \<and> cola = hd cola # cola'"
proof (cases cola)
  case (Cons ped resto)
  then have "atender A M S ped = Some (S', envio)" "cola' = resto" using assms(1) by (auto split: bind_splits)
  then have "sv_monitor S' = sv_monitor S"
    using assms(2) readdir_libera getattr_libera read_libera open_libera truncate_libera write_libera
      create_libera mkdir_libera unlink_libera rmdir_libera
    unfolding atender_def Let_def by (auto split: if_splits)
  then show ?thesis using Cons \<open>cola' = resto\<close> by simp
qed (use assms(1) in simp)

section \<open>Answers that the client understands\<close>

text \<open>
  The answers to a request of type \<open>t\<close>: the error packet, or one packet of that type and nothing behind it, whose payload the decoder of the client
  for that type accepts.
\<close>

definition respuesta_ok :: "u8 \<Rightarrow> u8 list \<Rightarrow> bool" where
  "respuesta_ok t envio \<longleftrightarrow> envio = serializar_error
     \<or> (\<exists>n pl. recv_Nipc envio = Some (\<lparr>tipo = t, payloadLength = n, payload = pl\<rparr>, []) \<and> length pl = unat n
          \<and> (if t = TIPOGETATTR then deserializar_Gettattr_Rta ilp32_client pl \<noteq> None
             else if t = TIPOREADDIR then deserializar_Readdir_Rta n pl \<noteq> None
             else length pl = 4 \<and> deserializar_Result_Rta pl \<noteq> None \<and> deserializar_Write_Rta pl \<noteq> None))"

lemma error_ok [simp]: "respuesta_ok t procesarError"
  by (simp add: respuesta_ok_def procesarError_def)

text \<open>The packets with a result code; the length sent is that of the packet.\<close>

lemma codigo_ok:
  assumes "serializar_Result_Rta r t = Some pk" "lee pk 0 7 = Some envio" "t \<notin> {TIPOGETATTR, TIPOREADDIR}"
  shows "respuesta_ok t envio"
proof -
  let ?pl = "enc32 (word_of_int r :: u32)"
  have "length pk = 7" "recv_Nipc pk = Some (\<lparr>tipo = t, payloadLength = 4, payload = ?pl\<rparr>, [])"
    using recv_serializar_Nipc [of ?pl 4 t "[]"] assms(1) by (auto simp: serializar_Result_Rta_def)
  then show ?thesis using assms(2,3) by (auto simp: respuesta_ok_def lee_def deserializar_Result_Rta_def deserializar_Write_Rta_def)
qed

lemma codigo_write: "serializar_Write_Rta r = serializar_Result_Rta r TIPOWRITE"
  by (simp add: serializar_Write_Rta_def serializar_Result_Rta_def)

lemma attr_ok:
  assumes "serializar_Gettattr_Rta ilp32_server m k z = Some pk" "lee pk 0 (sizeof_mode_t ilp32_server + sizeof_nlink_t ilp32_server + sizeof_off_t ilp32_server + 3) = Some envio"
  shows "respuesta_ok TIPOGETATTR envio"
proof -
  let ?pl = "bytes_le 4 m @ bytes_le 4 k @ bytes_le 4 z"
  have "length pk = 15" "recv_Nipc pk = Some (\<lparr>tipo = TIPOGETATTR, payloadLength = 12, payload = ?pl\<rparr>, [])"
    using recv_serializar_Nipc [of ?pl 12 TIPOGETATTR "[]"] assms(1)
    by (auto simp: serializar_Gettattr_Rta_def ilp32_server_def arma_payload_def simp del: bytes_le.simps split: if_splits)
  then show ?thesis
    using assms(2) by (auto simp: respuesta_ok_def lee_def deserializar_Gettattr_Rta_def ilp32_server_def ilp32_client_def simp del: bytes_le.simps)
qed

lemma lista_ok:
  assumes "serializar_readdir_Rta l = Some (n, pk)" "lee pk 0 (unat n + 3) = Some envio"
  shows "respuesta_ok TIPOREADDIR envio"
proof -
  obtain partes where p: "arma_payload n partes = Some (concat partes)" "serializar_Nipc \<lparr>tipo = TIPOREADDIR, payloadLength = n, payload = concat partes\<rparr> = Some pk"
    using assms(1) by (auto simp: serializar_readdir_Rta_def arma_payload_def Let_def split: bind_splits if_splits)
  then have l: "length (concat partes) = unat n" by (simp add: arma_payload_def split: if_splits)
  then have "length pk = unat n + 3" "recv_Nipc pk = Some (\<lparr>tipo = TIPOREADDIR, payloadLength = n, payload = concat partes\<rparr>, [])"
    using recv_serializar_Nipc [OF l, of TIPOREADDIR "[]"] p(2) by auto
  then show ?thesis using assms(2) l by (auto simp: respuesta_ok_def lee_def deserializar_Readdir_Rta_def TIPOREADDIR_def TIPOGETATTR_def)
qed

lemmas tipos_def = TIPOGETATTR_def TIPOREADDIR_def TIPOREAD_def TIPOOPEN_def TIPOTRUNCATE_def TIPOWRITE_def TIPOCREATE_def TIPOUNLINK_def
  TIPOMKDIR_def TIPORMDIR_def

lemma responder_ok: "responder_creacion S error n r t = Some (S', envio) \<Longrightarrow> t \<notin> {TIPOGETATTR, TIPOREADDIR} \<Longrightarrow> respuesta_ok t envio"
  by (auto simp: responder_creacion_def intro: codigo_ok split: libera_splits)

lemma readdir_tipada: "procesarReaddir S b = Some (S', e) \<Longrightarrow> respuesta_ok TIPOREADDIR e"
  by (auto simp: procesarReaddir_def Let_def intro: lista_ok split: libera_splits)

lemma getattr_tipada: "procesarGetattr ilp32_server S b = Some (S', e) \<Longrightarrow> respuesta_ok TIPOGETATTR e"
  by (auto simp: procesarGetattr_def Let_def intro: attr_ok split: libera_splits)

lemma open_tipada: "procesarOpen S b = Some (S', e) \<Longrightarrow> respuesta_ok TIPOOPEN e"
  by (auto simp: procesarOpen_def intro!: codigo_ok [where t = TIPOOPEN] split: libera_splits) (simp_all add: tipos_def)

lemma truncate_tipada: "procesarTruncate A S b = Some (S', e) \<Longrightarrow> respuesta_ok TIPOTRUNCATE e"
  by (auto simp: procesarTruncate_def Let_def intro!: codigo_ok [where t = TIPOTRUNCATE] split: libera_splits) (simp_all add: tipos_def)

lemma write_tipada: "procesarWrite A M S b = Some (S', e) \<Longrightarrow> respuesta_ok TIPOWRITE e"
  by (auto simp: procesarWrite_def codigo_write Let_def intro!: codigo_ok [where t = TIPOWRITE] split: libera_splits) (simp_all add: tipos_def)

lemma create_tipada: "procesarCreate S b = Some (S', e) \<Longrightarrow> respuesta_ok TIPOCREATE e"
  by (auto simp: procesarCreate_def Let_def intro!: responder_ok [where t = TIPOCREATE] split: libera_splits) (simp_all add: tipos_def)

lemma mkdir_tipada: "procesarMkdir S b = Some (S', e) \<Longrightarrow> respuesta_ok TIPOMKDIR e"
  by (auto simp: procesarMkdir_def Let_def intro!: responder_ok [where t = TIPOMKDIR] split: libera_splits) (simp_all add: tipos_def)

lemma unlink_tipada: "procesarUnlink S b = Some (S', e) \<Longrightarrow> respuesta_ok TIPOUNLINK e"
  by (auto simp: procesarUnlink_def Let_def intro!: codigo_ok [where t = TIPOUNLINK] split: libera_splits) (simp_all add: tipos_def)

lemma rmdir_tipada: "procesarRmdir S b = Some (S', e) \<Longrightarrow> respuesta_ok TIPORMDIR e"
  by (auto simp: procesarRmdir_def Let_def intro!: codigo_ok [where t = TIPORMDIR] split: libera_splits) (simp_all add: tipos_def)

lemmas tipadas = readdir_tipada getattr_tipada open_tipada truncate_tipada write_tipada create_tipada mkdir_tipada unlink_tipada rmdir_tipada

text \<open>
  C14: what the server sends is typed. Whatever the payload of a request and the state of the image, when a handler other than the one of reads
  answers, the answer is the error packet or exactly one packet, of the type of the request and with the length its header says, that the decoder of the
  client for this type accepts; requests of other types are not answered.
\<close>

theorem atender_tipada:
  assumes "atender ilp32_server M S ped = Some (S', envio)" "p_tipoPaquete ped \<noteq> TIPOREAD"
  shows "if p_tipoPaquete ped \<in> {TIPOGETATTR, TIPOREADDIR, TIPOOPEN, TIPOTRUNCATE, TIPOWRITE, TIPOCREATE, TIPOUNLINK, TIPOMKDIR, TIPORMDIR}
    then respuesta_ok (p_tipoPaquete ped) envio else envio = [] \<and> S' = S"
  using assms tipadas unfolding atender_def Let_def by (auto split: if_splits)

section \<open>A read request\<close>

definition sv_coherente ::
  "('c \<Rightarrow> (u8 list \<Rightarrow> u8 list option) \<Rightarrow> bool) \<Rightarrow> 'c servidor \<Rightarrow> bool" where
  "sv_coherente rep S \<longleftrightarrow> (\<exists>m. rep (sv_cache S) m \<and> coherente (f_ext2fs (sv_fs S)) (sv_bs S) m)"

definition archivo_legible :: "disk \<Rightarrow> u32 \<Rightarrow> Inode \<Rightarrow> bool" where
  "archivo_legible d bs inodo \<longleftrightarrow> (\<forall>i. i < techo (unat (i_size inodo)) (unat bs) \<longrightarrow> bloque_legible d inodo bs i)"

text \<open>The size that the server reads: up to the end of the file.\<close>

lemma unat_recorte:
  assumes "off + sz < 4294967296" "off \<le> unat (i_size inodo)"
  shows "unat (if i_size inodo < word_of_nat off + word_of_nat sz then i_size inodo - word_of_nat off else word_of_nat sz :: u32)
    = min sz (unat (i_size inodo) - off)"
proof -
  have u: "unat (word_of_nat off :: u32) = off" "unat (word_of_nat sz :: u32) = sz"
    using assms(1) by (simp_all add: unat_of_nat_u32)
  have s: "unat (word_of_nat off + word_of_nat sz :: u32) = off + sz" using u assms(1) by (subst unat_add_u32) simp_all
  have d: "unat (i_size inodo - word_of_nat off) = unat (i_size inodo) - off" using u assms(2) by (subst unat_sub_u32) simp_all
  show ?thesis using u s d assms(2) by (auto simp: word_less_nat_alt)
qed

lemma techo_resto:
  assumes "0 < b" "off mod b = 0" "off + k \<le> n"
  shows "off div b + techo k b \<le> techo n b"
proof -
  have "techo m b = (m + (b - 1)) div b" for m
  proof (cases "m mod b = 0")
    case True
    then obtain q where "m = q * b" by (metis dvd_def mod_0_imp_dvd mult.commute)
    moreover have "(q * b + (b - 1)) div b = q + (b - 1) div b" using assms(1) by (intro div_mult_self3) simp
    moreover have "(b - 1) div b = 0" using assms(1) by simp
    ultimately show ?thesis using assms(1) by (simp only: techo_def mod_mult_self2_is_0 div_mult_self_is_m simp_thms if_True add_0_right)
  next
    case False
    have "m + (b - 1) = (m mod b - 1) + (m div b + 1) * b"
      using div_mult_mod_eq [of m b] False assms(1) unfolding add_mult_distrib mult_1_left by arith
    moreover have "m mod b - 1 < b" using mod_less_divisor [OF assms(1), of m] by linarith
    then have "(m mod b - 1 + (m div b + 1) * b) div b = m div b + 1"
      using assms(1) by (subst div_mult_self1) simp_all
    ultimately have "(m + (b - 1)) div b = m div b + 1" by (simp only:)
    then show ?thesis using False by (simp only: techo_def if_False)
  qed
  moreover have "off div b + (k + (b - 1)) div b = (off + (k + (b - 1))) div b"
  proof -
    have "off div b * b = off" using assms(2) div_mult_mod_eq [of off b] by linarith
    moreover have "(off div b * b + (k + (b - 1))) div b = off div b + (k + (b - 1)) div b"
      using assms(1) by (intro div_mult_self3) simp
    ultimately show ?thesis by (simp only:)
  qed
  ultimately show ?thesis using assms(3) by (simp add: div_le_mono)
qed

lemma procesarRead_bien:
  assumes M: "almacen_clave (memcached_get M) (memcached_set M) (memcached_delete M) rep clave_ok valor_ok"
    and k: "\<And>b. clave_ok (cache_armarClaveServer b)" and v: "\<And>v. length v = unat (sv_bs S) \<Longrightarrow> valor_ok v"
    and bs: "0 < unat (sv_bs S)" "unat (sv_bs S) < 65536" and coh: "sv_coherente rep S"
    and D: "deserializar_Read_Pedido A buffer = Some \<lparr>dr_path = path, dr_offset = off, dr_size = sz\<rparr>"
    and n: "sv_buscarPath S path = Some n" "n \<noteq> 0" "sv_lock S n TIPOREAD = Some S1" "sv_leerInodo S n = Some inodo"
    and leg: "archivo_legible (f_ext2fs (sv_fs S)) (sv_bs S) inodo"
    and off: "off mod unat (sv_bs S) = 0" "off \<le> unat (i_size inodo)" "off + sz < 4294967296" "sz < 65536"
  shows "\<exists>S' envio. procesarRead A M S buffer = Some (S', envio) \<and> sv_fs S' = sv_fs S \<and> sv_coherente rep S'
    \<and> recv_Nipc envio = Some (\<lparr>tipo = TIPOREAD, payloadLength = word_of_nat (min sz (unat (i_size inodo) - off)),
        payload = map (byte_de (f_ext2fs (sv_fs S)) inodo (sv_bs S)) [off..<off + min sz (unat (i_size inodo) - off)]\<rparr>, [])"
proof -
  let ?z = "min sz (unat (i_size inodo) - off)" and ?d = "f_ext2fs (sv_fs S)"
  let ?B = "map (byte_de ?d inodo (sv_bs S)) [off..<off + ?z]"
  define w where "w = (if i_size inodo < word_of_nat off + word_of_nat sz then i_size inodo - word_of_nat off else word_of_nat sz :: u32)"
  have w: "unat w = ?z" unfolding w_def by (rule unat_recorte [OF off(3,2)])
  have uo: "unat (word_of_nat off :: u32) = off" using off(3) by (simp add: unat_of_nat_u32)
  have s1: "sv_fs S1 = sv_fs S" "sv_cache S1 = sv_cache S" using n(3) by (auto simp: sv_lock_def)
  obtain m where m: "rep (sv_cache S) m" "coherente ?d (sv_bs S) m" using coh by (auto simp: sv_coherente_def)
  have "off div unat (sv_bs S) + techo ?z (unat (sv_bs S)) \<le> techo (unat (i_size inodo)) (unat (sv_bs S))"
    using off(2) by (intro techo_resto [OF bs(1) off(1)]) simp
  then have "\<forall>i. unat (word_of_nat off :: u32) div unat (sv_bs S) \<le> i
      \<and> i < unat (word_of_nat off :: u32) div unat (sv_bs S) + techo (unat w) (unat (sv_bs S)) \<longrightarrow> bloque_legible ?d inodo (sv_bs S) i"
    using leg unfolding archivo_legible_def w uo by auto
  from leerArchivo_bien [OF M k v bs m this] obtain c' m' where
    c: "rep c' m'" "coherente ?d (sv_bs S) m'" "Dir_leerArchivo M (sv_cache S) ?d inodo (word_of_nat off) w (sv_bs S) =
      (if unat (word_of_nat off :: u32) mod unat (sv_bs S) + unat w \<le> techo (unat w) (unat (sv_bs S)) * unat (sv_bs S)
       then Some (map (byte_de ?d inodo (sv_bs S)) [unat (word_of_nat off :: u32)..<unat (word_of_nat off :: u32) + unat w], c') else None)"
    by blast
  have R: "Dir_leerArchivo M (sv_cache S) ?d inodo (word_of_nat off) w (sv_bs S) = Some (?B, c')"
    using c(3) techo_alcanza [OF bs(1), of "unat w"] off(1) unfolding uo w by simp
  have z: "?z < 65536" using off(4) by simp
  have cw: "ucast w = (word_of_nat ?z :: u16)" "unat (word_of_nat ?z :: u16) = ?z"
    using w z by (simp_all add: word_unat_eq_iff unat_of_nat)
  have lB: "length ?B = unat (word_of_nat ?z :: u16)" using cw(2) by simp
  from recv_serializar_Nipc [OF lB, of TIPOREAD "[]"] obtain pkt where
    P: "serializar_Nipc \<lparr>tipo = TIPOREAD, payloadLength = word_of_nat ?z, payload = ?B\<rparr> = Some pkt" "length pkt = 3 + length ?B"
      "recv_Nipc pkt = Some (\<lparr>tipo = TIPOREAD, payloadLength = word_of_nat ?z, payload = ?B\<rparr>, [])" by auto
  have "lee ?B 0 (unat (word_of_nat ?z :: u16)) = Some ?B" unfolding lB [symmetric] by (rule lee_all)
  then have sr: "serializar_Read_Rta (ucast w) ?B = Some pkt" unfolding serializar_Read_Rta_def cw(1) using P(1) by simp
  have "unat (w + 3) = length pkt" using w z P(2) by (subst unat_add_u32) simp_all
  then have le: "lee pkt 0 (unat (w + 3)) = Some pkt" by simp
  have "procesarRead A M S buffer = Some (sv_unlock (S1\<lparr>sv_cache := c'\<rparr>) n, pkt)"
    using D n R sr le unfolding procesarRead_def Let_def
    by (cases "i_size inodo < word_of_nat off + word_of_nat sz") (simp_all add: s1 w_def)
  moreover have "sv_coherente rep (sv_unlock (S1\<lparr>sv_cache := c'\<rparr>) n)"
    unfolding sv_coherente_def sv_unlock_def using c(1,2) s1 by auto
  ultimately show ?thesis using P(3) s1 by (intro exI conjI) (auto simp: sv_unlock_def)
qed

section \<open>The server as the remote end of the client\<close>

text \<open>
  What arrives on the socket is received as a packet, becomes a request and is attended; the answer goes
  back on the same socket.
\<close>

definition servir :: "abi \<Rightarrow> 'c memcached \<Rightarrow> 'c servidor remoto" where
  "servir A M S envio =
     do { (paquete, _) \<leftarrow> recv_Nipc envio;
          ped \<leftarrow> crearPedido 0 (payload paquete) (tipo paquete) (payloadLength paquete);
          atender A M S ped }"

lemma recv_Nipc_partes:
  assumes "recv_Nipc rta = Some (\<lparr>tipo = t, payloadLength = n, payload = p\<rparr>, resto)"
  shows "\<exists>h. lee rta 0 3 = Some h \<and> dec8 (take 1 h) = t \<and> dec16 (drop 1 h) = n \<and> lee rta 3 (unat n) = Some p"
  using assms by (auto simp: recv_Nipc_def Let_def split: bind_splits)

lemma intercambio_bien:
  assumes "cl_pool C = s # ss" "unat largo_paq = length paquete" "srv (cl_remoto C) paquete = Some (r, rta)"
    and "recv_Nipc rta = Some (\<lparr>tipo = t, payloadLength = n, payload = p\<rparr>, resto)"
  shows "intercambio srv C paquete largo_paq t = Some (Some (n, p), C\<lparr>cl_pool := ss @ [s], cl_remoto := r\<rparr>)"
proof -
  obtain h where h: "lee rta 0 3 = Some h" "dec8 (take 1 h) = t" "dec16 (drop 1 h) = n" "lee rta 3 (unat n) = Some p"
    using recv_Nipc_partes [OF assms(4)] by blast
  have "lee paquete 0 (unat largo_paq) = Some paquete" unfolding assms(2) by (rule lee_all)
  then show ?thesis
    using h assms(1,3) by (simp add: intercambio_def obtenerSocket_def habilitar_socket_def Let_def)
qed

lemma crearPedido_transmite:
  assumes "transmite pkt t p" "length p < 65536"
  obtains bs where "pkt = Some bs" "length bs = 3 + length p"
    "recv_Nipc bs = Some (\<lparr>tipo = t, payloadLength = word_of_nat (length p), payload = p\<rparr>, [])"
    "crearPedido 0 p t (word_of_nat (length p)) = Some \<lparr>p_client = 0, p_buffer = p, p_tipoPaquete = t, p_payloadLength = word_of_nat (length p)\<rparr>"
proof -
  obtain bs where bs: "pkt = Some bs" "length bs = 3 + length p"
    "\<forall>rest. recv_Nipc (bs @ rest) = Some (\<lparr>tipo = t, payloadLength = word_of_nat (length p), payload = p\<rparr>, rest)"
    using assms(1) by (auto simp: transmite_def)
  have r: "recv_Nipc bs = Some (\<lparr>tipo = t, payloadLength = word_of_nat (length p), payload = p\<rparr>, [])"
    using bs(3) [rule_format, of "[]"] by simp
  have "unat (word_of_nat (length p) :: u16) = length p" using assms(2) by (simp add: unat_of_nat)
  then show thesis using that [OF bs(1,2) r] by (simp add: crearPedido_def)
qed

lemma lectura_cliente:
  fixes C :: "('a, 'c servidor) cliente"
  defines "S \<equiv> cl_remoto C"
  assumes M: "almacen_clave (memcached_get M) (memcached_set M) (memcached_delete M) rep clave_ok valor_ok"
    and "\<forall>b. clave_ok (cache_armarClaveServer b)" "\<forall>v. length v = unat (sv_bs S) \<longrightarrow> valor_ok v"
    and bs: "0 < unat (sv_bs S)" "unat (sv_bs S) < 65536" and coh: "sv_coherente rep S"
    and path: "0 \<notin> set path" "length path < 60000" and pool: "cl_pool C = s # ss"
    and n: "sv_buscarPath S path = Some n" "n \<noteq> 0" "sv_lock S n TIPOREAD = Some S1" "sv_leerInodo S n = Some inodo"
    and leg: "archivo_legible (f_ext2fs (sv_fs S)) (sv_bs S) inodo"
    and off: "off mod unat (sv_bs S) = 0" "off \<le> unat (i_size inodo)" "off + sz < 4294967296" "sz < 65536"
  shows "\<exists>C'. fsc_read ilp32_client (servir ilp32_server M) C path sz off =
      Some (int (min sz (unat (i_size inodo) - off)),
        map (byte_de (f_ext2fs (sv_fs S)) inodo (sv_bs S)) [off..<off + min sz (unat (i_size inodo) - off)], C')
    \<and> sv_fs (cl_remoto C') = sv_fs S \<and> sv_coherente rep (cl_remoto C') \<and> cl_pool C' = ss @ [s]"
proof -
  let ?z = "min sz (unat (i_size inodo) - off)"
  let ?p = "path @ [0] @ bytes_le 4 off @ bytes_le 4 sz"
  let ?B = "map (byte_de (f_ext2fs (sv_fs S)) inodo (sv_bs S)) [off..<off + ?z]"
  have a: "sizeof_size_t ilp32_client = 4" "sizeof_size_t ilp32_server = 4" "sizeof_off_t ilp32_server = 4"
    by (simp_all add: ilp32_client_def ilp32_server_def)
  have tr: "transmite (serializar_Read_Pedido ilp32_client path off sz) TIPOREAD ?p"
    using transmite_Read_Pedido [of path ilp32_client off sz] path(2) unfolding a by simp
  have lp: "length ?p = length path + 9" by simp
  have l6: "length ?p < 65536" unfolding lp using path(2) by linarith
  obtain pk where pk: "serializar_Read_Pedido ilp32_client path off sz = Some pk" "length pk = 3 + length ?p"
    "recv_Nipc pk = Some (\<lparr>tipo = TIPOREAD, payloadLength = word_of_nat (length ?p), payload = ?p\<rparr>, [])"
    "crearPedido 0 ?p TIPOREAD (word_of_nat (length ?p)) =
       Some \<lparr>p_client = 0, p_buffer = ?p, p_tipoPaquete = TIPOREAD, p_payloadLength = word_of_nat (length ?p)\<rparr>"
    by (rule crearPedido_transmite [OF tr l6])
  have D: "deserializar_Read_Pedido ilp32_server ?p = Some \<lparr>dr_path = path, dr_offset = off, dr_size = sz\<rparr>"
    using deserializar_Read_layout [OF path(1), of "bytes_le 4 off" ilp32_server "bytes_le 4 sz" "[]"] off(3) a
    by (simp add: val_bytes_le del: bytes_le.simps)
  obtain S' envio where R: "procesarRead ilp32_server M S ?p = Some (S', envio)" "sv_fs S' = sv_fs S" "sv_coherente rep S'"
      "recv_Nipc envio = Some (\<lparr>tipo = TIPOREAD, payloadLength = word_of_nat ?z, payload = ?B\<rparr>, [])"
    using procesarRead_bien [OF M _ _ bs coh D n leg off] assms(3,4) by blast
  have srv: "servir ilp32_server M (cl_remoto C) pk = Some (S', envio)"
    unfolding servir_def pk(3) using pk(4) R(1)
    by (simp add: atender_def Let_def S_def TIPOGETATTR_def TIPOREADDIR_def TIPOREAD_def)
  have "unat (tam_pedido path (4 + sizeof_size_t ilp32_client)) = length pk"
    unfolding tam_pedido_def a by (subst unat_word16) (use path(2) pk(2) lp in simp_all)
  from intercambio_bien [where srv = "servir ilp32_server M", OF pool this srv R(4)]
  have I: "intercambio (servir ilp32_server M) C pk (tam_pedido path (4 + sizeof_size_t ilp32_client)) TIPOREAD
      = Some (Some (word_of_nat ?z, ?B), C\<lparr>cl_pool := ss @ [s], cl_remoto := S'\<rparr>)" .
  have z: "unat (word_of_nat ?z :: u16) = ?z" using off(4) by (simp add: unat_of_nat)
  have lB: "lee ?B 0 (unat (word_of_nat ?z :: u16)) = Some ?B" unfolding z by (simp add: lee_def)
  have "fsc_read ilp32_client (servir ilp32_server M) C path sz off = Some (int ?z, ?B, C\<lparr>cl_pool := ss @ [s], cl_remoto := S'\<rparr>)"
  proof (cases "(word_of_nat ?z :: u16) = 0")
    case True
    then have "?z = 0" using z by simp
    then show ?thesis using pk(1) I off(4) True unfolding fsc_read_def by simp
  next
    case False
    then show ?thesis
      using pk(1) I off(4) lB z unfolding fsc_read_def by (simp add: deserializar_Read_Rta_def)
  qed
  then show ?thesis using R(2,3) by (intro exI conjI) auto
qed

text \<open>
  C2: reading end to end. A read of at most 65535 bytes that the client makes from the start of a block returns the bytes of the
  file from that position up to the end of the file, whatever the cache of the server has forgotten; the image
  does not change, the cache of the server stays in agreement with it, and the socket goes back to the pool.
\<close>

theorem lectura_remota:
  fixes C :: "('a, 'c servidor) cliente"
  defines "S \<equiv> cl_remoto C"
  assumes M: "almacen_clave (memcached_get M) (memcached_set M) (memcached_delete M) rep clave_ok valor_ok"
    and "\<forall>b. clave_ok (cache_armarClaveServer b)" "\<forall>v. length v = unat (sv_bs S) \<longrightarrow> valor_ok v"
    and bs: "0 < unat (sv_bs S)" "unat (sv_bs S) < 65536" and coh: "sv_coherente rep S"
    and path: "0 \<notin> set path" "length path < 60000" and pool: "cl_pool C = s # ss"
    and n: "sv_buscarPath S path = Some n" "n \<noteq> 0" "sv_lock S n TIPOREAD = Some S1" "sv_leerInodo S n = Some inodo"
    and leg: "archivo_legible (f_ext2fs (sv_fs S)) (sv_bs S) inodo"
    and off: "off mod unat (sv_bs S) = 0" "off \<le> unat (i_size inodo)" "off + sz < 4294967296" "sz < 65536"
  shows "\<exists>C'. fsc_read ilp32_client (servir ilp32_server M) C path sz off =
      Some (int (min sz (unat (i_size inodo) - off)),
        map (byte_de (f_ext2fs (sv_fs S)) inodo (sv_bs S)) [off..<off + min sz (unat (i_size inodo) - off)], C')
    \<and> sv_fs (cl_remoto C') = sv_fs S \<and> sv_coherente rep (cl_remoto C') \<and> cl_pool C' = ss @ [s]"
  unfolding S_def by (rule lectura_cliente [OF assms(2-) [unfolded S_def]])

section \<open>A server for the witnesses\<close>

definition servidor_ej :: "(u8 list \<Rightarrow> u8 list option) servidor" where
  "servidor_ej = \<lparr>sv_fs = fs_dir_ej, sv_cache = Map.empty, sv_monitor = []\<rparr>"

lemma servidor_ej_sel: "sv_fs servidor_ej = fs_dir_ej" "sv_cache servidor_ej = Map.empty" "sv_monitor servidor_ej = []"
  "sv_bs servidor_ej = 1024"
  by (simp_all add: servidor_ej_def fs_dir_ej_sel ej_sel)

lemma raiz_ej:
  "sv_buscarPath servidor_ej [47] = Some 2" "sv_leerInodo servidor_ej 2 = Some inodo_dir_ej"
  "\<exists>S1. sv_lock servidor_ej 2 TIPOREAD = Some S1" "archivo_legible (f_ext2fs fs_dir_ej) 1024 inodo_dir_ej"
  using leer_dir_ej archivo_ej(3)
  by (simp_all add: servidor_ej_sel fs_dir_ej_sel ej_sel Dir_buscarPath_def strtok_todos_def hasta_nul_def INODO_RAIZ_def
      sv_lock_def Sincro_monitorLock_def rwlock_tomar_def rwlock_init_def archivo_legible_def techo_def)

theorem procesarPedido_libera_witness:
  "\<exists>S'. procesarPedido ilp32_server mem_mapa servidor_ej
       [\<lparr>p_client = 3, p_buffer = [47], p_tipoPaquete = TIPOOPEN, p_payloadLength = 1\<rparr>] = Some (S', [], 3, [3, 4, 0, 0, 0, 0, 0])
    \<and> sv_monitor S' = []"
proof -
  let ?q = "[\<lparr>p_client = 3, p_buffer = [47], p_tipoPaquete = TIPOOPEN, p_payloadLength = 1\<rparr>]"
  have "procesarPedido ilp32_server mem_mapa servidor_ej ?q = Some (servidor_ej, [], 3, [3, 4, 0, 0, 0, 0, 0])"
    using raiz_ej(1)
    by (simp add: atender_def Let_def procesarOpen_def serializar_Result_Rta_def serializar_Nipc_def lee_def
        TIPOGETATTR_def TIPOREADDIR_def TIPOREAD_def TIPOOPEN_def enc8_def enc16_def enc32_def bytes_le_numeral)
  moreover from procesarPedido_libera [OF this] have "sv_monitor servidor_ej = []"
    by (simp add: servidor_ej_sel nodos_vivos_def)
  ultimately show ?thesis by blast
qed

theorem atender_tipada_witness:
  "atender ilp32_server mem_mapa servidor_ej \<lparr>p_client = 3, p_buffer = [47], p_tipoPaquete = TIPOOPEN, p_payloadLength = 1\<rparr> = Some (servidor_ej, [3, 4, 0, 0, 0, 0, 0])
    \<and> respuesta_ok TIPOOPEN [3, 4, 0, 0, 0, 0, 0]"
proof -
  have a: "atender ilp32_server mem_mapa servidor_ej \<lparr>p_client = 3, p_buffer = [47], p_tipoPaquete = TIPOOPEN, p_payloadLength = 1\<rparr> = Some (servidor_ej, [3, 4, 0, 0, 0, 0, 0])"
    using raiz_ej(1)
    by (simp add: atender_def Let_def procesarOpen_def serializar_Result_Rta_def serializar_Nipc_def lee_def tipos_def enc8_def enc16_def enc32_def bytes_le_numeral)
  then show ?thesis using atender_tipada [OF a] by (simp add: tipos_def)
qed

theorem lectura_remota_witness:
  "\<exists>C'. fsc_read ilp32_client (servir ilp32_server mem_mapa) \<lparr>cl_cache = (), cl_pool = [5, 6], cl_remoto = servidor_ej\<rparr> [47] 12 0
    = Some (12, map (byte_de (f_ext2fs fs_dir_ej) inodo_dir_ej 1024) [0..<12], C') \<and> cl_pool C' = [6, 5]"
proof -
  let ?C = "\<lparr>cl_cache = (), cl_pool = [5, 6 :: int], cl_remoto = servidor_ej\<rparr>"
  obtain S1 where S1: "sv_lock servidor_ej 2 TIPOREAD = Some S1" using raiz_ej(3) by blast
  have "sv_coherente (=) servidor_ej" by (auto simp: sv_coherente_def coherente_def servidor_ej_sel)
  then show ?thesis
    using lectura_remota [OF mem_mapa_almacen, where C = ?C and s = 5 and ss = "[6]" and path = "[47]" and n = 2
        and ?S1.0 = S1 and inodo = inodo_dir_ej and off = 0 and sz = 12]
      raiz_ej S1 by (auto simp: servidor_ej_sel fs_dir_ej_sel ej_sel)
qed

end
