(* ===== verification/Tabla.thy ===== *)
theory Tabla
  imports Disco
begin

text \<open>
  The table of partitions of the cache engine: \<^verbatim>\<open>rc/src/collections/miDiccionario.c\<close> and
  \<^verbatim>\<open>rc/src/collections/algoritmo_reemplazo.c\<close>.

  \<^item> The array of partitions is the list \<open>elements\<close>. An index outside it is \<open>None\<close>, with one
    exception: \<^verbatim>\<open>buddy.c\<close> reads \<^verbatim>\<open>elements[-1]\<close>, and what lies in front of the array is the
    field \<open>previo\<close>.
  \<^item> The pointer \<^verbatim>\<open>item.key\<close> of an element never changes: element \<open>i\<close> owns the 60 bytes from
    \<open>60 * i\<close> on of the area \<open>claves\<close> (the initialisation advances by 60 in a block of 61 bytes for
    each element), so the model keeps the area and not the pointers. A longer key reaches
    into the slot of its neighbour; past the end of the area the access is \<open>None\<close>.
  \<^item> The pointer \<^verbatim>\<open>item.data\<close> is an offset into the area \<open>datos\<close>.
  \<^item> The fields of type \<^verbatim>\<open>int\<close> and \<^verbatim>\<open>size_t\<close> are integers: all of them are bounded by the size of the
    cache, which \<^verbatim>\<open>cache_initialize\<close> keeps in an \<^verbatim>\<open>int\<close>.
  \<^item> \<^verbatim>\<open>clock_gettime\<close> is the parameter \<open>reloj\<close>: its \<open>n\<close>-th reading is \<open>reloj n\<close>, and \<open>lecturas\<close>
    counts the readings made.
\<close>

section \<open>The table\<close>

record t_cache_item =
  nkey :: nat
  data :: int
  ndata :: int
  flags :: int
  stored :: bool
  exptime :: int

record t_array =
  item :: t_cache_item
  ocupado :: bool
  bytes_disponibles :: int
  bytes_inutilizados :: int
  ultimaVezUsada :: nat

record t_table_info =
  elements :: "t_array list"
  table_max_size :: nat
  elements_amount :: int
  espacio_libre :: int
  size_chunk :: int
  claves :: disk
  datos :: disk
  previo :: t_array
  lecturas :: nat

definition elem :: "t_table_info \<Rightarrow> nat \<Rightarrow> t_array option" where
  "elem self i = (if i < length (elements self) then Some (elements self ! i) else None)"

definition con_elem :: "t_table_info \<Rightarrow> nat \<Rightarrow> t_array \<Rightarrow> t_table_info" where
  "con_elem self i e = self\<lparr>elements := (elements self)[i := e]\<rparr>"

definition mem_read :: "disk \<Rightarrow> int \<Rightarrow> nat \<Rightarrow> u8 list option" where
  "mem_read a p n = (if 0 \<le> p \<and> p + int n \<le> int (dk_len a) then Some (bytes_at a (nat p) n) else None)"

definition mem_write :: "disk \<Rightarrow> int \<Rightarrow> u8 list \<Rightarrow> disk option" where
  "mem_write a p bs =
     (if 0 \<le> p \<and> p + int (length bs) \<le> int (dk_len a) then Some (put_bytes a (nat p) bs) else None)"

definition TAM_CLAVE :: nat where "TAM_CLAVE = 60"

definition leer_clave :: "t_table_info \<Rightarrow> nat \<Rightarrow> nat \<Rightarrow> u8 list option" where
  "leer_clave self i n = mem_read (claves self) (int (TAM_CLAVE * i)) n"

definition poner_clave :: "t_table_info \<Rightarrow> nat \<Rightarrow> u8 list \<Rightarrow> t_table_info option" where
  "poner_clave self i k =
     do { a \<leftarrow> mem_write (claves self) (int (TAM_CLAVE * i)) k; Some (self\<lparr>claves := a\<rparr>) }"

text \<open>\<^verbatim>\<open>memcpy\<close> between the keys of two elements; it is undefined on areas that overlap.\<close>

definition copiar_clave :: "t_table_info \<Rightarrow> nat \<Rightarrow> nat \<Rightarrow> nat \<Rightarrow> t_table_info option" where
  "copiar_clave self destino origen n =
     (if n \<le> TAM_CLAVE * (if destino \<le> origen then origen - destino else destino - origen)
      then do { k \<leftarrow> leer_clave self origen n; poner_clave self destino k }
      else None)"

section \<open>Time stamps\<close>

definition clock_gettime :: "(nat \<Rightarrow> nat) \<Rightarrow> t_table_info \<Rightarrow> nat \<times> t_table_info" where
  "clock_gettime reloj self = (reloj (lecturas self), self\<lparr>lecturas := Suc (lecturas self)\<rparr>)"

definition lru_get :: "(nat \<Rightarrow> nat) \<Rightarrow> t_table_info \<Rightarrow> nat \<Rightarrow> t_table_info option" where
  "lru_get reloj self pos =
     (let (tiempoActual, self) = clock_gettime reloj self in
      do { e \<leftarrow> elem self pos; Some (con_elem self pos (e\<lparr>ultimaVezUsada := tiempoActual\<rparr>)) })"

section \<open>Search and removal\<close>

primrec search_loop :: "t_table_info \<Rightarrow> u8 list \<Rightarrow> nat list \<Rightarrow> int option" where
  "search_loop self key [] = Some (- 1)"
| "search_loop self key (i # is) =
     do { e \<leftarrow> elem self i;
          if ocupado e \<and> stored (item e) \<and> nkey (item e) = length key then
            do { k \<leftarrow> leer_clave self i (length key);
                 if k = key then Some (int i) else search_loop self key is }
          else search_loop self key is }"

definition micache_search_element :: "t_table_info \<Rightarrow> u8 list \<Rightarrow> int option" where
  "micache_search_element self key = search_loop self key [0..<table_max_size self]"

text \<open>The loop of the removal does not stop at a match: the last one counts.\<close>

primrec remove_loop :: "t_table_info \<Rightarrow> u8 list \<Rightarrow> nat list \<Rightarrow> nat option \<Rightarrow> nat option option" where
  "remove_loop self key [] pos = Some pos"
| "remove_loop self key (i # is) pos =
     do { e \<leftarrow> elem self i;
          if ocupado e \<and> nkey (item e) = length key then
            do { k \<leftarrow> leer_clave self i (length key);
                 remove_loop self key is (if k = key then Some i else pos) }
          else remove_loop self key is pos }"

text \<open>When no element matches, the index that is used afterwards was never assigned.\<close>

definition micache_remove_element :: "t_table_info \<Rightarrow> u8 list \<Rightarrow> (int \<times> t_table_info) option" where
  "micache_remove_element self key =
     do { r \<leftarrow> remove_loop self key [0..<table_max_size self] None;
          pos \<leftarrow> r;
          e \<leftarrow> elem self pos;
          let disponibles = (if ndata (item e) < size_chunk self then size_chunk self
                             else ndata (item e) + bytes_inutilizados e);
          Some (data (item e),
            (con_elem self pos
              (e\<lparr>item := (item e)\<lparr>stored := False, ndata := 0\<rparr>, ocupado := False, ultimaVezUsada := 0,
                 bytes_disponibles := disponibles, bytes_inutilizados := 0\<rparr>))
            \<lparr>espacio_libre := espacio_libre self + disponibles\<rparr>) }"

text \<open>The returned pointer lies in the data area and is never null.\<close>

definition micache_remove :: "t_table_info \<Rightarrow> u8 list \<Rightarrow> t_table_info option" where
  "micache_remove self key =
     do { (_, self) \<leftarrow> micache_remove_element self key;
          Some (self\<lparr>elements_amount := elements_amount self - 1\<rparr>) }"

section \<open>Replacement\<close>

text \<open>The oldest stored element, the first one among equals; \<open>None\<close> inside when there is none.\<close>

primrec lru_loop :: "t_table_info \<Rightarrow> nat list \<Rightarrow> nat \<Rightarrow> nat option \<Rightarrow> nat option option" where
  "lru_loop self [] min_time victim = Some victim"
| "lru_loop self (i # is) min_time victim =
     do { e \<leftarrow> elem self i;
          if ocupado e \<and> stored (item e) \<and> ultimaVezUsada e < min_time
          then lru_loop self is (ultimaVezUsada e) (Some i)
          else lru_loop self is min_time victim }"

text \<open>Without a victim the key that is removed was never assigned.\<close>

definition lru :: "(nat \<Rightarrow> nat) \<Rightarrow> t_table_info \<Rightarrow> (u8 list \<times> t_table_info) option" where
  "lru reloj self =
     (let (tiempoActual, self) = clock_gettime reloj self in
      do { v \<leftarrow> lru_loop self [0..<table_max_size self] tiempoActual None;
           pos \<leftarrow> v;
           e \<leftarrow> elem self pos;
           k \<leftarrow> leer_clave self pos (nkey (item e));
           self \<leftarrow> micache_remove self k;
           Some (k, self) })"

text \<open>
  Both allocators copy the victim's key into \<^verbatim>\<open>char bufftemp[100]\<close>, with a terminator, to log it.
\<close>

definition desalojar :: "(nat \<Rightarrow> nat) \<Rightarrow> t_table_info \<Rightarrow> t_table_info option" where
  "desalojar reloj self =
     do { (k, self) \<leftarrow> lru reloj self; if length k < 100 then Some self else None }"

section \<open>Moving an element\<close>

text \<open>
  The body shared by \<^verbatim>\<open>juntarParticionesVacias\<close>, \<^verbatim>\<open>desplazarUnoArriba\<close> and \<^verbatim>\<open>desplazarUnoAbajo\<close>: the
  state and the extent of a partition always move, the item only when the partition is occupied.
\<close>

definition mover_particion :: "t_array \<Rightarrow> t_array \<Rightarrow> t_array" where
  "mover_particion s d =
     (let d = d\<lparr>ocupado := ocupado s, bytes_inutilizados := bytes_inutilizados s,
                bytes_disponibles := bytes_disponibles s, item := (item d)\<lparr>data := data (item s)\<rparr>\<rparr>
      in if ocupado s
         then d\<lparr>ultimaVezUsada := ultimaVezUsada s,
                item := (item d)\<lparr>exptime := exptime (item s), flags := flags (item s),
                  nkey := nkey (item s), stored := stored (item s), ndata := ndata (item s)\<rparr>\<rparr>
         else d)"

definition mover_elem :: "t_table_info \<Rightarrow> nat \<Rightarrow> nat \<Rightarrow> t_table_info option" where
  "mover_elem self topos dsdpos =
     do { s \<leftarrow> elem self dsdpos;
          d \<leftarrow> elem self topos;
          let self = con_elem self topos (mover_particion s d);
          if ocupado s then copiar_clave self topos dsdpos (nkey (item s)) else Some self }"

section \<open>Emptying the cache\<close>

primrec clean_loop :: "t_table_info \<Rightarrow> nat list \<Rightarrow> int \<Rightarrow> (int \<times> t_table_info) option" where
  "clean_loop self [] espacioLibre = Some (espacioLibre, self)"
| "clean_loop self (i # is) espacioLibre =
     do { e \<leftarrow> elem self i;
          let vacia = e\<lparr>bytes_disponibles := 0, bytes_inutilizados := 0\<rparr>;
          if ocupado e then
            clean_loop (con_elem self i (vacia\<lparr>ocupado := False, ultimaVezUsada := 0,
                                               item := (item e)\<lparr>ndata := 0\<rparr>\<rparr>)) is
              (espacioLibre + (if size_chunk self \<le> ndata (item e)
                               then ndata (item e) + bytes_inutilizados e else size_chunk self))
          else
            clean_loop (con_elem self i vacia) is
              (espacioLibre + bytes_disponibles e + bytes_inutilizados e) }"

definition micache_clean :: "t_table_info \<Rightarrow> t_table_info option" where
  "micache_clean self =
     do { (espacioLibre, self) \<leftarrow> clean_loop self [0..<table_max_size self] 0;
          e \<leftarrow> elem self 0;
          Some ((con_elem self 0 (e\<lparr>bytes_disponibles := espacioLibre, bytes_inutilizados := 0\<rparr>))
            \<lparr>espacio_libre := espacioLibre, elements_amount := 0\<rparr>) }"

section \<open>The table as a row of cells\<close>

text \<open>
  What a place of the array holds: nothing, a hole with its start and extent, or an item with its
  start, its length, the bytes lost behind it, its key, whether it is stored and its time stamp.
\<close>

datatype celda =
    Nada
  | Hueco (inicio: int) (extension: int)
  | Ocup (inicio: int) (largo: int) (perdidos: int) (clave: "u8 list") (guardada: bool) (sello: nat)

fun tam_celda :: "celda \<Rightarrow> int" where
  "tam_celda Nada = 0"
| "tam_celda (Hueco d s) = s"
| "tam_celda (Ocup d n u k st t) = n + u"

fun es_ocup :: "celda \<Rightarrow> bool" where
  "es_ocup (Ocup d n u k st t) = True"
| "es_ocup _ = False"

definition celda_de :: "t_array \<Rightarrow> u8 list \<Rightarrow> celda" where
  "celda_de e k =
     (if ocupado e
      then Ocup (data (item e)) (ndata (item e)) (bytes_inutilizados e) k (stored (item e)) (ultimaVezUsada e)
      else if bytes_disponibles e = 0 then Nada
      else Hueco (data (item e)) (bytes_disponibles e))"

definition celda :: "t_table_info \<Rightarrow> nat \<Rightarrow> celda" where
  "celda T i = celda_de (elements T ! i)
     (bytes_at (claves T) (TAM_CLAVE * i) (nkey (item (elements T ! i))))"

definition celdas :: "t_table_info \<Rightarrow> celda list" where
  "celdas T = map (celda T) [0..<table_max_size T]"

text \<open>The areas have the sizes of the initialisation and no key reaches into the next slot.\<close>

definition tabla_bien :: "t_table_info \<Rightarrow> bool" where
  "tabla_bien T \<longleftrightarrow> length (elements T) = table_max_size T \<and> dk_len (claves T) = 61 * table_max_size T
     \<and> (\<forall>i < table_max_size T. ocupado (elements T ! i) \<longrightarrow> nkey (item (elements T ! i)) \<le> TAM_CLAVE)"

text \<open>An operation that touches the elements and their keys only.\<close>

definition solo_elementos :: "t_table_info \<Rightarrow> t_table_info \<Rightarrow> bool" where
  "solo_elementos T T' \<longleftrightarrow> T' = T\<lparr>elements := elements T', claves := claves T'\<rparr>"

lemma solo_elementosD:
  assumes "solo_elementos T T'"
  shows "table_max_size T' = table_max_size T" "elements_amount T' = elements_amount T"
    "espacio_libre T' = espacio_libre T" "size_chunk T' = size_chunk T" "datos T' = datos T"
    "previo T' = previo T" "lecturas T' = lecturas T"
  using assms by (metis solo_elementos_def t_table_info.select_convs t_table_info.surjective t_table_info.update_convs)+

lemma solo_elementos_refl [simp]: "solo_elementos T T"
  by (simp add: solo_elementos_def)

lemma solo_elementos_trans [trans]:
  "solo_elementos T T' \<Longrightarrow> solo_elementos T' T'' \<Longrightarrow> solo_elementos T T''"
  by (cases T; cases T'; cases T'') (simp add: solo_elementos_def)

lemma solo_con_elem [simp]: "solo_elementos T (con_elem T i e)"
  by (simp add: solo_elementos_def con_elem_def)

lemma con_elem_sel [simp]:
  "elements (con_elem T i e) = (elements T)[i := e]" "table_max_size (con_elem T i e) = table_max_size T"
  "claves (con_elem T i e) = claves T" "datos (con_elem T i e) = datos T"
  "size_chunk (con_elem T i e) = size_chunk T" "previo (con_elem T i e) = previo T"
  "elements_amount (con_elem T i e) = elements_amount T" "espacio_libre (con_elem T i e) = espacio_libre T"
  "lecturas (con_elem T i e) = lecturas T"
  by (simp_all add: con_elem_def)

lemma length_celdas [simp]: "length (celdas T) = table_max_size T"
  by (simp add: celdas_def)

lemma nth_celdas [simp]: "i < table_max_size T \<Longrightarrow> celdas T ! i = celda T i"
  by (simp add: celdas_def)

lemma elem_bien: "tabla_bien T \<Longrightarrow> i < table_max_size T \<Longrightarrow> elem T i = Some (elements T ! i)"
  by (simp add: elem_def tabla_bien_def)

lemma celdas_con_elem:
  assumes "tabla_bien T" "i < table_max_size T"
  shows "celdas (con_elem T i e) =
    (celdas T)[i := celda_de e (bytes_at (claves T) (TAM_CLAVE * i) (nkey (item e)))]"
  using assms by (intro nth_equalityI) (auto simp: celda_def nth_list_update tabla_bien_def)

lemma bien_con_elem:
  "tabla_bien T \<Longrightarrow> (ocupado e \<Longrightarrow> nkey (item e) \<le> TAM_CLAVE) \<Longrightarrow> tabla_bien (con_elem T i e)"
  by (cases "i < length (elements T)")
    (auto simp: tabla_bien_def nth_list_update list_update_beyond split: if_splits)

lemma leer_clave_bien:
  assumes "tabla_bien T" "i < table_max_size T" "n \<le> TAM_CLAVE"
  shows "leer_clave T i n = Some (bytes_at (claves T) (TAM_CLAVE * i) n)"
proof -
  have "60 * i + n \<le> 61 * table_max_size T" using assms by (simp add: TAM_CLAVE_def)
  then show ?thesis using assms
    by (simp add: leer_clave_def mem_read_def tabla_bien_def TAM_CLAVE_def nat_mult_distrib)
qed

lemma poner_clave_bien:
  assumes T: "tabla_bien T" "i < table_max_size T" "length k \<le> TAM_CLAVE"
    and n: "ocupado (elements T ! i) \<Longrightarrow> nkey (item (elements T ! i)) = length k"
  obtains T' where "poner_clave T i k = Some T'" "solo_elementos T T'" "elements T' = elements T"
    "tabla_bien T'" "celdas T' = (celdas T)[i := celda_de (elements T ! i) k]"
    "bytes_at (claves T') (TAM_CLAVE * i) (length k) = k"
proof -
  let ?a = "put_bytes (claves T) (TAM_CLAVE * i) k"
  have b: "60 * i + length k \<le> 61 * table_max_size T" using T by (simp add: TAM_CLAVE_def)
  then have 1: "poner_clave T i k = Some (T\<lparr>claves := ?a\<rparr>)"
    using T by (simp add: poner_clave_def mem_write_def tabla_bien_def TAM_CLAVE_def nat_mult_distrib)
  have l: "dk_len ?a = dk_len (claves T)" using b T by (simp add: tabla_bien_def TAM_CLAVE_def)
  have 2: "celdas (T\<lparr>claves := ?a\<rparr>) = (celdas T)[i := celda_de (elements T ! i) k]"
  proof (rule nth_equalityI)
    fix j assume "j < length (celdas (T\<lparr>claves := ?a\<rparr>))"
    then have j: "j < table_max_size T" by simp
    have "celda (T\<lparr>claves := ?a\<rparr>) j = celda T j" if "j \<noteq> i"
    proof (cases "ocupado (elements T ! j)")
      case True
      then have "nkey (item (elements T ! j)) \<le> 60" using T(1) j by (auto simp: tabla_bien_def TAM_CLAVE_def)
      then have "bytes_at ?a (TAM_CLAVE * j) (nkey (item (elements T ! j)))
          = bytes_at (claves T) (TAM_CLAVE * j) (nkey (item (elements T ! j)))"
        using T that j by (intro bytes_at_put_disj) (auto simp: TAM_CLAVE_def tabla_bien_def)
      then show ?thesis by (simp add: celda_def)
    qed (simp add: celda_def celda_de_def)
    moreover have "celda (T\<lparr>claves := ?a\<rparr>) i = celda_de (elements T ! i) k"
      using n by (cases "ocupado (elements T ! i)") (auto simp: celda_def celda_de_def)
    ultimately show "celdas (T\<lparr>claves := ?a\<rparr>) ! j = (celdas T)[i := celda_de (elements T ! i) k] ! j"
      using j T by (cases "j = i") (auto simp: nth_celdas [of j "T\<lparr>claves := ?a\<rparr>", simplified])
  qed simp
  show thesis using that [OF 1] 2 l T(1) by (simp add: solo_elementos_def tabla_bien_def)
qed

lemma mover_elem_bien:
  assumes T: "tabla_bien T" and i: "to < table_max_size T" "from < table_max_size T" "to \<noteq> from"
  obtains T' where "mover_elem T to from = Some T'" "solo_elementos T T'" "tabla_bien T'"
    "celdas T' = (celdas T)[to := celdas T ! from]"
    "data (item (elements T' ! to)) = data (item (elements T ! from))"
    "elements T' = (elements T)[to := mover_particion (elements T ! from) (elements T ! to)]"
proof (cases "ocupado (elements T ! from)")
  case False
  let ?T = "con_elem T to (mover_particion (elements T ! from) (elements T ! to))"
  have "mover_elem T to from = Some ?T"
    using T i False by (simp add: mover_elem_def elem_bien)
  moreover have "tabla_bien ?T" using T False by (intro bien_con_elem) (simp_all add: mover_particion_def)
  moreover have "celdas ?T = (celdas T)[to := celdas T ! from]"
    using T i False by (subst celdas_con_elem) (simp_all add: celda_def celda_de_def mover_particion_def)
  ultimately show thesis using T i by (intro that) (auto simp: mover_particion_def Let_def tabla_bien_def)
next
  case True
  let ?e = "elements T ! from" let ?m = "mover_particion ?e (elements T ! to)"
  let ?k = "bytes_at (claves T) (TAM_CLAVE * from) (nkey (item ?e))"
  have n: "nkey (item ?e) \<le> TAM_CLAVE" using T i True by (simp add: tabla_bien_def)
  have m: "ocupado ?m" "nkey (item ?m) = nkey (item ?e)" "data (item ?m) = data (item ?e)"
    "celda_de ?m k = celda_de ?e k" for k
    using True by (simp_all add: mover_particion_def Let_def celda_de_def)
  have b: "tabla_bien (con_elem T to ?m)" using T n m by (intro bien_con_elem) simp_all
  have e: "elements (con_elem T to ?m) ! to = ?m" using T i by (simp add: tabla_bien_def)
  obtain T' where T': "poner_clave (con_elem T to ?m) to ?k = Some T'" "solo_elementos (con_elem T to ?m) T'"
      "elements T' = (elements T)[to := ?m]" "tabla_bien T'"
      "celdas T' = (celdas (con_elem T to ?m))[to := celda_de ?m ?k]"
    using b i e n m by (rule_tac poner_clave_bien [of "con_elem T to ?m" to ?k]) simp_all
  have "n \<le> TAM_CLAVE \<Longrightarrow> n \<le> TAM_CLAVE * (if to \<le> from then from - to else to - from)" for n
    using i(3) by (auto simp: TAM_CLAVE_def)
  then have "mover_elem T to from = Some T'"
    using T i True T'(1) n b by (simp add: mover_elem_def elem_bien copiar_clave_def leer_clave_bien)
  moreover have "celdas T' = (celdas T)[to := celdas T ! from]"
    using T i T'(5) by (simp add: celdas_con_elem m celda_def)
  moreover have "solo_elementos T T'" using T'(2) by (rule solo_elementos_trans [rotated]) simp
  ultimately show thesis using that T' e m by simp
qed

section \<open>Search, removal and replacement on the cells\<close>

lemma celda_ocup:
  "celda T i = Ocup d n u k st t \<longleftrightarrow> ocupado (elements T ! i) \<and> d = data (item (elements T ! i))
     \<and> n = ndata (item (elements T ! i)) \<and> u = bytes_inutilizados (elements T ! i)
     \<and> k = bytes_at (claves T) (TAM_CLAVE * i) (nkey (item (elements T ! i)))
     \<and> st = stored (item (elements T ! i)) \<and> t = ultimaVezUsada (elements T ! i)"
  by (auto simp: celda_def celda_de_def)

lemma es_ocup_celda [simp]: "es_ocup (celda T i) \<longleftrightarrow> ocupado (elements T ! i)"
  by (simp add: celda_def celda_de_def)

lemma search_loop_bien:
  assumes "tabla_bien T" "set is \<subseteq> {..<table_max_size T}"
  shows "\<exists>r. search_loop T key is = Some r \<and>
    (r = - 1 \<and> (\<forall>i \<in> set is. \<forall>d n u t. celda T i \<noteq> Ocup d n u key True t)
     \<or> (\<exists>i \<in> set is. r = int i \<and> (\<exists>d n u t. celda T i = Ocup d n u key True t)))"
  using assms(2)
proof (induction "is")
  case (Cons i "is")
  have i: "i < table_max_size T" using Cons.prems by simp
  have n: "ocupado (elements T ! i) \<Longrightarrow> nkey (item (elements T ! i)) \<le> TAM_CLAVE"
    using assms(1) i by (simp add: tabla_bien_def)
  show ?case
    using Cons assms(1) i n
    by (cases "ocupado (elements T ! i) \<and> stored (item (elements T ! i)) \<and> nkey (item (elements T ! i)) = length key")
      (auto simp: elem_bien leer_clave_bien celda_ocup)
qed simp

lemma micache_search_bien:
  assumes "tabla_bien T"
  shows "micache_search_element T key = Some (- 1)
      \<and> (\<forall>i < table_max_size T. \<forall>d n u t. celda T i \<noteq> Ocup d n u key True t)
    \<or> (\<exists>i < table_max_size T. micache_search_element T key = Some (int i)
      \<and> (\<exists>d n u t. celda T i = Ocup d n u key True t))"
proof -
  have "set [0..<table_max_size T] \<subseteq> {..<table_max_size T}" by auto
  from search_loop_bien [OF assms this, of key] show ?thesis
    by (auto simp: micache_search_element_def)
qed

lemma remove_loop_bien:
  assumes "tabla_bien T" "set is \<subseteq> {..<table_max_size T}"
    and "\<And>i d n u st t. i \<in> set is \<Longrightarrow> celda T i = Ocup d n u key st t \<Longrightarrow> i = p"
    and "celda T p = Ocup d0 n0 u0 key st0 t0" "p \<in> set is \<or> r = Some p"
  shows "remove_loop T key is r = Some (Some p)"
  using assms(2,3,5)
proof (induction "is" arbitrary: r)
  case (Cons i "is")
  have i: "i < table_max_size T" using Cons.prems by simp
  have n: "ocupado (elements T ! i) \<Longrightarrow> nkey (item (elements T ! i)) \<le> TAM_CLAVE"
    using assms(1) i by (simp add: tabla_bien_def)
  have c: "i = p" if "ocupado (elements T ! i)" "nkey (item (elements T ! i)) = length key"
    "bytes_at (claves T) (TAM_CLAVE * i) (length key) = key"
    using Cons.prems(2) [of i] that by (auto simp: celda_ocup)
  have p: "i = p \<Longrightarrow> ocupado (elements T ! i) \<and> nkey (item (elements T ! i)) = length key \<and>
      bytes_at (claves T) (TAM_CLAVE * i) (length key) = key"
    using assms(4) by (auto simp: celda_ocup)
  have IH: "remove_loop T key is r' = Some (Some p)" if "p \<in> set is \<or> r' = Some p" for r'
  proof (rule Cons.IH)
    show "set is \<subseteq> {..<table_max_size T}" using Cons.prems(1) by simp
    show "ia = p" if "ia \<in> set is" "celda T ia = Ocup d n u key st t" for ia d n u st t
      by (rule Cons.prems(2) [OF _ that(2)]) (simp add: that(1))
    show "p \<in> set is \<or> r' = Some p" by (rule that)
  qed
  show ?case
  proof (cases "i = p")
    case True
    then show ?thesis using IH [of "Some p"] p assms(1) i n
      by (simp add: elem_bien leer_clave_bien)
  next
    case False
    then have "p \<in> set is \<or> r = Some p" using Cons.prems(3) by auto
    from IH [OF this] show ?thesis using c False assms(1) i n by (auto simp: elem_bien leer_clave_bien)
  qed
qed simp

definition claves_unicas :: "t_table_info \<Rightarrow> bool" where
  "claves_unicas T \<longleftrightarrow> distinct (map clave (filter es_ocup (celdas T)))"

lemma distinct_filter_nth:
  assumes "distinct (map f (filter P xs))" "i < length xs" "j < length xs" "P (xs ! i)" "P (xs ! j)"
    "f (xs ! i) = f (xs ! j)"
  shows "i = j"
  using assms
proof (induction xs arbitrary: i j)
  case (Cons x xs)
  then show ?case by (cases i; cases j) (auto simp: image_iff split: if_splits)
qed simp

text \<open>What the removal writes into the element.\<close>

definition liberado :: "t_table_info \<Rightarrow> nat \<Rightarrow> t_table_info" where
  "liberado T p =
     (let e = elements T ! p;
          s = (if ndata (item e) < size_chunk T then size_chunk T else ndata (item e) + bytes_inutilizados e) in
      (con_elem T p (e\<lparr>item := (item e)\<lparr>stored := False, ndata := 0\<rparr>, ocupado := False, ultimaVezUsada := 0,
                       bytes_disponibles := s, bytes_inutilizados := 0\<rparr>))
      \<lparr>espacio_libre := espacio_libre T + s, elements_amount := elements_amount T - 1\<rparr>)"

lemma micache_remove_bien:
  assumes "tabla_bien T" "claves_unicas T" "p < table_max_size T" "celda T p = Ocup d n u key st t"
  shows "micache_remove T key = Some (liberado T p)"
proof -
  have "remove_loop T key [0..<table_max_size T] None = Some (Some p)"
  proof (rule remove_loop_bien [OF assms(1) _ _ assms(4)])
    fix i d' n' u' st' t'
    assume "i \<in> set [0..<table_max_size T]" "celda T i = Ocup d' n' u' key st' t'"
    then show "i = p" using assms
      by (intro distinct_filter_nth [of clave es_ocup "celdas T"])
        (simp_all add: claves_unicas_def del: es_ocup_celda)
  qed (use assms(3) in auto)
  then show ?thesis using assms(1,3)
    by (simp add: micache_remove_def micache_remove_element_def elem_bien liberado_def Let_def con_elem_def)
qed

lemma lru_loop_bien:
  assumes "tabla_bien T" "set is \<subseteq> {..<table_max_size T}"
  shows "\<exists>r. lru_loop T is mt v = Some r \<and>
    (r = v \<and> (\<forall>i \<in> set is. \<forall>d n u k t. celda T i = Ocup d n u k True t \<longrightarrow> mt \<le> t)
     \<or> (\<exists>p \<in> set is. r = Some p \<and> (\<exists>d n u k t. celda T p = Ocup d n u k True t \<and> t < mt \<and>
          (\<forall>i \<in> set is. \<forall>d' n' u' k' t'. celda T i = Ocup d' n' u' k' True t' \<longrightarrow> t \<le> t'))))"
  using assms(2)
proof (induction "is" arbitrary: mt v)
  case (Cons i "is")
  have s: "set is \<subseteq> {..<table_max_size T}" and i: "elem T i = Some (elements T ! i)"
    using Cons.prems assms(1) by (auto simp: elem_bien)
  let ?e = "elements T ! i"
  show ?case
  proof (cases "ocupado ?e \<and> stored (item ?e) \<and> ultimaVezUsada ?e < mt")
    case True
    then have c: "celda T i = Ocup (data (item ?e)) (ndata (item ?e)) (bytes_inutilizados ?e)
        (bytes_at (claves T) (TAM_CLAVE * i) (nkey (item ?e))) True (ultimaVezUsada ?e)"
      by (simp add: celda_ocup)
    have l: "lru_loop T (i # is) mt v = lru_loop T is (ultimaVezUsada ?e) (Some i)"
      using True i by simp
    from Cons.IH [OF s, of "ultimaVezUsada ?e" "Some i"] show ?thesis
      unfolding l using c True by (auto; fastforce)
  next
    case False
    then have l: "lru_loop T (i # is) mt v = lru_loop T is mt v" using i by auto
    have "mt \<le> t" if "celda T i = Ocup d n u k True t" for d n u k t
      using False that by (auto simp: celda_ocup)
    then show ?thesis using Cons.IH [OF s, of mt v] unfolding l
      by (auto; fastforce)
  qed
qed simp

text \<open>
  A victim is found when every item is stored and was stamped before now; it is an oldest one.
\<close>

lemma desalojar_bien:
  assumes T: "tabla_bien T" "claves_unicas T" and o: "filter es_ocup (celdas T) \<noteq> []"
    and st: "\<forall>i < table_max_size T. \<forall>d n u k st t. celda T i = Ocup d n u k st t \<longrightarrow> st \<and> t < reloj (lecturas T)"
  obtains p d n u k t where "p < table_max_size T" "celda T p = Ocup d n u k True t"
    "desalojar reloj T = Some (liberado (T\<lparr>lecturas := Suc (lecturas T)\<rparr>) p)"
    "\<forall>i < table_max_size T. \<forall>d' n' u' k' st' t'. celda T i = Ocup d' n' u' k' st' t' \<longrightarrow> t \<le> t'"
proof -
  let ?T = "T\<lparr>lecturas := Suc (lecturas T)\<rparr>"
  have [simp]: "celda ?T = celda T" by (simp add: celda_def fun_eq_iff)
  have b: "tabla_bien ?T" "claves_unicas ?T" using T by (simp_all add: tabla_bien_def claves_unicas_def celdas_def)
  have sub: "set [0..<table_max_size T] \<subseteq> {..<table_max_size ?T}" by auto
  obtain j where j: "j < table_max_size T" "es_ocup (celda T j)"
    using o by (auto simp: filter_empty_conv celdas_def)
  then obtain d n u k s t where "celda T j = Ocup d n u k s t" by (cases "celda T j") (auto simp del: es_ocup_celda)
  with st j have cj: "celda T j = Ocup d n u k True t" "t < reloj (lecturas T)" by auto
  from lru_loop_bien [OF b(1) sub, of "reloj (lecturas T)" None] cj j
  obtain p d n u k t where p: "lru_loop ?T [0..<table_max_size T] (reloj (lecturas T)) None = Some (Some p)"
      "p < table_max_size T" "celda T p = Ocup d n u k True t"
      "\<forall>i < table_max_size T. \<forall>d' n' u' k' t'. celda T i = Ocup d' n' u' k' True t' \<longrightarrow> t \<le> t'"
    by (auto; fastforce)
  have n: "nkey (item (elements T ! p)) \<le> TAM_CLAVE" using T(1) p by (auto simp: tabla_bien_def celda_ocup)
  have k: "bytes_at (claves T) (TAM_CLAVE * p) (nkey (item (elements T ! p))) = k" using p(3) by (simp add: celda_ocup)
  then have "length k < 100" using n by (auto simp: TAM_CLAVE_def)
  then have "desalojar reloj T = Some (liberado ?T p)"
    using p b n k micache_remove_bien [of ?T p d n u k True t]
    by (simp add: desalojar_def lru_def clock_gettime_def elem_bien leer_clave_bien)
  then show thesis using that p st by (metis (full_types))
qed

lemma liberado_sel [simp]:
  "table_max_size (liberado T p) = table_max_size T" "size_chunk (liberado T p) = size_chunk T"
  "claves (liberado T p) = claves T" "datos (liberado T p) = datos T" "previo (liberado T p) = previo T"
  "lecturas (liberado T p) = lecturas T" "elements_amount (liberado T p) = elements_amount T - 1"
  by (simp_all add: liberado_def Let_def)

lemma bien_liberado: "tabla_bien T \<Longrightarrow> tabla_bien (liberado T p)"
proof -
  have "tabla_bien (T\<lparr>espacio_libre := x, elements_amount := y\<rparr>) = tabla_bien T" for T x y
    by (simp add: tabla_bien_def)
  then show "tabla_bien T \<Longrightarrow> ?thesis" by (auto simp: liberado_def Let_def intro!: bien_con_elem)
qed

lemma celdas_liberado:
  assumes "tabla_bien T" "p < table_max_size T" "celda T p = Ocup d n u k st t" "0 < size_chunk T"
    "0 \<le> n" "0 \<le> u"
  shows "celdas (liberado T p) = (celdas T)[p := Hueco d (if n < size_chunk T then size_chunk T else n + u)]"
proof -
  have [simp]: "celdas (T\<lparr>espacio_libre := x, elements_amount := y\<rparr>) = celdas T" for T x y
    by (simp add: celdas_def celda_def)
  show ?thesis using assms
    by (auto simp: liberado_def Let_def celdas_con_elem celda_ocup celda_de_def)
qed

section \<open>Rows of cells that tile the data area\<close>

text \<open>
  \<open>teje c a xs b\<close>: the cells \<open>xs\<close> follow each other without gaps from \<open>a\<close> to \<open>b\<close>, each of them a chunk
  times a power of two; an item shorter than a chunk has exactly one chunk.
\<close>

fun celda_ok :: "int \<Rightarrow> celda \<Rightarrow> bool" where
  "celda_ok c Nada = False"
| "celda_ok c (Hueco d s) = (\<exists>j. s = c * 2 ^ j)"
| "celda_ok c (Ocup d n u k st t) =
     (0 \<le> n \<and> 0 \<le> u \<and> (\<exists>j. n + u = c * 2 ^ j) \<and> (n < c \<longrightarrow> n + u = c))"

primrec teje :: "int \<Rightarrow> int \<Rightarrow> celda list \<Rightarrow> int \<Rightarrow> bool" where
  "teje c a [] b \<longleftrightarrow> a = b"
| "teje c a (x # xs) b \<longleftrightarrow> celda_ok c x \<and> inicio x = a \<and> teje c (a + tam_celda x) xs b"

definition tejido :: "int \<Rightarrow> int \<Rightarrow> celda list \<Rightarrow> bool" where
  "tejido c b cs \<longleftrightarrow> (\<exists>xs m. cs = xs @ replicate m Nada \<and> teje c 0 xs b)"

lemma teje_append: "teje c a (xs @ ys) b \<longleftrightarrow> (\<exists>m. teje c a xs m \<and> teje c m ys b)"
  by (induction xs arbitrary: a) auto

lemma celda_ok_tam: "0 < c \<Longrightarrow> celda_ok c x \<Longrightarrow> c \<le> tam_celda x"
  by (cases x) auto

lemma teje_largo: "0 < c \<Longrightarrow> teje c a xs b \<Longrightarrow> a + c * int (length xs) \<le> b"
proof (induction xs arbitrary: a)
  case (Cons x xs)
  from Cons.IH [of "a + tam_celda x"] Cons.prems celda_ok_tam [of c x]
  show ?case by (simp add: algebra_simps)
qed simp

lemma teje_suma: "teje c a xs b \<Longrightarrow> a + sum_list (map tam_celda xs) = b"
  by (induction xs arbitrary: a) (simp, fastforce)

lemma celda_ok_no_Nada: "celda_ok c x \<Longrightarrow> x \<noteq> Nada"
  by auto

lemma teje_no_Nada: "teje c a xs b \<Longrightarrow> Nada \<notin> set xs"
  by (induction xs arbitrary: a) auto

text \<open>A cell that is not empty splits the row; what lies between does not depend on it.\<close>

lemma tejido_parte:
  assumes "tejido c b cs" "i < length cs" "cs ! i \<noteq> Nada"
  obtains ys zs m a where "cs = ys @ (cs ! i) # zs @ replicate m Nada" "length ys = i"
    "teje c 0 ys a" "celda_ok c (cs ! i)" "inicio (cs ! i) = a" "teje c (a + tam_celda (cs ! i)) zs b"
proof -
  from assms(1) obtain xs m where xs: "cs = xs @ replicate m Nada" "teje c 0 xs b"
    by (auto simp: tejido_def)
  then have i: "i < length xs" using assms(2,3)
    by (metis add_diff_inverse_nat length_append length_replicate nat_add_left_cancel_less nth_append nth_replicate)
  then have "xs = take i xs @ cs ! i # drop (Suc i) xs"
    using xs(1) by (simp add: nth_append id_take_nth_drop)
  then show thesis
    using that [of "take i xs" "drop (Suc i) xs" m] xs i
    by (metis append.assoc append_Cons length_take min.absorb2 nless_le teje.simps(2) teje_append)
qed

lemma tejidoI:
  "cs = xs @ replicate m Nada \<Longrightarrow> teje c 0 xs b \<Longrightarrow> tejido c b cs"
  by (auto simp: tejido_def)

lemma tejido_cambia:
  assumes "tejido c b cs" "i < length cs" "cs ! i \<noteq> Nada"
    "celda_ok c x" "inicio x = inicio (cs ! i)" "tam_celda x = tam_celda (cs ! i)"
  shows "tejido c b (cs[i := x])"
proof -
  from tejido_parte [OF assms(1-3)] obtain ys zs m a where p: "cs = ys @ (cs ! i) # zs @ replicate m Nada"
    "length ys = i" "teje c 0 ys a" "inicio (cs ! i) = a" "teje c (a + tam_celda (cs ! i)) zs b" by metis
  have "cs[i := x] = (ys @ x # zs) @ replicate m Nada"
    by (subst p(1)) (simp add: p(2) [symmetric])
  then show ?thesis by (rule tejidoI) (use p assms in \<open>auto simp: teje_append\<close>)
qed

end
