(* ===== verification/Buddy.thy ===== *)
theory Buddy
  imports Tabla
begin

text \<open>
  The buddy system of the cache engine: \<^verbatim>\<open>rc/src/collections/buddy.c\<close>. The loops that need not end
  (\<^verbatim>\<open>buscarHueco\<close> with a chunk size of zero, \<^verbatim>\<open>unirTodasLasHermanas\<close>, \<^verbatim>\<open>buddysystem\<close>) are partial
  functions: \<open>None\<close> is also the value of a loop that never ends.
\<close>

section \<open>The code\<close>

definition buddy_create_element ::
  "(nat \<Rightarrow> nat) \<Rightarrow> t_table_info \<Rightarrow> u8 list \<Rightarrow> nat \<Rightarrow> int \<Rightarrow> t_table_info option" where
  "buddy_create_element reloj self key pos size_data =
     do { self \<leftarrow> poner_clave self pos key;
          e \<leftarrow> elem self pos;
          self \<leftarrow> lru_get reloj
            (con_elem self pos
              (e\<lparr>item := (item e)\<lparr>ndata := size_data, nkey := length key\<rparr>, ocupado := True\<rparr>)) pos;
          e \<leftarrow> elem self pos;
          let inutilizados = bytes_disponibles e - size_data;
          Some ((con_elem self pos (e\<lparr>bytes_inutilizados := inutilizados, bytes_disponibles := 0\<rparr>))
            \<lparr>espacio_libre := espacio_libre self -
               (if size_data < size_chunk self then size_chunk self else size_data + inutilizados),
             elements_amount := elements_amount self + 1\<rparr>) }"

text \<open>One partition less: everything from \<open>pos_hna + 1\<close> on moves one place towards the front.\<close>

primrec arriba_loop :: "t_table_info \<Rightarrow> nat list \<Rightarrow> t_table_info option" where
  "arriba_loop self [] = Some self"
| "arriba_loop self (pos # ps) =
     do { self \<leftarrow> mover_elem self pos (Suc pos);
          e \<leftarrow> elem self (Suc pos);
          arriba_loop (con_elem self (Suc pos)
            (e\<lparr>ocupado := False, bytes_inutilizados := 0, bytes_disponibles := 0\<rparr>)) ps }"

definition desplazarUnoArriba :: "t_table_info \<Rightarrow> nat \<Rightarrow> t_table_info option" where
  "desplazarUnoArriba self pos_hna = arriba_loop self [pos_hna..<table_max_size self - 1]"

text \<open>
  One partition more. The loop runs \<^verbatim>\<open>ultimaPos - posAct + 1\<close> times, so its last step copies
  \<^verbatim>\<open>elements[posAct - 1]\<close> over \<^verbatim>\<open>elements[posAct]\<close>; at position 0 this is whatever lies in front of
  the array, whose key pointer is not one of the program.
\<close>

definition abajo_paso :: "t_table_info \<Rightarrow> nat \<Rightarrow> t_table_info option" where
  "abajo_paso self ultimaPos =
     (case ultimaPos of
        Suc p \<Rightarrow> mover_elem self ultimaPos p
      | 0 \<Rightarrow> if ocupado (previo self) then None
             else do { d \<leftarrow> elem self 0; Some (con_elem self 0 (mover_particion (previo self) d)) })"

primrec abajo_loop :: "t_table_info \<Rightarrow> nat list \<Rightarrow> t_table_info option" where
  "abajo_loop self [] = Some self"
| "abajo_loop self (pos # ps) = do { self \<leftarrow> abajo_paso self pos; abajo_loop self ps }"

definition desplazarUnoAbajo :: "t_table_info \<Rightarrow> nat \<Rightarrow> int \<Rightarrow> t_table_info option" where
  "desplazarUnoAbajo self posAct free_bytes =
     do { self \<leftarrow> abajo_loop self (rev [posAct..<table_max_size self]);
          e \<leftarrow> elem self posAct;
          h \<leftarrow> elem self (Suc posAct);
          let desde = data (item h);
          let self = con_elem self posAct (e\<lparr>bytes_disponibles := free_bytes, item := (item e)\<lparr>data := desde\<rparr>\<rparr>);
          Some (con_elem self (Suc posAct)
            (h\<lparr>ocupado := False, bytes_disponibles := free_bytes, bytes_inutilizados := 0,
               item := (item h)\<lparr>data := (if Suc posAct < table_max_size self then desde + free_bytes else desde)\<rparr>\<rparr>)) }"

partial_function (option) partir :: "t_table_info \<Rightarrow> nat \<Rightarrow> int \<Rightarrow> int \<Rightarrow> t_table_info option" where
  [code]: "partir self i part ndato =
     (if ndato \<le> part then
        if size_chunk self \<le> part then
          do { self \<leftarrow> desplazarUnoAbajo self i part; partir self i (part div 2) ndato }
        else partir self i (- 1) ndato
      else Some self)"

primrec buscarHueco_loop :: "t_table_info \<Rightarrow> int \<Rightarrow> nat list \<Rightarrow> (int \<times> t_table_info) option" where
  "buscarHueco_loop self ndato [] = Some (- 1, self)"
| "buscarHueco_loop self ndato (i # is) =
     do { e \<leftarrow> elem self i;
          if \<not> ocupado e \<and> ndato \<le> bytes_disponibles e then
            do { self \<leftarrow> partir self i (bytes_disponibles e div 2) ndato; Some (int i, self) }
          else buscarHueco_loop self ndato is }"

definition buscarHueco :: "t_table_info \<Rightarrow> int \<Rightarrow> (int \<times> t_table_info) option" where
  "buscarHueco self ndato = buscarHueco_loop self ndato [0..<table_max_size self]"

text \<open>\<open>unir h e\<close>: the partition \<open>h\<close> with the bytes and the start of its sister \<open>e\<close>.\<close>

definition unir :: "t_array \<Rightarrow> t_array \<Rightarrow> t_array" where
  "unir h e = h\<lparr>bytes_disponibles := bytes_disponibles h + bytes_disponibles e,
                item := (item h)\<lparr>data := data (item e)\<rparr>\<rparr>"

definition es_hermana :: "t_array \<Rightarrow> t_array \<Rightarrow> bool" where
  "es_hermana e h \<longleftrightarrow> \<not> ocupado h \<and> bytes_disponibles h = bytes_disponibles e"

primrec unir_pasada ::
  "t_table_info \<Rightarrow> nat list \<Rightarrow> int \<Rightarrow> bool \<Rightarrow> (bool \<times> t_table_info) option" where
  "unir_pasada self [] acum seUnieron = Some (seUnieron, self)"
| "unir_pasada self (i # is) acum seUnieron =
     do { e \<leftarrow> elem self i;
          if \<not> ocupado e \<and> bytes_disponibles e \<noteq> 0 then
            if acum div bytes_disponibles e mod 2 = 0 then
              do { h \<leftarrow> elem self (Suc i);
                   if es_hermana e h then
                     do { self \<leftarrow> desplazarUnoArriba (con_elem self (Suc i) (unir h e)) i;
                          e \<leftarrow> elem self i;
                          unir_pasada self is (acum + bytes_disponibles e) True }
                   else unir_pasada self is (acum + bytes_disponibles e) seUnieron }
            else
              do { h \<leftarrow> (if i = 0 then None else elem self (i - 1));
                   if es_hermana e h then
                     do { self \<leftarrow> desplazarUnoArriba (con_elem self i (unir e h)) (i - 1);
                          unir_pasada self is (acum + bytes_disponibles e) True }
                   else unir_pasada self is (acum + bytes_disponibles e) seUnieron }
          else
            unir_pasada self is
              (acum + (if ocupado e
                       then if size_chunk self \<le> ndata (item e)
                            then ndata (item e) + bytes_inutilizados e else size_chunk self
                       else 0)) seUnieron }"

partial_function (option) unirTodasLasHermanas :: "t_table_info \<Rightarrow> t_table_info option" where
  [code]: "unirTodasLasHermanas self =
     do { (seUnieron, self) \<leftarrow> unir_pasada self [0..<table_max_size self] 0 False;
          if seUnieron then unirTodasLasHermanas self else Some self }"

definition buscar_uniendo :: "t_table_info \<Rightarrow> int \<Rightarrow> (int \<times> t_table_info) option" where
  "buscar_uniendo self nbytes_data =
     do { (pos, self) \<leftarrow> buscarHueco self nbytes_data;
          if pos = - 1
          then do { self \<leftarrow> unirTodasLasHermanas self; buscarHueco self nbytes_data }
          else Some (pos, self) }"

partial_function (option) buddysystem ::
  "(nat \<Rightarrow> nat) \<Rightarrow> t_table_info \<Rightarrow> int \<Rightarrow> (int \<times> t_table_info) option" where
  [code]: "buddysystem reloj self nbytes_data =
     do { (pos, self) \<leftarrow> buscar_uniendo self nbytes_data;
          if pos = - 1
          then do { self \<leftarrow> (if elements_amount self \<noteq> 0 then desalojar reloj self else Some self);
                    buddysystem reloj self nbytes_data }
          else Some (pos, self) }"

section \<open>Moving the partitions\<close>

lemma arriba_loop_bien:
  assumes "tabla_bien T" "p < table_max_size T" "Suc p = table_max_size T \<Longrightarrow> celda T p = Nada"
  shows "\<exists>T'. arriba_loop T [p..<table_max_size T - 1] = Some T' \<and> solo_elementos T T' \<and> tabla_bien T'
    \<and> celdas T' = take p (celdas T) @ drop (Suc p) (celdas T) @ [Nada]"
  using assms
proof (induction "table_max_size T - p" arbitrary: T p rule: less_induct)
  case less
  let ?N = "table_max_size T"
  show ?case
  proof (cases "Suc p = ?N")
    case True
    then have "celdas T = take p (celdas T) @ drop (Suc p) (celdas T) @ [Nada]"
      using less.prems take_Suc_conv_app_nth [of p "celdas T"] by simp
    then show ?thesis using True less.prems(1) by (intro exI [of _ T]) auto
  next
    case False
    then have p: "Suc p < ?N" using less.prems(2) by simp
    obtain T1 where T1: "mover_elem T p (Suc p) = Some T1" "solo_elementos T T1" "tabla_bien T1"
        "celdas T1 = (celdas T)[p := celdas T ! Suc p]"
      by (rule mover_elem_bien [OF less.prems(1), of p "Suc p"]) (use p in \<open>simp, simp, simp, blast\<close>)
    have N1: "table_max_size T1 = ?N" using T1(2) by (simp add: solo_elementosD)
    let ?e = "(elements T1 ! Suc p)\<lparr>ocupado := False, bytes_inutilizados := 0, bytes_disponibles := 0\<rparr>"
    let ?T2 = "con_elem T1 (Suc p) ?e"
    have T2: "tabla_bien ?T2" by (rule bien_con_elem [OF T1(3)]) simp
    have c2: "celdas ?T2 = (celdas T)[p := celdas T ! Suc p, Suc p := Nada]"
      using T1 p N1 by (subst celdas_con_elem) (simp_all add: celda_de_def)
    have "celda ?T2 (Suc p) = celdas ?T2 ! Suc p" using p N1 by simp
    also have "\<dots> = Nada" using p by (simp add: c2)
    finally have n2: "celda ?T2 (Suc p) = Nada" .
    have N2: "table_max_size ?T2 = ?N" and m: "table_max_size ?T2 - Suc p < ?N - p" using N1 p by simp_all
    have IH: "\<exists>T'. arriba_loop ?T2 [Suc p..<table_max_size ?T2 - 1] = Some T' \<and> solo_elementos ?T2 T' \<and> tabla_bien T'
        \<and> celdas T' = take (Suc p) (celdas ?T2) @ drop (Suc (Suc p)) (celdas ?T2) @ [Nada]"
      using less.hyps [OF m T2] n2 p unfolding N2 by blast
    obtain T' where T': "arriba_loop ?T2 [Suc p..<?N - 1] = Some T'" "solo_elementos ?T2 T'" "tabla_bien T'"
        "celdas T' = take (Suc p) (celdas ?T2) @ drop (Suc (Suc p)) (celdas ?T2) @ [Nada]"
      using IH unfolding N2 by blast
    have "[p..<?N - 1] = p # [Suc p..<?N - 1]" using p by (simp add: upt_conv_Cons)
    then have "arriba_loop T [p..<?N - 1] = Some T'"
      using T1 T' p N1 by (simp add: elem_bien)
    moreover have "celdas T' = take p (celdas T) @ drop (Suc p) (celdas T) @ [Nada]"
      unfolding T'(4) c2 using p
      by (simp add: take_Suc_conv_app_nth Cons_nth_drop_Suc [of "Suc p" "celdas T", symmetric] list_update_append)
    moreover have "solo_elementos T T'"
      using T1(2) T'(2) by (meson solo_con_elem solo_elementos_trans)
    ultimately show ?thesis using T'(3) by blast
  qed
qed

lemma desplazarUnoArriba_bien:
  assumes "tabla_bien T" "Suc p < table_max_size T"
  obtains T' where "desplazarUnoArriba T p = Some T'" "solo_elementos T T'" "tabla_bien T'"
    "celdas T' = take p (celdas T) @ drop (Suc p) (celdas T) @ [Nada]"
  using arriba_loop_bien [OF assms(1), of p] assms(2) by (auto simp: desplazarUnoArriba_def)

lemma abajo_loop_append:
  "abajo_loop T (xs @ ys) = do { T' \<leftarrow> abajo_loop T xs; abajo_loop T' ys }"
  by (induction xs arbitrary: T) (auto split: bind_splits)

lemma abajo_loop_bien:
  assumes "tabla_bien T" "n \<le> table_max_size T" "Suc p \<le> n"
  shows "\<exists>T'. abajo_loop T (rev [Suc p..<n]) = Some T' \<and> solo_elementos T T' \<and> tabla_bien T'
    \<and> celdas T' = take (Suc p) (celdas T) @ take (n - Suc p) (drop p (celdas T)) @ drop n (celdas T)
    \<and> elements T' ! p = elements T ! p
    \<and> (Suc p < n \<longrightarrow> data (item (elements T' ! Suc p)) = data (item (elements T ! p)))"
  using assms
proof (induction n arbitrary: T)
  case (Suc n)
  let ?cs = "celdas T"
  show ?case
  proof (cases "Suc p = Suc n")
    case True
    then show ?thesis using Suc.prems by (intro exI [of _ T]) simp
  next
    case False
    then have n: "Suc p \<le> n" "n < table_max_size T" using Suc.prems by auto
    then obtain q where q: "n = Suc q" by (cases n) auto
    obtain T1 where T1: "mover_elem T n q = Some T1" "solo_elementos T T1" "tabla_bien T1"
        "celdas T1 = ?cs[n := ?cs ! q]" "data (item (elements T1 ! n)) = data (item (elements T ! q))"
        "elements T1 = (elements T)[n := mover_particion (elements T ! q) (elements T ! n)]"
      by (rule mover_elem_bien [OF Suc.prems(1), of n q]) (use n q in \<open>simp, simp, simp, blast\<close>)
    have N1: "table_max_size T1 = table_max_size T" using T1(2) by (simp add: solo_elementosD)
    obtain T' where T': "abajo_loop T1 (rev [Suc p..<n]) = Some T'" "solo_elementos T1 T'" "tabla_bien T'"
        "celdas T' = take (Suc p) (celdas T1) @ take (n - Suc p) (drop p (celdas T1)) @ drop n (celdas T1)"
        "elements T' ! p = elements T1 ! p"
        "Suc p < n \<longrightarrow> data (item (elements T' ! Suc p)) = data (item (elements T1 ! p))"
      using Suc.IH [OF T1(3)] n N1 by auto
    have ep: "elements T1 ! p = elements T ! p" using n by (simp add: T1(6))
    have "abajo_loop T (rev [Suc p..<Suc n]) = Some T'"
      using n T1(1) T'(1) q by (simp add: abajo_paso_def)
    moreover have "data (item (elements T' ! Suc p)) = data (item (elements T ! p))"
      using T'(1,6) T1(5) ep n q by (cases "Suc p = n") auto
    moreover have "celdas T' = take (Suc p) ?cs @ take (Suc n - Suc p) (drop p ?cs) @ drop (Suc n) ?cs"
    proof -
      have a: "take (n - p) (drop p ?cs) = take (n - Suc p) (drop p ?cs) @ [?cs ! q]"
      proof -
        have "n - p = Suc (n - Suc p)" using n by simp
        moreover have "drop p ?cs ! (n - Suc p) = ?cs ! q" using n q by simp
        ultimately show ?thesis using n by (simp add: take_Suc_conv_app_nth)
      qed
      have b: "take (n - Suc p) (drop p (?cs[n := ?cs ! q])) = take (n - Suc p) (drop p ?cs)"
        using n by (simp add: drop_update_swap)
      have c: "drop n (?cs[n := ?cs ! q]) = ?cs ! q # drop (Suc n) ?cs"
        using n by (simp add: drop_update_swap Cons_nth_drop_Suc [symmetric])
      show ?thesis unfolding T'(4) T1(4) b c using a n by simp
    qed
    ultimately show ?thesis
      using T' ep solo_elementos_trans [OF T1(2) T'(2)] by auto
  qed
qed simp

section \<open>Splitting a hole\<close>

lemma abajo_paso_bien:
  assumes "tabla_bien T" "p < table_max_size T" "\<not> ocupado (previo T)"
  obtains T' X where "abajo_paso T p = Some T'" "solo_elementos T T'" "tabla_bien T'"
    "celdas T' = (celdas T)[p := X]" "\<And>j. j \<noteq> p \<Longrightarrow> elements T' ! j = elements T ! j"
proof (cases p)
  case 0
  let ?T = "con_elem T 0 (mover_particion (previo T) (elements T ! 0))"
  have "abajo_paso T p = Some ?T" using 0 assms by (simp add: abajo_paso_def elem_bien)
  moreover have "tabla_bien ?T"
    using assms by (intro bien_con_elem) (simp_all add: mover_particion_def)
  moreover have "celdas ?T = (celdas T)[p := celda_de (mover_particion (previo T) (elements T ! 0))
      (bytes_at (claves T) (TAM_CLAVE * 0) (nkey (item (mover_particion (previo T) (elements T ! 0)))))]"
    using 0 assms by (simp add: celdas_con_elem)
  ultimately show thesis using 0 by (rule_tac that [of ?T]) simp_all
next
  case (Suc q)
  show thesis
  proof (rule mover_elem_bien [OF assms(1), of p q])
    fix T' assume T': "mover_elem T p q = Some T'" "solo_elementos T T'" "tabla_bien T'"
      "celdas T' = (celdas T)[p := celdas T ! q]"
      "elements T' = (elements T)[p := mover_particion (elements T ! q) (elements T ! p)]"
    then show thesis using Suc by (intro that [of T']) (auto simp: abajo_paso_def)
  qed (use assms Suc in auto)
qed

text \<open>
  \<open>en_curso T p d s\<close>: place \<open>p\<close> is being given away with start \<open>d\<close> and \<open>s\<close> bytes. While the table is shifted
  the place holds a copy of its neighbour, so the row is the one with a hole in that place.
\<close>

definition en_curso :: "t_table_info \<Rightarrow> nat \<Rightarrow> int \<Rightarrow> int \<Rightarrow> bool" where
  "en_curso T p d s \<longleftrightarrow> tabla_bien T \<and> p < table_max_size T \<and> data (item (elements T ! p)) = d
     \<and> bytes_disponibles (elements T ! p) = s"

abbreviation con_hueco :: "t_table_info \<Rightarrow> nat \<Rightarrow> int \<Rightarrow> int \<Rightarrow> celda list" where
  "con_hueco T p d s \<equiv> (celdas T)[p := Hueco d s]"

lemma desplazarUnoAbajo_bien:
  assumes T: "en_curso T p d s" "Suc p < table_max_size T" "\<not> ocupado (previo T)" "f \<noteq> 0"
  obtains T' where "desplazarUnoAbajo T p f = Some T'" "solo_elementos T T'" "en_curso T' p d f"
    "con_hueco T' p d f =
       take p (celdas T) @ Hueco d f # Hueco (d + f) f # butlast (drop (Suc p) (celdas T))"
proof -
  let ?N = "table_max_size T" let ?cs = "celdas T"
  have b: "tabla_bien T" and p: "p < ?N" and d: "data (item (elements T ! p)) = d"
    using T(1) by (simp_all add: en_curso_def)
  obtain T1 where T1: "abajo_loop T (rev [Suc p..<?N]) = Some T1" "solo_elementos T T1" "tabla_bien T1"
      "celdas T1 = take (Suc p) ?cs @ take (?N - Suc p) (drop p ?cs)"
      "data (item (elements T1 ! Suc p)) = d"
    using abajo_loop_bien [OF b order_refl, of p] T(2) d by auto
  have N1: "table_max_size T1 = ?N" "previo T1 = previo T" using T1(2) by (simp_all add: solo_elementosD)
  obtain T2 X where T2: "abajo_paso T1 p = Some T2" "solo_elementos T1 T2" "tabla_bien T2"
      "celdas T2 = (celdas T1)[p := X]" "elements T2 ! Suc p = elements T1 ! Suc p"
    by (rule abajo_paso_bien [OF T1(3), of p]) (use p N1 T(3) in \<open>simp, simp, fastforce\<close>)
  have N2: "table_max_size T2 = ?N" using T2(2) N1 by (simp add: solo_elementosD)
  have d2: "data (item (elements T2 ! Suc p)) = d" using T2(5) T1(5) by simp
  let ?T3 = "con_elem T2 p ((elements T2 ! p)\<lparr>bytes_disponibles := f, item := (item (elements T2 ! p))\<lparr>data := d\<rparr>\<rparr>)"
  have b3: "tabla_bien ?T3"
    using T2(3) p N2 by (intro bien_con_elem) (auto simp: tabla_bien_def)
  let ?h = "(elements T2 ! Suc p)\<lparr>ocupado := False, bytes_disponibles := f, bytes_inutilizados := 0,
      item := (item (elements T2 ! Suc p))\<lparr>data := d + f\<rparr>\<rparr>"
  let ?T4 = "con_elem ?T3 (Suc p) ?h"
  have "[p..<?N] = p # [Suc p..<?N]" using p by (simp add: upt_conv_Cons)
  then have "desplazarUnoAbajo T p f = Some ?T4"
    using T1(1) T2(1) T2(3) p N2 T(2) d2
    by (simp add: desplazarUnoAbajo_def abajo_loop_append elem_bien Let_def)
  moreover have "tabla_bien ?T4" by (rule bien_con_elem [OF b3]) simp
  then have "en_curso ?T4 p d f" using T2(3) p N2 T(2) by (simp add: en_curso_def tabla_bien_def)
  moreover have "solo_elementos T ?T4"
    using T1(2) T2(2) by (meson solo_con_elem solo_elementos_trans)
  moreover have "con_hueco ?T4 p d f = take p ?cs @ Hueco d f # Hueco (d + f) f # butlast (drop (Suc p) ?cs)"
  proof -
    have "con_hueco ?T4 p d f = (celdas T1)[p := Hueco d f, Suc p := Hueco (d + f) f]"
      using T2(3,4) p N2 T(2,4) b3
      by (simp add: celdas_con_elem celda_de_def list_update_swap [of p "Suc p"])
    also have "\<dots> = take p ?cs @ Hueco d f # Hueco (d + f) f # butlast (drop (Suc p) ?cs)"
    proof -
      have "take (?N - Suc p) (drop p ?cs) = ?cs ! p # butlast (drop (Suc p) ?cs)"
      proof -
        have "drop p ?cs = ?cs ! p # drop (Suc p) ?cs" using p by (metis Cons_nth_drop_Suc length_celdas)
        moreover have "?N - Suc p = Suc (?N - Suc (Suc p))" using T(2) by simp
        ultimately show ?thesis by (simp add: butlast_conv_take)
      qed
      then show ?thesis unfolding T1(4) using p by (simp add: take_Suc_conv_app_nth list_update_append)
    qed
    finally show ?thesis .
  qed
  ultimately show thesis using that by blast
qed

lemma tejido_Nada_final:
  assumes "0 < c" "tejido c (c * int (length cs)) cs" "i < length cs" "cs ! i \<noteq> Nada" "c < tam_celda (cs ! i)"
  shows "Suc i < length cs" "last cs = Nada"
proof -
  from tejido_parte [OF assms(2-4)] obtain ys zs m a where p:
    "cs = ys @ (cs ! i) # zs @ replicate m Nada" "length ys = i" "teje c 0 ys a"
    "teje c (a + tam_celda (cs ! i)) zs (c * int (length cs))" by metis
  have l: "length cs = Suc (i + length zs + m)" by (subst p(1)) (simp add: p(2))
  have "a + tam_celda (cs ! i) + c * int (length zs) \<le> c * int (length cs)" "c * int i \<le> a"
    using teje_largo [OF assms(1) p(4)] teje_largo [OF assms(1) p(3)] p(2) by simp_all
  then have "c * int (i + length zs + 1) < c * int (length cs)" using assms(5) by (simp add: algebra_simps)
  then have "i + length zs + 1 < length cs" using assms(1) by (simp only: mult_less_cancel_left_pos of_nat_less_iff)
  then have m: "0 < m" using l by simp
  show "Suc i < length cs" using l m by simp
  show "last cs = Nada" by (subst p(1)) (use m in simp)
qed

lemma butlast_replicate_Suc: "butlast (replicate (Suc n) x) = replicate n x"
  by (induction n) auto

lemma tejido_divide:
  assumes "0 < c" "tejido c (c * int (length cs)) cs" "p < length cs" "cs ! p = Hueco d (c * 2 ^ Suc j)"
    "f = c * 2 ^ j"
  defines "cs' \<equiv> take p cs @ Hueco d f # Hueco (d + f) f # butlast (drop (Suc p) cs)"
  shows "tejido c (c * int (length cs)) cs'" "filter es_ocup cs' = filter es_ocup cs" "length cs' = length cs"
proof -
  have tam: "c < tam_celda (cs ! p)" using assms(1,4) by simp (smt (verit) one_le_power)
  have nn: "cs ! p \<noteq> Nada" using assms(4) by simp
  note fin = tejido_Nada_final [OF assms(1-3) nn tam]
  from tejido_parte [OF assms(2,3) nn] obtain ys zs m a where p:
    "cs = ys @ (cs ! p) # zs @ replicate m Nada" "length ys = p" "teje c 0 ys a" "inicio (cs ! p) = a"
    "teje c (a + tam_celda (cs ! p)) zs (c * int (length cs))" by metis
  have d: "drop (Suc p) cs = zs @ replicate m Nada" "take p cs = ys"
    by (subst p(1), simp add: p(2) [symmetric])+
  have m: "0 < m"
  proof (rule ccontr)
    assume "\<not> 0 < m"
    then have "cs = ys @ (cs ! p) # zs" using p(1) by simp
    moreover have "last cs = Nada" by (rule fin(2))
    moreover have "Nada \<notin> set ys \<union> {cs ! p} \<union> set zs" using teje_no_Nada p(3,5) nn by fastforce
    ultimately show False by (metis UnCI last_in_set list.discI append_is_Nil_conv set_append list.simps(15) Un_iff insert_iff)
  qed
  obtain m' where m': "m = Suc m'" using m by (cases m) auto
  have bl: "butlast (drop (Suc p) cs) = zs @ replicate (m - 1) Nada"
    unfolding d m' by (simp add: butlast_append butlast_replicate_Suc del: replicate_Suc)
  have c: "cs' = (ys @ Hueco d f # Hueco (d + f) f # zs) @ replicate (m - 1) Nada"
    unfolding cs'_def bl d(2) by simp
  show "tejido c (c * int (length cs)) cs'"
    by (rule tejidoI [OF c]) (use p(3-5) assms(4,5) in \<open>auto simp: teje_append algebra_simps\<close>)
  show "filter es_ocup cs' = filter es_ocup cs"
    by (subst p(1)) (simp add: c assms(4))
  show "length cs' = length cs" using fin(1) by (simp add: cs'_def)
qed

lemma partir_fin: "0 \<le> ndato \<Longrightarrow> part < ndato \<or> part < size_chunk T \<Longrightarrow> partir T i part ndato = Some T"
  by (subst partir.simps) (auto simp: partir.simps [of T i "- 1"])

text \<open>The splitting ends with the smallest piece that holds the request.\<close>

lemma partir_bien:
  assumes "en_curso T p d (c * 2 ^ j)" "tejido c (c * int (table_max_size T)) (con_hueco T p d (c * 2 ^ j))"
    "0 \<le> ndato" "ndato \<le> c * 2 ^ j" "size_chunk T = c" "0 < c" "\<not> ocupado (previo T)"
  shows "\<exists>T' i. partir T p (c * 2 ^ j div 2) ndato = Some T' \<and> solo_elementos T T' \<and> en_curso T' p d (c * 2 ^ i)
    \<and> tejido c (c * int (table_max_size T)) (con_hueco T' p d (c * 2 ^ i))
    \<and> filter es_ocup (con_hueco T' p d (c * 2 ^ i)) = filter es_ocup (con_hueco T p d (c * 2 ^ j))
    \<and> ndato \<le> c * 2 ^ i \<and> (ndato < c \<longrightarrow> i = 0)"
  using assms
proof (induction j arbitrary: T)
  case 0
  have "partir T p (c * 2 ^ 0 div 2) ndato = Some T" using 0 by (intro partir_fin) auto
  then show ?case using 0 by (intro exI [of _ T] exI [of _ 0]) simp
next
  case (Suc j)
  let ?f = "c * 2 ^ j" let ?N = "table_max_size T"
  have half: "c * 2 ^ Suc j div 2 = ?f" by simp
  have f: "c \<le> ?f" using Suc.prems(6) by (simp add: mult_le_cancel_left1)
  show ?case
  proof (cases "ndato \<le> ?f")
    case False
    then have "partir T p (c * 2 ^ Suc j div 2) ndato = Some T"
      unfolding half using Suc.prems by (intro partir_fin) auto
    moreover have "\<not> ndato < c" using False f by linarith
    ultimately show ?thesis using Suc.prems by (intro exI [of _ T] exI [of _ "Suc j"]) simp
  next
    case True
    have p: "p < ?N" "length (con_hueco T p d (c * 2 ^ Suc j)) = ?N" using Suc.prems(1) by (simp_all add: en_curso_def)
    note tj = tejido_divide [of c "con_hueco T p d (c * 2 ^ Suc j)", unfolded p(2), OF Suc.prems(6,2) p(1) _ refl]
    have "(1 :: int) < 2 * 2 ^ j" using one_le_power [of "2 :: int" j] by linarith
    then have "Suc p < ?N"
      using tejido_Nada_final(1) [of c "con_hueco T p d (c * 2 ^ Suc j)" p, unfolded p(2)] Suc.prems f p by simp
    then obtain T1 where T1: "desplazarUnoAbajo T p ?f = Some T1" "solo_elementos T T1" "en_curso T1 p d ?f"
        "con_hueco T1 p d ?f = take p (celdas T) @ Hueco d ?f # Hueco (d + ?f) ?f # butlast (drop (Suc p) (celdas T))"
      using desplazarUnoAbajo_bien [OF Suc.prems(1), of ?f] Suc.prems(6,7) by auto
    have s1: "table_max_size T1 = ?N" "size_chunk T1 = c" "previo T1 = previo T"
      using T1(2) Suc.prems(5) by (simp_all add: solo_elementosD)
    have t1: "tejido c (c * int ?N) (con_hueco T1 p d ?f)"
      "filter es_ocup (con_hueco T1 p d ?f) = filter es_ocup (con_hueco T p d (c * 2 ^ Suc j))"
      unfolding T1(4) using tj [of d j] p by simp_all
    obtain T' i where T': "partir T1 p (?f div 2) ndato = Some T'" "solo_elementos T1 T'" "en_curso T' p d (c * 2 ^ i)"
        "tejido c (c * int ?N) (con_hueco T' p d (c * 2 ^ i))"
        "filter es_ocup (con_hueco T' p d (c * 2 ^ i)) = filter es_ocup (con_hueco T1 p d ?f)"
        "ndato \<le> c * 2 ^ i" "ndato < c \<longrightarrow> i = 0"
      using Suc.IH [of T1] T1 t1 s1 Suc.prems(3,5-7) True by auto
    have "partir T p (c * 2 ^ Suc j div 2) ndato = Some T'"
      unfolding half using True f Suc.prems(5) T1(1) T'(1) by (subst partir.simps) simp
    then show ?thesis
      using T' t1(2) solo_elementos_trans [OF T1(2) T'(2)] by (intro exI [of _ T'] exI [of _ i]) simp
  qed
qed

text \<open>
  \<^verbatim>\<open>buscarHueco\<close> gives the first hole that is large enough, cut down, or leaves the table alone when
  there is none.
\<close>

lemma buscarHueco_loop_bien:
  assumes T: "tabla_bien T" "tejido c (c * int (table_max_size T)) (celdas T)" "0 < ndato"
    "size_chunk T = c" "0 < c" "\<not> ocupado (previo T)" and "is": "set is \<subseteq> {..<table_max_size T}"
  shows "buscarHueco_loop T ndato is = Some (- 1, T) \<and> (\<forall>i \<in> set is. \<forall>d s. celda T i = Hueco d s \<longrightarrow> s < ndato)
    \<or> (\<exists>T' p d i. buscarHueco_loop T ndato is = Some (int p, T') \<and> solo_elementos T T' \<and> en_curso T' p d (c * 2 ^ i)
      \<and> tejido c (c * int (table_max_size T)) (con_hueco T' p d (c * 2 ^ i))
      \<and> filter es_ocup (con_hueco T' p d (c * 2 ^ i)) = filter es_ocup (celdas T)
      \<and> ndato \<le> c * 2 ^ i \<and> (ndato < c \<longrightarrow> i = 0))"
  using "is"
proof (induction "is")
  case (Cons p "is")
  let ?e = "elements T ! p"
  have p: "p < table_max_size T" "elem T p = Some ?e" using Cons.prems T(1) by (auto simp: elem_bien)
  have IH: "set is \<subseteq> {..<table_max_size T}" using Cons.prems by simp
  show ?case
  proof (cases "\<not> ocupado ?e \<and> ndato \<le> bytes_disponibles ?e \<and> bytes_disponibles ?e \<noteq> 0")
    case True
    let ?d = "data (item ?e)" let ?s = "bytes_disponibles ?e"
    have c: "celda T p = Hueco ?d ?s" using True by (simp add: celda_def celda_de_def)
    obtain j where j: "?s = c * 2 ^ j"
      using tejido_parte [OF T(2), of p] p c by (metis celda.distinct(1) celda_ok.simps(2) length_celdas nth_celdas)
    have h: "con_hueco T p ?d (c * 2 ^ j) = celdas T" using c p j by (metis list_update_id nth_celdas)
    have e: "en_curso T p ?d (c * 2 ^ j)" using T(1) p j by (simp add: en_curso_def)
    have n: "0 \<le> ndato" "ndato \<le> c * 2 ^ j" using T(3) True j by simp_all
    obtain T' i where T': "partir T p (c * 2 ^ j div 2) ndato = Some T'" "solo_elementos T T'"
        "en_curso T' p ?d (c * 2 ^ i)" "tejido c (c * int (table_max_size T)) (con_hueco T' p ?d (c * 2 ^ i))"
        "filter es_ocup (con_hueco T' p ?d (c * 2 ^ i)) = filter es_ocup (celdas T)"
        "ndato \<le> c * 2 ^ i" "ndato < c \<longrightarrow> i = 0"
      using partir_bien [OF e, unfolded h, OF T(2) n T(4-6)] by blast
    have "buscarHueco_loop T ndato (p # is) = Some (int p, T')" using T'(1) True p(2) j by simp
    then show ?thesis using T' by blast
  next
    case False
    then have 1: "ocupado ?e \<or> bytes_disponibles ?e < ndato" using T(3) by linarith
    have "s < ndato" if "celda T p = Hueco d s" for d s
      using 1 that by (auto simp: celda_def celda_de_def split: if_splits)
    then show ?thesis using 1 Cons.IH [OF IH] p(2) by auto
  qed
qed simp

section \<open>Joining the sisters\<close>

definition llenas :: "t_table_info \<Rightarrow> nat" where
  "llenas T = length (filter (\<lambda>x. x \<noteq> Nada) (celdas T))"

lemma tejido_junta:
  assumes "tejido c b cs" "Suc i < length cs" "cs ! i = Hueco d s" "cs ! Suc i = Hueco d' s"
  defines "cs' \<equiv> take i cs @ Hueco d (s + s) # drop (Suc (Suc i)) cs @ [Nada]"
  shows "tejido c b cs'" "filter es_ocup cs' = filter es_ocup cs"
    "Suc (length (filter (\<lambda>x. x \<noteq> Nada) cs')) = length (filter (\<lambda>x. x \<noteq> Nada) cs)"
proof -
  have i: "i < length cs" "cs ! i \<noteq> Nada" using assms by simp_all
  from tejido_parte [OF assms(1) i] obtain ys zs m a where p:
    "cs = ys @ (cs ! i) # zs @ replicate m Nada" "length ys = i" "teje c 0 ys a" "celda_ok c (cs ! i)"
    "inicio (cs ! i) = a" "teje c (a + tam_celda (cs ! i)) zs b" by metis
  have r: "drop (Suc i) cs = zs @ replicate m Nada" "take i cs = ys"
    by (subst p(1), simp add: p(2) [symmetric])+
  have "hd (drop (Suc i) cs) = Hueco d' s" using assms(2,4) by (simp add: hd_drop_conv_nth)
  moreover have "drop (Suc i) cs \<noteq> []" using assms(2) by simp
  ultimately obtain ws where zs: "zs = Hueco d' s # ws"
    using r(1) by (cases zs; cases m) auto
  have "drop (Suc (Suc i)) cs = tl (drop (Suc i) cs)" by (simp add: drop_Suc tl_drop)
  then have c': "cs' = (ys @ Hueco d (s + s) # ws) @ replicate (Suc m) Nada"
    unfolding cs'_def r zs by (simp add: replicate_append_same)
  have c: "cs = ys @ Hueco d s # Hueco d' s # ws @ replicate m Nada"
    using p(1) assms(3) zs by simp
  obtain j where "s = c * 2 ^ j" using p(4) assms(3) by auto
  then have "s + s = c * 2 ^ Suc j" by simp
  then have "celda_ok c (Hueco d (s + s))" unfolding celda_ok.simps by blast
  then show "tejido c b cs'"
    by (intro tejidoI [OF c']) (use p assms(3) zs in \<open>auto simp: teje_append algebra_simps\<close>)
  show "filter es_ocup cs' = filter es_ocup cs" unfolding c' c by simp
  show "Suc (length (filter (\<lambda>x. x \<noteq> Nada) cs')) = length (filter (\<lambda>x. x \<noteq> Nada) cs)"
    unfolding c' c by simp
qed

text \<open>One union, at place \<open>i\<close> with the sister behind it, whichever of the two started it.\<close>

lemma junta_bien:
  assumes T: "tabla_bien T" "tejido c b (celdas T)" and i: "Suc i < table_max_size T"
    and c: "celda T i = Hueco d s" "celda T (Suc i) = Hueco d' s"
    and e: "\<not> ocupado e" "bytes_disponibles e = s + s" "data (item e) = d"
  obtains T' where "desplazarUnoArriba (con_elem T (Suc i) e) i = Some T'" "solo_elementos T T'" "tabla_bien T'"
    "tejido c b (celdas T')" "filter es_ocup (celdas T') = filter es_ocup (celdas T)"
    "Suc (llenas T') = llenas T" "last (celdas T') = Nada" "celda T' i = Hueco d (s + s)"
proof -
  let ?T1 = "con_elem T (Suc i) e"
  have s: "s \<noteq> 0" using c(1) by (auto simp: celda_def celda_de_def split: if_splits)
  have b1: "tabla_bien ?T1" using T(1) e(1) by (intro bien_con_elem) simp_all
  have c1: "celdas ?T1 = (celdas T)[Suc i := Hueco d (s + s)]"
    using T(1) i e s by (simp add: celdas_con_elem celda_de_def)
  obtain T' where T': "desplazarUnoArriba ?T1 i = Some T'" "solo_elementos ?T1 T'" "tabla_bien T'"
      "celdas T' = take i (celdas ?T1) @ drop (Suc i) (celdas ?T1) @ [Nada]"
    by (rule desplazarUnoArriba_bien [OF b1, of i]) (use i in \<open>simp, blast\<close>)
  have "drop (Suc i) ((celdas T)[Suc i := Hueco d (s + s)]) = Hueco d (s + s) # drop (Suc (Suc i)) (celdas T)"
    using i by (simp add: drop_update_swap Cons_nth_drop_Suc [symmetric])
  then have cT: "celdas T' = take i (celdas T) @ Hueco d (s + s) # drop (Suc (Suc i)) (celdas T) @ [Nada]"
    unfolding T'(4) c1 by simp
  have N: "table_max_size T' = table_max_size T" using T'(2) by (simp add: solo_elementosD)
  have "celda T' i = celdas T' ! i" using i N by simp
  also have "\<dots> = Hueco d (s + s)" using i unfolding cT by (simp add: nth_append)
  finally have ci: "celda T' i = Hueco d (s + s)" .
  have l: "last (celdas T') = Nada" unfolding cT by simp
  have "solo_elementos T T'" using T'(2) by (meson solo_con_elem solo_elementos_trans)
  moreover note tejido_junta [OF T(2), of i d s d', folded cT, folded llenas_def]
  ultimately show thesis using that T'(1,3) ci l i c by simp
qed

lemma ultimo_par:
  assumes "0 < c" "tejido c (c * int (length cs)) cs" "even (length cs)" "Suc i = length cs" "cs ! i = Hueco d s"
  shows "sum_list (map tam_celda (take i cs)) div s mod 2 = 1"
proof -
  have i: "i < length cs" "cs ! i \<noteq> Nada" using assms by simp_all
  from tejido_parte [OF assms(2) i] obtain ys zs m a where p:
    "cs = ys @ (cs ! i) # zs @ replicate m Nada" "length ys = i" "teje c 0 ys a" "celda_ok c (cs ! i)"
    "teje c (a + tam_celda (cs ! i)) zs (c * int (length cs))" by metis
  have t: "take i cs = ys" by (subst p(1)) (simp add: p(2) [symmetric])
  have "length cs = Suc (i + length zs + m)" by (subst p(1)) (simp add: p(2))
  then have "zs = []" using assms(4) by simp
  then have as: "a + s = c * (int i + 1)" using p(5) assms(5) by (simp add: assms(4) [symmetric] algebra_simps)
  have "c \<le> s" using celda_ok_tam [OF assms(1) p(4)] assms(5) by simp
  moreover have "c * int i \<le> a" using teje_largo [OF assms(1) p(3)] p(2) by simp
  ultimately have sa: "s = c" "a = c * int i" using as by (simp_all add: algebra_simps)
  have "sum_list (map tam_celda (take i cs)) = a" using teje_suma [OF p(3)] t by simp
  then have "sum_list (map tam_celda (take i cs)) div s = int i" using sa assms(1) by simp
  moreover have "odd i" using assms(3,4) by (metis even_Suc)
  then have "int i mod 2 = 1" by (simp add: odd_iff_mod_2_eq_one [symmetric])
  ultimately show ?thesis by simp
qed

text \<open>
  What every part of the allocator keeps: the cells tile the data area, and the items are the same ones
  in the same order.
\<close>

definition buddy_ok :: "t_table_info \<Rightarrow> bool" where
  "buddy_ok T \<longleftrightarrow> tabla_bien T \<and> 0 < size_chunk T \<and> even (table_max_size T) \<and> \<not> ocupado (previo T)
     \<and> tejido (size_chunk T) (size_chunk T * int (table_max_size T)) (celdas T)"

abbreviation items :: "t_table_info \<Rightarrow> celda list" where
  "items T \<equiv> filter es_ocup (celdas T)"

definition conserva :: "t_table_info \<Rightarrow> t_table_info \<Rightarrow> bool" where
  "conserva T T' \<longleftrightarrow> buddy_ok T' \<and> solo_elementos T T' \<and> items T' = items T \<and> llenas T' \<le> llenas T"

lemma conserva_refl: "buddy_ok T \<Longrightarrow> conserva T T"
  by (simp add: conserva_def)

lemma conserva_trans: "conserva T T' \<Longrightarrow> conserva T' T'' \<Longrightarrow> conserva T T''"
  by (auto simp: conserva_def intro: solo_elementos_trans)

lemma junta_conserva:
  assumes T: "buddy_ok T" "Suc i < table_max_size T" "celda T i = Hueco d s" "celda T (Suc i) = Hueco d' s"
    "\<not> ocupado e" "bytes_disponibles e = s + s" "data (item e) = d"
  obtains T' where "desplazarUnoArriba (con_elem T (Suc i) e) i = Some T'" "conserva T T'"
    "llenas T' < llenas T" "last (celdas T') = Nada" "celda T' i = Hueco d (s + s)"
proof -
  have b: "tabla_bien T" "tejido (size_chunk T) (size_chunk T * int (table_max_size T)) (celdas T)"
    using T(1) by (simp_all add: buddy_ok_def)
  obtain T' where T': "desplazarUnoArriba (con_elem T (Suc i) e) i = Some T'" "solo_elementos T T'" "tabla_bien T'"
      "tejido (size_chunk T) (size_chunk T * int (table_max_size T)) (celdas T')" "items T' = items T"
      "Suc (llenas T') = llenas T" "last (celdas T') = Nada" "celda T' i = Hueco d (s + s)"
    by (rule junta_bien [OF b T(2-7)]) blast
  have "conserva T T'" using T(1) T' by (auto simp: conserva_def buddy_ok_def solo_elementosD [OF T'(2)])
  then show thesis using that T' by simp
qed

lemma es_hermana_celda:
  assumes "celda T i = Hueco d s" "es_hermana (elements T ! i) (elements T ! h)"
  shows "celda T h = Hueco (data (item (elements T ! h))) s"
  using assms by (auto simp: es_hermana_def celda_def celda_de_def split: if_splits)

lemma hueco_elem:
  "celda T i = Hueco d s \<longleftrightarrow> \<not> ocupado (elements T ! i) \<and> s \<noteq> 0 \<and> bytes_disponibles (elements T ! i) = s
     \<and> data (item (elements T ! i)) = d"
  by (auto simp: celda_def celda_de_def)

lemma acum_celda:
  assumes "buddy_ok T" "i < table_max_size T" "\<not> (\<exists>d s. celda T i = Hueco d s)"
  shows "(if ocupado (elements T ! i)
      then if size_chunk T \<le> ndata (item (elements T ! i))
           then ndata (item (elements T ! i)) + bytes_inutilizados (elements T ! i) else size_chunk T
      else 0) = tam_celda (celda T i)"
proof (cases "celda T i = Nada")
  case False
  then have "celda_ok (size_chunk T) (celda T i)"
    using assms tejido_parte [of "size_chunk T" "size_chunk T * int (table_max_size T)" "celdas T" i]
    by (metis buddy_ok_def length_celdas nth_celdas)
  moreover obtain d n u k st t where c: "celda T i = Ocup d n u k st t"
    using assms(3) False by (cases "celda T i") auto
  moreover have "ocupado (elements T ! i)" "n = ndata (item (elements T ! i))" "u = bytes_inutilizados (elements T ! i)"
    using c by (simp_all add: celda_ocup)
  ultimately show ?thesis by auto
qed (auto simp: celda_def celda_de_def split: if_splits)

lemma last_nth_celdas: "Suc i = table_max_size T \<Longrightarrow> last (celdas T) = celda T i"
  by (metis length_celdas diff_Suc_1 last_conv_nth lessI list.size(3) nat.distinct(1) nth_celdas)

lemma take_suma:
  "i < table_max_size T \<Longrightarrow>
   sum_list (map tam_celda (take (Suc i) (celdas T))) = sum_list (map tam_celda (take i (celdas T))) + tam_celda (celda T i)"
  by (simp add: take_Suc_conv_app_nth)

lemma unir_paso_otro:
  assumes "elem T i = Some e" "ocupado e \<or> bytes_disponibles e = 0"
  shows "unir_pasada T (i # is) acum u = unir_pasada T is (acum + (if ocupado e
      then if size_chunk T \<le> ndata (item e) then ndata (item e) + bytes_inutilizados e else size_chunk T
      else 0)) u"
  using assms by (cases "ocupado e") simp_all

definition avanza :: "t_table_info \<Rightarrow> nat \<Rightarrow> int \<Rightarrow> bool \<Rightarrow> bool" where
  "avanza T i acum u \<longleftrightarrow> buddy_ok T \<and> (i = 0 \<longrightarrow> acum = 0)
     \<and> (u \<longrightarrow> last (celdas T) = Nada) \<and> (\<not> u \<longrightarrow> acum = sum_list (map tam_celda (take i (celdas T))))"

lemma avanza_igual:
  assumes "avanza T i acum u" "i < table_max_size T" "a = tam_celda (celda T i)"
  shows "avanza T (Suc i) (acum + a) u"
  using assms by (auto simp: avanza_def take_suma)

lemma avanza_unido:
  "conserva T T' \<Longrightarrow> last (celdas T') = Nada \<Longrightarrow> avanza T' (Suc i) acum True"
  by (auto simp: avanza_def conserva_def)

lemma hay_siguiente:
  assumes "avanza T i acum u" "i < table_max_size T" "celda T i = Hueco d s" "acum div s mod 2 = 0"
  shows "Suc i < table_max_size T"
proof (rule ccontr)
  assume "\<not> Suc i < table_max_size T"
  then have f: "Suc i = table_max_size T" using assms(2) by simp
  then have "\<not> u" using assms(1,3) last_nth_celdas [OF f] by (auto simp: avanza_def)
  then show False
    using ultimo_par [of "size_chunk T" "celdas T" i d s] assms f by (simp add: buddy_ok_def avanza_def)
qed

text \<open>One step of a pass: a union, or one cell more behind it.\<close>

lemma unir_paso_par:
  assumes a: "avanza T i acum u" "i < table_max_size T" and c: "celda T i = Hueco d s" and par: "acum div s mod 2 = 0"
  shows "\<exists>T1 acum' u1. unir_pasada T (i # is) acum u = unir_pasada T1 is acum' u1 \<and> conserva T T1
    \<and> avanza T1 (Suc i) acum' u1 \<and> (u1 = u \<and> T1 = T \<or> u1 \<and> llenas T1 < llenas T)"
proof -
  let ?e = "elements T ! i"
  have ok: "buddy_ok T" using a by (simp add: avanza_def)
  then have b: "tabla_bien T" by (simp add: buddy_ok_def)
  have e: "elem T i = Some ?e" "\<not> ocupado ?e" "bytes_disponibles ?e = s" "s \<noteq> 0" "data (item ?e) = d"
    using b a c by (auto simp: hueco_elem elem_bien)
  have h: "Suc i < table_max_size T" by (rule hay_siguiente [OF a c par])
  then have eh: "elem T (Suc i) = Some (elements T ! Suc i)" using b by (simp add: elem_bien)
  show ?thesis
  proof (cases "es_hermana ?e (elements T ! Suc i)")
    case her: True
    have "\<not> ocupado (unir (elements T ! Suc i) ?e)" "bytes_disponibles (unir (elements T ! Suc i) ?e) = s + s"
      "data (item (unir (elements T ! Suc i) ?e)) = d" using her e by (simp_all add: unir_def es_hermana_def)
    from junta_conserva [OF ok h c es_hermana_celda [OF c her] this]
    obtain T1 where T1: "desplazarUnoArriba (con_elem T (Suc i) (unir (elements T ! Suc i) ?e)) i = Some T1"
      "conserva T T1" "llenas T1 < llenas T" "last (celdas T1) = Nada" by metis
    have "tabla_bien T1" "i < table_max_size T1"
      using T1(2) a(2) by (auto simp: conserva_def buddy_ok_def solo_elementosD)
    then have "elem T1 i = Some (elements T1 ! i)" by (simp add: elem_bien)
    then have "unir_pasada T (i # is) acum u = unir_pasada T1 is (acum + bytes_disponibles (elements T1 ! i)) True"
      using eh e par her T1(1) by simp
    then show ?thesis using T1 avanza_unido [OF T1(2,4)] by blast
  next
    case False
    then have "unir_pasada T (i # is) acum u = unir_pasada T is (acum + s) u" using eh e par by simp
    then show ?thesis using conserva_refl [OF ok] avanza_igual [OF a, of s] c by auto
  qed
qed

lemma unir_paso_impar:
  assumes a: "avanza T i acum u" "i < table_max_size T" and c: "celda T i = Hueco d s" and impar: "acum div s mod 2 \<noteq> 0"
  shows "\<exists>T1 acum' u1. unir_pasada T (i # is) acum u = unir_pasada T1 is acum' u1 \<and> conserva T T1
    \<and> avanza T1 (Suc i) acum' u1 \<and> (u1 = u \<and> T1 = T \<or> u1 \<and> llenas T1 < llenas T)"
proof -
  let ?e = "elements T ! i"
  have ok: "buddy_ok T" using a by (simp add: avanza_def)
  then have b: "tabla_bien T" by (simp add: buddy_ok_def)
  have e: "elem T i = Some ?e" "\<not> ocupado ?e" "bytes_disponibles ?e = s" "s \<noteq> 0"
    using b a c by (auto simp: hueco_elem elem_bien)
  obtain q where q: "i = Suc q" using a(1) impar by (cases i) (auto simp: avanza_def)
  have eh: "elem T q = Some (elements T ! q)" using b a(2) q by (simp add: elem_bien)
  show ?thesis
  proof (cases "es_hermana ?e (elements T ! q)")
    case her: True
    have "\<not> ocupado (unir ?e (elements T ! q))" "bytes_disponibles (unir ?e (elements T ! q)) = s + s"
      "data (item (unir ?e (elements T ! q))) = data (item (elements T ! q))"
      using her e by (simp_all add: unir_def es_hermana_def)
    from junta_conserva [OF ok a(2) [unfolded q] es_hermana_celda [OF c her] c [unfolded q] this]
    obtain T1 where T1: "desplazarUnoArriba (con_elem T (Suc q) (unir ?e (elements T ! q))) q = Some T1"
      "conserva T T1" "llenas T1 < llenas T" "last (celdas T1) = Nada" by metis
    have "unir_pasada T (i # is) acum u = unir_pasada T1 is (acum + s) True"
      using eh e impar her T1(1) q by simp
    then show ?thesis using T1 avanza_unido [OF T1(2,4)] by blast
  next
    case False
    then have "unir_pasada T (i # is) acum u = unir_pasada T is (acum + s) u" using eh e impar q by simp
    then show ?thesis using conserva_refl [OF ok] avanza_igual [OF a, of s] c by auto
  qed
qed

lemma unir_paso:
  assumes a: "avanza T i acum u" "i < table_max_size T"
  shows "\<exists>T1 acum' u1. unir_pasada T (i # is) acum u = unir_pasada T1 is acum' u1 \<and> conserva T T1
    \<and> avanza T1 (Suc i) acum' u1 \<and> (u1 = u \<and> T1 = T \<or> u1 \<and> llenas T1 < llenas T)"
proof (cases "\<exists>d s. celda T i = Hueco d s")
  case True
  then show ?thesis using unir_paso_par [OF a] unir_paso_impar [OF a] by blast
next
  case False
  have ok: "buddy_ok T" using a by (simp add: avanza_def)
  have e: "elem T i = Some (elements T ! i)" using ok a(2) by (simp add: buddy_ok_def elem_bien)
  have "ocupado (elements T ! i) \<or> bytes_disponibles (elements T ! i) = 0" using False by (auto simp: hueco_elem)
  from unir_paso_otro [OF e this] acum_celda [OF ok a(2) False]
  have "unir_pasada T (i # is) acum u = unir_pasada T is (acum + tam_celda (celda T i)) u" by simp
  then show ?thesis using conserva_refl [OF ok] avanza_igual [OF a refl] by auto
qed

lemma unir_pasada_bien:
  assumes "avanza T i acum u" "i \<le> table_max_size T"
  shows "\<exists>u' T'. unir_pasada T [i..<table_max_size T] acum u = Some (u', T') \<and> conserva T T'
    \<and> (u \<longrightarrow> u') \<and> (u' \<and> \<not> u \<longrightarrow> llenas T' < llenas T)"
  using assms
proof (induction "table_max_size T - i" arbitrary: T i acum u)
  case 0
  then show ?case by (simp add: conserva_refl avanza_def)
next
  case (Suc k)
  let ?N = "table_max_size T"
  have i: "i < ?N" "[i..<?N] = i # [Suc i..<?N]" using Suc.hyps(2) by (simp_all add: upt_conv_Cons)
  obtain T1 acum' u1 where 1: "unir_pasada T (i # [Suc i..<?N]) acum u = unir_pasada T1 [Suc i..<?N] acum' u1"
      "conserva T T1" "avanza T1 (Suc i) acum' u1" "u1 = u \<and> T1 = T \<or> u1 \<and> llenas T1 < llenas T"
    using unir_paso [OF Suc.prems(1) i(1)] by blast
  have N: "table_max_size T1 = ?N" using 1(2) by (simp add: conserva_def solo_elementosD)
  have k: "k = table_max_size T1 - Suc i" "Suc i \<le> table_max_size T1" using Suc.hyps(2) N i by simp_all
  obtain u' T' where I: "unir_pasada T1 [Suc i..<?N] acum' u1 = Some (u', T')" "conserva T1 T'"
      "u1 \<longrightarrow> u'" "u' \<and> \<not> u1 \<longrightarrow> llenas T' < llenas T1"
    using Suc.hyps(1) [OF k(1) 1(3) k(2)] unfolding N by blast
  have "llenas T' \<le> llenas T1" using I(2) by (simp add: conserva_def)
  then have "u' \<and> \<not> u \<longrightarrow> llenas T' < llenas T" using I(4) 1(4) by auto
  then show ?case unfolding i(2) 1(1) using I(1,3) 1(4) conserva_trans [OF 1(2) I(2)] by blast
qed

text \<open>The passes end: each one that joins something leaves fewer partitions.\<close>

lemma unirTodasLasHermanas_bien:
  assumes "buddy_ok T"
  shows "\<exists>T'. unirTodasLasHermanas T = Some T' \<and> conserva T T'"
  using assms
proof (induction "llenas T" arbitrary: T rule: less_induct)
  case less
  have "avanza T 0 0 False" using less.prems by (simp add: avanza_def)
  then obtain u T1 where 1: "unir_pasada T [0..<table_max_size T] 0 False = Some (u, T1)" "conserva T T1"
      "u \<longrightarrow> llenas T1 < llenas T"
    using unir_pasada_bien [of T 0 0 False] by auto
  show ?case
  proof (cases u)
    case True
    then obtain T' where "unirTodasLasHermanas T1 = Some T'" "conserva T1 T'"
      using less.hyps [of T1] 1 by (auto simp: conserva_def)
    then show ?thesis using True 1 conserva_trans by (subst unirTodasLasHermanas.simps) auto
  next
    case False
    then show ?thesis using 1 by (subst unirTodasLasHermanas.simps) simp
  qed
qed

section \<open>The allocator\<close>

text \<open>
  The state of the engine between requests, relative to a row \<open>cs\<close> of cells: tiled, different keys, every
  item stored and stamped in the past, and the counter right.
\<close>

definition fila_ok :: "(nat \<Rightarrow> nat) \<Rightarrow> t_table_info \<Rightarrow> celda list \<Rightarrow> bool" where
  "fila_ok reloj T cs \<longleftrightarrow> tejido (size_chunk T) (size_chunk T * int (table_max_size T)) cs
     \<and> distinct (map clave (filter es_ocup cs))
     \<and> (\<forall>x \<in> set (filter es_ocup cs). guardada x \<and> sello x < reloj (lecturas T))
     \<and> elements_amount T = int (length (filter es_ocup cs))"

definition motor_ok :: "(nat \<Rightarrow> nat) \<Rightarrow> t_table_info \<Rightarrow> bool" where
  "motor_ok reloj T \<longleftrightarrow> buddy_ok T \<and> fila_ok reloj T (celdas T)"

lemma motor_okD:
  assumes "motor_ok reloj T"
  shows "buddy_ok T" "tabla_bien T" "claves_unicas T" "0 < size_chunk T"
    "\<forall>i < table_max_size T. \<forall>d n u k st t. celda T i = Ocup d n u k st t \<longrightarrow> st \<and> t < reloj (lecturas T)"
    "elements_amount T = int (length (items T))"
proof -
  show "\<forall>i < table_max_size T. \<forall>d n u k st t. celda T i = Ocup d n u k st t \<longrightarrow> st \<and> t < reloj (lecturas T)"
  proof (intro allI impI)
    fix i d n u k st t assume i: "i < table_max_size T" "celda T i = Ocup d n u k st t"
    then have "celda T i \<in> set (celdas T)" "es_ocup (celda T i)"
      using nth_mem [of i "celdas T"] by (simp_all del: es_ocup_celda)
    then have "celda T i \<in> set (items T)" by simp
    then have "guardada (celda T i) \<and> sello (celda T i) < reloj (lecturas T)"
      using assms unfolding motor_ok_def fila_ok_def by blast
    then show "st \<and> t < reloj (lecturas T)" using i by simp
  qed
qed (use assms in \<open>auto simp: motor_ok_def fila_ok_def buddy_ok_def claves_unicas_def\<close>)

lemma motor_ok_conserva: "motor_ok reloj T \<Longrightarrow> conserva T T' \<Longrightarrow> motor_ok reloj T'"
  by (auto simp: motor_ok_def conserva_def fila_ok_def buddy_ok_def solo_elementosD)

lemma filter_update_quita:
  assumes "i < length xs" "P (xs ! i)" "\<not> P y"
  shows "\<exists>as bs. filter P xs = as @ (xs ! i) # bs \<and> filter P (xs[i := y]) = as @ bs"
proof -
  have "xs = take i xs @ xs ! i # drop (Suc i) xs" using assms(1) by (simp add: id_take_nth_drop)
  then have "filter P xs = filter P (take i xs) @ (xs ! i) # filter P (drop (Suc i) xs)"
    using assms(2) by (metis filter.simps(2) filter_append)
  moreover have "filter P (xs[i := y]) = filter P (take i xs) @ filter P (drop (Suc i) xs)"
    using assms by (simp add: upd_conv_take_nth_drop)
  ultimately show ?thesis by blast
qed

lemma motor_ok_liberado:
  assumes "motor_ok reloj T" "p < table_max_size T" "celda T p = Ocup d n u k st t"
  shows "motor_ok reloj (liberado T p)"
    "\<exists>as bs. items T = as @ celda T p # bs \<and> items (liberado T p) = as @ bs"
    "celda (liberado T p) p = Hueco d (n + u)"
proof -
  note ok = motor_okD [OF assms(1)]
  let ?c = "size_chunk T"
  have tj: "tejido ?c (?c * int (table_max_size T)) (celdas T)" using ok(1) by (simp add: buddy_ok_def)
  have "celda_ok ?c (celda T p)"
    using tejido_parte [OF tj, of p] assms(2,3) by (metis celda.distinct(3) length_celdas nth_celdas)
  then have c: "0 \<le> n" "0 \<le> u" "\<exists>j. n + u = ?c * 2 ^ j" "n < ?c \<longrightarrow> n + u = ?c" using assms(3) by auto
  then have cs: "celdas (liberado T p) = (celdas T)[p := Hueco d (n + u)]"
    using celdas_liberado [OF ok(2) assms(2,3) ok(4)] by auto
  have tj': "tejido ?c (?c * int (table_max_size T)) ((celdas T)[p := Hueco d (n + u)])"
    by (rule tejido_cambia [OF tj]) (use assms(2,3) c(3) in auto)
  have "\<exists>as bs. items T = as @ (celdas T ! p) # bs \<and> filter es_ocup ((celdas T)[p := Hueco d (n + u)]) = as @ bs"
    using assms(2,3) by (intro filter_update_quita) (simp_all del: es_ocup_celda)
  then obtain as bs where ab: "items T = as @ celda T p # bs" "items (liberado T p) = as @ bs"
    using cs assms(2) by auto
  then show "\<exists>as bs. items T = as @ celda T p # bs \<and> items (liberado T p) = as @ bs" by blast
  have "buddy_ok (liberado T p)" using ok(1) tj' cs bien_liberado by (simp add: buddy_ok_def)
  moreover have "fila_ok reloj T (celdas T)" using assms(1) by (simp add: motor_ok_def)
  then have "distinct (map clave (as @ bs))" "\<forall>x \<in> set (as @ bs). guardada x \<and> sello x < reloj (lecturas T)"
    "elements_amount T - 1 = int (length (as @ bs))"
    unfolding fila_ok_def ab(1) by auto
  then have "fila_ok reloj (liberado T p) (celdas (liberado T p))"
    unfolding fila_ok_def ab(2) using tj' cs by simp
  ultimately show "motor_ok reloj (liberado T p)" by (simp add: motor_ok_def)
  show "celda (liberado T p) p = Hueco d (n + u)"
    using nth_celdas [of p "liberado T p"] cs assms(2) by simp
qed

lemma motor_ok_mas_tarde:
  assumes "motor_ok reloj T" "strict_mono reloj"
  shows "motor_ok reloj (T\<lparr>lecturas := Suc (lecturas T)\<rparr>)"
proof -
  have c: "celdas (T\<lparr>lecturas := Suc (lecturas T)\<rparr>) = celdas T" by (simp add: celdas_def celda_def)
  have "reloj (lecturas T) < reloj (Suc (lecturas T))" using assms(2) by (simp add: strict_mono_less)
  then show ?thesis using assms(1)
    by (fastforce simp: motor_ok_def buddy_ok_def fila_ok_def c tabla_bien_def)
qed

lemma desalojar_ok:
  assumes "motor_ok reloj T" "strict_mono reloj" "elements_amount T \<noteq> 0"
  obtains T' p d s where "desalojar reloj T = Some T'" "motor_ok reloj T'" "set (items T') \<subseteq> set (items T)"
    "p < table_max_size T'" "celda T' p = Hueco d s" "table_max_size T' = table_max_size T"
    "size_chunk T' = size_chunk T" "datos T' = datos T" "length (items T') < length (items T)"
proof -
  note ok = motor_okD [OF assms(1)]
  let ?T = "T\<lparr>lecturas := Suc (lecturas T)\<rparr>"
  have ne: "items T \<noteq> []" using assms(3) ok(6) by auto
  obtain p d n u k t where p: "p < table_max_size T" "celda T p = Ocup d n u k True t"
      "desalojar reloj T = Some (liberado ?T p)"
    by (rule desalojar_bien [where reloj = reloj, OF ok(2,3) ne ok(5)]) blast
  have c: "celda ?T = celda T" "celdas ?T = celdas T" by (simp_all add: celda_def fun_eq_iff celdas_def)
  note l = motor_ok_liberado [OF motor_ok_mas_tarde [OF assms(1,2)], of p d n u k True t, unfolded c]
  from l(2) p obtain as bs where "items T = as @ celda T p # bs" "items (liberado ?T p) = as @ bs" by auto
  then show thesis using that [OF p(3), of p d "n + u"] l(1,3) p by auto
qed

text \<open>
  The engine after a request of \<open>n\<close> bytes was granted: place \<open>p\<close> is a hole, starting at \<open>d\<close>, of the smallest
  admissible extent; every other item is one that was there before, in the same bytes.
\<close>

definition mismo_area :: "t_table_info \<Rightarrow> t_table_info \<Rightarrow> bool" where
  "mismo_area T T' \<longleftrightarrow> datos T' = datos T \<and> table_max_size T' = table_max_size T \<and> size_chunk T' = size_chunk T"

definition reservado :: "(nat \<Rightarrow> nat) \<Rightarrow> t_table_info \<Rightarrow> t_table_info \<Rightarrow> nat \<Rightarrow> int \<Rightarrow> int \<Rightarrow> bool" where
  "reservado reloj T T' p d n \<longleftrightarrow> (\<exists>i. let s = size_chunk T' * 2 ^ i in
     en_curso T' p d s \<and> fila_ok reloj T' (con_hueco T' p d s) \<and> n \<le> s \<and> (n < size_chunk T' \<longrightarrow> i = 0)
     \<and> set (filter es_ocup (con_hueco T' p d s)) \<subseteq> set (items T) \<and> mismo_area T T'
     \<and> 0 < size_chunk T' \<and> even (table_max_size T') \<and> \<not> ocupado (previo T'))"

lemma reservado_antes:
  "reservado reloj T1 T' p d n \<Longrightarrow> set (items T1) \<subseteq> set (items T) \<Longrightarrow> mismo_area T T1 \<Longrightarrow> reservado reloj T T' p d n"
  unfolding reservado_def Let_def mismo_area_def by (elim exE, rule_tac x = i in exI) auto

lemma buscarHueco_ok:
  assumes "motor_ok reloj T" "0 < n"
  shows "buscarHueco T n = Some (- 1, T) \<and> (\<forall>i < table_max_size T. \<forall>d s. celda T i = Hueco d s \<longrightarrow> s < n)
    \<or> (\<exists>T' p d. buscarHueco T n = Some (int p, T') \<and> reservado reloj T T' p d n)"
proof -
  let ?c = "size_chunk T"
  note ok = motor_okD [OF assms(1)]
  have b: "tejido ?c (?c * int (table_max_size T)) (celdas T)" "\<not> ocupado (previo T)" "even (table_max_size T)"
    using ok(1) by (simp_all add: buddy_ok_def)
  have sub: "set [0..<table_max_size T] \<subseteq> {..<table_max_size T}" by auto
  from buscarHueco_loop_bien [OF ok(2) b(1) assms(2) refl ok(4) b(2) sub]
  consider "buscarHueco T n = Some (- 1, T)" "\<forall>i < table_max_size T. \<forall>d s. celda T i = Hueco d s \<longrightarrow> s < n"
    | T' p d i where "buscarHueco T n = Some (int p, T')" "solo_elementos T T'" "en_curso T' p d (?c * 2 ^ i)"
      "tejido ?c (?c * int (table_max_size T)) (con_hueco T' p d (?c * 2 ^ i))"
      "filter es_ocup (con_hueco T' p d (?c * 2 ^ i)) = items T" "n \<le> ?c * 2 ^ i" "n < ?c \<longrightarrow> i = 0"
    unfolding buscarHueco_def by fastforce
  then show ?thesis
  proof cases
    case 2
    note s = solo_elementosD [OF 2(2)]
    have "fila_ok reloj T (celdas T)" using assms(1) by (simp add: motor_ok_def)
    then have "fila_ok reloj T' (con_hueco T' p d (?c * 2 ^ i))"
      using 2(4) unfolding fila_ok_def 2(5) s by simp
    then have "reservado reloj T T' p d n"
      unfolding reservado_def Let_def s using 2 b ok(4) s by (intro exI [of _ i]) (simp add: mismo_area_def)
    then show ?thesis using 2(1) by blast
  qed blast
qed

lemma buscar_uniendo_ok:
  assumes "motor_ok reloj T" "0 < n"
  shows "(\<exists>T1. buscar_uniendo T n = Some (- 1, T1) \<and> motor_ok reloj T1 \<and> set (items T1) = set (items T)
      \<and> mismo_area T T1 \<and> elements_amount T1 = elements_amount T
      \<and> (\<forall>i < table_max_size T. \<forall>d s. celda T i = Hueco d s \<longrightarrow> s < n))
    \<or> (\<exists>T' p d. buscar_uniendo T n = Some (int p, T') \<and> reservado reloj T T' p d n)"
proof -
  consider "buscarHueco T n = Some (- 1, T)" "\<forall>i < table_max_size T. \<forall>d s. celda T i = Hueco d s \<longrightarrow> s < n"
    | T' p d where "buscarHueco T n = Some (int p, T')" "reservado reloj T T' p d n"
    using buscarHueco_ok [OF assms] by blast
  then show ?thesis
  proof cases
    case 1
    obtain T1 where T1: "unirTodasLasHermanas T = Some T1" "conserva T T1"
      using unirTodasLasHermanas_bien [OF motor_okD(1) [OF assms(1)]] by blast
    have ok1: "motor_ok reloj T1" by (rule motor_ok_conserva [OF assms(1) T1(2)])
    have s: "set (items T1) = set (items T)" "mismo_area T T1" "elements_amount T1 = elements_amount T"
      using T1(2) by (auto simp: conserva_def mismo_area_def solo_elementosD)
    have u: "buscar_uniendo T n = buscarHueco T1 n" using 1(1) T1(1) by (simp add: buscar_uniendo_def)
    from buscarHueco_ok [OF ok1 assms(2)] show ?thesis
      unfolding u using 1(2) ok1 s reservado_antes [of reloj T1 _ _ _ n T] by blast
  next
    case 2
    then show ?thesis by (auto simp: buscar_uniendo_def)
  qed
qed

text \<open>Whatever the allocator returns is a reservation.\<close>

lemma buddysystem_ok:
  assumes ret: "buddysystem reloj T n = Some r" and "motor_ok reloj T" "strict_mono reloj" "0 < n"
  shows "\<exists>T' p d. r = (int p, T') \<and> reservado reloj T T' p d n"
proof -
  let ?P = "\<lambda>reloj T n r. motor_ok reloj T \<longrightarrow> strict_mono reloj \<longrightarrow> 0 < n \<longrightarrow>
      (\<exists>T' p d. r = (int p, T') \<and> reservado reloj T T' p d n)"
  have "?P reloj T n r"
  proof (rule buddysystem.raw_induct [where P = ?P, OF _ ret], intro impI)
    fix f reloj T n r
    assume IH: "\<And>reloj T n r. f reloj T n = Some r \<Longrightarrow> ?P reloj T n r"
      and eq: "do { (pos, self) \<leftarrow> buscar_uniendo T n;
          if pos = - 1
          then do { self \<leftarrow> (if elements_amount self \<noteq> 0 then desalojar reloj self else Some self);
                    f reloj self n }
          else Some (pos, self) } = Some r"
      and ok: "motor_ok reloj T" "strict_mono reloj" "0 < (n :: int)"
    from buscar_uniendo_ok [OF ok(1,3)]
    show "\<exists>T' p d. r = (int p, T') \<and> reservado reloj T T' p d n"
    proof (elim disjE exE conjE)
      fix T1 assume 1: "buscar_uniendo T n = Some (- 1, T1)" "motor_ok reloj T1" "set (items T1) = set (items T)"
        "mismo_area T T1"
      obtain T2 where 2: "f reloj T2 n = Some r" "motor_ok reloj T2" "set (items T2) \<subseteq> set (items T)" "mismo_area T T2"
      proof (cases "elements_amount T1 = 0")
        case True
        then show thesis using that eq 1 by simp
      next
        case False
        then obtain T2 where "desalojar reloj T1 = Some T2" "motor_ok reloj T2" "set (items T2) \<subseteq> set (items T1)"
            "mismo_area T1 T2"
          using desalojar_ok [OF 1(2) ok(2) False] by (metis mismo_area_def)
        then show thesis using that eq 1 False by (simp add: mismo_area_def)
      qed
      then show ?thesis using IH [OF 2(1)] ok reservado_antes by blast
    next
      fix T' p d assume "buscar_uniendo T n = Some (int p, T')" "reservado reloj T T' p d n"
      then show ?thesis using eq by auto
    qed
  qed
  then show ?thesis using assms(2-4) by blast
qed

text \<open>A request of at most one chunk is always granted, after at most one replacement.\<close>

lemma hay_hueco_o_item:
  assumes "motor_ok reloj T" "table_max_size T \<noteq> 0"
  shows "(\<exists>i < table_max_size T. \<exists>d s. celda T i = Hueco d s \<and> size_chunk T \<le> s) \<or> elements_amount T \<noteq> 0"
proof -
  note ok = motor_okD [OF assms(1)]
  let ?c = "size_chunk T"
  have tj: "tejido ?c (?c * int (table_max_size T)) (celdas T)" using ok(1) by (simp add: buddy_ok_def)
  have "celda T 0 \<noteq> Nada"
  proof
    assume "celda T 0 = Nada"
    then have h: "hd (celdas T) = Nada"
      using assms(2) by (metis hd_conv_nth length_0_conv length_celdas neq0_conv nth_celdas)
    obtain xs m where x: "celdas T = xs @ replicate m Nada" "teje ?c 0 xs (?c * int (table_max_size T))"
      using tj by (auto simp: tejido_def)
    have "xs = []" using h x teje_no_Nada [OF x(2)] by (cases xs) auto
    then show False using x(2) ok(4) assms(2) by simp
  qed
  moreover have "celda_ok ?c (celda T 0)"
    using tejido_parte [OF tj, of 0] calculation assms(2) by (metis length_celdas neq0_conv nth_celdas)
  ultimately show ?thesis
  proof (cases "celda T 0")
    case (Hueco d s)
    then show ?thesis using celda_ok_tam [OF ok(4) \<open>celda_ok ?c (celda T 0)\<close>] assms(2) by auto
  next
    case (Ocup d n u k st t)
    then have "celda T 0 \<in> set (items T)"
      using nth_mem [of 0 "celdas T"] assms(2) by (simp del: es_ocup_celda)
    then have "items T \<noteq> []" by (metis empty_iff empty_set)
    then show ?thesis using ok(6) by simp
  qed simp
qed

lemma buddysystem_un_bloque:
  assumes "motor_ok reloj T" "strict_mono reloj" "0 < n" "n \<le> size_chunk T" "table_max_size T \<noteq> 0"
  shows "\<exists>T' p d. buddysystem reloj T n = Some (int p, T') \<and> reservado reloj T T' p d n"
proof -
  have "\<exists>r. buddysystem reloj T n = Some r"
  proof -
    have *: "\<exists>r. buddysystem reloj T' n = Some r"
      if h: "motor_ok reloj T'" "size_chunk T' = size_chunk T" "i < table_max_size T'" "celda T' i = Hueco d s" for T' i d s
    proof -
      have "celda_ok (size_chunk T') (celda T' i)"
        using h motor_okD(1) [OF h(1)] tejido_parte [of "size_chunk T'" _ "celdas T'" i]
        by (metis buddy_ok_def celda.distinct(1) length_celdas nth_celdas)
      then have "size_chunk T' \<le> s" using celda_ok_tam [OF motor_okD(4) [OF h(1)]] h(4) by fastforce
      then have "\<not> s < n" using h(2) assms(4) by linarith
      then obtain T'' q where "buscar_uniendo T' n = Some (int q, T'')"
        using buscar_uniendo_ok [OF h(1) assms(3)] h(3,4) by blast
      then show ?thesis by (subst buddysystem.simps) simp
    qed
    from buscar_uniendo_ok [OF assms(1,3)] show ?thesis
    proof (elim disjE exE conjE)
      fix T1 assume 1: "buscar_uniendo T n = Some (- 1, T1)" "motor_ok reloj T1" "mismo_area T T1"
        "elements_amount T1 = elements_amount T" "\<forall>i < table_max_size T. \<forall>d s. celda T i = Hueco d s \<longrightarrow> s < n"
      have am: "elements_amount T1 \<noteq> 0" using hay_hueco_o_item [OF assms(1,5)] 1(4,5) assms(4)
        by (metis leD order_trans)
      obtain T2 p d s where 2: "desalojar reloj T1 = Some T2" "motor_ok reloj T2" "size_chunk T2 = size_chunk T"
          "p < table_max_size T2" "celda T2 p = Hueco d s"
        by (rule desalojar_ok [OF 1(2) assms(2) am]) (use 1(3) in \<open>simp add: mismo_area_def\<close>)
      show ?thesis using * [OF 2(2-5)] 1(1) 2(1) am by (subst buddysystem.simps) simp
    next
      fix T' p d assume "buscar_uniendo T n = Some (int p, T')"
      then show ?thesis by (subst buddysystem.simps) simp
    qed
  qed
  then show ?thesis using buddysystem_ok [OF _ assms(1-3)] by blast
qed

section \<open>The cells do not overlap\<close>

lemma teje_dentro:
  "0 < c \<Longrightarrow> teje c a xs b \<Longrightarrow> x \<in> set xs \<Longrightarrow> a \<le> inicio x \<and> inicio x + tam_celda x \<le> b"
proof (induction xs arbitrary: a)
  case (Cons y ys)
  have "c \<le> tam_celda y" using celda_ok_tam Cons.prems by simp
  moreover have "a + tam_celda y \<le> b"
    using teje_largo [OF Cons.prems(1), of "a + tam_celda y" ys b] Cons.prems by simp (smt (verit) mult_nonneg_nonneg of_nat_0_le_iff)
  ultimately show ?case using Cons.IH [of "a + tam_celda y"] Cons.prems by auto
qed simp

lemma tejido_dentro:
  assumes "0 < c" "tejido c b cs" "x \<in> set cs" "x \<noteq> Nada"
  shows "0 \<le> inicio x \<and> inicio x + tam_celda x \<le> b"
  using assms teje_dentro by (fastforce simp: tejido_def)

lemma tejido_disjuntas:
  assumes "0 < c" "tejido c b cs" "i < j" "j < length cs" "cs ! i \<noteq> Nada" "cs ! j \<noteq> Nada"
  shows "inicio (cs ! i) + tam_celda (cs ! i) \<le> inicio (cs ! j)"
proof -
  from tejido_parte [OF assms(2,4,6)] obtain ys zs m a where p: "cs = ys @ (cs ! j) # zs @ replicate m Nada"
    "length ys = j" "teje c 0 ys a" "inicio (cs ! j) = a" by metis
  have "cs ! i = ys ! i" by (subst p(1)) (use p(2) assms(3) in \<open>simp add: nth_append\<close>)
  then have "cs ! i \<in> set ys" using assms(3) p(2) by simp
  then show ?thesis using teje_dentro [OF assms(1) p(3)] p(4) by auto
qed

lemma tejido_otra:
  assumes "0 < c" "tejido c b cs" "p < length cs" "cs ! p \<noteq> Nada" "x \<in> set cs" "x \<noteq> Nada" "x \<noteq> cs ! p"
  shows "inicio x + tam_celda x \<le> inicio (cs ! p) \<or> inicio (cs ! p) + tam_celda (cs ! p) \<le> inicio x"
proof -
  from assms(5) obtain i where "i < length cs" "cs ! i = x" by (auto simp: in_set_conv_nth)
  then show ?thesis
    using tejido_disjuntas [OF assms(1,2), of i p] tejido_disjuntas [OF assms(1,2), of p i] assms
    by (cases i p rule: linorder_cases) auto
qed

section \<open>When the allocator does not return\<close>

lemma unir_pasada_True: "unir_pasada T is a True = Some (u, T') \<Longrightarrow> u"
proof (induction "is" arbitrary: T a)
  case (Cons i "is")
  then show ?case by (auto simp: Let_def split: bind_splits if_splits)
qed simp

lemma unir_pasada_quieta: "unir_pasada T is a False = Some (False, T') \<Longrightarrow> T' = T"
proof (induction "is" arbitrary: a)
  case (Cons i "is")
  then show ?case by (auto simp: Let_def split: bind_splits if_splits dest: unir_pasada_True)
qed simp

lemma buscarHueco_loop_lleno:
  assumes "\<forall>e \<in> set (elements T). ocupado e \<or> bytes_disponibles e < n" "set is \<subseteq> {..<length (elements T)}"
  shows "buscarHueco_loop T n is = Some (- 1, T)"
  using assms(2)
proof (induction "is")
  case (Cons i "is")
  then have "elem T i = Some (elements T ! i)" "ocupado (elements T ! i) \<or> bytes_disponibles (elements T ! i) < n"
    using assms(1) by (auto simp: elem_def)
  then show ?case using Cons by auto
qed simp

lemma buscarHueco_lleno:
  assumes "\<forall>e \<in> set (elements T). ocupado e \<or> bytes_disponibles e < n" "table_max_size T = length (elements T)"
  shows "buscarHueco T n = Some (- 1, T)"
proof -
  have "set [0..<table_max_size T] \<subseteq> {..<length (elements T)}" using assms(2) by auto
  then show ?thesis unfolding buscarHueco_def using buscarHueco_loop_lleno [OF assms(1)] by blast
qed

lemma buddysystem_gira:
  assumes "buscar_uniendo T n = Some (- 1, T)" "elements_amount T = 0"
  shows "buddysystem reloj T n = None"
proof (rule ccontr)
  assume "buddysystem reloj T n \<noteq> None"
  then obtain r where ret: "buddysystem reloj T n = Some r" by auto
  let ?P = "\<lambda>reloj' T' n' r. \<not> (T' = T \<and> n' = n)"
  have "?P reloj T n r"
  proof (rule buddysystem.raw_induct [where P = ?P, OF _ ret])
    fix f :: "(nat \<Rightarrow> nat) \<Rightarrow> t_table_info \<Rightarrow> int \<Rightarrow> (int \<times> t_table_info) option" and reloj' T' n' r
    assume IH: "\<And>reloj' T' n' r. f reloj' T' n' = Some r \<Longrightarrow> ?P reloj' T' n' r"
      and eq: "do { (pos, self) \<leftarrow> buscar_uniendo T' n';
          if pos = - 1
          then do { self \<leftarrow> (if elements_amount self \<noteq> 0 then desalojar reloj' self else Some self);
                    f reloj' self n' }
          else Some (pos, self) } = Some r"
    show "?P reloj' T' n' r"
    proof
      assume T': "T' = T \<and> n' = n"
      then have "f reloj' T n = Some r" using eq assms by simp
      then show False using IH by blast
    qed
  qed
  then show False by simp
qed

end
