(* ===== verification/Compactacion.thy ===== *)
theory Compactacion
  imports Tabla
begin

text \<open>
  The dynamic partitions of the cache engine: \<^verbatim>\<open>rc/src/collections/compactacion.c\<close> and the two
  routines of \<^verbatim>\<open>miDiccionario.c\<close> that only this scheme calls.
\<close>

section \<open>Creating an element\<close>

text \<open>\<^verbatim>\<open>desplazarAbajo\<close> copies whole elements, occupied or not.\<close>

definition copiar_elem :: "t_table_info \<Rightarrow> nat \<Rightarrow> nat \<Rightarrow> t_table_info option" where
  "copiar_elem self destino origen =
     do { s \<leftarrow> elem self origen;
          _ \<leftarrow> elem self destino;
          copiar_clave (con_elem self destino s) destino origen (nkey (item s)) }"

primrec abajo_copias :: "t_table_info \<Rightarrow> nat list \<Rightarrow> t_table_info option" where
  "abajo_copias self [] = Some self"
| "abajo_copias self (p # ps) = do { self \<leftarrow> copiar_elem self p (p - 1); abajo_copias self ps }"

text \<open>It is called with \<open>pos = Suc anterior\<close>.\<close>

definition desplazarAbajo :: "t_table_info \<Rightarrow> nat \<Rightarrow> int \<Rightarrow> t_table_info option" where
  "desplazarAbajo self pos disponibles =
     do { self \<leftarrow> abajo_copias self (rev [Suc pos..<table_max_size self]);
          a \<leftarrow> elem self (pos - 1);
          e \<leftarrow> elem self pos;
          let desde = data (item a) + (if ndata (item a) < size_chunk self then size_chunk self
                                       else ndata (item a));
          Some (con_elem self pos
            (e\<lparr>ocupado := False, bytes_disponibles := disponibles, bytes_inutilizados := 0,
               item := (item e)\<lparr>data := desde\<rparr>\<rparr>)) }"

definition micache_create_element ::
  "(nat \<Rightarrow> nat) \<Rightarrow> t_table_info \<Rightarrow> u8 list \<Rightarrow> nat \<Rightarrow> int \<Rightarrow> int \<Rightarrow> t_table_info option" where
  "micache_create_element reloj self key pos size_data chunk =
     do { self \<leftarrow> poner_clave self pos key;
          e \<leftarrow> elem self pos;
          self \<leftarrow> lru_get reloj
            (con_elem self pos
              (e\<lparr>item := (item e)\<lparr>ndata := size_data, nkey := length key\<rparr>, ocupado := True\<rparr>)) pos;
          e \<leftarrow> elem self pos;
          self \<leftarrow>
            (if size_data \<le> bytes_disponibles e then
               do { sig \<leftarrow> elem self (Suc pos);
                    let usado = (if size_data < chunk then chunk else size_data);
                    let disponibles = bytes_disponibles e - usado;
                    let self = self\<lparr>espacio_libre := espacio_libre self - usado\<rparr>;
                    if ocupado sig then
                      if chunk \<le> disponibles then desplazarAbajo self (Suc pos) disponibles
                      else Some (con_elem self pos (e\<lparr>bytes_inutilizados := disponibles\<rparr>))
                    else
                      let sig = sig\<lparr>item := (item sig)\<lparr>data := data (item e) + usado\<rparr>\<rparr> in
                      if chunk \<le> disponibles then
                        Some (con_elem self (Suc pos)
                          (sig\<lparr>bytes_disponibles := bytes_disponibles sig + disponibles\<rparr>))
                      else
                        Some (con_elem (con_elem self (Suc pos) sig) pos
                          (e\<lparr>bytes_inutilizados := disponibles\<rparr>)) }
             else Some self);
          e \<leftarrow> elem self pos;
          Some ((con_elem self pos (e\<lparr>bytes_disponibles := 0\<rparr>))
            \<lparr>elements_amount := elements_amount self + 1\<rparr>) }"

section \<open>Looking for a hole\<close>

definition juntarParticionesVacias :: "t_table_info \<Rightarrow> nat \<Rightarrow> nat \<Rightarrow> t_table_info option" where
  "juntarParticionesVacias self pos cantVacios = mover_elem self (pos + 1 - cantVacios) pos"

primrec vaciar :: "t_table_info \<Rightarrow> nat list \<Rightarrow> t_table_info option" where
  "vaciar self [] = Some self"
| "vaciar self (p # ps) =
     do { e \<leftarrow> elem self p; vaciar (con_elem self p (e\<lparr>ocupado := False, bytes_disponibles := 0\<rparr>)) ps }"

primrec juntar_resto :: "t_table_info \<Rightarrow> nat \<Rightarrow> nat list \<Rightarrow> t_table_info option" where
  "juntar_resto self cantVacios [] = Some self"
| "juntar_resto self cantVacios (p # ps) =
     do { self \<leftarrow> juntarParticionesVacias self p cantVacios; juntar_resto self cantVacios ps }"

text \<open>
  The run of \<open>cantVacios\<close> holes from \<open>pos_bytes\<close> on becomes one hole. The last element of the table
  is not moved, and the places that were left keep their old contents.
\<close>

definition tomar_hueco :: "t_table_info \<Rightarrow> nat \<Rightarrow> nat \<Rightarrow> int \<Rightarrow> t_table_info option" where
  "tomar_hueco self pos_bytes cantVacios suma =
     do { e \<leftarrow> elem self pos_bytes;
          let self = con_elem self pos_bytes (e\<lparr>bytes_disponibles := suma\<rparr>);
          if 1 < cantVacios then
            do { self \<leftarrow> vaciar self [pos_bytes + 1..<pos_bytes + cantVacios];
                 juntar_resto self cantVacios [pos_bytes + cantVacios..<table_max_size self - 1] }
          else Some self }"

text \<open>\<open>pos_bytes\<close> is read before it was assigned only when the chunk size is not positive.\<close>

primrec first_fit_loop ::
  "t_table_info \<Rightarrow> int \<Rightarrow> nat list \<Rightarrow> int \<Rightarrow> nat \<Rightarrow> nat option \<Rightarrow> (int \<times> t_table_info) option" where
  "first_fit_loop self size_data [] free_bytes_amount cantVacios pos_bytes = Some (- 1, self)"
| "first_fit_loop self size_data (i # is) free_bytes_amount cantVacios pos_bytes =
     do { e \<leftarrow> elem self i;
          if ocupado e then first_fit_loop self size_data is 0 0 pos_bytes
          else
            let (libres, cant, desde) =
              (if bytes_disponibles e \<noteq> 0
               then (free_bytes_amount + bytes_disponibles e, Suc cantVacios,
                     if cantVacios = 0 then Some i else pos_bytes)
               else (free_bytes_amount, cantVacios, pos_bytes)) in
            if size_data \<le> libres \<and> size_chunk self \<le> libres then
              do { p \<leftarrow> desde; self \<leftarrow> tomar_hueco self p cant libres; Some (int p, self) }
            else first_fit_loop self size_data is libres cant desde }"

definition first_fit :: "t_table_info \<Rightarrow> int \<Rightarrow> (int \<times> t_table_info) option" where
  "first_fit self size_data = first_fit_loop self size_data [0..<table_max_size self] 0 0 None"

text \<open>The best hole so far is \<open>(posmin, vaciosmin)\<close> with \<open>minimo\<close> bytes.\<close>

primrec best_fit_loop ::
  "t_table_info \<Rightarrow> int \<Rightarrow> nat list \<Rightarrow> int \<Rightarrow> nat \<Rightarrow> nat \<Rightarrow> int \<Rightarrow> (nat \<times> nat) option
    \<Rightarrow> (int \<times> (nat \<times> nat) option) option" where
  "best_fit_loop self size_data [] free_bytes_amount cantVacios pos_bytes minimo mejor =
     Some (minimo, mejor)"
| "best_fit_loop self size_data (i # is) free_bytes_amount cantVacios pos_bytes minimo mejor =
     do { e \<leftarrow> elem self i;
          if ocupado e \<or> bytes_disponibles e = 0
          then best_fit_loop self size_data is 0 0 pos_bytes minimo mejor
          else
            let libres = free_bytes_amount + bytes_disponibles e;
                desde = (if cantVacios = 0 then i else pos_bytes) in
            if size_data \<le> libres \<and> size_chunk self \<le> libres \<and> libres < minimo
            then best_fit_loop self size_data is libres (Suc cantVacios) desde libres
                   (Some (desde, Suc cantVacios))
            else best_fit_loop self size_data is libres (Suc cantVacios) desde minimo mejor }"

definition best_fit :: "t_table_info \<Rightarrow> int \<Rightarrow> (int \<times> t_table_info) option" where
  "best_fit self size_data =
     do { (minimo, mejor) \<leftarrow>
            best_fit_loop self size_data [0..<table_max_size self] 0 0 0 (espacio_libre self + 1) None;
          case mejor of
            None \<Rightarrow> Some (- 1, self)
          | Some (posmin, vaciosmin) \<Rightarrow>
              do { self \<leftarrow> tomar_hueco self posmin vaciosmin minimo; Some (int posmin, self) } }"

definition buscar_lugar_cache :: "string \<Rightarrow> t_table_info \<Rightarrow> int \<Rightarrow> (int \<times> t_table_info) option" where
  "buscar_lugar_cache alg_busq self nbytes_data =
     (if alg_busq = ''first_fit'' then first_fit self nbytes_data else best_fit self nbytes_data)"

section \<open>Compaction\<close>

text \<open>\<^verbatim>\<open>memmove\<close> of the bytes of an item.\<close>

definition mover_datos :: "t_table_info \<Rightarrow> int \<Rightarrow> int \<Rightarrow> int \<Rightarrow> t_table_info option" where
  "mover_datos self destino origen n =
     do { bs \<leftarrow> mem_read (datos self) origen (nat n);
          a \<leftarrow> mem_write (datos self) destino bs;
          Some (self\<lparr>datos := a\<rparr>) }"

definition desplazarArriba :: "t_table_info \<Rightarrow> nat \<Rightarrow> nat \<Rightarrow> t_table_info option" where
  "desplazarArriba self topos cantVacios =
     do { let dsdpos = topos + cantVacios;
          s \<leftarrow> elem self dsdpos;
          d \<leftarrow> elem self topos;
          self \<leftarrow> copiar_clave self topos dsdpos (nkey (item s));
          comienzo \<leftarrow>
            (if topos = 0 then Some (data (item d))
             else do { a \<leftarrow> elem self (topos - 1);
                       Some (data (item a) + (if size_chunk self < ndata (item a) then ndata (item a)
                                              else size_chunk self)) });
          let self = con_elem self topos (s\<lparr>item := (item s)\<lparr>data := comienzo\<rparr>\<rparr>);
          self \<leftarrow> mover_datos self comienzo (data (item s)) (ndata (item s));
          s \<leftarrow> elem self dsdpos;
          Some (con_elem self dsdpos
            (s\<lparr>ocupado := False, bytes_inutilizados := 0, bytes_disponibles := 0\<rparr>)) }"

primrec desplazar_ocupados :: "t_table_info \<Rightarrow> nat \<Rightarrow> nat list \<Rightarrow> t_table_info option" where
  "desplazar_ocupados self cantVacios [] = Some self"
| "desplazar_ocupados self cantVacios (p # ps) =
     do { self \<leftarrow> desplazarArriba self p cantVacios; desplazar_ocupados self cantVacios ps }"

text \<open>The run of free partitions from \<open>pos1\<close> on: its length and its bytes, and whether the table ends with it.\<close>

primrec contar_vacios :: "t_table_info \<Rightarrow> nat list \<Rightarrow> int \<Rightarrow> nat \<Rightarrow> (bool \<times> int \<times> nat \<times> t_table_info) option" where
  "contar_vacios self [] acum cant = Some (True, acum, cant, self)"
| "contar_vacios self (p # ps) acum cant =
     do { e \<leftarrow> elem self p;
          if ocupado e then Some (False, acum, cant, self)
          else contar_vacios (con_elem self p (e\<lparr>bytes_disponibles := 0\<rparr>)) ps
                 (acum + bytes_disponibles e) (Suc cant) }"

text \<open>
  The run of occupied partitions after it. The condition of the loop reads the element before it
  looks at the flag, so a run that reaches the end of the table reads one element past it.
\<close>

primrec contar_ocupados :: "t_table_info \<Rightarrow> nat list \<Rightarrow> int \<Rightarrow> nat \<Rightarrow> (int \<times> nat \<times> t_table_info) option" where
  "contar_ocupados self [] nuevos cant = None"
| "contar_ocupados self (p # ps) nuevos cant =
     do { e \<leftarrow> elem self p;
          if \<not> ocupado e then Some (nuevos, cant, self)
          else contar_ocupados (con_elem self p (e\<lparr>bytes_inutilizados := 0\<rparr>)) ps
                 (nuevos + bytes_inutilizados e) (Suc cant) }"

text \<open>It is called with \<open>pos\<close> free, so neither run is empty when the partitions move.\<close>

definition compactar :: "t_table_info \<Rightarrow> nat \<Rightarrow> (bool \<times> t_table_info) option" where
  "compactar self pos =
     do { (fin, acum_bytes_disp, cantVacios, self) \<leftarrow>
            contar_vacios self [pos..<table_max_size self] 0 0;
          if fin then
            do { e \<leftarrow> elem self pos;
                 Some (False, con_elem self pos
                   (e\<lparr>bytes_disponibles := acum_bytes_disp, bytes_inutilizados := 0\<rparr>)) }
          else
            do { (nuevos, cantOcupados, self) \<leftarrow>
                   contar_ocupados self [pos + cantVacios..<table_max_size self] 0 0;
                 self \<leftarrow> desplazar_ocupados self cantVacios [pos..<pos + cantOcupados];
                 let posAux = pos + cantOcupados - 1;
                 let totalDisponibles = nuevos + acum_bytes_disp;
                 e \<leftarrow> elem self posAux;
                 if totalDisponibles < size_chunk self then
                   Some (True, con_elem self posAux (e\<lparr>bytes_inutilizados := totalDisponibles\<rparr>))
                 else
                   do { sig \<leftarrow> elem self (Suc posAux);
                        let desde = data (item e) + (if size_chunk self < ndata (item e) then ndata (item e)
                                                     else size_chunk self);
                        Some (True, con_elem self (Suc posAux)
                          (sig\<lparr>item := (item sig)\<lparr>data := desde\<rparr>, bytes_disponibles := totalDisponibles\<rparr>)) } } }"

text \<open>The loop stops only when \<^verbatim>\<open>compactar\<close> returns false; with no free element left it leaves the table.\<close>

primrec compactar_todo :: "t_table_info \<Rightarrow> nat list \<Rightarrow> t_table_info option" where
  "compactar_todo self [] = None"
| "compactar_todo self (i # is) =
     do { e \<leftarrow> elem self i;
          if \<not> ocupado e then
            do { (fin, self) \<leftarrow> compactar self i;
                 if fin then compactar_todo self is else Some self }
          else compactar_todo self is }"

partial_function (option) compactacion_loop ::
  "(nat \<Rightarrow> nat) \<Rightarrow> t_table_info \<Rightarrow> int \<Rightarrow> int \<Rightarrow> string \<Rightarrow> int \<Rightarrow> (int \<times> t_table_info) option" where
  [code]: "compactacion_loop reloj self frecuencia nbytes_data alg_busq busquedasFallidas =
     do { (lugar, self) \<leftarrow> buscar_lugar_cache alg_busq self nbytes_data;
          if lugar = - 1 then
            do { self \<leftarrow>
                   (if busquedasFallidas + 1 = frecuencia \<or> elements_amount self = 0
                    then compactar_todo self [0..<table_max_size self]
                    else desalojar reloj self);
                 compactacion_loop reloj self frecuencia nbytes_data alg_busq (busquedasFallidas + 1) }
          else Some (lugar, self) }"

definition compactacion ::
  "(nat \<Rightarrow> nat) \<Rightarrow> t_table_info \<Rightarrow> int \<Rightarrow> int \<Rightarrow> string \<Rightarrow> (int \<times> t_table_info) option" where
  "compactacion reloj self frecuencia nbytes_data alg_busq =
     compactacion_loop reloj self frecuencia nbytes_data alg_busq 0"

end
