(* ===== verification/Motor.thy ===== *)
theory Motor
  imports Buddy Compactacion Cache
begin

text \<open>
  The cache engine: \<^verbatim>\<open>rc/src/my_engine.c\<close>. One definition per entry of the engine interface. The
  daemon that calls them (\<^verbatim>\<open>memcached-1.6/daemon/memcached.c\<close>) serves one request after the other:
  \<^verbatim>\<open>set\<close> is allocate, copy the value, store, release, and a failed allocation removes the key;
  \<^verbatim>\<open>get\<close> is get and release; \<^verbatim>\<open>delete\<close> is remove. An \<^verbatim>\<open>item *\<close> is the index of its element.
\<close>

section \<open>The engine interface\<close>

datatype ENGINE_ERROR_CODE = ENGINE_SUCCESS | ENGINE_KEY_ENOENT | ENGINE_KEY_EEXISTS | ENGINE_ENOMEM
  | ENGINE_NOT_STORED | ENGINE_EINVAL | ENGINE_ENOTSUP | ENGINE_EWOULDBLOCK | ENGINE_E2BIG | ENGINE_WANT_MORE
  | ENGINE_DISCONNECT | ENGINE_EACCESS | ENGINE_NOT_MY_VBUCKET | ENGINE_TMPFAIL | ENGINE_ERANGE | ENGINE_FAILED

record t_engine =
  cache :: t_table_info
  block_size_max :: int
  chunk_size :: int
  esquema :: string
  alg_busqueda :: string
  alg_reemplazo :: string
  frecuenciaCompactacion :: int

text \<open>
  The table after \<^verbatim>\<open>cache_initialize\<close>, given what the allocated areas happen to hold: only the state of
  each element, and the extent of the first one, are assigned.
\<close>

definition cache_initialize ::
  "int \<Rightarrow> int \<Rightarrow> t_array list \<Rightarrow> (nat \<Rightarrow> u8) \<Rightarrow> (nat \<Rightarrow> u8) \<Rightarrow> t_array \<Rightarrow> t_table_info option" where
  "cache_initialize size_Max_cache size_min_chunk arreglo bytes_claves bytes_datos delante =
     (if size_min_chunk = 0 then None else
      let totalNodos = nat (size_Max_cache div size_min_chunk) in
      if length arreglo \<noteq> totalNodos then None else
      let es = map (\<lambda>e. e\<lparr>ocupado := False\<rparr>) arreglo in
      (case es of
         [] \<Rightarrow> None
       | e # es \<Rightarrow>
           Some \<lparr>elements = e\<lparr>item := (item e)\<lparr>data := 0\<rparr>, bytes_disponibles := size_Max_cache,
                              bytes_inutilizados := 0\<rparr> # es,
                 table_max_size = totalNodos, elements_amount = 0, espacio_libre = size_Max_cache,
                 size_chunk = size_min_chunk,
                 claves = \<lparr>dk_len = 61 * totalNodos, dk_byte = bytes_claves\<rparr>,
                 datos = \<lparr>dk_len = nat size_Max_cache, dk_byte = bytes_datos\<rparr>,
                 previo = delante, lecturas = 0\<rparr>))"

definition item_release :: "t_table_info \<Rightarrow> nat \<Rightarrow> t_table_info option" where
  "item_release self it =
     do { e \<leftarrow> elem self it;
          if stored (item e) then Some self
          else do { k \<leftarrow> leer_clave self it (nkey (item e)); micache_remove self k } }"

text \<open>The key is first copied, with a terminator, into \<^verbatim>\<open>char bufftemp[100]\<close>.\<close>

definition item_allocate ::
  "(nat \<Rightarrow> nat) \<Rightarrow> t_engine \<Rightarrow> u8 list \<Rightarrow> int
    \<Rightarrow> (ENGINE_ERROR_CODE \<times> nat \<times> t_table_info) option" where
  "item_allocate reloj engine key nbytes =
     (if 100 \<le> length key then None
      else if block_size_max engine < nbytes then Some (ENGINE_ENOMEM, 0, cache engine)
      else
        do { let self = cache engine;
             estaGuardado \<leftarrow> micache_search_element self key;
             self \<leftarrow> (if estaGuardado \<noteq> - 1 then micache_remove self key else Some self);
             (pdata, self) \<leftarrow>
               (if esquema engine = ''particionesdinamicas''
                then compactacion reloj self (frecuenciaCompactacion engine) nbytes (alg_busqueda engine)
                else buddysystem reloj self nbytes);
             if pdata = - 1 then Some (ENGINE_ENOMEM, 0, self)
             else
               do { self \<leftarrow>
                      (if esquema engine = ''particionesdinamicas''
                       then micache_create_element reloj self key (nat pdata) nbytes (chunk_size engine)
                       else buddy_create_element reloj self key (nat pdata) nbytes);
                    Some (ENGINE_SUCCESS, nat pdata, self) } })"

definition get_info ::
  "(nat \<Rightarrow> nat) \<Rightarrow> t_engine \<Rightarrow> u8 list \<Rightarrow> (ENGINE_ERROR_CODE \<times> nat \<times> t_table_info) option" where
  "get_info reloj engine key =
     (if 100 \<le> length key then None
      else
        do { let self = cache engine;
             pos \<leftarrow> micache_search_element self key;
             if pos = - 1 then Some (ENGINE_KEY_ENOENT, 0, self)
             else
               do { self \<leftarrow> (if alg_reemplazo engine = ''lru'' then lru_get reloj self (nat pos) else Some self);
                    Some (ENGINE_SUCCESS, nat pos, self) } })"

text \<open>The bytes that \<^verbatim>\<open>get_item_info\<close> points to.\<close>

definition get_item_info :: "t_table_info \<Rightarrow> nat \<Rightarrow> u8 list option" where
  "get_item_info self it =
     do { e \<leftarrow> elem self it; mem_read (datos self) (data (item e)) (nat (ndata (item e))) }"

definition store_info :: "t_table_info \<Rightarrow> nat \<Rightarrow> t_table_info option" where
  "store_info self it =
     do { e \<leftarrow> elem self it; Some (con_elem self it (e\<lparr>item := (item e)\<lparr>stored := True\<rparr>\<rparr>)) }"

definition delete_one :: "t_table_info \<Rightarrow> u8 list \<Rightarrow> (ENGINE_ERROR_CODE \<times> t_table_info) option" where
  "delete_one self key =
     do { pos \<leftarrow> micache_search_element self key;
          if pos = - 1 then Some (ENGINE_KEY_ENOENT, self)
          else
            do { e \<leftarrow> elem self (nat pos);
                 self \<leftarrow> item_release (con_elem self (nat pos) (e\<lparr>item := (item e)\<lparr>stored := False\<rparr>\<rparr>)) (nat pos);
                 Some (ENGINE_SUCCESS, self) } }"

definition flush_all :: "t_table_info \<Rightarrow> t_table_info option" where
  "flush_all self = micache_clean self"

section \<open>The requests of the daemon\<close>

definition escribir_valor :: "t_table_info \<Rightarrow> nat \<Rightarrow> u8 list \<Rightarrow> t_table_info option" where
  "escribir_valor self it valor =
     do { e \<leftarrow> elem self it;
          a \<leftarrow> mem_write (datos self) (data (item e)) valor;
          Some (self\<lparr>datos := a\<rparr>) }"

text \<open>Once the value was received the item is stored and the reference to it given back.\<close>

definition complete_update_ascii :: "t_table_info \<Rightarrow> nat \<Rightarrow> t_table_info option" where
  "complete_update_ascii self it = do { self \<leftarrow> store_info self it; item_release self it }"

definition pedido_set :: "(nat \<Rightarrow> nat) \<Rightarrow> t_engine \<Rightarrow> u8 list \<Rightarrow> u8 list \<Rightarrow> t_engine option" where
  "pedido_set reloj engine key valor =
     do { (ret, it, self) \<leftarrow> item_allocate reloj engine key (int (length valor));
          self \<leftarrow>
            (if ret = ENGINE_SUCCESS then
               do { self \<leftarrow> escribir_valor self it valor; complete_update_ascii self it }
             else map_option snd (delete_one self key));
          Some (engine\<lparr>cache := self\<rparr>) }"

definition pedido_get :: "(nat \<Rightarrow> nat) \<Rightarrow> t_engine \<Rightarrow> u8 list \<Rightarrow> (u8 list option \<times> t_engine) option" where
  "pedido_get reloj engine key =
     do { (ret, it, self) \<leftarrow> get_info reloj engine key;
          if ret = ENGINE_SUCCESS then
            do { valor \<leftarrow> get_item_info self it;
                 self \<leftarrow> item_release self it;
                 Some (Some valor, engine\<lparr>cache := self\<rparr>) }
          else Some (None, engine\<lparr>cache := self\<rparr>) }"

definition pedido_delete :: "t_engine \<Rightarrow> u8 list \<Rightarrow> t_engine option" where
  "pedido_delete engine key =
     do { (_, self) \<leftarrow> delete_one (cache engine) key; Some (engine\<lparr>cache := self\<rparr>) }"

section \<open>The buddy engine keeps its contract\<close>

text \<open>What the row of cells says about the values: every item is a binding of \<open>m\<close>.\<close>

definition contenido_en :: "disk \<Rightarrow> celda list \<Rightarrow> (u8 list \<Rightarrow> u8 list option) \<Rightarrow> bool" where
  "contenido_en a cs m \<longleftrightarrow>
     (\<forall>x \<in> set (filter es_ocup cs). m (clave x) = Some (bytes_at a (nat (inicio x)) (nat (largo x))))"

definition motor_rep :: "(nat \<Rightarrow> nat) \<Rightarrow> t_engine \<Rightarrow> (u8 list \<Rightarrow> u8 list option) \<Rightarrow> bool" where
  "motor_rep reloj E m \<longleftrightarrow> strict_mono reloj \<and> esquema E \<noteq> ''particionesdinamicas'' \<and> motor_ok reloj (cache E)
     \<and> int (dk_len (datos (cache E))) = size_chunk (cache E) * int (table_max_size (cache E))
     \<and> contenido_en (datos (cache E)) (celdas (cache E)) m"

lemma create_bien:
  assumes T: "en_curso T p d s" and k: "length key \<le> TAM_CLAVE"
  obtains T' st where "buddy_create_element reloj T key p n = Some T'" "tabla_bien T'"
    "celdas T' = (celdas T)[p := Ocup d n (s - n) key st (reloj (lecturas T))]"
    "table_max_size T' = table_max_size T" "size_chunk T' = size_chunk T" "datos T' = datos T" "previo T' = previo T"
    "lecturas T' = Suc (lecturas T)" "elements_amount T' = elements_amount T + 1"
proof -
  let ?N = "table_max_size T" let ?e = "elements T ! p"
  have b: "tabla_bien T" and p: "p < ?N" and e: "data (item ?e) = d" "bytes_disponibles ?e = s"
    using T by (simp_all add: en_curso_def)
  have bo: "60 * p + length key \<le> 61 * ?N" using p k by (simp add: TAM_CLAVE_def)
  let ?a = "put_bytes (claves T) (TAM_CLAVE * p) key"
  have pc: "poner_clave T p key = Some (T\<lparr>claves := ?a\<rparr>)"
    using b bo by (simp add: poner_clave_def mem_write_def tabla_bien_def TAM_CLAVE_def nat_mult_distrib)
  have la: "dk_len ?a = dk_len (claves T)" using b bo by (simp add: tabla_bien_def TAM_CLAVE_def)
  let ?e1 = "?e\<lparr>item := (item ?e)\<lparr>ndata := n, nkey := length key\<rparr>, ocupado := True\<rparr>"
  let ?e2 = "?e1\<lparr>ultimaVezUsada := reloj (lecturas T), bytes_inutilizados := s - n, bytes_disponibles := 0\<rparr>"
  let ?T' = "T\<lparr>claves := ?a, elements := (elements T)[p := ?e2], lecturas := Suc (lecturas T),
      espacio_libre := espacio_libre T - (if n < size_chunk T then size_chunk T else n + (s - n)),
      elements_amount := elements_amount T + 1\<rparr>"
  have l: "length (elements T) = ?N" using b by (simp add: tabla_bien_def)
  have r: "buddy_create_element reloj T key p n = Some ?T'"
    using l p e by (simp add: buddy_create_element_def pc elem_def con_elem_def lru_get_def clock_gettime_def Let_def)
  have ob: "nkey (item (elements T ! j)) \<le> 60" if "j < ?N" "ocupado (elements T ! j)" for j
    using b that by (simp add: tabla_bien_def TAM_CLAVE_def)
  have b': "tabla_bien ?T'" using b k la p by (auto simp: tabla_bien_def nth_list_update split: if_splits)
  have "celdas ?T' = (celdas T)[p := Ocup d n (s - n) key (stored (item ?e)) (reloj (lecturas T))]"
  proof (rule nth_equalityI)
    fix j assume "j < length (celdas ?T')"
    then have j: "j < ?N" by simp
    show "celdas ?T' ! j = (celdas T)[p := Ocup d n (s - n) key (stored (item ?e)) (reloj (lecturas T))] ! j"
    proof (cases "j = p")
      case True
      then show ?thesis using p l e by (simp add: celdas_def celda_def celda_de_def)
    next
      case False
      have "bytes_at ?a (TAM_CLAVE * j) (nkey (item (elements T ! j)))
          = bytes_at (claves T) (TAM_CLAVE * j) (nkey (item (elements T ! j)))" if "ocupado (elements T ! j)"
        using ob [OF j that] False k b j by (intro bytes_at_put_disj) (auto simp: TAM_CLAVE_def tabla_bien_def)
      then show ?thesis using False j by (auto simp: celdas_def celda_def celda_de_def)
    qed
  qed simp
  then show thesis using that [OF r b'] by simp
qed

lemma map_filter_update:
  assumes "i < length xs" "P (xs ! i)" "P y" "f y = f (xs ! i)"
  shows "map f (filter P (xs[i := y])) = map f (filter P xs)"
proof -
  have "xs = take i xs @ xs ! i # drop (Suc i) xs" using assms(1) by (simp add: id_take_nth_drop)
  then have "map f (filter P xs) = map f (filter P (take i xs)) @ f (xs ! i) # map f (filter P (drop (Suc i) xs))"
    using assms(2) by (metis filter.simps(2) filter_append list.simps(9) map_append)
  then show ?thesis using assms by (simp add: upd_conv_take_nth_drop)
qed

lemma liberado_no_guardado:
  assumes "tabla_bien T" "p < table_max_size T"
  shows "liberado (con_elem T p ((elements T ! p)\<lparr>item := (item (elements T ! p))\<lparr>stored := False\<rparr>\<rparr>)) p = liberado T p"
  using assms by (simp add: liberado_def Let_def con_elem_def tabla_bien_def)

text \<open>Deleting a key frees its partition, or finds nothing to do.\<close>

lemma delete_one_bien:
  assumes "tabla_bien T" "claves_unicas T"
  shows "(\<forall>i < table_max_size T. \<forall>d n u t. celda T i \<noteq> Ocup d n u key True t) \<and> delete_one T key = Some (ENGINE_KEY_ENOENT, T)
    \<or> (\<exists>p < table_max_size T. \<exists>d n u t. celda T p = Ocup d n u key True t
        \<and> delete_one T key = Some (ENGINE_SUCCESS, liberado T p))"
proof -
  from micache_search_bien [OF assms(1), of key] show ?thesis
  proof (elim disjE conjE exE)
    assume "micache_search_element T key = Some (- 1)"
      "\<forall>i < table_max_size T. \<forall>d n u t. celda T i \<noteq> Ocup d n u key True t"
    then show ?thesis by (simp add: delete_one_def)
  next
    fix p d n u t
    assume p: "p < table_max_size T" "micache_search_element T key = Some (int p)" "celda T p = Ocup d n u key True t"
    let ?e = "elements T ! p" let ?T = "con_elem T p (?e\<lparr>item := (item ?e)\<lparr>stored := False\<rparr>\<rparr>)"
    have k: "key = bytes_at (claves T) (TAM_CLAVE * p) (nkey (item ?e))" "ocupado ?e" using p(3) by (auto simp: celda_ocup)
    have n: "nkey (item ?e) \<le> TAM_CLAVE" using assms(1) p(1) k(2) by (simp add: tabla_bien_def)
    have b: "tabla_bien ?T" using n by (intro bien_con_elem [OF assms(1)]) simp
    have c: "celdas ?T = (celdas T)[p := Ocup d n u key False t]"
      using p assms(1) by (simp add: celdas_con_elem celda_ocup celda_de_def)
    have "claves_unicas ?T" using assms(2) p unfolding claves_unicas_def c
      by (subst map_filter_update) (simp_all del: es_ocup_celda)
    moreover have "celda ?T p = Ocup d n u key False t" using nth_celdas [of p ?T] p(1) by (simp add: c)
    ultimately have "micache_remove ?T key = Some (liberado T p)"
      using micache_remove_bien [of ?T p d n u key False t] b p(1) liberado_no_guardado [OF assms(1) p(1)] by simp
    moreover have "leer_clave ?T p (nkey (item ?e)) = Some key"
      using leer_clave_bien [OF b, of p] p(1) n k(1) by simp
    ultimately have "item_release ?T p = Some (liberado T p)"
      using b p(1) assms(1) by (simp add: item_release_def elem_bien tabla_bien_def)
    then have "delete_one T key = Some (ENGINE_SUCCESS, liberado T p)"
      using p assms(1) by (simp add: delete_one_def elem_bien)
    then show ?thesis using p by blast
  qed
qed

lemma sin_clave:
  assumes "motor_ok reloj T" "\<forall>i < table_max_size T. \<forall>d n u t. celda T i \<noteq> Ocup d n u key True t"
  shows "key \<notin> clave ` set (items T)"
proof
  assume "key \<in> clave ` set (items T)"
  then obtain x where x: "x \<in> set (celdas T)" "es_ocup x" "clave x = key" by auto
  then obtain i where i: "i < table_max_size T" "celda T i = x" by (auto simp: in_set_conv_nth)
  obtain d n u st t where o: "x = Ocup d n u key st t" by (cases x) (use x(2,3) in auto)
  then have st using motor_okD(5) [OF assms(1)] i by blast
  then show False using assms(2) i o by auto
qed

lemma delete_motor:
  assumes "motor_ok reloj T"
  obtains r T' where "delete_one T key = Some (r, T')" "motor_ok reloj T'" "mismo_area T T'"
    "set (items T') \<subseteq> set (items T)" "key \<notin> clave ` set (items T')"
proof -
  note ok = motor_okD [OF assms]
  from delete_one_bien [OF ok(2,3), of key] show thesis
  proof (elim disjE conjE exE)
    assume 1: "\<forall>i < table_max_size T. \<forall>d n u t. celda T i \<noteq> Ocup d n u key True t"
      "delete_one T key = Some (ENGINE_KEY_ENOENT, T)"
    show thesis using that [OF 1(2) assms] sin_clave [OF assms 1(1)] by (simp add: mismo_area_def)
  next
    fix p d n u t
    assume p: "p < table_max_size T" "celda T p = Ocup d n u key True t" "delete_one T key = Some (ENGINE_SUCCESS, liberado T p)"
    note l = motor_ok_liberado [OF assms p(1,2)]
    obtain as bs where ab: "items T = as @ celda T p # bs" "items (liberado T p) = as @ bs" using l(2) by blast
    have "distinct (map clave (items T))" using ok(3) by (simp add: claves_unicas_def)
    then have "key \<notin> clave ` set (items (liberado T p))" using p(2) unfolding ab by auto
    then show thesis using that [OF p(3) l(1)] ab by (auto simp: mismo_area_def)
  qed
qed

lemma contenido_menos:
  assumes "contenido_en a cs m" "set (filter es_ocup cs') \<subseteq> set (filter es_ocup cs)" "key \<notin> clave ` set (filter es_ocup cs')"
  shows "contenido_en a cs' (m(key := r))"
  unfolding contenido_en_def
proof
  fix x assume x: "x \<in> set (filter es_ocup cs')"
  then have "m (clave x) = Some (bytes_at a (nat (inicio x)) (nat (largo x)))"
    using assms(1,2) unfolding contenido_en_def by blast
  moreover have "clave x \<noteq> key" using assms(3) x by blast
  ultimately show "(m(key := r)) (clave x) = Some (bytes_at a (nat (inicio x)) (nat (largo x)))" by simp
qed

lemma pedido_delete_rep:
  assumes "motor_rep reloj E m"
  obtains E' where "pedido_delete E key = Some E'" "motor_rep reloj E' (m(key := None))"
proof -
  have ok: "motor_ok reloj (cache E)" using assms by (simp add: motor_rep_def)
  obtain r T' where T': "delete_one (cache E) key = Some (r, T')" "motor_ok reloj T'" "mismo_area (cache E) T'"
    "set (items T') \<subseteq> set (items (cache E))" "key \<notin> clave ` set (items T')"
    by (rule delete_motor [OF ok])
  have "motor_rep reloj (E\<lparr>cache := T'\<rparr>) (m(key := None))"
    using assms T'(2-5) contenido_menos [of "datos T'" "celdas (cache E)" m "celdas T'" key None]
    by (simp add: motor_rep_def mismo_area_def)
  moreover have "pedido_delete E key = Some (E\<lparr>cache := T'\<rparr>)" using T'(1) by (simp add: pedido_delete_def)
  ultimately show thesis by (rule that [rotated])
qed

text \<open>Before allocating, an item stored under the key is removed.\<close>

lemma quitar_anterior:
  assumes "motor_ok reloj T"
  obtains pos T1 where "micache_search_element T key = Some pos"
    "(if pos \<noteq> - 1 then micache_remove T key else Some T) = Some T1"
    "motor_ok reloj T1" "mismo_area T T1" "set (items T1) \<subseteq> set (items T)" "key \<notin> clave ` set (items T1)"
proof -
  note ok = motor_okD [OF assms]
  from micache_search_bien [OF ok(2), of key] show thesis
  proof (elim disjE conjE exE)
    assume 1: "micache_search_element T key = Some (- 1)"
      "\<forall>i < table_max_size T. \<forall>d n u t. celda T i \<noteq> Ocup d n u key True t"
    show thesis using that [OF 1(1), of T] assms sin_clave [OF assms 1(2)] by (simp add: mismo_area_def)
  next
    fix p d n u t
    assume p: "p < table_max_size T" "micache_search_element T key = Some (int p)" "celda T p = Ocup d n u key True t"
    note l = motor_ok_liberado [OF assms p(1,3)]
    obtain as bs where ab: "items T = as @ celda T p # bs" "items (liberado T p) = as @ bs" using l(2) by blast
    have "distinct (map clave (items T))" using ok(3) by (simp add: claves_unicas_def)
    then have "key \<notin> clave ` set (items (liberado T p))" using p(3) unfolding ab by auto
    moreover have "micache_remove T key = Some (liberado T p)" using micache_remove_bien ok(2,3) p by blast
    ultimately show thesis using that [OF p(2), of "liberado T p"] l(1) ab by (auto simp: mismo_area_def)
  qed
qed

text \<open>The new element in the reserved place, with its value copied and marked as stored.\<close>

lemma guardar_bien:
  assumes T: "en_curso T p d s" "length key \<le> TAM_CLAVE" "0 \<le> d" "d + int (length v) \<le> int (dk_len (datos T))"
  obtains T' where "do { self \<leftarrow> buddy_create_element reloj T key p (int (length v)); self \<leftarrow> escribir_valor self p v;
        self \<leftarrow> store_info self p; item_release self p } = Some T'"
    "tabla_bien T'" "celdas T' = (celdas T)[p := Ocup d (int (length v)) (s - int (length v)) key True (reloj (lecturas T))]"
    "table_max_size T' = table_max_size T" "size_chunk T' = size_chunk T" "previo T' = previo T"
    "datos T' = put_bytes (datos T) (nat d) v"
    "lecturas T' = Suc (lecturas T)" "elements_amount T' = elements_amount T + 1"
proof -
  obtain T1 st where 1: "buddy_create_element reloj T key p (int (length v)) = Some T1" "tabla_bien T1"
    "celdas T1 = (celdas T)[p := Ocup d (int (length v)) (s - int (length v)) key st (reloj (lecturas T))]"
    "table_max_size T1 = table_max_size T" "size_chunk T1 = size_chunk T" "datos T1 = datos T" "previo T1 = previo T"
    "lecturas T1 = Suc (lecturas T)" "elements_amount T1 = elements_amount T + 1"
    by (rule create_bien [OF T(1,2)])
  have p: "p < table_max_size T1" using T(1) 1(4) by (simp add: en_curso_def)
  have "celda T1 p = celdas T1 ! p" using p by simp
  also have "\<dots> = Ocup d (int (length v)) (s - int (length v)) key st (reloj (lecturas T))" using p by (simp add: 1(3,4))
  finally have c: "celda T1 p = Ocup d (int (length v)) (s - int (length v)) key st (reloj (lecturas T))" .
  let ?e = "elements T1 ! p" let ?a = "put_bytes (datos T) (nat d) v"
  let ?T2 = "T1\<lparr>datos := ?a\<rparr>"
  let ?T3 = "con_elem ?T2 p (?e\<lparr>item := (item ?e)\<lparr>stored := True\<rparr>\<rparr>)"
  have d: "data (item ?e) = d" using c by (simp add: celda_ocup)
  have b2: "tabla_bien ?T2" and c2: "celdas ?T2 = celdas T1" "celda ?T2 = celda T1"
    using 1(2) by (simp_all add: tabla_bien_def celdas_def celda_def fun_eq_iff)
  have "escribir_valor T1 p v = Some ?T2"
    using elem_bien [OF 1(2) p] T(3,4) d 1(6) by (simp add: escribir_valor_def mem_write_def)
  moreover have "store_info ?T2 p = Some ?T3" using elem_bien [OF b2, of p] p by (simp add: store_info_def)
  moreover have b3: "tabla_bien ?T3"
    using 1(2) p c by (intro bien_con_elem [OF b2]) (auto simp: tabla_bien_def celda_ocup)
  moreover have "item_release ?T3 p = Some ?T3"
    using elem_bien [OF b3, of p] p b2 by (simp add: item_release_def tabla_bien_def)
  ultimately have r: "do { self \<leftarrow> buddy_create_element reloj T key p (int (length v)); self \<leftarrow> escribir_valor self p v;
      self \<leftarrow> store_info self p; item_release self p } = Some ?T3"
    using 1(1) by simp
  have "celdas ?T3 = (celdas T1)[p := Ocup d (int (length v)) (s - int (length v)) key True (reloj (lecturas T))]"
  proof -
    have "ocupado ?e" "ndata (item ?e) = int (length v)" "bytes_inutilizados ?e = s - int (length v)"
      "bytes_at (claves T1) (TAM_CLAVE * p) (nkey (item ?e)) = key" "ultimaVezUsada ?e = reloj (lecturas T)"
      using c by (simp_all add: celda_ocup)
    then show ?thesis using p b2 d by (simp add: celdas_con_elem c2(1) celda_de_def)
  qed
  then show thesis using that [OF r b3] 1 by simp
qed

lemma contenido_nuevo:
  assumes c: "0 < c" "tejido c (int (dk_len a)) cs" "p < length cs" "cs ! p = Ocup d (int (length v)) u key True t" "0 \<le> u"
    and as: "filter es_ocup cs = as @ cs ! p # bs" and old: "\<forall>x \<in> set (as @ bs). m (clave x) = Some (bytes_at a (nat (inicio x)) (nat (largo x)))"
    and k: "key \<notin> clave ` set (as @ bs)" and ok: "\<And>x. x \<in> set cs \<Longrightarrow> x \<noteq> Nada \<Longrightarrow> celda_ok c x"
  shows "contenido_en (put_bytes a (nat d) v) cs (m(key \<mapsto> v))"
  unfolding contenido_en_def
proof
  fix x assume x: "x \<in> set (filter es_ocup cs)"
  show "(m(key \<mapsto> v)) (clave x) = Some (bytes_at (put_bytes a (nat d) v) (nat (inicio x)) (nat (largo x)))"
  proof (cases "x = cs ! p")
    case True
    then show ?thesis using c(4) by simp
  next
    case False
    then have xo: "x \<in> set (as @ bs)" using x unfolding as by auto
    have xs: "x \<in> set cs" "es_ocup x" using x by auto
    then have nn: "x \<noteq> Nada" by auto
    obtain d' n' u' k' st' t' where o: "x = Ocup d' n' u' k' st' t'" by (cases x) (use xs(2) in auto)
    have "0 \<le> n'" "0 \<le> u'" using ok [OF xs(1) nn] o by auto
    moreover have "d' + (n' + u') \<le> d \<or> d + int (length v) + u \<le> d'"
      using tejido_otra [OF c(1-3) _ xs(1) nn False] c(4) o by auto
    moreover have "0 \<le> d' \<and> d' + (n' + u') \<le> int (dk_len a)" "0 \<le> d"
      using tejido_dentro [OF c(1,2) xs(1) nn] tejido_dentro [OF c(1,2) nth_mem [OF c(3)]] c(4) o by auto
    ultimately have "bytes_at (put_bytes a (nat d) v) (nat d') (nat n') = bytes_at a (nat d') (nat n')"
      using c(5) by (intro bytes_at_put_disj) linarith+
    moreover have "clave x \<noteq> key" using k xo by blast
    moreover have "m (clave x) = Some (bytes_at a (nat (inicio x)) (nat (largo x)))" using old xo by blast
    ultimately show ?thesis using o by simp
  qed
qed

lemma tejido_celda_ok:
  assumes "tejido c b cs" "x \<in> set cs" "x \<noteq> Nada"
  shows "celda_ok c x"
proof -
  from assms(2) obtain i where "i < length cs" "cs ! i = x" by (auto simp: in_set_conv_nth)
  then show ?thesis using tejido_parte [OF assms(1), of i] assms(3) by metis
qed

text \<open>What the engine holds after a reservation was filled.\<close>

lemma reservado_guardado:
  assumes rs: "reservado reloj T T2 p d (int (length v))" and mo: "strict_mono reloj"
    and k: "length key \<le> TAM_CLAVE" "key \<notin> clave ` set (items T)"
    and len: "int (dk_len (datos T)) = size_chunk T * int (table_max_size T)"
    and old: "contenido_en (datos T) (celdas T) m"
  obtains T' where "do { self \<leftarrow> buddy_create_element reloj T2 key p (int (length v)); self \<leftarrow> escribir_valor self p v;
        self \<leftarrow> store_info self p; item_release self p } = Some T'" "motor_ok reloj T'"
    "int (dk_len (datos T')) = size_chunk T' * int (table_max_size T')"
    "contenido_en (datos T') (celdas T') (m(key \<mapsto> v))" "key \<in> clave ` set (items T')"
proof -
  let ?n = "int (length v)"
  from rs obtain i where i: "en_curso T2 p d (size_chunk T2 * 2 ^ i)" "fila_ok reloj T2 (con_hueco T2 p d (size_chunk T2 * 2 ^ i))"
      "?n \<le> size_chunk T2 * 2 ^ i" "?n < size_chunk T2 \<longrightarrow> i = 0" "mismo_area T T2"
      "set (filter es_ocup (con_hueco T2 p d (size_chunk T2 * 2 ^ i))) \<subseteq> set (items T)"
      "0 < size_chunk T2" "even (table_max_size T2)" "\<not> ocupado (previo T2)"
    by (auto simp: reservado_def Let_def)
  define c where "c = size_chunk T2"
  define s where "s = c * 2 ^ i"
  define h where "h = con_hueco T2 p d s"
  define x where "x = Ocup d ?n (s - ?n) key True (reloj (lecturas T2))"
  have p: "p < table_max_size T2" and l2: "int (dk_len (datos T2)) = c * int (table_max_size T2)"
    using i(1,5) len by (simp_all add: en_curso_def mismo_area_def c_def)
  have tj: "tejido c (c * int (table_max_size T2)) h" using i(2) by (simp add: fila_ok_def h_def s_def c_def)
  have hp: "p < length h" "h ! p = Hueco d s" using p by (simp_all add: h_def)
  have dd: "0 \<le> d" "d + s \<le> c * int (table_max_size T2)"
    using tejido_dentro [OF _ tj nth_mem [OF hp(1)]] hp i(7) by (auto simp: c_def)
  have cx: "celda_ok c x" using i(3,4) by (auto simp: x_def s_def c_def)
  have tx: "tejido c (c * int (table_max_size T2)) (h[p := x])"
    by (rule tejido_cambia [OF tj hp(1)]) (use hp cx in \<open>simp_all add: x_def\<close>)
  have hx: "(celdas T2)[p := x] = h[p := x]" by (simp add: h_def)
  have "d + ?n \<le> int (dk_len (datos T2))" using dd i(3) l2 by (simp add: s_def c_def)
  then obtain T' where T': "do { self \<leftarrow> buddy_create_element reloj T2 key p ?n; self \<leftarrow> escribir_valor self p v;
        self \<leftarrow> store_info self p; item_release self p } = Some T'"
      "tabla_bien T'" "celdas T' = h[p := x]" "table_max_size T' = table_max_size T2" "size_chunk T' = c"
      "previo T' = previo T2" "datos T' = put_bytes (datos T2) (nat d) v" "lecturas T' = Suc (lecturas T2)"
      "elements_amount T' = elements_amount T2 + 1"
    using guardar_bien [OF i(1) k(1) dd(1), of v reloj] hx by (auto simp: x_def c_def s_def)
  have "\<exists>as bs. filter es_ocup (h[p := x]) = as @ (h[p := x] ! p) # bs \<and> filter es_ocup (h[p := x, p := Hueco d s]) = as @ bs"
    using hp(1) by (intro filter_update_quita) (simp_all add: x_def)
  moreover have "h[p := x, p := Hueco d s] = h" using hp by (metis list_update_id list_update_overwrite)
  ultimately obtain as bs where ab: "filter es_ocup (h[p := x]) = as @ x # bs" "filter es_ocup h = as @ bs"
    using hp by auto
  have sub: "set (as @ bs) \<subseteq> set (items T)" using i(6) unfolding c_def [symmetric] s_def [symmetric] h_def [symmetric] ab(2) .
  then have kk: "key \<notin> clave ` set (as @ bs)" using k(2) by blast
  have fo: "distinct (map clave (as @ bs))" "\<forall>y \<in> set (as @ bs). guardada y \<and> sello y < reloj (lecturas T2)"
    "elements_amount T2 = int (length (as @ bs))"
    using i(2) unfolding fila_ok_def c_def [symmetric] s_def [symmetric] h_def [symmetric] ab(2) by blast+
  have later: "reloj (lecturas T2) < reloj (Suc (lecturas T2))" using mo by (simp add: strict_mono_less)
  have "motor_ok reloj T'"
    unfolding motor_ok_def buddy_ok_def fila_ok_def T'(3-6,8,9) ab(1)
    using T'(2) i(7-9) tx fo kk later by (auto simp: c_def [symmetric] x_def intro: order.strict_trans)
  moreover have "int (dk_len (datos T')) = size_chunk T' * int (table_max_size T')"
    using T'(4,5,7) l2 dd i(3) by (simp add: s_def c_def nat_le_iff flip: of_nat_add)
  moreover have "contenido_en (datos T') (celdas T') (m(key \<mapsto> v))"
    unfolding T'(3,7)
  proof (rule contenido_nuevo)
    show "0 < c" using i(7) by (simp add: c_def)
    show "tejido c (int (dk_len (datos T2))) (h[p := x])" using tx l2 by simp
    show "h[p := x] ! p = Ocup d (int (length v)) (s - ?n) key True (reloj (lecturas T2))" using hp by (simp add: x_def)
    show "filter es_ocup (h[p := x]) = as @ h[p := x] ! p # bs" using ab(1) hp by simp
    show "\<forall>x \<in> set (as @ bs). m (clave x) = Some (bytes_at (datos T2) (nat (inicio x)) (nat (largo x)))"
      using old sub i(5) unfolding contenido_en_def mismo_area_def by auto
    show "\<And>y. y \<in> set (h[p := x]) \<Longrightarrow> y \<noteq> Nada \<Longrightarrow> celda_ok c y" by (rule tejido_celda_ok [OF tx])
  qed (use hp kk i(3) in \<open>auto simp: s_def c_def\<close>)
  moreover have "key \<in> clave ` set (items T')" unfolding T'(3) ab(1) by (simp add: x_def)
  ultimately show thesis using that T'(1) by blast
qed

section \<open>The requests\<close>

lemma pedido_set_bien:
  assumes R: "motor_rep reloj E m" and k: "length key \<le> TAM_CLAVE" and v: "v \<noteq> []"
  shows "(pedido_set reloj E key v = Some E' \<longrightarrow> motor_rep reloj E' (m(key \<mapsto> v))
      \<and> (int (length v) \<le> block_size_max E \<longrightarrow> key \<in> clave ` set (items (cache E'))))
    \<and> (table_max_size (cache E) \<noteq> 0 \<longrightarrow> int (length v) \<le> size_chunk (cache E) \<longrightarrow> pedido_set reloj E key v \<noteq> None)"
proof (cases "block_size_max E < int (length v)")
  case True
  have ok: "motor_ok reloj (cache E)" using R by (simp add: motor_rep_def)
  obtain r T' where T': "delete_one (cache E) key = Some (r, T')" "motor_ok reloj T'" "mismo_area (cache E) T'"
    "set (items T') \<subseteq> set (items (cache E))" "key \<notin> clave ` set (items T')"
    by (rule delete_motor [OF ok])
  have "pedido_set reloj E key v = Some (E\<lparr>cache := T'\<rparr>)"
    using True k T'(1) by (simp add: pedido_set_def complete_update_ascii_def item_allocate_def TAM_CLAVE_def)
  moreover have "motor_rep reloj (E\<lparr>cache := T'\<rparr>) (m(key \<mapsto> v))"
    using R T'(2-5) contenido_menos [of "datos T'" "celdas (cache E)" m "celdas T'" key "Some v"]
    by (simp add: motor_rep_def mismo_area_def)
  ultimately show ?thesis using True by auto
next
  case False
  let ?n = "int (length v)"
  have r: "strict_mono reloj" "esquema E \<noteq> ''particionesdinamicas''" "motor_ok reloj (cache E)"
    "contenido_en (datos (cache E)) (celdas (cache E)) m"
    using R by (simp_all add: motor_rep_def)
  obtain pos T1 where T1: "micache_search_element (cache E) key = Some pos"
      "(if pos \<noteq> - 1 then micache_remove (cache E) key else Some (cache E)) = Some T1"
      "motor_ok reloj T1" "mismo_area (cache E) T1" "set (items T1) \<subseteq> set (items (cache E))" "key \<notin> clave ` set (items T1)"
    by (rule quitar_anterior [OF r(3)])
  have l1: "int (dk_len (datos T1)) = size_chunk T1 * int (table_max_size T1)"
    "contenido_en (datos T1) (celdas T1) m"
    using R T1(4,5) by (auto simp: motor_rep_def mismo_area_def contenido_en_def)
  have set_eq: "pedido_set reloj E key v = do { (pd, self) \<leftarrow> buddysystem reloj T1 ?n;
      if pd = - 1 then map_option (\<lambda>s. E\<lparr>cache := snd s\<rparr>) (delete_one self key)
      else map_option (\<lambda>s. E\<lparr>cache := s\<rparr>)
        (do { self \<leftarrow> buddy_create_element reloj self key (nat pd) ?n; self \<leftarrow> escribir_valor self (nat pd) v;
              self \<leftarrow> store_info self (nat pd); item_release self (nat pd) }) }"
    using T1(1,2) False k r(2)
    by (auto simp: pedido_set_def complete_update_ascii_def item_allocate_def TAM_CLAVE_def split: bind_splits)
  have n: "0 < ?n" using v by simp
  have step: "\<exists>E'. pedido_set reloj E key v = Some E' \<and> motor_rep reloj E' (m(key \<mapsto> v)) \<and> key \<in> clave ` set (items (cache E'))"
    if rs: "buddysystem reloj T1 ?n = Some (int p, T2)" "reservado reloj T1 T2 p d ?n" for p T2 d
  proof -
    obtain T' where T': "do { self \<leftarrow> buddy_create_element reloj T2 key p ?n; self \<leftarrow> escribir_valor self p v;
        self \<leftarrow> store_info self p; item_release self p } = Some T'" "motor_ok reloj T'"
      "int (dk_len (datos T')) = size_chunk T' * int (table_max_size T')"
      "contenido_en (datos T') (celdas T') (m(key \<mapsto> v))" "key \<in> clave ` set (items T')"
      by (rule reservado_guardado [OF rs(2) r(1) k T1(6) l1])
    have "pedido_set reloj E key v = Some (E\<lparr>cache := T'\<rparr>)" using set_eq rs(1) T'(1) by simp
    moreover have "motor_rep reloj (E\<lparr>cache := T'\<rparr>) (m(key \<mapsto> v))" using r T'(2-4) by (simp add: motor_rep_def)
    ultimately show ?thesis using T'(5) by auto
  qed
  show ?thesis
  proof (intro conjI impI)
    assume "pedido_set reloj E key v = Some E'"
    moreover from this obtain x where "buddysystem reloj T1 ?n = Some x"
      using set_eq by (cases "buddysystem reloj T1 ?n") auto
    ultimately show "motor_rep reloj E' (m(key \<mapsto> v))" "key \<in> clave ` set (items (cache E'))"
      using buddysystem_ok [OF _ T1(3) r(1) n] step by fastforce+
  next
    assume "table_max_size (cache E) \<noteq> 0" "?n \<le> size_chunk (cache E)"
    then show "pedido_set reloj E key v \<noteq> None"
      using buddysystem_un_bloque [OF T1(3) r(1) n] T1(4) step by (fastforce simp: mismo_area_def)
  qed
qed

lemma sello_nuevo:
  assumes T: "motor_ok reloj T" "strict_mono reloj" "p < table_max_size T" "celda T p = Ocup d n u key True t"
  obtains T' where "lru_get reloj T p = Some T'" "motor_ok reloj T'" "mismo_area T T'"
    "celdas T' = (celdas T)[p := Ocup d n u key True (reloj (lecturas T))]"
proof -
  note ok = motor_okD [OF T(1)]
  let ?T = "T\<lparr>lecturas := Suc (lecturas T)\<rparr>" let ?e = "elements T ! p"
  let ?T' = "con_elem ?T p (?e\<lparr>ultimaVezUsada := reloj (lecturas T)\<rparr>)"
  let ?x = "Ocup d n u key True (reloj (lecturas T))"
  have b: "tabla_bien ?T" "celdas ?T = celdas T" using ok(2) by (simp_all add: tabla_bien_def celdas_def celda_def)
  have r: "lru_get reloj T p = Some ?T'" using elem_bien [OF b(1), of p] T(3) by (simp add: lru_get_def clock_gettime_def)
  have ce: "ocupado ?e" "data (item ?e) = d" "ndata (item ?e) = n" "bytes_inutilizados ?e = u" "stored (item ?e)"
    "bytes_at (claves T) (TAM_CLAVE * p) (nkey (item ?e)) = key"
    using T(4) by (simp_all add: celda_ocup)
  have c: "celdas ?T' = (celdas T)[p := ?x]"
    using b T(3) ce by (simp add: celdas_con_elem celda_de_def)
  have b': "tabla_bien ?T'" using ok(2) T(3) by (intro bien_con_elem [OF b(1)]) (simp add: tabla_bien_def)
  let ?c = "size_chunk T" let ?N = "table_max_size T"
  have tj: "tejido ?c (?c * int ?N) (celdas T)" using ok(1) by (simp add: buddy_ok_def)
  have nn: "celda T p \<noteq> Nada" "p < length (celdas T)" using T(3,4) by simp_all
  have cok: "celda_ok ?c (celda T p)"
    using tejido_celda_ok [OF tj, of "celda T p"] nn nth_mem [of p "celdas T"] by simp
  have tj': "tejido ?c (?c * int ?N) ((celdas T)[p := ?x])"
    by (rule tejido_cambia [OF tj nn(2)]) (use nn cok T(3,4) in auto)
  have "\<exists>as bs. filter es_ocup ((celdas T)[p := ?x]) = as @ ((celdas T)[p := ?x] ! p) # bs
      \<and> filter es_ocup ((celdas T)[p := ?x, p := Nada]) = as @ bs"
    using T(3) by (intro filter_update_quita) simp_all
  then obtain as bs where ab: "filter es_ocup ((celdas T)[p := ?x]) = as @ ?x # bs" "filter es_ocup ((celdas T)[p := Nada]) = as @ bs"
    using T(3) by auto
  have "\<exists>as bs. items T = as @ (celdas T ! p) # bs \<and> filter es_ocup ((celdas T)[p := Nada]) = as @ bs"
    using T(3,4) by (intro filter_update_quita) (simp_all del: es_ocup_celda)
  then obtain as' bs' where ab': "items T = as' @ celda T p # bs'" "as @ bs = as' @ bs'" using ab(2) T(3) by auto
  have sub: "set (as @ bs) \<subseteq> set (items T)" "length (as @ bs) + 1 = length (items T)" unfolding ab' by auto
  have "map clave (as @ ?x # bs) = map clave (items T)"
    using map_filter_update [of p "celdas T" es_ocup ?x clave] ab(1) T(3,4) by (simp del: es_ocup_celda)
  then have di: "distinct (map clave (as @ ?x # bs))" using ok(3) by (simp add: claves_unicas_def)
  have fo: "\<forall>y \<in> set (items T). guardada y \<and> sello y < reloj (lecturas T)" "elements_amount T = int (length (items T))"
    using T(1) unfolding motor_ok_def fila_ok_def by blast+
  have later: "reloj (lecturas T) < reloj (Suc (lecturas T))" using T(2) by (simp add: strict_mono_less)
  have "fila_ok reloj ?T' (celdas ?T')"
    unfolding fila_ok_def c ab(1) using tj' di later sub fo by (auto dest!: subsetD)
  then have "motor_ok reloj ?T'" using ok(1) b' tj' c by (simp add: motor_ok_def buddy_ok_def)
  then show thesis using that [OF r] c by (simp add: mismo_area_def)
qed

lemma contenido_sello:
  assumes "contenido_en a cs m" "p < length cs" "cs ! p = Ocup d n u k st t"
  shows "contenido_en a (cs[p := Ocup d n u k st' t']) m"
  unfolding contenido_en_def
proof
  fix x assume "x \<in> set (filter es_ocup (cs[p := Ocup d n u k st' t']))"
  then have "x = Ocup d n u k st' t' \<or> x \<in> set (filter es_ocup cs)" by (auto dest: set_update_subset_insert [THEN subsetD])
  moreover have "cs ! p \<in> set (filter es_ocup cs)" using assms(2,3) nth_mem [of p cs] by simp
  ultimately show "m (clave x) = Some (bytes_at a (nat (inicio x)) (nat (largo x)))"
    using assms(1,3) unfolding contenido_en_def by fastforce
qed

lemma leer_item:
  assumes "motor_rep reloj E m" "p < table_max_size (cache E)" "celda (cache E) p = Ocup d n u key st t"
  shows "\<exists>v. get_item_info (cache E) p = Some v \<and> m key = Some v"
proof -
  let ?T = "cache E" let ?c = "size_chunk ?T"
  have ok: "motor_ok reloj ?T" "int (dk_len (datos ?T)) = ?c * int (table_max_size ?T)" "contenido_en (datos ?T) (celdas ?T) m"
    using assms(1) by (simp_all add: motor_rep_def)
  note o = motor_okD [OF ok(1)]
  have tj: "tejido ?c (?c * int (table_max_size ?T)) (celdas ?T)" using o(1) by (simp add: buddy_ok_def)
  have x: "celda ?T p \<in> set (celdas ?T)" "celda ?T p \<noteq> Nada" "es_ocup (celda ?T p)"
    using nth_mem [of p "celdas ?T"] assms(2,3) by (simp_all del: es_ocup_celda)
  have "0 \<le> d" "d + (n + u) \<le> int (dk_len (datos ?T))" "0 \<le> n" "0 \<le> u"
    using tejido_dentro [OF o(4) tj x(1,2)] tejido_celda_ok [OF tj x(1,2)] assms(3) ok(2) by auto
  then have "get_item_info ?T p = Some (bytes_at (datos ?T) (nat d) (nat n))"
    using elem_bien [OF o(2) assms(2)] assms(3) by (simp add: get_item_info_def mem_read_def celda_ocup)
  moreover have "m key = Some (bytes_at (datos ?T) (nat d) (nat n))"
    using ok(3) x assms(3) unfolding contenido_en_def by fastforce
  ultimately show ?thesis by blast
qed

lemma pedido_get_bien:
  assumes R: "motor_rep reloj E m" and k: "length key \<le> TAM_CLAVE"
  obtains r E' where "pedido_get reloj E key = Some (r, E')" "motor_rep reloj E' m"
    "r = (if key \<in> clave ` set (items (cache E)) then m key else None)"
proof -
  let ?T = "cache E"
  have r: "strict_mono reloj" "motor_ok reloj ?T" "esquema E \<noteq> ''particionesdinamicas''" using R by (simp_all add: motor_rep_def)
  note ok = motor_okD [OF r(2)]
  from micache_search_bien [OF ok(2), of key] show thesis
  proof (elim disjE conjE exE)
    assume 1: "micache_search_element ?T key = Some (- 1)"
      "\<forall>i < table_max_size ?T. \<forall>d n u t. celda ?T i \<noteq> Ocup d n u key True t"
    have "pedido_get reloj E key = Some (None, E)"
      using 1(1) k by (simp add: pedido_get_def get_info_def TAM_CLAVE_def)
    then show thesis using that R sin_clave [OF r(2) 1(2)] by auto
  next
    fix p d n u t
    assume p: "p < table_max_size ?T" "micache_search_element ?T key = Some (int p)" "celda ?T p = Ocup d n u key True t"
    obtain T' t' where T': "(if alg_reemplazo E = ''lru'' then lru_get reloj ?T p else Some ?T) = Some T'" "motor_ok reloj T'"
        "mismo_area ?T T'" "celdas T' = (celdas ?T)[p := Ocup d n u key True t']"
    proof (cases "alg_reemplazo E = ''lru''")
      case True
      from sello_nuevo [OF r(2,1) p(1,3)] show thesis using that True by (metis (full_types))
    next
      case False
      have "(celdas ?T)[p := Ocup d n u key True t] = celdas ?T" using p by (metis list_update_id nth_celdas)
      then show thesis using that [of ?T t] False r(2) by (simp add: mismo_area_def)
    qed
    have R': "motor_rep reloj (E\<lparr>cache := T'\<rparr>) m"
      using R T'(2-4) contenido_sello [of "datos ?T" "celdas ?T" m p d n u key True t True t'] p
      by (simp add: motor_rep_def mismo_area_def)
    have p': "p < table_max_size T'" using T'(3) p(1) by (simp add: mismo_area_def)
    have "celda T' p = celdas T' ! p" using p' by simp
    then have cp: "celda T' p = Ocup d n u key True t'" using T'(4) p(1) by simp
    obtain v where v: "get_item_info T' p = Some v" "m key = Some v"
      using leer_item [OF R', of p] p' cp by auto
    have "item_release T' p = Some T'"
      using elem_bien [OF motor_okD(2) [OF T'(2)] p'] cp by (simp add: item_release_def celda_ocup)
    then have "pedido_get reloj E key = Some (Some v, E\<lparr>cache := T'\<rparr>)"
      using p(2) T'(1) v k by (auto simp: pedido_get_def get_info_def TAM_CLAVE_def split: if_splits)
    moreover have "key \<in> clave ` set (items ?T)"
      using nth_mem [of p "celdas ?T"] p(1,3) by (force simp del: es_ocup_celda)
    ultimately show thesis using that R' v(2) by auto
  qed
qed

section \<open>The engine as a key-value store\<close>

text \<open>
  The cache as its clients see it: the requests of the daemon, on an engine that answers or, once a
  request did not return, on none.
\<close>

definition mem_motor :: "(nat \<Rightarrow> nat) \<Rightarrow> t_engine option memcached" where
  "mem_motor reloj =
     \<lparr>memcached_get = (\<lambda>c k. case c \<bind> (\<lambda>E. pedido_get reloj E k) of
                              None \<Rightarrow> (None, None) | Some (r, E) \<Rightarrow> (r, Some E)),
      memcached_set = (\<lambda>c k v. c \<bind> (\<lambda>E. pedido_set reloj E k v)),
      memcached_delete = (\<lambda>c k. c \<bind> (\<lambda>E. pedido_delete E k))\<rparr>"

definition motor_rep_opt :: "(nat \<Rightarrow> nat) \<Rightarrow> t_engine option \<Rightarrow> (u8 list \<Rightarrow> u8 list option) \<Rightarrow> bool" where
  "motor_rep_opt reloj c m \<longleftrightarrow> (case c of None \<Rightarrow> True | Some E \<Rightarrow> motor_rep reloj E m)"

definition clave_corta :: "u8 list \<Rightarrow> bool" where
  "clave_corta k \<longleftrightarrow> length k \<le> TAM_CLAVE"

definition valor_no_vacio :: "u8 list \<Rightarrow> bool" where
  "valor_no_vacio v \<longleftrightarrow> v \<noteq> []"

interpretation motor: almacen_clave "memcached_get (mem_motor reloj)" "memcached_set (mem_motor reloj)"
    "memcached_delete (mem_motor reloj)" "motor_rep_opt reloj" clave_corta valor_no_vacio
  for reloj
proof
  fix c m k r c'
  assume 1: "motor_rep_opt reloj c m" "clave_corta k" "memcached_get (mem_motor reloj) c k = (r, c')"
  show "motor_rep_opt reloj c' m \<and> (r = None \<or> r = m k)"
  proof (cases c)
    case (Some E)
    obtain r1 E1 where "pedido_get reloj E k = Some (r1, E1)" "motor_rep reloj E1 m"
        "r1 = (if k \<in> clave ` set (items (cache E)) then m k else None)"
      by (rule pedido_get_bien [of reloj E m k]) (use 1(1,2) Some in \<open>auto simp: motor_rep_opt_def clave_corta_def\<close>)
    then show ?thesis using 1(3) Some by (auto simp: mem_motor_def motor_rep_opt_def)
  qed (use 1(3) in \<open>auto simp: mem_motor_def motor_rep_opt_def\<close>)
next
  fix c m k v
  assume 1: "motor_rep_opt reloj c m" "clave_corta k" "valor_no_vacio v"
  show "motor_rep_opt reloj (memcached_set (mem_motor reloj) c k v) (m(k \<mapsto> v))"
    using 1 pedido_set_bien [of reloj _ m k v]
    by (auto simp: mem_motor_def motor_rep_opt_def clave_corta_def valor_no_vacio_def split: option.splits bind_splits)
next
  fix c m k
  assume 1: "motor_rep_opt reloj c m" "clave_corta k"
  show "motor_rep_opt reloj (memcached_delete (mem_motor reloj) c k) (m(k := None))"
  proof (cases c)
    case (Some E)
    obtain E' where "pedido_delete E k = Some E'" "motor_rep reloj E' (m(k := None))"
      by (rule pedido_delete_rep [of reloj E m k]) (use 1(1) Some in \<open>auto simp: motor_rep_opt_def\<close>)
    then show ?thesis using Some by (simp add: mem_motor_def motor_rep_opt_def)
  qed (simp add: mem_motor_def motor_rep_opt_def)
qed

section \<open>The initial table\<close>

lemma inicio_bien:
  assumes c: "0 < c" "0 < K" and a: "length arreglo = 2 ^ K" "\<forall>e \<in> set arreglo. bytes_disponibles e = 0"
    and d: "\<not> ocupado delante"
  obtains T where "cache_initialize (c * 2 ^ K) c arreglo bk bd delante = Some T" "motor_ok reloj T" "items T = []"
    "int (dk_len (datos T)) = c * int (table_max_size T)" "size_chunk T = c" "table_max_size T = 2 ^ K"
proof -
  have N: "nat (c * 2 ^ K div c) = 2 ^ K" using c(1) by (simp add: nat_power_eq)
  obtain e es where es: "arreglo = e # es" using a(1) by (cases arreglo) auto
  let ?e = "e\<lparr>ocupado := False, item := (item e)\<lparr>data := 0\<rparr>, bytes_disponibles := c * 2 ^ K, bytes_inutilizados := 0\<rparr>"
  let ?T = "\<lparr>elements = ?e # map (\<lambda>e. e\<lparr>ocupado := False\<rparr>) es,
      table_max_size = 2 ^ K, elements_amount = 0, espacio_libre = c * 2 ^ K, size_chunk = c,
      claves = \<lparr>dk_len = 61 * 2 ^ K, dk_byte = bk\<rparr>, datos = \<lparr>dk_len = nat (c * 2 ^ K), dk_byte = bd\<rparr>,
      previo = delante, lecturas = 0\<rparr>"
  have l: "Suc (length es) = 2 ^ K" using a(1) es by simp
  have r: "cache_initialize (c * 2 ^ K) c arreglo bk bd delante = Some ?T"
    using c(1) N a(1) es by (simp add: cache_initialize_def Let_def)
  have oc: "\<not> ocupado (elements ?T ! i)" if "i < 2 ^ K" for i
    using that l by (cases i) simp_all
  have dis: "bytes_disponibles (elements ?T ! Suc i) = 0" if "Suc i < 2 ^ K" for i
    using that l a(2) es by (simp add: nth_mem)
  have cs: "celdas ?T = [Hueco 0 (c * 2 ^ K)] @ replicate (2 ^ K - 1) Nada"
  proof (rule nth_equalityI)
    fix i assume "i < length (celdas ?T)"
    then have i: "i < 2 ^ K" by simp
    show "celdas ?T ! i = ([Hueco 0 (c * 2 ^ K)] @ replicate (2 ^ K - 1) Nada) ! i"
    proof (cases i)
      case 0
      then show ?thesis using c(1) by (simp add: celdas_def celda_def celda_de_def)
    next
      case (Suc j)
      have "celda ?T i = Nada" using oc [OF i] dis [of j] i Suc by (simp add: celda_def celda_de_def)
      then show ?thesis using i Suc by (simp add: celdas_def)
    qed
  qed simp
  have tj: "tejido c (c * int (2 ^ K)) (celdas ?T)"
    by (rule tejidoI [OF cs]) auto
  have bien: "tabla_bien ?T" using l oc by (auto simp: tabla_bien_def)
  have its: "items ?T = []" unfolding cs by simp
  have "motor_ok reloj ?T"
    unfolding motor_ok_def buddy_ok_def fila_ok_def its using tj bien c d by simp
  then show thesis using that [OF r _ its] c(1) by (simp add: nat_power_eq nat_mult_distrib)
qed

lemma inicio_rep:
  assumes "0 < c" "0 < K" "length arreglo = 2 ^ K" "\<forall>e \<in> set arreglo. bytes_disponibles e = 0" "\<not> ocupado delante"
    and "strict_mono reloj" "esq \<noteq> ''particionesdinamicas''"
    and "cache_initialize (c * 2 ^ K) c arreglo bk bd delante = Some T"
  shows "motor_rep reloj \<lparr>cache = T, block_size_max = b, chunk_size = c, esquema = esq, alg_busqueda = ab,
    alg_reemplazo = ar, frecuenciaCompactacion = f\<rparr> Map.empty"
proof (rule inicio_bien [OF assms(1-5), where reloj = reloj and bk = bk and bd = bd])
  fix T' assume "cache_initialize (c * 2 ^ K) c arreglo bk bd delante = Some T'" "motor_ok reloj T'" "items T' = []"
    "int (dk_len (datos T')) = c * int (table_max_size T')" "size_chunk T' = c"
  then show ?thesis using assms(6-8) by (simp add: motor_rep_def contenido_en_def)
qed

section \<open>Properties\<close>

definition e_vacio :: t_array where
  "e_vacio = \<lparr>item = \<lparr>nkey = 0, data = 0, ndata = 0, flags = 0, stored = False, exptime = 0\<rparr>, ocupado = False,
     bytes_disponibles = 0, bytes_inutilizados = 0, ultimaVezUsada = 0\<rparr>"

definition motor_ej :: "string \<Rightarrow> int \<Rightarrow> nat \<Rightarrow> t_engine option" where
  "motor_ej esq chunk nodos =
     do { T \<leftarrow> cache_initialize (chunk * int nodos) chunk (replicate nodos e_vacio) (\<lambda>_. 0) (\<lambda>_. 0) e_vacio;
          Some \<lparr>cache = T, block_size_max = chunk * int nodos, chunk_size = chunk, esquema = esq,
            alg_busqueda = ''first_fit'', alg_reemplazo = ''lru'', frecuenciaCompactacion = 1\<rparr> }"

text \<open>
  C6: with the buddy system the engine refines a map. It starts from a table with a power of two of chunks whose memory
  \<^verbatim>\<open>malloc\<close> happened to return zeroed, which the code relies on and does not ensure, with a cell in front of the array that
  does not look occupied; a request that never returns counts as a miss, also for the requests after it; along any sequence of requests with keys of at most
  60 bytes and values that are not empty, every answer is a miss or the value last set under the key and not deleted
  since. Replacement may forget values; splitting, joining and moving partitions never mixes them up.
\<close>

theorem motor_refina_mapa:
  assumes "0 < c" "0 < K" "length arreglo = 2 ^ K" "\<forall>e \<in> set arreglo. bytes_disponibles e = 0" "\<not> ocupado delante"
    and "strict_mono reloj" "esq \<noteq> ''particionesdinamicas''"
    and "cache_initialize (c * 2 ^ K) c arreglo bk bd delante = Some T"
    and "\<forall>x \<in> set ops. length (clave_de x) \<le> 60" "\<forall>k v. OpSet k v \<in> set ops \<longrightarrow> v \<noteq> []"
  shows "list_all2 (\<lambda>r s. r = None \<or> r = s)
    (respuestas (memcached_get (mem_motor reloj)) (memcached_set (mem_motor reloj)) (memcached_delete (mem_motor reloj))
       (Some \<lparr>cache = T, block_size_max = b, chunk_size = c, esquema = esq, alg_busqueda = ab,
              alg_reemplazo = ar, frecuenciaCompactacion = f\<rparr>) ops)
    (respuestas_mapa Map.empty ops)"
  using inicio_rep [OF assms(1-8)] assms(9,10)
  by (intro motor.corrida) (auto simp: motor_rep_opt_def clave_corta_def TAM_CLAVE_def valor_no_vacio_def)

text \<open>
  C17: a value of at most one chunk can always be stored, by replacing at most one item, and is read back
  at once, with the buddy system; the engine goes on as a map with that binding.
\<close>

theorem motor_set_get:
  assumes "motor_rep reloj E m" "length key \<le> 60" "v \<noteq> []" "int (length v) \<le> size_chunk (cache E)"
    "int (length v) \<le> block_size_max E" "table_max_size (cache E) \<noteq> 0"
  shows "\<exists>E1 E2. pedido_set reloj E key v = Some E1 \<and> pedido_get reloj E1 key = Some (Some v, E2)
    \<and> motor_rep reloj E2 (m(key \<mapsto> v))"
proof -
  have k: "length key \<le> TAM_CLAVE" using assms(2) by (simp add: TAM_CLAVE_def)
  obtain E1 where E1: "pedido_set reloj E key v = Some E1" "motor_rep reloj E1 (m(key \<mapsto> v))"
      "key \<in> clave ` set (items (cache E1))"
    using pedido_set_bien [OF assms(1) k assms(3)] assms(4-6) by blast
  obtain r E2 where "pedido_get reloj E1 key = Some (r, E2)" "motor_rep reloj E2 (m(key \<mapsto> v))"
      "r = (if key \<in> clave ` set (items (cache E1)) then (m(key \<mapsto> v)) key else None)"
    by (rule pedido_get_bien [OF E1(2) k])
  then show ?thesis using E1 by auto
qed

lemma strict_mono_Suc: "strict_mono Suc"
  by (simp add: strict_mono_def)

lemma arreglo_ej: "length [e_vacio, e_vacio] = 2 ^ 1" "\<forall>e \<in> set [e_vacio, e_vacio]. bytes_disponibles e = 0" "\<not> ocupado e_vacio"
  by (simp_all add: e_vacio_def)

lemma buddy_ej: "''buddy'' \<noteq> ''particionesdinamicas''"
  by simp

theorem motor_refina_mapa_witness:
  "\<exists>T. cache_initialize (1 * 2 ^ 1) 1 [e_vacio, e_vacio] (\<lambda>_. 0) (\<lambda>_. 0) e_vacio = Some T
    \<and> list_all2 (\<lambda>r s. r = None \<or> r = s)
      (respuestas (memcached_get (mem_motor Suc)) (memcached_set (mem_motor Suc)) (memcached_delete (mem_motor Suc))
         (Some \<lparr>cache = T, block_size_max = 2, chunk_size = 1, esquema = ''buddy'', alg_busqueda = [],
                alg_reemplazo = ''lru'', frecuenciaCompactacion = 1\<rparr>) [OpSet [1] [7], OpGet [1]])
      [Some [7]]"
proof -
  obtain T where T: "cache_initialize (1 * 2 ^ 1) 1 [e_vacio, e_vacio] (\<lambda>_. 0) (\<lambda>_. 0) e_vacio = Some T"
    using inicio_bien [of 1 1 "[e_vacio, e_vacio]" e_vacio] arreglo_ej by (metis zero_less_one)
  from motor_refina_mapa [OF zero_less_one zero_less_one arreglo_ej strict_mono_Suc buddy_ej T,
      of "[OpSet [1] [7], OpGet [1]]" 2 "[]" "''lru''" 1] T
  show ?thesis by auto
qed

theorem motor_set_get_witness:
  "\<exists>E m E1 E2. pedido_set Suc E [1] [7] = Some E1 \<and> pedido_get Suc E1 [1] = Some (Some [7], E2)
    \<and> motor_rep Suc E2 (m([1] \<mapsto> [7]))"
proof -
  obtain T where T: "cache_initialize (1 * 2 ^ 1) 1 [e_vacio, e_vacio] (\<lambda>_. 0) (\<lambda>_. 0) e_vacio = Some T"
      "size_chunk T = 1" "table_max_size T = 2 ^ 1"
    using inicio_bien [of 1 1 "[e_vacio, e_vacio]" e_vacio] arreglo_ej by (metis zero_less_one)
  let ?E = "\<lparr>cache = T, block_size_max = 2, chunk_size = 1, esquema = ''buddy'', alg_busqueda = [],
    alg_reemplazo = ''lru'', frecuenciaCompactacion = 1\<rparr>"
  have "motor_rep Suc ?E Map.empty"
    by (rule inicio_rep [OF zero_less_one zero_less_one arreglo_ej strict_mono_Suc buddy_ej T(1)])
  from motor_set_get [OF this, of "[1]" "[7]"] T(2,3) show ?thesis by fastforce
qed

text \<open>
  With dynamic partitions the engine can return a value nobody stored. An item is put in a hole that is larger by
  less than a chunk, and the free partition behind it is moved to the end of the item although the bytes
  between still belong to the item's partition. Once the item is gone, the next one may use the whole
  partition and overwrites the first byte of its neighbour: key 4 was set to 4, 4 and reads 5, 4.
\<close>

lemma particiones_corrompe:
  "map_option fst (do { E \<leftarrow> motor_ej ''particionesdinamicas'' 2 4;
     E \<leftarrow> pedido_set Suc E [1] [1, 1, 1]; E \<leftarrow> pedido_set Suc E [2] [2, 2];
     E \<leftarrow> pedido_delete E [1]; E \<leftarrow> pedido_delete E [2];
     E \<leftarrow> pedido_set Suc E [3] [3, 3]; E \<leftarrow> pedido_set Suc E [4] [4, 4];
     E \<leftarrow> pedido_delete E [3]; E \<leftarrow> pedido_set Suc E [5] [5, 5, 5];
     pedido_get Suc E [4] }) = Some (Some [5, 4])"
  by code_simp

text \<open>
  The buddy system must not be given an empty value. A request of zero bytes is satisfied by an unused
  place of the table; removing it turns the place into a hole of one chunk over memory that belongs to
  somebody else. Key 1 was set to 1, 1 and reads 9, 1.
\<close>

lemma valor_vacio_corrompe:
  "map_option fst (do { E \<leftarrow> motor_ej ''buddy'' 1 2;
     E \<leftarrow> pedido_set Suc E [1] [1, 1]; E \<leftarrow> pedido_set Suc E [2] [];
     E \<leftarrow> pedido_delete E [2]; E \<leftarrow> pedido_set Suc E [3] [9];
     pedido_get Suc E [1] }) = Some (Some [9, 1])"
  by code_simp

text \<open>
  \<^verbatim>\<open>flush_all\<close> does not clear the mark of the items it drops. An item that is being received, allocated but not
  yet stored, is visible to a lookup when its place held a stored item before the flush.
\<close>

lemma flush_deja_marcas:
  "map_option (\<lambda>(r, _, _). r) (do { E \<leftarrow> motor_ej ''buddy'' 1 2;
     E \<leftarrow> pedido_set Suc E [1] [1, 1];
     T \<leftarrow> flush_all (cache E);
     (_, _, T) \<leftarrow> item_allocate Suc (E\<lparr>cache := T\<rparr>) [2] 2;
     get_info Suc (E\<lparr>cache := T\<rparr>) [2] }) = Some ENGINE_SUCCESS"
  by code_simp

text \<open>
  C33: the buddy system can hang with the whole cache free. When no two sisters can be joined, no hole is large enough
  and nothing is left to replace, the loop of \<^verbatim>\<open>buddysystem\<close> repeats for ever, holding the mutex of the cache.
\<close>

theorem buddy_no_termina:
  assumes "map_option fst (unir_pasada T [0..<table_max_size T] 0 False) = Some False"
    and "\<forall>e \<in> set (elements T). ocupado e \<or> bytes_disponibles e < n"
    and "table_max_size T = length (elements T)" "elements_amount T = 0"
  shows "buddysystem reloj T n = None"
proof -
  obtain T' where T': "unir_pasada T [0..<table_max_size T] 0 False = Some (False, T')" using assms(1) by auto
  then have "unirTodasLasHermanas T = Some T"
    using unir_pasada_quieta by (subst unirTodasLasHermanas.simps) fastforce
  then have "buscar_uniendo T n = Some (- 1, T)"
    using buscarHueco_lleno [OF assms(2,3)] by (simp add: buscar_uniendo_def)
  then show ?thesis using assms(4) by (rule buddysystem_gira)
qed

text \<open>
  How it comes to that: a union with the sister in front skips the next partition without counting its
  bytes, so the rest of the pass takes positions for the wrong ones and joins two partitions that are not sisters.
  The table below has free partitions of 1, 1, 2, 1 and 1 chunks and two stored items.
\<close>

definition parte_libre :: "int \<Rightarrow> int \<Rightarrow> t_array" where
  "parte_libre d s = e_vacio\<lparr>bytes_disponibles := s, item := (item e_vacio)\<lparr>data := d\<rparr>\<rparr>"

definition parte_ocupada :: "int \<Rightarrow> nat \<Rightarrow> t_array" where
  "parte_ocupada d k = e_vacio\<lparr>ocupado := True, item := (item e_vacio)\<lparr>data := d, ndata := 1, nkey := k, stored := True\<rparr>\<rparr>"

definition motor_partido :: t_engine where
  "motor_partido =
     \<lparr>cache = \<lparr>elements = [parte_libre 0 1, parte_libre 1 1, parte_libre 2 2, parte_ocupada 4 1, parte_libre 5 1,
                          parte_libre 6 1, parte_ocupada 7 2, e_vacio],
               table_max_size = 8, elements_amount = 2, espacio_libre = 6, size_chunk = 1,
               claves = \<lparr>dk_len = 488, dk_byte = (\<lambda>_. 0)\<rparr>, datos = \<lparr>dk_len = 8, dk_byte = (\<lambda>_. 0)\<rparr>,
               previo = e_vacio, lecturas = 0\<rparr>,
      block_size_max = 8, chunk_size = 1, esquema = ''buddy'', alg_busqueda = ''first_fit'', alg_reemplazo = ''lru'',
      frecuenciaCompactacion = 1\<rparr>"

lemma celdas_partido:
  "celdas (cache motor_partido) = [Hueco 0 1, Hueco 1 1, Hueco 2 2, Ocup 4 1 0 [0] True 0, Hueco 5 1, Hueco 6 1,
     Ocup 7 1 0 [0, 0] True 0] @ replicate 1 Nada"
  by code_simp

lemma celda_uno: "celda_ok 1 (Hueco d 1)" "celda_ok 1 (Hueco d 2)" "celda_ok 1 (Ocup d 1 0 k st t)"
  by (auto intro: exI [of _ 0] exI [of _ 1])

lemma motor_partido_ok: "motor_ok Suc (cache motor_partido)"
proof -
  have "tejido 1 (1 * int 8) (celdas (cache motor_partido))"
    by (rule tejidoI [OF celdas_partido]) (simp add: celda_uno del: celda_ok.simps)
  moreover have "tabla_bien (cache motor_partido)"
    by (auto simp: tabla_bien_def motor_partido_def parte_libre_def parte_ocupada_def e_vacio_def TAM_CLAVE_def
        less_Suc_eq nth_Cons' numeral_eq_Suc)
  ultimately show ?thesis
    unfolding motor_ok_def buddy_ok_def fila_ok_def celdas_partido
    by (simp add: motor_partido_def e_vacio_def)
qed

definition atascar :: "t_engine option" where
  "atascar = do { E \<leftarrow> pedido_set Suc motor_partido [0, 0, 0] [1, 2, 3, 4];
     E \<leftarrow> pedido_delete E [0, 0, 0]; E \<leftarrow> pedido_delete E [0]; pedido_delete E [0, 0] }"

lemma atascar_vista:
  "map_option (\<lambda>E. (map_option fst (unir_pasada (cache E) [0..<table_max_size (cache E)] 0 False),
      list_all (\<lambda>e. ocupado e \<or> bytes_disponibles e < 8) (elements (cache E)),
      table_max_size (cache E) = length (elements (cache E)), elements_amount (cache E), espacio_libre (cache E))) atascar
    = Some (Some False, True, True, 0, 8)"
  by code_simp

theorem buddy_no_termina_witness:
  "\<exists>E. atascar = Some E \<and> elements_amount (cache E) = 0 \<and> espacio_libre (cache E) = 8
    \<and> buddysystem Suc (cache E) 8 = None"
proof -
  obtain E where E: "atascar = Some E" using atascar_vista by (cases atascar) auto
  have v: "map_option fst (unir_pasada (cache E) [0..<table_max_size (cache E)] 0 False) = Some False"
    "\<forall>e \<in> set (elements (cache E)). ocupado e \<or> bytes_disponibles e < 8"
    "table_max_size (cache E) = length (elements (cache E))" "elements_amount (cache E) = 0" "espacio_libre (cache E) = 8"
    using atascar_vista unfolding E option.map(2) option.inject prod.inject list_all_iff by blast+
  from buddy_no_termina [OF v(1-4), of Suc] E v show ?thesis by blast
qed

text \<open>
  A key longer than 60 bytes runs into the slot of the next element. Key 2 is stored; a key of 61 bytes is
  put in front of it; then key 7, under which nothing was ever stored, is answered with the value of key 2.
\<close>

lemma clave_larga_corrompe:
  "map_option fst (do { E \<leftarrow> motor_ej ''buddy'' 1 2;
     E \<leftarrow> pedido_set Suc E [1] [1]; E \<leftarrow> pedido_set Suc E [2] [2];
     E \<leftarrow> pedido_delete E [1]; E \<leftarrow> pedido_set Suc E (replicate 61 7) [9];
     pedido_get Suc E [7] }) = Some (Some [2])"
  by code_simp

end
