(* ===== verification/Diccionario.thy ===== *)
theory Diccionario
  imports Prelude
begin

text \<open>
  The hash table of \<^verbatim>\<open>commons/collections/dictionary.c\<close>, in which the configuration of every program is kept.
  A bucket is the list of its elements in the order of the \<^verbatim>\<open>next\<close> pointers; the data of an element is
  \<open>None\<close> for the null pointer. A key is a C string without its terminator.

  Lookup and removal compare hash codes and never keys, and insertion appends without looking for the key. What
  the table implements is therefore not a map from keys but, for each hash code, a queue: the abstract
  specification below, which every operation, the growth of the table included, refines.
\<close>

section \<open>The table\<close>

record 'a t_hash_element =
  key :: "u8 list"
  data :: "'a option"
  hashcode :: u32

record 'a t_dictionary =
  elements :: "'a t_hash_element list list"
  table_max_size :: nat
  table_current_size :: nat
  elements_amount :: int

definition DEFAULT_DICTIONARY_INITIAL_SIZE :: nat where
  "DEFAULT_DICTIONARY_INITIAL_SIZE = 20"

definition dictionary_create :: "'a t_dictionary" where
  "dictionary_create =
     \<lparr>elements = replicate DEFAULT_DICTIONARY_INITIAL_SIZE [], table_max_size = DEFAULT_DICTIONARY_INITIAL_SIZE,
      table_current_size = 0, elements_amount = 0\<rparr>"

unbundle bit_operations_syntax

primrec hash_loop :: "u8 list \<Rightarrow> u32 \<Rightarrow> u32" where
  "hash_loop [] hash = hash"
| "hash_loop (c # cs) hash =
     (let hash = hash + ucast c; hash = hash + push_bit 10 hash; hash = hash XOR drop_bit 6 hash in
      hash_loop cs hash)"

definition dictionary_hash :: "u8 list \<Rightarrow> u32" where
  "dictionary_hash k =
     (let hash = hash_loop k 0; hash = hash + push_bit 3 hash; hash = hash XOR drop_bit 11 hash in
      hash + push_bit 15 hash)"

definition dictionary_create_element :: "u8 list \<Rightarrow> u32 \<Rightarrow> 'a option \<Rightarrow> 'a t_hash_element" where
  "dictionary_create_element k key_hash d = \<lparr>key = k, data = d, hashcode = key_hash\<rparr>"

section \<open>Growing\<close>

text \<open>The elements move one by one, each to the end of its new chain; a chain that was empty is counted.\<close>

definition mover_elemento :: "'a t_hash_element \<Rightarrow> 'a t_hash_element list list \<times> nat \<Rightarrow> 'a t_hash_element list list \<times> nat" where
  "mover_elemento e = (\<lambda>(new_table, current).
     let i = unat (hashcode e) mod length new_table in
     (new_table[i := new_table ! i @ [e]], if new_table ! i = [] then Suc current else current))"

definition dictionary_resize :: "'a t_dictionary \<Rightarrow> nat \<Rightarrow> 'a t_dictionary" where
  "dictionary_resize self new_max_size =
     (let (new_table, current) = fold (fold mover_elemento) (take (table_max_size self) (elements self))
            (replicate new_max_size [], 0) in
      self\<lparr>elements := new_table, table_max_size := new_max_size, table_current_size := current\<rparr>)"

section \<open>The operations\<close>

abbreviation indice :: "'a t_dictionary \<Rightarrow> u32 \<Rightarrow> nat" where
  "indice self h \<equiv> unat h mod table_max_size self"

definition dictionary_put :: "'a t_dictionary \<Rightarrow> u8 list \<Rightarrow> 'a option \<Rightarrow> 'a t_dictionary" where
  "dictionary_put self k d =
     (let key_hash = dictionary_hash k; index = indice self key_hash;
          new_element = dictionary_create_element k key_hash d;
          chain = elements self ! index;
          self' = self\<lparr>elements := (elements self)[index := chain @ [new_element]]\<rparr>;
          self' = (if chain = [] then
                     let self' = self'\<lparr>table_current_size := table_current_size self + 1\<rparr> in
                     if table_current_size self' \<ge> table_max_size self'
                     then dictionary_resize self' (table_max_size self' * 2) else self'
                   else self')
      in self'\<lparr>elements_amount := elements_amount self + 1\<rparr>)"

definition dictionary_get_element :: "'a t_dictionary \<Rightarrow> u8 list \<Rightarrow> 'a t_hash_element option" where
  "dictionary_get_element self k =
     (let key_hash = dictionary_hash k in
      List.find (\<lambda>e. hashcode e = key_hash) (elements self ! indice self key_hash))"

definition dictionary_get :: "'a t_dictionary \<Rightarrow> u8 list \<Rightarrow> 'a option" where
  "dictionary_get self k = (case dictionary_get_element self k of None \<Rightarrow> None | Some e \<Rightarrow> data e)"

definition dictionary_has_key :: "'a t_dictionary \<Rightarrow> u8 list \<Rightarrow> bool" where
  "dictionary_has_key self k \<longleftrightarrow> dictionary_get_element self k \<noteq> None"

text \<open>The first element with the hash code is unlinked; a chain is discounted when its only element goes.\<close>

primrec quitar_de_cadena :: "u32 \<Rightarrow> 'a t_hash_element list \<Rightarrow> ('a option \<times> 'a t_hash_element list) option" where
  "quitar_de_cadena h [] = None"
| "quitar_de_cadena h (e # es) =
     (if hashcode e = h then Some (data e, es)
      else map_option (\<lambda>(d, es). (d, e # es)) (quitar_de_cadena h es))"

definition dictionary_remove_element :: "'a t_dictionary \<Rightarrow> u8 list \<Rightarrow> 'a option \<times> 'a t_dictionary" where
  "dictionary_remove_element self k =
     (let key_hash = dictionary_hash k; index = indice self key_hash in
      case quitar_de_cadena key_hash (elements self ! index) of
        None \<Rightarrow> (None, self)
      | Some (d, es) \<Rightarrow>
          (d, self\<lparr>elements := (elements self)[index := es],
                   table_current_size := (if es = [] then table_current_size self - 1 else table_current_size self)\<rparr>))"

definition dictionary_remove :: "'a t_dictionary \<Rightarrow> u8 list \<Rightarrow> 'a option \<times> 'a t_dictionary" where
  "dictionary_remove self k =
     (let (d, self) = dictionary_remove_element self k in
      (d, if d \<noteq> None then self\<lparr>elements_amount := elements_amount self - 1\<rparr> else self))"

text \<open>
  The \<^verbatim>\<open>data_destroyer\<close> of the table is an argument of the operations that use it: \<open>None\<close> for the null pointer,
  otherwise what it does to a state with the data it gets.
\<close>

definition dictionary_remove_and_destroy ::
  "('a option \<Rightarrow> 's \<Rightarrow> 's) option \<Rightarrow> 'a t_dictionary \<Rightarrow> u8 list \<Rightarrow> 's \<Rightarrow> ('a t_dictionary \<times> 's) option" where
  "dictionary_remove_and_destroy data_destroyer self k st =
     (let (d, self) = dictionary_remove_element self k in
      if d \<noteq> None
      then do { destroy \<leftarrow> data_destroyer; Some (self\<lparr>elements_amount := elements_amount self - 1\<rparr>, destroy d st) }
      else Some (self, st))"

definition dictionary_destroy_element :: "('a option \<Rightarrow> 's \<Rightarrow> 's) option \<Rightarrow> 'a t_hash_element \<Rightarrow> 's \<Rightarrow> 's" where
  "dictionary_destroy_element data_destroyer element st =
     (case data_destroyer of None \<Rightarrow> st | Some destroy \<Rightarrow> destroy (data element) st)"

definition dictionary_clean :: "('a option \<Rightarrow> 's \<Rightarrow> 's) option \<Rightarrow> 'a t_dictionary \<Rightarrow> 's \<Rightarrow> 'a t_dictionary \<times> 's" where
  "dictionary_clean data_destroyer self st =
     (self\<lparr>elements := replicate (table_max_size self) [] @ drop (table_max_size self) (elements self),
           table_current_size := 0, elements_amount := 0\<rparr>,
      fold (fold (dictionary_destroy_element data_destroyer)) (take (table_max_size self) (elements self)) st)"

definition dictionary_destroy :: "('a option \<Rightarrow> 's \<Rightarrow> 's) option \<Rightarrow> 'a t_dictionary \<Rightarrow> 's \<Rightarrow> 's" where
  "dictionary_destroy data_destroyer self st = snd (dictionary_clean data_destroyer self st)"

definition dictionary_is_empty :: "'a t_dictionary \<Rightarrow> bool" where
  "dictionary_is_empty self \<longleftrightarrow> elements_amount self = 0"

definition dictionary_size :: "'a t_dictionary \<Rightarrow> int" where
  "dictionary_size self = elements_amount self"

text \<open>
  The loop over a chain reads the successor of the first element and never moves to it: with a second element
  in the chain it repeats for ever. The closure is what it does to a state.
\<close>

partial_function (option) iterar_cadena ::
  "(u8 list \<Rightarrow> 'a t_hash_element \<Rightarrow> 's \<Rightarrow> 's) \<Rightarrow> 'a t_hash_element \<Rightarrow> 'a t_hash_element list \<Rightarrow> 's \<Rightarrow> 's option" where
  "iterar_cadena closure e es st =
     (let st = closure (key e) e st in if es \<noteq> [] then iterar_cadena closure e es st else Some st)"

primrec iterar_tabla ::
  "(u8 list \<Rightarrow> 'a t_hash_element \<Rightarrow> 's \<Rightarrow> 's) \<Rightarrow> 'a t_hash_element list list \<Rightarrow> 's \<Rightarrow> 's option" where
  "iterar_tabla closure [] st = Some st"
| "iterar_tabla closure (c # cs) st =
     (case c of [] \<Rightarrow> iterar_tabla closure cs st
      | e # es \<Rightarrow> Option.bind (iterar_cadena closure e es st) (iterar_tabla closure cs))"

definition dictionary_iterator ::
  "'a t_dictionary \<Rightarrow> (u8 list \<Rightarrow> 'a t_hash_element \<Rightarrow> 's \<Rightarrow> 's) \<Rightarrow> 's \<Rightarrow> 's option" where
  "dictionary_iterator self closure st = iterar_tabla closure (take (table_max_size self) (elements self)) st"

section \<open>The abstract view\<close>

text \<open>The queue of a hash code, and the invariant of the table.\<close>

definition cola_de :: "'a t_dictionary \<Rightarrow> u32 \<Rightarrow> 'a t_hash_element list" where
  "cola_de d h = filter (\<lambda>e. hashcode e = h) (elements d ! indice d h)"

definition bien_puestos :: "'a t_hash_element list list \<Rightarrow> bool" where
  "bien_puestos t \<longleftrightarrow> (\<forall>i < length t. \<forall>e \<in> set (t ! i). unat (hashcode e) mod length t = i)"

abbreviation no_vacias :: "'a list list \<Rightarrow> nat" where
  "no_vacias t \<equiv> length (filter (\<lambda>c. c \<noteq> []) t)"

definition dic_ok :: "'a t_dictionary \<Rightarrow> bool" where
  "dic_ok d \<longleftrightarrow> 0 < table_max_size d \<and> length (elements d) = table_max_size d \<and> bien_puestos (elements d)
     \<and> table_current_size d = no_vacias (elements d)"

definition cuenta_ok :: "'a t_dictionary \<Rightarrow> bool" where
  "cuenta_ok d \<longleftrightarrow> elements_amount d = int (length (concat (elements d)))"

lemma no_vacias_update:
  assumes "i < length t"
  shows "no_vacias (t[i := c]) + (if t ! i = [] then 0 else 1) = no_vacias t + (if c = [] then 0 else 1)"
proof -
  have "t = take i t @ t ! i # drop (Suc i) t" using assms by (rule id_take_nth_drop)
  then have "no_vacias t = no_vacias (take i t @ t ! i # drop (Suc i) t)" by simp
  moreover have "t[i := c] = take i t @ c # drop (Suc i) t" using assms by (rule upd_conv_take_nth_drop)
  ultimately show ?thesis by simp
qed

lemma length_concat_update:
  assumes "i < length t"
  shows "length (concat (t[i := c])) + length (t ! i) = length (concat t) + length c"
proof -
  have "t = take i t @ t ! i # drop (Suc i) t" using assms by (rule id_take_nth_drop)
  then have "length (concat t) = length (concat (take i t @ t ! i # drop (Suc i) t))" by simp
  moreover have "t[i := c] = take i t @ c # drop (Suc i) t" using assms by (rule upd_conv_take_nth_drop)
  ultimately show ?thesis by simp
qed

lemma bien_puestos_update:
  assumes "bien_puestos t" "\<forall>e \<in> set c. unat (hashcode e) mod length t = i"
  shows "bien_puestos (t[i := c])"
  unfolding bien_puestos_def
proof (intro allI impI)
  fix j
  assume "j < length (t[i := c])"
  then show "\<forall>e \<in> set (t[i := c] ! j). unat (hashcode e) mod length (t[i := c]) = j"
    using assms by (cases "j = i") (simp_all add: bien_puestos_def)
qed

text \<open>Only the bucket of a hash code has elements with it.\<close>

lemma filtro_concat:
  assumes "bien_puestos t" "0 < length t"
  shows "filter (\<lambda>e. hashcode e = h) (concat t) = filter (\<lambda>e. hashcode e = h) (t ! (unat h mod length t))"
proof -
  let ?P = "\<lambda>e. hashcode e = h" and ?i = "unat h mod length t"
  have i: "?i < length t" using assms(2) by simp
  have no: "filter ?P (t ! j) = []" if "j < length t" "j \<noteq> ?i" for j
    using assms(1) that by (auto simp: bien_puestos_def filter_empty_conv)
  have "\<forall>c \<in> set (take ?i t). filter ?P c = []" "\<forall>c \<in> set (drop (Suc ?i) t). filter ?P c = []"
    using no i by (fastforce simp: in_set_conv_nth)+
  then have z: "filter ?P (concat (take ?i t)) = []" "filter ?P (concat (drop (Suc ?i) t)) = []"
    by (simp_all add: filter_concat)
  have "concat t = concat (take ?i t) @ t ! ?i @ concat (drop (Suc ?i) t)"
    using id_take_nth_drop [OF i] by (metis concat.simps(2) concat_append)
  then show ?thesis using z by simp
qed

section \<open>Growing keeps the queues\<close>

lemma mover_paso:
  assumes "mover_elemento e (t, c) = (t', c')" "0 < length t" "bien_puestos t" "c = no_vacias t"
  shows "length t' = length t" "bien_puestos t'" "c' = no_vacias t'"
    "filter (\<lambda>e. hashcode e = h) (t' ! (unat h mod length t)) =
       filter (\<lambda>e. hashcode e = h) (t ! (unat h mod length t) @ [e])"
    "length (concat t') = Suc (length (concat t))"
proof -
  let ?i = "unat (hashcode e) mod length t"
  have i: "?i < length t" using assms(2) by simp
  have t': "t' = t[?i := t ! ?i @ [e]]" "c' = (if t ! ?i = [] then Suc c else c)"
    using assms(1) by (auto simp: mover_elemento_def Let_def)
  show "length t' = length t" using t' by simp
  show "bien_puestos t'" unfolding t'
    using assms(3) i by (intro bien_puestos_update) (auto simp: bien_puestos_def)
  show "c' = no_vacias t'" using no_vacias_update [OF i, of "t ! ?i @ [e]"] t' assms(4) by (auto split: if_splits)
  show "length (concat t') = Suc (length (concat t))"
    using length_concat_update [OF i, of "t ! ?i @ [e]"] t' by simp
  show "filter (\<lambda>e. hashcode e = h) (t' ! (unat h mod length t)) =
      filter (\<lambda>e. hashcode e = h) (t ! (unat h mod length t) @ [e])"
  proof (cases "hashcode e = h")
    case True
    then show ?thesis unfolding t' using i by simp
  next
    case False
    then show ?thesis unfolding t' by (cases "unat h mod length t = ?i") (use i in simp_all)
  qed
qed

lemma mover_todos:
  assumes "fold mover_elemento es (t, c) = (t', c')" "0 < length t" "bien_puestos t" "c = no_vacias t"
  shows "length t' = length t \<and> bien_puestos t' \<and> c' = no_vacias t'
    \<and> (\<forall>h. filter (\<lambda>e. hashcode e = h) (t' ! (unat h mod length t)) =
       filter (\<lambda>e. hashcode e = h) (t ! (unat h mod length t) @ es))
    \<and> length (concat t') = length (concat t) + length es"
  using assms
proof (induction es arbitrary: t c)
  case (Cons e es)
  obtain t1 c1 where m: "mover_elemento e (t, c) = (t1, c1)" by (cases "mover_elemento e (t, c)")
  note P = mover_paso [OF m Cons.prems(2-4)]
  have "fold mover_elemento es (t1, c1) = (t', c')" using Cons.prems(1) m by simp
  from Cons.IH [OF this] P(1-3) Cons.prems(2) show ?case using P(1,4,5) by simp
qed simp

lemma fold_fold_concat: "fold (fold f) xss s = fold f (concat xss) s"
  by (induction xss arbitrary: s) simp_all

lemma resize_ok:
  assumes "0 < n" "bien_puestos (elements d)" "length (elements d) = table_max_size d" "0 < table_max_size d"
  shows "dic_ok (dictionary_resize d n)" "cola_de (dictionary_resize d n) h = cola_de d h"
    "length (concat (elements (dictionary_resize d n))) = length (concat (elements d))"
    "elements_amount (dictionary_resize d n) = elements_amount d"
proof -
  obtain t c where f: "fold mover_elemento (concat (elements d)) (replicate n [], 0) = (t, c)" by fastforce
  have r: "dictionary_resize d n = d\<lparr>elements := t, table_max_size := n, table_current_size := c\<rparr>"
    using f assms(3) by (simp add: dictionary_resize_def fold_fold_concat)
  have "bien_puestos (replicate n [] :: 'a t_hash_element list list)" "no_vacias (replicate n ([] :: 'a t_hash_element list)) = 0"
    by (simp_all add: bien_puestos_def)
  with mover_todos [OF f] assms(1) have T: "length t = n" "bien_puestos t" "c = no_vacias t"
    "\<And>h. filter (\<lambda>e. hashcode e = h) (t ! (unat h mod n)) = filter (\<lambda>e. hashcode e = h) (concat (elements d))"
    "length (concat t) = length (concat (elements d))"
    by simp_all
  show "dic_ok (dictionary_resize d n)" using T(1-3) assms(1) by (simp add: r dic_ok_def)
  show "cola_de (dictionary_resize d n) h = cola_de d h"
    using T(4) filtro_concat [OF assms(2)] assms(3,4) by (simp add: r cola_de_def)
  show "length (concat (elements (dictionary_resize d n))) = length (concat (elements d))"
    "elements_amount (dictionary_resize d n) = elements_amount d" using T(5) by (simp_all add: r)
qed

section \<open>The operations on the queues\<close>

lemma put_ok:
  assumes "dic_ok d"
  shows "dic_ok (dictionary_put d k v)"
    and "cola_de (dictionary_put d k v) h =
      cola_de d h @ (if h = dictionary_hash k then [dictionary_create_element k h v] else [])"
    and "cuenta_ok d \<Longrightarrow> cuenta_ok (dictionary_put d k v)"
proof -
  let ?h = "dictionary_hash k"
  let ?i = "indice d ?h" and ?e = "dictionary_create_element k ?h v"
  let ?t = "(elements d)[?i := elements d ! ?i @ [?e]]"
  let ?d1 = "d\<lparr>elements := ?t\<rparr>"
  have i: "?i < length (elements d)" using assms by (simp add: dic_ok_def)
  have he: "hashcode ?e = ?h" by (simp add: dictionary_create_element_def)
  have bp: "bien_puestos ?t"
    using assms i he by (intro bien_puestos_update) (auto simp: dic_ok_def bien_puestos_def)
  have nv: "no_vacias ?t = no_vacias (elements d) + (if elements d ! ?i = [] then 1 else 0)"
    using no_vacias_update [OF i, of "elements d ! ?i @ [?e]"] by (auto split: if_splits)
  have ln: "length (concat ?t) = Suc (length (concat (elements d)))"
    using length_concat_update [OF i, of "elements d ! ?i @ [?e]"] by simp
  have ce: "cola_de (?d1\<lparr>table_current_size := c, elements_amount := a\<rparr>) h
      = cola_de d h @ (if h = ?h then [dictionary_create_element k h v] else [])" for c a
  proof (cases "indice d h = ?i")
    case True
    then show ?thesis using i he by (auto simp: cola_de_def)
  next
    case False
    then have "h \<noteq> ?h" by auto
    then show ?thesis using False by (simp add: cola_de_def)
  qed
  have "dic_ok (dictionary_put d k v) \<and> (cuenta_ok d \<longrightarrow> cuenta_ok (dictionary_put d k v))
    \<and> cola_de (dictionary_put d k v) h = cola_de d h @ (if h = ?h then [dictionary_create_element k h v] else [])"
  proof (cases "elements d ! ?i = [] \<and> table_max_size d \<le> Suc (table_current_size d)")
    case True
    let ?d2 = "?d1\<lparr>table_current_size := table_current_size d + 1\<rparr>"
    have p: "dictionary_put d k v = (dictionary_resize ?d2 (table_max_size d * 2))\<lparr>elements_amount := elements_amount d + 1\<rparr>"
      using True by (simp add: dictionary_put_def Let_def)
    have pre: "0 < table_max_size d * 2" "bien_puestos (elements ?d2)" "length (elements ?d2) = table_max_size ?d2" "0 < table_max_size ?d2"
      using assms bp by (simp_all add: dic_ok_def)
    note R = resize_ok [OF pre]
    have "cola_de (dictionary_put d k v) h = cola_de ?d2 h" using R(2) by (simp add: p cola_de_def)
    then show ?thesis
      using R(1,3,4) ln ce [where c = "table_current_size d + 1" and a = "elements_amount d"] p by (simp add: dic_ok_def cuenta_ok_def)
  next
    case False
    let ?c = "if elements d ! ?i = [] then table_current_size d + 1 else table_current_size d"
    have p: "dictionary_put d k v = ?d1\<lparr>table_current_size := ?c, elements_amount := elements_amount d + 1\<rparr>"
      using False by (auto simp: dictionary_put_def Let_def)
    show ?thesis using ce [where c = ?c and a = "elements_amount d + 1"] assms bp nv ln by (simp add: p dic_ok_def cuenta_ok_def)
  qed
  then show "dic_ok (dictionary_put d k v)" "cuenta_ok d \<Longrightarrow> cuenta_ok (dictionary_put d k v)"
    "cola_de (dictionary_put d k v) h = cola_de d h @ (if h = ?h then [dictionary_create_element k h v] else [])"
    by blast+
qed

lemma find_filter: "List.find P xs = (case filter P xs of [] \<Rightarrow> None | x # _ \<Rightarrow> Some x)"
  by (induction xs) auto

lemma get_element_cola: "dictionary_get_element d k = (case cola_de d (dictionary_hash k) of [] \<Rightarrow> None | e # _ \<Rightarrow> Some e)"
  by (simp add: dictionary_get_element_def Let_def find_filter cola_de_def)

lemma quitar_cadena:
  "quitar_de_cadena h es = None \<longleftrightarrow> filter (\<lambda>e. hashcode e = h) es = []"
  "quitar_de_cadena h es = Some (x, es') \<Longrightarrow> \<exists>pre e post. es = pre @ e # post \<and> es' = pre @ post \<and> hashcode e = h \<and> data e = x
     \<and> filter (\<lambda>e. hashcode e = h) pre = []"
proof (induction es arbitrary: es')
  case (Cons e es)
  {
    case 1
    show ?case using Cons.IH(1) by auto
  next
    case 2
    show ?case
    proof (cases "hashcode e = h")
      case True
      then show ?thesis using 2 by (intro exI [of _ "[]"]) auto
    next
      case False
      then obtain es1 where q: "quitar_de_cadena h es = Some (x, es1)" "es' = e # es1" using 2 by auto
      from Cons.IH(2) [OF q(1)] obtain pre e' post where "es = pre @ e' # post" "es1 = pre @ post" "hashcode e' = h" "data e' = x"
        "filter (\<lambda>e. hashcode e = h) pre = []" by blast
      then show ?thesis using q(2) False by (intro exI [of _ "e # pre"] exI [of _ e'] exI [of _ post]) simp
    qed
  }
qed simp_all

lemma remove_ok:
  assumes "dic_ok d"
  shows "dic_ok (snd (dictionary_remove d k))"
    and "cola_de (snd (dictionary_remove d k)) h = (if h = dictionary_hash k then tl (cola_de d h) else cola_de d h)"
    and "fst (dictionary_remove d k) = dictionary_get d k"
    and "cuenta_ok d \<Longrightarrow> \<forall>c \<in> set (elements d). \<forall>e \<in> set c. data e \<noteq> None \<Longrightarrow> cuenta_ok (snd (dictionary_remove d k))"
proof -
  let ?h = "dictionary_hash k"
  let ?i = "indice d ?h"
  have i: "?i < length (elements d)" using assms by (simp add: dic_ok_def)
  have "dic_ok (snd (dictionary_remove d k))
    \<and> cola_de (snd (dictionary_remove d k)) h = (if h = ?h then tl (cola_de d h) else cola_de d h)
    \<and> fst (dictionary_remove d k) = dictionary_get d k
    \<and> (cuenta_ok d \<longrightarrow> (\<forall>c \<in> set (elements d). \<forall>e \<in> set c. data e \<noteq> None) \<longrightarrow> cuenta_ok (snd (dictionary_remove d k)))"
  proof (cases "quitar_de_cadena ?h (elements d ! ?i)")
    case None
    then have "cola_de d ?h = []" using quitar_cadena(1) [of ?h "elements d ! ?i"] unfolding cola_de_def by blast
    then show ?thesis using None assms
      by (simp add: dictionary_remove_def dictionary_remove_element_def Let_def dictionary_get_def get_element_cola)
  next
    case (Some r)
    obtain x es' where r: "r = (x, es')" by (cases r)
    from quitar_cadena(2) [OF Some [unfolded r]] obtain pre e post where
      q: "elements d ! ?i = pre @ e # post" "es' = pre @ post" "hashcode e = ?h" "data e = x" "filter (\<lambda>e. hashcode e = ?h) pre = []"
      by blast
    let ?t = "(elements d)[?i := es']"
    let ?c = "if es' = [] then table_current_size d - 1 else table_current_size d"
    have rm: "dictionary_remove_element d k = (x, d\<lparr>elements := ?t, table_current_size := ?c\<rparr>)"
      using Some r by (simp add: dictionary_remove_element_def Let_def)
    have bp: "bien_puestos ?t" using assms i q(1,2) by (intro bien_puestos_update) (auto simp: dic_ok_def bien_puestos_def)
    have nv: "no_vacias ?t = ?c"
      using no_vacias_update [OF i, of es'] q(1) assms by (auto simp: dic_ok_def split: if_splits)
    have ln: "Suc (length (concat ?t)) = length (concat (elements d))"
      using length_concat_update [OF i, of es'] q(1,2) by simp
    have head: "cola_de d ?h = e # filter (\<lambda>e. hashcode e = ?h) post" using q by (simp add: cola_de_def)
    have g: "dictionary_get d k = x" using head q(4) by (simp add: dictionary_get_def get_element_cola)
    have cl: "filter (\<lambda>e. hashcode e = h) (?t ! indice d h) = (if h = ?h then tl (cola_de d h) else cola_de d h)"
    proof (cases "indice d h = ?i")
      case True
      then show ?thesis using i q head by (auto simp: cola_de_def)
    next
      case False
      then have "h \<noteq> ?h" by auto
      then show ?thesis using False by (simp add: cola_de_def)
    qed
    have ex: "e \<in> set (elements d ! ?i)" "elements d ! ?i \<in> set (elements d)" using q(1) nth_mem [OF i] by simp_all
    have d': "snd (dictionary_remove d k) = d\<lparr>elements := ?t, table_current_size := ?c,
        elements_amount := (if x \<noteq> None then elements_amount d - 1 else elements_amount d)\<rparr>"
      "fst (dictionary_remove d k) = x" by (auto simp: dictionary_remove_def rm)
    have "dic_ok (snd (dictionary_remove d k))" using assms bp nv unfolding d' by (simp add: dic_ok_def)
    moreover have "cola_de (snd (dictionary_remove d k)) h = (if h = ?h then tl (cola_de d h) else cola_de d h)"
      using cl unfolding d' cola_de_def [of "_ \<lparr>elements_amount := _\<rparr>"] by simp
    moreover have "cuenta_ok (snd (dictionary_remove d k))" if "cuenta_ok d" "\<forall>c \<in> set (elements d). \<forall>e \<in> set c. data e \<noteq> None"
    proof -
      have "x \<noteq> None" using that(2) ex q(4) by blast
      then show ?thesis using that(1) ln unfolding d' by (simp add: cuenta_ok_def)
    qed
    ultimately show ?thesis using g d'(2) by blast
  qed
  then show "dic_ok (snd (dictionary_remove d k))"
    "cola_de (snd (dictionary_remove d k)) h = (if h = ?h then tl (cola_de d h) else cola_de d h)"
    "fst (dictionary_remove d k) = dictionary_get d k"
    "cuenta_ok d \<Longrightarrow> \<forall>c \<in> set (elements d). \<forall>e \<in> set c. data e \<noteq> None \<Longrightarrow> cuenta_ok (snd (dictionary_remove d k))"
    by blast+
qed

text \<open>
  C40: the table refines one queue for each hash code. An insertion appends to the queue of its hash code, a removal takes the
  first element and returns its data, a lookup returns the data of the first element; nothing else changes,
  through any growth of the table, and the invariant is kept.
\<close>

theorem diccionario_refina:
  assumes "dic_ok d"
  shows "dic_ok (dictionary_put d k v) \<and> dic_ok (snd (dictionary_remove d k))
    \<and> (\<forall>h. cola_de (dictionary_put d k v) h =
          cola_de d h @ (if h = dictionary_hash k then [dictionary_create_element k h v] else []))
    \<and> (\<forall>h. cola_de (snd (dictionary_remove d k)) h = (if h = dictionary_hash k then tl (cola_de d h) else cola_de d h))
    \<and> fst (dictionary_remove d k) = dictionary_get d k
    \<and> dictionary_get d k = (case cola_de d (dictionary_hash k) of [] \<Rightarrow> None | e # _ \<Rightarrow> data e)"
  using put_ok(1,2) [OF assms] remove_ok(1-3) [OF assms]
  by (auto simp: dictionary_get_def get_element_cola split: list.splits)

lemma dictionary_create_ok: "dic_ok (dictionary_create :: 'a t_dictionary)" "cola_de (dictionary_create :: 'a t_dictionary) h = []"
  "cuenta_ok (dictionary_create :: 'a t_dictionary)"
  by (simp_all add: dic_ok_def dictionary_create_def bien_puestos_def cola_de_def cuenta_ok_def DEFAULT_DICTIONARY_INITIAL_SIZE_def)

theorem diccionario_refina_witness:
  "dic_ok (dictionary_put dictionary_create [97] (Some (5 :: nat)))
    \<and> cola_de (dictionary_put dictionary_create [97] (Some (5 :: nat))) (dictionary_hash [97])
      = [dictionary_create_element [97] (dictionary_hash [97]) (Some 5)]"
  using diccionario_refina [OF dictionary_create_ok(1), of "[97]" "Some (5 :: nat)"] dictionary_create_ok(2) by simp

section \<open>As a table of associations\<close>

text \<open>What the configuration relies on: a key keeps the value it was given first.\<close>

locale asociacion =
  fixes vacio :: 'd and put :: "'d \<Rightarrow> 'k \<Rightarrow> 'v \<Rightarrow> 'd" and lookup :: "'d \<Rightarrow> 'k \<Rightarrow> 'v option"
    and hash :: "'k \<Rightarrow> 'h" and ok :: "'d \<Rightarrow> bool"
  assumes vacio_ok: "ok vacio" and lookup_vacio: "lookup vacio k = None"
    and inserta_ok: "ok d \<Longrightarrow> ok (put d k v)"
    and lookup_inserta: "ok d \<Longrightarrow> lookup (put d k v) k' =
      (if lookup d k' = None \<and> hash k = hash k' then Some v else lookup d k')"
begin

lemma fold_put:
  "ok d \<Longrightarrow> ok (fold (\<lambda>(k, v) d. put d k v) kvs d) \<and> lookup (fold (\<lambda>(k, v) d. put d k v) kvs d) k' =
     (case lookup d k' of Some v \<Rightarrow> Some v
      | None \<Rightarrow> map_option snd (List.find (\<lambda>(k, v). hash k = hash k') kvs))"
proof (induction kvs arbitrary: d)
  case Nil
  then show ?case by (simp split: option.splits)
next
  case (Cons x kvs)
  obtain k v where x: "x = (k, v)" by (cases x)
  from Cons.IH [OF inserta_ok [OF Cons.prems, of k v]] show ?case
    using lookup_inserta [OF Cons.prems, of k v k'] x by (auto split: option.splits if_splits)
qed

lemma carga:
  assumes "(k, v) \<in> set kvs" "distinct (map (hash \<circ> fst) kvs)"
  shows "lookup (fold (\<lambda>(k, v) d. put d k v) kvs vacio) k = Some v"
proof -
  have "List.find (\<lambda>(k', v'). hash k' = hash k) kvs = Some (k, v)"
    using assms
  proof (induction kvs)
    case (Cons x kvs)
    have "hash k \<in> (hash \<circ> fst) ` set kvs" if "(k, v) \<in> set kvs" using that by force
    then show ?case using Cons by (cases x) auto
  qed simp
  then show ?thesis using fold_put [OF vacio_ok, of kvs k] lookup_vacio by simp
qed

end

interpretation dic: asociacion dictionary_create dictionary_put "\<lambda>d k. map_option data (dictionary_get_element d k)"
  dictionary_hash dic_ok
proof
  fix d :: "'a t_dictionary" and k v k'
  show "dic_ok d \<Longrightarrow> map_option data (dictionary_get_element (dictionary_put d k v) k') =
      (if map_option data (dictionary_get_element d k') = None \<and> dictionary_hash k = dictionary_hash k' then Some v
       else map_option data (dictionary_get_element d k'))"
    using put_ok(2) [of d k v "dictionary_hash k'"]
    by (auto simp: get_element_cola dictionary_create_element_def split: list.splits)
qed (simp_all add: dictionary_create_ok get_element_cola put_ok(1))

section \<open>Two keys, one hash code\<close>

text \<open>
  The hash codes of \<^verbatim>\<open>aqaa\<close> and \<^verbatim>\<open>elue\<close> are equal: a dictionary with the first key only answers for the second.
\<close>

lemma dictionary_confunde:
  "dictionary_get (dictionary_put dictionary_create [97, 113, 97, 97] (Some v)) [101, 108, 117, 101] = Some v"
proof -
  have h: "dictionary_hash [97, 113, 97, 97] = dictionary_hash [101, 108, 117, 101]" by code_simp
  show ?thesis
    using put_ok(2) [OF dictionary_create_ok(1), of "[97, 113, 97, 97]" "Some v"]
    by (simp add: dictionary_get_def get_element_cola h dictionary_create_element_def dictionary_create_ok(2))
qed

section \<open>The iterator\<close>

lemma iterar_cadena_gira: "es \<noteq> [] \<Longrightarrow> iterar_cadena closure e es st = None"
proof (rule ccontr)
  assume "es \<noteq> []" "iterar_cadena closure e es st \<noteq> None"
  then obtain y where y: "iterar_cadena closure e es st = Some y" by auto
  have "es = []"
    by (rule iterar_cadena.raw_induct [where P = "\<lambda>_ _ es _ _. es = []", OF _ y]) (auto simp: Let_def split: if_splits)
  then show False using \<open>es \<noteq> []\<close> by simp
qed

lemma iterar_cadena_uno: "iterar_cadena closure e [] st = Some (closure (key e) e st)"
  by (subst iterar_cadena.simps) simp

lemma iterar_tabla_spec:
  "iterar_tabla closure cs st =
     (if \<forall>c \<in> set cs. length c \<le> 1 then Some (fold (\<lambda>e. closure (key e) e) (concat cs) st) else None)"
proof (induction cs arbitrary: st)
  case (Cons c cs)
  show ?case
  proof (cases c)
    case (Cons e es)
    then show ?thesis using Cons.IH
      by (cases es) (auto simp: iterar_cadena_uno iterar_cadena_gira)
  qed (use Cons.IH in simp)
qed simp

text \<open>The iterator visits every element when no chain has two, and otherwise does not return.\<close>

lemma dictionary_iterator_spec:
  assumes "dic_ok d"
  shows "dictionary_iterator d closure st =
    (if \<forall>c \<in> set (elements d). length c \<le> 1 then Some (fold (\<lambda>e. closure (key e) e) (concat (elements d)) st) else None)"
  using assms by (simp add: dictionary_iterator_def iterar_tabla_spec dic_ok_def)

section \<open>Emptying the table\<close>

text \<open>Cleaning keeps the invariant, empties every queue, and hands every element that was left to the destroyer once.\<close>

lemma clean_ok:
  assumes "dic_ok d" "dictionary_clean (Some destroy) d st = (d', st')"
  shows "dic_ok d'" "cola_de d' h = []" "cuenta_ok d'" "st' = fold (\<lambda>e. destroy (data e)) (concat (elements d)) st"
proof -
  have "dictionary_destroy_element (Some destroy) = (\<lambda>e. destroy (data e))" by (simp add: dictionary_destroy_element_def fun_eq_iff)
  then have e: "elements d' = replicate (table_max_size d) []" "table_max_size d' = table_max_size d" "table_current_size d' = 0"
      "elements_amount d' = 0" "st' = fold (\<lambda>e. destroy (data e)) (concat (elements d)) st"
    using assms by (auto simp: dictionary_clean_def dic_ok_def fold_fold_concat)
  show "dic_ok d'" "cola_de d' h = []" "cuenta_ok d'" "st' = fold (\<lambda>e. destroy (data e)) (concat (elements d)) st"
    using e assms(1) by (simp_all add: dic_ok_def bien_puestos_def cola_de_def cuenta_ok_def)
qed

text \<open>
  An element whose data is the null pointer leaves the table without being counted out: after storing and removing a key without
  a value the table is empty and its size is one.
\<close>

lemma remove_nulo_cuenta:
  assumes "dic_ok d" "cola_de d (dictionary_hash k) = e # es" "data e = None"
  shows "dictionary_size (snd (dictionary_remove d k)) = dictionary_size d" "cola_de (snd (dictionary_remove d k)) (dictionary_hash k) = es"
proof -
  have "fst (dictionary_remove_element d k) = None"
    using remove_ok(3) [OF assms(1), of k] assms(2,3)
    by (simp add: dictionary_remove_def dictionary_get_def get_element_cola split: prod.splits)
  then show "dictionary_size (snd (dictionary_remove d k)) = dictionary_size d"
    by (auto simp: dictionary_size_def dictionary_remove_def dictionary_remove_element_def Let_def split: prod.splits option.splits)
  show "cola_de (snd (dictionary_remove d k)) (dictionary_hash k) = es" using remove_ok(2) [OF assms(1)] assms(2) by simp
qed

end
