(* ===== verification/Config.thy ===== *)
theory Config
  imports Diccionario
begin

text \<open>
  The strings of \<^verbatim>\<open>commons/string.c\<close> and the configuration files of \<^verbatim>\<open>commons/config.c\<close>. A string is the list of its
  characters up to the terminator; the functions that change a string in place return the new one. The
  character classes are those of the C locale.
\<close>

section \<open>Strings\<close>

definition string_repeat :: "u8 \<Rightarrow> int \<Rightarrow> u8 list" where
  "string_repeat character count = replicate (nat count) character"

definition string_duplicate :: "u8 list \<Rightarrow> u8 list" where
  "string_duplicate original = original"

definition string_append :: "u8 list \<Rightarrow> u8 list \<Rightarrow> u8 list" where
  "string_append original string_to_add = original @ string_to_add"

definition string_upper_element :: "u8 \<Rightarrow> u8" where
  "string_upper_element ch = (if 97 \<le> ch \<and> ch \<le> 122 then ch - 32 else ch)"

definition string_lower_element :: "u8 \<Rightarrow> u8" where
  "string_lower_element ch = (if 65 \<le> ch \<and> ch \<le> 90 then ch + 32 else ch)"

primrec string_do :: "u8 list \<Rightarrow> (u8 \<Rightarrow> u8) \<Rightarrow> u8 list" where
  "string_do [] closure = []"
| "string_do (c # text) closure = closure c # string_do text closure"

definition string_to_upper :: "u8 list \<Rightarrow> u8 list" where
  "string_to_upper text = string_do text string_upper_element"

definition string_to_lower :: "u8 list \<Rightarrow> u8 list" where
  "string_to_lower text = string_do text string_lower_element"

definition string_is_empty :: "u8 list \<Rightarrow> bool" where
  "string_is_empty text \<longleftrightarrow> length text = 0"

definition string_capitalized :: "u8 list \<Rightarrow> u8 list" where
  "string_capitalized text =
     (if string_is_empty text then text
      else let text = string_upper_element (hd text) # tl text in
           if length text \<ge> 2 then hd text # string_to_lower (tl text) else text)"

definition isblank :: "u8 \<Rightarrow> bool" where
  "isblank c \<longleftrightarrow> c = 32 \<or> c = 9"

definition isspace :: "u8 \<Rightarrow> bool" where
  "isspace c \<longleftrightarrow> c = 32 \<or> 9 \<le> c \<and> c \<le> 13"

primrec string_trim_left :: "u8 list \<Rightarrow> u8 list" where
  "string_trim_left [] = []"
| "string_trim_left (c # text) = (if isblank c then string_trim_left text else c # text)"

text \<open>The loop from the last character down.\<close>

primrec trim_right_loop :: "u8 list \<Rightarrow> nat \<Rightarrow> u8 list" where
  "trim_right_loop text 0 = take 0 text"
| "trim_right_loop text (Suc i) = (if isspace (text ! i) then trim_right_loop text i else take (Suc i) text)"

definition string_trim_right :: "u8 list \<Rightarrow> u8 list" where
  "string_trim_right text = trim_right_loop text (length text)"

definition string_trim :: "u8 list \<Rightarrow> u8 list" where
  "string_trim text = string_trim_right (string_trim_left text)"

definition string_starts_with :: "u8 list \<Rightarrow> u8 list \<Rightarrow> bool" where
  "string_starts_with text begin \<longleftrightarrow> take (length begin) text = begin"

definition string_ends_with :: "u8 list \<Rightarrow> u8 list \<Rightarrow> bool" where
  "string_ends_with text fin \<longleftrightarrow> \<not> length text < length fin \<and> drop (length text - length fin) text = fin"

definition string_equals_ignore_case :: "u8 list \<Rightarrow> u8 list \<Rightarrow> bool" where
  "string_equals_ignore_case actual expected \<longleftrightarrow> map string_lower_element actual = map string_lower_element expected"

text \<open>
  \<^verbatim>\<open>strtok_r\<close>: the separators in front are skipped, the token reaches up to the next separator. The result is the
  array of the tokens without the null pointer that ends it.
\<close>

function string_split :: "u8 list \<Rightarrow> u8 list \<Rightarrow> u8 list list" where
  "string_split text separator =
     (let text_to_iterate = dropWhile (\<lambda>c. c \<in> set separator) text in
      if text_to_iterate = [] then []
      else takeWhile (\<lambda>c. c \<notin> set separator) text_to_iterate
             # string_split (dropWhile (\<lambda>c. c \<notin> set separator) text_to_iterate) separator)"
  by pat_completeness auto
termination
proof (relation "measure (\<lambda>(text, _). length text)")
  show "wf (measure (\<lambda>(text, _). length text))" by simp
next
  fix s0 separator t :: "u8 list"
  assume t: "t = dropWhile (\<lambda>c. c \<in> set separator) s0" "t \<noteq> []"
  have "hd t \<notin> set separator" using hd_dropWhile [of "\<lambda>c. c \<in> set separator" s0] t by simp
  then have "length (dropWhile (\<lambda>c. c \<notin> set separator) t) < length t"
    using t(2) by (cases t) (simp_all add: le_imp_less_Suc length_dropWhile_le)
  moreover have "length t \<le> length s0" unfolding t(1) by (rule length_dropWhile_le)
  ultimately show "((dropWhile (\<lambda>c. c \<notin> set separator) t, separator), s0, separator) \<in> measure (\<lambda>(text, _). length text)"
    by simp
qed

declare string_split.simps [simp del]

definition string_iterate_lines :: "u8 list list \<Rightarrow> (u8 list \<Rightarrow> 's \<Rightarrow> 's option) \<Rightarrow> 's \<Rightarrow> 's option" where
  "string_iterate_lines strings closure st = fold (\<lambda>l s. Option.bind s (closure l)) strings (Some st)"

section \<open>Configuration files\<close>

record t_config =
  config_path :: "u8 list"
  properties :: "u8 list t_dictionary"

text \<open>
  A line: the key is the first piece between equal signs and the value the second; further pieces are dropped. With
  a single piece the value is the null pointer, with none the key is, and its length is asked for: \<open>None\<close>.
\<close>

definition add_cofiguration :: "u8 list \<Rightarrow> u8 list t_dictionary \<Rightarrow> u8 list t_dictionary option" where
  "add_cofiguration line d =
     (if string_starts_with line [35] then Some d
      else case string_split line [61] of
        [] \<Rightarrow> None
      | [k] \<Rightarrow> Some (dictionary_put d k None)
      | k # v # _ \<Rightarrow> Some (dictionary_put d k (Some v)))"

text \<open>The contents of the file, or \<open>None\<close> when it cannot be opened: the configuration is then empty.\<close>

definition config_create :: "u8 list \<Rightarrow> u8 list option \<Rightarrow> t_config option" where
  "config_create path file =
     (case file of
        None \<Rightarrow> Some \<lparr>config_path = path, properties = dictionary_create\<rparr>
      | Some contenido \<Rightarrow>
          do { d \<leftarrow> string_iterate_lines (string_split (takeWhile (\<lambda>c. c \<noteq> 0) contenido) [10]) add_cofiguration dictionary_create;
               Some \<lparr>config_path = path, properties = d\<rparr> })"

definition config_has_property :: "t_config \<Rightarrow> u8 list \<Rightarrow> bool" where
  "config_has_property self k = dictionary_has_key (properties self) k"

definition config_get_string_value :: "t_config \<Rightarrow> u8 list \<Rightarrow> u8 list option" where
  "config_get_string_value self k = dictionary_get (properties self) k"

definition config_keys_amount :: "t_config \<Rightarrow> int" where
  "config_keys_amount self = dictionary_size (properties self)"

text \<open>The values are destroyed with \<^verbatim>\<open>free\<close>, here what it does to a state.\<close>

definition config_destroy :: "(u8 list option \<Rightarrow> 's \<Rightarrow> 's) \<Rightarrow> t_config \<Rightarrow> 's \<Rightarrow> 's" where
  "config_destroy free_value config st = dictionary_destroy (Some free_value) (properties config) st"

text \<open>\<^verbatim>\<open>atoi\<close>: blanks, a sign, digits; a value that an \<^verbatim>\<open>int\<close> cannot hold is undefined.\<close>

definition digitos_de :: "u8 list \<Rightarrow> int" where
  "digitos_de s = foldl (\<lambda>n c. 10 * n + (int (unat c) - 48)) 0 (takeWhile (\<lambda>c. 48 \<le> c \<and> c \<le> 57) s)"

definition atoi :: "u8 list \<Rightarrow> int option" where
  "atoi s =
     (let s = dropWhile isspace s;
          n = (if s \<noteq> [] \<and> hd s = 45 then - digitos_de (tl s)
               else if s \<noteq> [] \<and> hd s = 43 then digitos_de (tl s) else digitos_de s) in
      if - (2 ^ 31) \<le> n \<and> n < 2 ^ 31 then Some n else None)"

definition config_get_int_value :: "t_config \<Rightarrow> u8 list \<Rightarrow> int option" where
  "config_get_int_value self k = Option.bind (config_get_string_value self k) atoi"

text \<open>On the 32 bit machines of the project \<^verbatim>\<open>long\<close> is as wide as \<^verbatim>\<open>int\<close>, and \<^verbatim>\<open>atol\<close> reads as \<^verbatim>\<open>atoi\<close>.\<close>

definition config_get_long_value :: "t_config \<Rightarrow> u8 list \<Rightarrow> int option" where
  "config_get_long_value self k = Option.bind (config_get_string_value self k) atoi"

section \<open>Splitting\<close>

lemma split_Nil [simp]: "string_split [] separator = []"
  by (subst string_split.simps) simp

lemma split_separador: "s \<in> set separator \<Longrightarrow> string_split (s # rest) separator = string_split rest separator"
  by (subst (1 2) string_split.simps) simp

lemma split_pieza:
  assumes "p \<noteq> []" "set p \<inter> set separator = {}" "s \<in> set separator"
  shows "string_split (p @ s # rest) separator = p # string_split rest separator" "string_split p separator = [p]"
proof -
  have d: "dropWhile (\<lambda>c. c \<in> set separator) (p @ r) = p @ r" for r
    using assms(1,2) by (cases p) auto
  have all: "\<And>c. c \<in> set p \<Longrightarrow> c \<notin> set separator" using assms(2) by blast
  have t: "takeWhile (\<lambda>c. c \<notin> set separator) (p @ s # rest) = p" "dropWhile (\<lambda>c. c \<notin> set separator) (p @ s # rest) = s # rest"
    using all assms(3) by (simp_all add: takeWhile_append2 dropWhile_append2)
  show "string_split (p @ s # rest) separator = p # string_split rest separator"
    using assms(1,3) by (subst string_split.simps) (simp add: d t split_separador)
  have e: "takeWhile (\<lambda>c. c \<notin> set separator) p = p" "dropWhile (\<lambda>c. c \<notin> set separator) p = []"
    using all by (simp_all add: takeWhile_eq_all_conv dropWhile_eq_Nil_conv)
  have "dropWhile (\<lambda>c. c \<in> set separator) p = p" using d [of "[]"] by simp
  then have "string_split p separator = takeWhile (\<lambda>c. c \<notin> set separator) p # string_split (dropWhile (\<lambda>c. c \<notin> set separator) p) separator"
    using assms(1) by (subst string_split.simps) simp
  then show "string_split p separator = [p]" by (simp only: e split_Nil)
qed

lemma takeWhile_no_vacio: "t \<noteq> [] \<Longrightarrow> P (hd t) \<Longrightarrow> takeWhile P t \<noteq> []"
  by (cases t) auto

lemma filter_takeWhile: "filter P (takeWhile P t) = takeWhile P t"
  by (induction t) auto

lemma filter_dropWhile: "filter (\<lambda>c. \<not> P c) t = filter (\<lambda>c. \<not> P c) (dropWhile P t)"
  by (induction t) auto

text \<open>The pieces are not empty, have no separator, and together are the text without its separators.\<close>

lemma takeWhile_ajeno: "set (takeWhile (\<lambda>c. c \<notin> S) t) \<inter> S = {}"
  by (induction t) auto

lemma split_paso:
  assumes "dropWhile (\<lambda>c. c \<in> set separator) t = u" "u \<noteq> []"
  shows "string_split t separator =
      takeWhile (\<lambda>c. c \<notin> set separator) u # string_split (dropWhile (\<lambda>c. c \<notin> set separator) u) separator"
    and "takeWhile (\<lambda>c. c \<notin> set separator) u \<noteq> []"
    and "filter (\<lambda>c. c \<notin> set separator) t =
      takeWhile (\<lambda>c. c \<notin> set separator) u @ filter (\<lambda>c. c \<notin> set separator) (dropWhile (\<lambda>c. c \<notin> set separator) u)"
proof -
  show "string_split t separator =
      takeWhile (\<lambda>c. c \<notin> set separator) u # string_split (dropWhile (\<lambda>c. c \<notin> set separator) u) separator"
    by (subst string_split.simps) (simp only: Let_def assms if_False)
  have "hd u \<notin> set separator" using hd_dropWhile [of "\<lambda>c. c \<in> set separator" t] assms by simp
  with assms(2) show "takeWhile (\<lambda>c. c \<notin> set separator) u \<noteq> []" by (rule takeWhile_no_vacio)
  have "filter (\<lambda>c. c \<notin> set separator) t = filter (\<lambda>c. c \<notin> set separator) u"
    unfolding assms(1) [symmetric] by (rule filter_dropWhile)
  also have "u = takeWhile (\<lambda>c. c \<notin> set separator) u @ dropWhile (\<lambda>c. c \<notin> set separator) u" by simp
  finally show "filter (\<lambda>c. c \<notin> set separator) t =
      takeWhile (\<lambda>c. c \<notin> set separator) u @ filter (\<lambda>c. c \<notin> set separator) (dropWhile (\<lambda>c. c \<notin> set separator) u)"
    by (simp only: filter_append filter_takeWhile)
qed

lemma string_split_correcto:
  "(\<forall>p \<in> set (string_split t separator). p \<noteq> [] \<and> set p \<inter> set separator = {})
   \<and> concat (string_split t separator) = filter (\<lambda>c. c \<notin> set separator) t"
proof (induction "length t" arbitrary: t rule: less_induct)
  case less
  define u where "u = dropWhile (\<lambda>c. c \<in> set separator) t"
  show ?case
  proof (cases "u = []")
    case True
    then have "string_split t separator = []" by (subst string_split.simps) (simp add: u_def)
    moreover have "filter (\<lambda>c. c \<notin> set separator) t = filter (\<lambda>c. c \<notin> set separator) u"
      unfolding u_def by (rule filter_dropWhile)
    ultimately show ?thesis using True by simp
  next
    case False
    note S = split_paso [OF u_def [symmetric] False]
    have "length u \<le> length t" unfolding u_def by (rule length_dropWhile_le)
    moreover have "length u = length (takeWhile (\<lambda>c. c \<notin> set separator) u) + length (dropWhile (\<lambda>c. c \<notin> set separator) u)"
      by (simp flip: length_append)
    ultimately have "length (dropWhile (\<lambda>c. c \<notin> set separator) u) < length t" using S(2) by (simp flip: length_greater_0_conv)
    from less [OF this] show ?thesis unfolding S(1,3) using S(2) takeWhile_ajeno [of "set separator" u] by simp
  qed
qed

section \<open>What is written is read\<close>

text \<open>The lines of a configuration file: a pair, a comment, an empty line.\<close>

datatype linea = Par "u8 list" "u8 list" | Comentario "u8 list" | Vacia

primrec escribe_linea :: "linea \<Rightarrow> u8 list" where
  "escribe_linea (Par k v) = k @ 61 # v"
| "escribe_linea (Comentario s) = 35 # s"
| "escribe_linea Vacia = []"

definition escribe_config :: "linea list \<Rightarrow> u8 list" where
  "escribe_config ls = concat (map (\<lambda>l. escribe_linea l @ [10]) ls)"

definition texto_ok :: "u8 list \<Rightarrow> bool" where
  "texto_ok s \<longleftrightarrow> s \<noteq> [] \<and> set s \<inter> {0, 10, 61} = {}"

primrec linea_ok :: "linea \<Rightarrow> bool" where
  "linea_ok (Par k v) \<longleftrightarrow> texto_ok k \<and> texto_ok v \<and> hd k \<noteq> 35"
| "linea_ok (Comentario s) \<longleftrightarrow> set s \<inter> {0, 10} = {}"
| "linea_ok Vacia \<longleftrightarrow> True"

primrec pares_de :: "linea list \<Rightarrow> (u8 list \<times> u8 list) list" where
  "pares_de [] = []"
| "pares_de (l # ls) = (case l of Par k v \<Rightarrow> (k, v) # pares_de ls | _ \<Rightarrow> pares_de ls)"

lemma add_par:
  assumes "linea_ok (Par k v)"
  shows "add_cofiguration (escribe_linea (Par k v)) d = Some (dictionary_put d k (Some v))"
proof -
  have "string_split (k @ 61 # v) [61] = k # string_split v [61]"
    using assms by (intro split_pieza(1)) (auto simp: texto_ok_def)
  also have "string_split v [61] = [v]"
    using assms by (intro split_pieza(2) [where s = 61]) (auto simp: texto_ok_def)
  finally have "string_split (escribe_linea (Par k v)) [61] = [k, v]" by simp
  moreover have "\<not> string_starts_with (escribe_linea (Par k v)) [35]"
    using assms by (cases k) (auto simp: string_starts_with_def texto_ok_def)
  ultimately show ?thesis by (simp add: add_cofiguration_def)
qed

lemma add_comentario: "add_cofiguration (escribe_linea (Comentario s)) d = Some d"
  by (simp add: add_cofiguration_def string_starts_with_def)

text \<open>Empty lines disappear when the file is split.\<close>

lemma split_config:
  "\<forall>l \<in> set ls. linea_ok l \<Longrightarrow> string_split (escribe_config ls) [10] = map escribe_linea (filter (\<lambda>l. l \<noteq> Vacia) ls)"
proof (induction ls)
  case Nil
  then show ?case by (simp add: escribe_config_def)
next
  case (Cons l ls)
  have IH: "string_split (escribe_config ls) [10] = map escribe_linea (filter (\<lambda>l. l \<noteq> Vacia) ls)" using Cons by simp
  show ?case
  proof (cases "l = Vacia")
    case True
    then show ?thesis using IH by (simp add: escribe_config_def split_separador)
  next
    case False
    then have "string_split (escribe_linea l @ 10 # escribe_config ls) [10] = escribe_linea l # string_split (escribe_config ls) [10]"
      using Cons.prems by (intro split_pieza(1)) (cases l; auto simp: texto_ok_def)+
    then show ?thesis using False IH by (simp add: escribe_config_def)
  qed
qed

lemma iterar_config:
  "\<forall>l \<in> set ls. linea_ok l \<Longrightarrow> string_iterate_lines (map escribe_linea (filter (\<lambda>l. l \<noteq> Vacia) ls)) add_cofiguration d =
     Some (fold (\<lambda>(k, v) d. dictionary_put d k v) (map (\<lambda>kv. (fst kv, Some (snd kv))) (pares_de ls)) d)"
  unfolding string_iterate_lines_def
proof (induction ls arbitrary: d)
  case (Cons l ls)
  then show ?case by (cases l) (simp_all add: add_par add_comentario del: escribe_linea.simps linea_ok.simps)
qed simp

lemma carga_cuenta:
  "dic_ok d \<Longrightarrow> cuenta_ok d \<Longrightarrow> cuenta_ok (fold (\<lambda>(k, v) d. dictionary_put d k v) kvs d)
    \<and> elements_amount (fold (\<lambda>(k, v) d. dictionary_put d k v) kvs d) = elements_amount d + int (length kvs)"
proof (induction kvs arbitrary: d)
  case (Cons x kvs)
  have "elements_amount (dictionary_put d (fst x) (snd x)) = elements_amount d + 1" by (simp add: dictionary_put_def Let_def)
  then show ?case using Cons.IH [OF put_ok(1) put_ok(3), of d "fst x" "snd x"] Cons.prems by (cases x) simp
qed simp

lemma sin_terminador: "\<forall>l \<in> set ls. linea_ok l \<Longrightarrow> takeWhile (\<lambda>c. c \<noteq> 0) (escribe_config ls) = escribe_config ls"
proof -
  assume ok: "\<forall>l \<in> set ls. linea_ok l"
  have "0 \<notin> set (escribe_linea l)" if "linea_ok l" for l using that by (cases l) (auto simp: texto_ok_def)
  then have "0 \<notin> set (escribe_config ls)" using ok by (auto simp: escribe_config_def)
  then show ?thesis by (intro takeWhile_eq_all_conv [THEN iffD2]) auto
qed

lemma config_lee:
  assumes "\<forall>l \<in> set ls. linea_ok l" "distinct (map (dictionary_hash \<circ> fst) (pares_de ls))"
  obtains c where "config_create path (Some (escribe_config ls)) = Some c"
    "config_keys_amount c = int (length (pares_de ls))"
    "\<And>k v. (k, v) \<in> set (pares_de ls) \<Longrightarrow> config_has_property c k \<and> config_get_string_value c k = Some v"
    "\<And>k. dictionary_hash k \<notin> (dictionary_hash \<circ> fst) ` set (pares_de ls) \<Longrightarrow> \<not> config_has_property c k"
proof -
  let ?kvs = "map (\<lambda>kv. (fst kv, Some (snd kv))) (pares_de ls)"
  let ?d = "fold (\<lambda>(k, v) d. dictionary_put d k v) ?kvs dictionary_create"
  let ?c = "\<lparr>config_path = path, properties = ?d\<rparr>"
  have c: "config_create path (Some (escribe_config ls)) = Some ?c"
    unfolding config_create_def option.case sin_terminador [OF assms(1)] split_config [OF assms(1)] iterar_config [OF assms(1)]
    by simp
  have n: "config_keys_amount ?c = int (length (pares_de ls))"
    using carga_cuenta [OF dictionary_create_ok(1,3), of ?kvs]
    by (simp add: dictionary_create_def config_keys_amount_def dictionary_size_def)
  have l: "map_option data (dictionary_get_element ?d k) = Some (Some v)" if "(k, v) \<in> set (pares_de ls)" for k v
    using that assms(2) by (intro dic.carga) (force simp: comp_def)+
  have g: "config_has_property ?c k \<and> config_get_string_value ?c k = Some v" if "(k, v) \<in> set (pares_de ls)" for k v
    using l [OF that] by (auto simp: config_has_property_def config_get_string_value_def dictionary_has_key_def dictionary_get_def)
  have h: "\<not> config_has_property ?c k" if "dictionary_hash k \<notin> (dictionary_hash \<circ> fst) ` set (pares_de ls)" for k
  proof -
    have "List.find (\<lambda>(k', v'). dictionary_hash k' = dictionary_hash k) ?kvs = None" using that by (force simp: find_None_iff)
    then show ?thesis using dic.fold_put [OF dic.vacio_ok, of ?kvs k]
      by (simp add: config_has_property_def dictionary_has_key_def dic.lookup_vacio [simplified])
  qed
  show thesis by (rule that [OF c n g h])
qed

text \<open>
  A configuration file of pairs \<^verbatim>\<open>key=value\<close>, comments and empty lines, with keys of different hash codes, is read back:
  every key is a property with its value, their number is that of the pairs, and a key whose hash code no pair has is
  no property.
\<close>

lemma config_create_lee:
  assumes "\<forall>l \<in> set ls. linea_ok l" "distinct (map (dictionary_hash \<circ> fst) (pares_de ls))"
  shows "\<exists>c. config_create path (Some (escribe_config ls)) = Some c
    \<and> config_keys_amount c = int (length (pares_de ls))
    \<and> (\<forall>(k, v) \<in> set (pares_de ls). config_has_property c k \<and> config_get_string_value c k = Some v)
    \<and> (\<forall>k. dictionary_hash k \<notin> (dictionary_hash \<circ> fst) ` set (pares_de ls) \<longrightarrow> \<not> config_has_property c k)"
  by (rule config_lee [OF assms, of path]) blast

lemma config_create_lee_ej:
  "\<exists>c. config_create [99] (Some [35, 97, 10, 112, 61, 56, 48, 10, 10, 108, 61, 49, 10]) = Some c
    \<and> config_get_string_value c [112] = Some [56, 48] \<and> config_keys_amount c = 2"
proof -
  let ?ls = "[Comentario [97], Par [112] [56, 48], Vacia, Par [108] [49]]"
  have "dictionary_hash [112] \<noteq> dictionary_hash [108]" by code_simp
  then show ?thesis using config_create_lee [of ?ls "[99]"] by (auto simp: texto_ok_def escribe_config_def)
qed

end
