(* ===== verification/Arranque.thy ===== *)
theory Arranque
  imports Config Cliente
begin

text \<open>
  The start of the three programs: what the server, the client and the cache engine take from their configuration
  files (\<^verbatim>\<open>levantarCfg\<close> and \<^verbatim>\<open>actualizarDelay\<close> of \<^verbatim>\<open>rfs/Rfs.c\<close>, \<^verbatim>\<open>levantar_config\<close> of
  \<^verbatim>\<open>fsc/auxCliente.c\<close>, the first part of \<^verbatim>\<open>cache_initialize\<close> of \<^verbatim>\<open>rc/src/my_engine.c\<close>), the levels of the log, and
  the pool of sockets that the client opens. A program that finds a field missing ends: \<open>None\<close>. The contents of the
  file are an argument, \<open>None\<close> when it cannot be opened.
\<close>

section \<open>Definitions\<close>

text \<open>A literal of the source.\<close>

definition cadena :: "string \<Rightarrow> u8 list" where
  "cadena s = map of_char s"

definition enum_names :: "u8 list list" where
  "enum_names = map cadena [''TRACE'', ''DEBUG'', ''INFO'', ''WARNING'', ''ERROR'']"

text \<open>The level is an enumeration, stored as an unsigned integer; the answer \<^verbatim>\<open>-1\<close> is its greatest value.\<close>

definition log_level_from_string :: "u8 list \<Rightarrow> u32" where
  "log_level_from_string level =
     (case List.find (\<lambda>i. string_equals_ignore_case level (enum_names ! i)) [0..<5] of
        Some i \<Rightarrow> word_of_nat i | None \<Rightarrow> - 1)"

definition log_level_as_string :: "u32 \<Rightarrow> u8 list option" where
  "log_level_as_string level = (if unat level < 5 then Some (enum_names ! unat level) else None)"

definition isEnableLevelInLogger :: "u32 \<Rightarrow> u32 \<Rightarrow> bool" where
  "isEnableLevelInLogger detail level \<longleftrightarrow> level \<ge> detail"

text \<open>A field that has to be there.\<close>

definition pedir_entero :: "t_config \<Rightarrow> string \<Rightarrow> int option" where
  "pedir_entero c k = (if config_has_property c (cadena k) then config_get_int_value c (cadena k) else None)"

definition pedir_texto :: "t_config \<Rightarrow> string \<Rightarrow> u8 list option option" where
  "pedir_texto c k = (if config_has_property c (cadena k) then Some (config_get_string_value c (cadena k)) else None)"

text \<open>The delay is given in milliseconds; the product is one of \<^verbatim>\<open>int\<close>s, stored in an unsigned variable.\<close>

definition milisegundos :: "int \<Rightarrow> u32 option" where
  "milisegundos n = (if - (2 ^ 31) \<le> n * 1000 \<and> n * 1000 < 2 ^ 31 then Some (word_of_int (n * 1000)) else None)"

record cfg_rfs =
  rfs_port :: int
  rfs_ip :: "u8 list option"
  rfs_log_level :: u32
  rfs_maxThreads :: u8
  rfs_nombreArchivo :: "u8 list option"
  rfs_delay :: u32
  rfs_ipCache :: "u8 list option"
  rfs_portCache :: int

definition levantarCfg :: "u8 list option \<Rightarrow> cfg_rfs option" where
  "levantarCfg archivo =
     do { s_cfg \<leftarrow> config_create (cadena ''cfgRfs.txt'') archivo;
          port \<leftarrow> pedir_entero s_cfg ''port'';
          ip \<leftarrow> pedir_texto s_cfg ''ip'';
          log_level_str \<leftarrow> pedir_texto s_cfg ''log'';
          log_level \<leftarrow> map_option log_level_from_string log_level_str;
          hilos \<leftarrow> pedir_entero s_cfg ''hilos'';
          nombreArchivo \<leftarrow> pedir_texto s_cfg ''archivo'';
          d \<leftarrow> pedir_entero s_cfg ''delay'';
          delay \<leftarrow> milisegundos d;
          ipCache \<leftarrow> pedir_texto s_cfg ''ipCache'';
          portCache \<leftarrow> pedir_entero s_cfg ''portCache'';
          Some \<lparr>rfs_port = port, rfs_ip = ip, rfs_log_level = log_level, rfs_maxThreads = word_of_int hilos,
                rfs_nombreArchivo = nombreArchivo, rfs_delay = delay, rfs_ipCache = ipCache, rfs_portCache = portCache\<rparr> }"

definition actualizarDelay :: "u8 list option \<Rightarrow> u32 \<Rightarrow> u32 option" where
  "actualizarDelay archivo delay =
     do { s_cfg \<leftarrow> config_create (cadena ''cfgRfs.txt'') archivo;
          if config_has_property s_cfg (cadena ''delay'')
          then Option.bind (config_get_int_value s_cfg (cadena ''delay'')) milisegundos
          else Some delay }"

record cfg_fsc =
  fsc_portL :: int
  fsc_portR :: int
  fsc_ip :: "u8 list option"
  fsc_ipr :: "u8 list option"
  fsc_cantSock :: int
  fsc_ipCache :: "u8 list option"
  fsc_portCache :: int

definition levantar_config :: "u8 list option \<Rightarrow> cfg_fsc option" where
  "levantar_config archivo =
     do { s_cfg \<leftarrow> config_create (cadena ''configFSC.txt'') archivo;
          portL \<leftarrow> pedir_entero s_cfg ''portClient'';
          portR \<leftarrow> pedir_entero s_cfg ''portServer'';
          ip \<leftarrow> pedir_texto s_cfg ''ipClient'';
          ipr \<leftarrow> pedir_texto s_cfg ''ipServer'';
          cantSock \<leftarrow> pedir_entero s_cfg ''poolSock'';
          ipCache \<leftarrow> pedir_texto s_cfg ''ipCache'';
          portCache \<leftarrow> pedir_entero s_cfg ''portCache'';
          Some \<lparr>fsc_portL = portL, fsc_portR = portR, fsc_ip = ip, fsc_ipr = ipr, fsc_cantSock = cantSock,
                fsc_ipCache = ipCache, fsc_portCache = portCache\<rparr> }"

record cfg_rc =
  rc_esquema :: "u8 list option"
  rc_frecuenciaCompactacion :: int
  rc_alg_busqueda :: "u8 list option"
  rc_alg_reemplazo :: "u8 list option"
  rc_log_level :: u32

definition leer_configRc :: "u8 list option \<Rightarrow> cfg_rc option" where
  "leer_configRc archivo =
     do { s_cfg \<leftarrow> config_create (cadena ''configRc.txt'') archivo;
          esq \<leftarrow> pedir_texto s_cfg ''esqAdmMemoria'';
          frecuencia \<leftarrow> pedir_entero s_cfg ''cantBusquedasFallidas'';
          busqueda \<leftarrow> pedir_texto s_cfg ''algoritmobusqueda'';
          reemplazo \<leftarrow> pedir_texto s_cfg ''algoritmoreemplazo'';
          log_level_str \<leftarrow> pedir_texto s_cfg ''log'';
          log_level \<leftarrow> map_option log_level_from_string log_level_str;
          Some \<lparr>rc_esquema = esq, rc_frecuenciaCompactacion = frecuencia, rc_alg_busqueda = busqueda,
                rc_alg_reemplazo = reemplazo, rc_log_level = log_level\<rparr> }"

text \<open>
  The pool of the client: one socket for each port from \<^verbatim>\<open>portL\<close> on. The system calls are parameters that act on a state of
  the system; the functions of \<^verbatim>\<open>commons/sockets.c\<close> are built from them, \<open>None\<close> where the program ends. The handshake that
  follows a connection exchanges bytes only, and its result is not used.
\<close>

record 'o so =
  so_socket :: "'o \<Rightarrow> int \<times> 'o"
  so_setsockopt :: "'o \<Rightarrow> int \<Rightarrow> int \<times> 'o"
  so_bind :: "'o \<Rightarrow> int \<Rightarrow> u8 list \<Rightarrow> u16 \<Rightarrow> int \<times> 'o"
  so_connect :: "'o \<Rightarrow> int \<Rightarrow> u8 list \<Rightarrow> u16 \<Rightarrow> int \<times> 'o"

definition sockets_createClient :: "'o so \<Rightarrow> 'o \<Rightarrow> u8 list \<Rightarrow> int \<Rightarrow> (int \<times> 'o) option" where
  "sockets_createClient O' s ip port =
     (let (fd, s) = so_socket O' s; (r, s) = so_setsockopt O' s fd in
      if r = - 1 then None else
      let (r, s) = so_bind O' s fd ip (word_of_int port) in
      if r = - 1 then None else Some (fd, s))"

definition sockets_connect :: "'o so \<Rightarrow> 'o \<Rightarrow> int \<Rightarrow> u8 list \<Rightarrow> int \<Rightarrow> int \<times> 'o" where
  "sockets_connect O' s cliente ip port = so_connect O' s cliente ip (word_of_int port)"

text \<open>
  The loop ends with the pool or with the end of the program; \<open>None\<close> is a loop that never ends. The counter has eight bits.
\<close>

datatype 'a salida = Exit | Sigue 'a

partial_function (option) armar_pool ::
  "'o so \<Rightarrow> u8 list \<Rightarrow> int \<Rightarrow> u8 list \<Rightarrow> int \<Rightarrow> int \<Rightarrow> u8 \<Rightarrow> 'o \<Rightarrow> int list \<Rightarrow> ('o \<times> int list) salida option" where
  "armar_pool O' ip portL ipr portR cantSock i s pool_sock =
     (if int (unat i) < cantSock
      then (case sockets_createClient O' s ip (portL + int (unat i)) of
              None \<Rightarrow> Some Exit
            | Some (cliente, s) \<Rightarrow>
                if fst (sockets_connect O' s cliente ipr portR) = - 1 then Some Exit
                else armar_pool O' ip portL ipr portR cantSock (i + 1) (snd (sockets_connect O' s cliente ipr portR))
                       (habilitar_socket pool_sock cliente))
      else Some (Sigue (s, pool_sock)))"

section \<open>Reading numbers\<close>

lemma cifras_valor:
  "\<forall>c \<in> set s. 48 \<le> unat c \<Longrightarrow>
    foldl (\<lambda>n c. 10 * n + (int (unat c) - 48)) (int a) s = int (foldl (\<lambda>n c. 10 * n + (unat c - 48)) a (s :: u8 list))"
proof (induction s arbitrary: a)
  case (Cons c s)
  then have e: "10 * int a + (int (unat c) - 48) = int (10 * a + (unat c - 48))" by simp
  show ?case unfolding foldl.simps e using Cons.prems by (intro Cons.IH) simp
qed simp

text \<open>The decimal representation of a number that an \<^verbatim>\<open>int\<close> holds is read back.\<close>

lemma atoi_decimal:
  assumes "n < 2 ^ 31"
  shows "atoi (decimal n) = Some (int n)"
proof -
  have d: "48 \<le> unat c \<and> unat c < 58" if "c \<in> set (decimal n)" for c using decimal_digitos [OF that] .
  then have w: "48 \<le> c \<and> c \<le> 57" if "c \<in> set (decimal n)" for c using d [OF that] by (auto simp: word_le_nat_alt)
  obtain c s where c: "decimal n = c # s" using decimal_not_Nil [of n] by (cases "decimal n") auto
  have m: "c \<in> set (decimal n)" using c by simp
  have "c \<noteq> 45" "c \<noteq> 43" "\<not> isspace c" using d [OF m] by (auto simp: isspace_def word_le_nat_alt)
  moreover have tw: "takeWhile (\<lambda>c. 48 \<le> c \<and> c \<le> 57) (decimal n) = decimal n"
    using w by (intro takeWhile_eq_all_conv [THEN iffD2]) blast
  have "digitos_de (decimal n) = int n"
    unfolding digitos_de_def tw using cifras_valor [of "decimal n" 0] d valor_decimal_decimal [of n] by (simp add: valor_decimal_def)
  ultimately show ?thesis using assms c by (simp add: atoi_def)
qed

section \<open>The configuration of the server\<close>

lemma campo_texto:
  assumes "config_has_property c (cadena k) \<and> config_get_string_value c (cadena k) = Some v"
  shows "pedir_texto c k = Some (Some v)"
  using assms by (simp add: pedir_texto_def)

lemma campo_entero:
  assumes "config_has_property c (cadena k) \<and> config_get_string_value c (cadena k) = Some (decimal n)" "n < 2 ^ 31"
  shows "pedir_entero c k = Some (int n)"
  using assms atoi_decimal [of n] by (simp add: pedir_entero_def config_get_int_value_def)

text \<open>
  C29: from a file with its eight fields, comments and empty lines the server takes the values that were written. The number of
  threads is kept in eight bits.
\<close>

theorem levantarCfg_lee:
  assumes ls: "\<forall>l \<in> set ls. linea_ok l" "distinct (map (dictionary_hash \<circ> fst) (pares_de ls))"
    and campos: "{(cadena ''port'', decimal port), (cadena ''ip'', ip), (cadena ''log'', nivel_log), (cadena ''hilos'', decimal hilos),
      (cadena ''archivo'', archivo), (cadena ''delay'', decimal delay), (cadena ''ipCache'', ipCache),
      (cadena ''portCache'', decimal portCache)} \<subseteq> set (pares_de ls)"
    and cotas: "port < 2 ^ 31" "hilos < 2 ^ 31" "delay * 1000 < 2 ^ 31" "portCache < 2 ^ 31"
  shows "levantarCfg (Some (escribe_config ls)) =
    Some \<lparr>rfs_port = int port, rfs_ip = Some ip, rfs_log_level = log_level_from_string nivel_log, rfs_maxThreads = word_of_nat hilos,
      rfs_nombreArchivo = Some archivo, rfs_delay = word_of_nat (delay * 1000), rfs_ipCache = Some ipCache, rfs_portCache = int portCache\<rparr>"
proof -
  obtain c where c: "config_create (cadena ''cfgRfs.txt'') (Some (escribe_config ls)) = Some c"
    "\<And>k v. (k, v) \<in> set (pares_de ls) \<Longrightarrow> config_has_property c k \<and> config_get_string_value c k = Some v"
    by (rule config_lee [OF ls]) blast
  have t: "pedir_texto c k = Some (Some v)" if "(cadena k, v) \<in> set (pares_de ls)" for k v
    using c(2) [OF that] by (rule campo_texto)
  have e: "pedir_entero c k = Some (int n)" if "(cadena k, decimal n) \<in> set (pares_de ls)" "n < 2 ^ 31" for k n
    using c(2) [OF that(1)] that(2) by (rule campo_entero)
  have d: "delay < 2 ^ 31" using cotas(3) by simp
  have m: "milisegundos (int delay) = Some (word_of_nat (delay * 1000))" using cotas(3) by (simp add: milisegundos_def)
  show ?thesis
    using t [of "''ip''" ip] t [of "''log''" nivel_log] t [of "''archivo''" archivo] t [of "''ipCache''" ipCache]
      e [of "''port''" port] e [of "''hilos''" hilos] e [of "''delay''" delay] e [of "''portCache''" portCache] campos cotas d m c(1)
    by (simp add: levantarCfg_def)
qed

text \<open>The file of the repository, \<^verbatim>\<open>DebugRfs/cfgRfs.txt\<close>.\<close>

definition cfg_ej :: "linea list" where
  "cfg_ej = [Comentario (cadena ''ip: ip del server''), Par (cadena ''ip'') (cadena ''127.0.0.1''), Vacia,
    Comentario (cadena ''port: puerto de escucha''), Par (cadena ''port'') (cadena ''3901''), Vacia,
    Comentario (cadena ''log: nivel del log: DEBUG, INFO''), Par (cadena ''log'') (cadena ''DEBUG''), Vacia,
    Comentario (cadena ''hilos: cantidad maxima de hilos''), Par (cadena ''hilos'') (cadena ''5''), Vacia,
    Comentario (cadena ''archivo: path al archivo ext2''), Par (cadena ''archivo'') (cadena ''ext2.disk''), Vacia,
    Comentario (cadena ''delay: retardo de las operaciones en ms''), Par (cadena ''delay'') (cadena ''0''), Vacia,
    Comentario (cadena ''ipCahce= Ip donde va a estar la cache''), Par (cadena ''ipCache'') (cadena ''127.0.0.1''), Vacia,
    Comentario (cadena ''portCache = Puerto de la cache''), Par (cadena ''portCache'') (cadena ''11212'')]"

theorem levantarCfg_lee_witness:
  "levantarCfg (Some (escribe_config cfg_ej)) =
    Some \<lparr>rfs_port = 3901, rfs_ip = Some (cadena ''127.0.0.1''), rfs_log_level = 1, rfs_maxThreads = 5,
      rfs_nombreArchivo = Some (cadena ''ext2.disk''), rfs_delay = 0, rfs_ipCache = Some (cadena ''127.0.0.1''), rfs_portCache = 11212\<rparr>"
proof -
  have 1: "\<forall>l \<in> set cfg_ej. linea_ok l" by (simp add: cfg_ej_def cadena_def texto_ok_def)
  have 2: "distinct (map (dictionary_hash \<circ> fst) (pares_de cfg_ej))" by code_simp
  have d: "decimal 3901 = cadena ''3901''" "decimal 5 = cadena ''5''" "decimal 0 = cadena ''0''" "decimal 11212 = cadena ''11212''"
    by (simp_all add: cadena_def decimal.simps)
  have 3: "{(cadena ''port'', decimal 3901), (cadena ''ip'', cadena ''127.0.0.1''), (cadena ''log'', cadena ''DEBUG''),
      (cadena ''hilos'', decimal 5), (cadena ''archivo'', cadena ''ext2.disk''), (cadena ''delay'', decimal 0),
      (cadena ''ipCache'', cadena ''127.0.0.1''), (cadena ''portCache'', decimal 11212)} \<subseteq> set (pares_de cfg_ej)"
    unfolding d by (simp add: cfg_ej_def)
  have 4: "log_level_from_string (cadena ''DEBUG'') = 1" by code_simp
  show ?thesis using levantarCfg_lee [OF 1 2 3] 4 by simp
qed

text \<open>A field that no line gives ends the program.\<close>

lemma levantarCfg_falta:
  assumes ls: "\<forall>l \<in> set ls. linea_ok l" "distinct (map (dictionary_hash \<circ> fst) (pares_de ls))"
    and "k \<in> {''port'', ''ip'', ''log'', ''hilos'', ''archivo'', ''delay'', ''ipCache'', ''portCache''}"
    and "dictionary_hash (cadena k) \<notin> (dictionary_hash \<circ> fst) ` set (pares_de ls)"
  shows "levantarCfg (Some (escribe_config ls)) = None"
proof -
  obtain c where c: "config_create (cadena ''cfgRfs.txt'') (Some (escribe_config ls)) = Some c"
    "\<And>k. dictionary_hash k \<notin> (dictionary_hash \<circ> fst) ` set (pares_de ls) \<Longrightarrow> \<not> config_has_property c k"
    by (rule config_lee [OF ls]) blast
  have "pedir_entero c k = None" "pedir_texto c k = None" using c(2) [OF assms(4)] by (simp_all add: pedir_entero_def pedir_texto_def)
  then show ?thesis using assms(3) c(1) by (elim insertE emptyE) (simp_all add: levantarCfg_def split: bind_splits)
qed

section \<open>The pool\<close>

text \<open>
  What the client relies on. \<open>usados s\<close> are the local ports with a connection to the server and \<open>puerto s fd\<close> is the port that a
  socket is bound to. A socket can be made and bound to a port that is not in use; the server accepts every connection; and
  the system refuses a second connection between the same two addresses, in \<^verbatim>\<open>bind\<close> or in \<^verbatim>\<open>connect\<close>.
\<close>

definition red_ok :: "'o so \<Rightarrow> ('o \<Rightarrow> u16 set) \<Rightarrow> ('o \<Rightarrow> int \<Rightarrow> u16) \<Rightarrow> bool" where
  "red_ok O' usados puerto \<longleftrightarrow>
     (\<forall>s. usados (snd (so_socket O' s)) = usados s)
   \<and> (\<forall>s fd. fst (so_setsockopt O' s fd) \<noteq> - 1 \<and> usados (snd (so_setsockopt O' s fd)) = usados s)
   \<and> (\<forall>s fd ip p. usados (snd (so_bind O' s fd ip p)) = usados s
        \<and> (p \<notin> usados s \<longrightarrow> fst (so_bind O' s fd ip p) \<noteq> - 1)
        \<and> (fst (so_bind O' s fd ip p) \<noteq> - 1 \<longrightarrow> puerto (snd (so_bind O' s fd ip p)) fd = p))
   \<and> (\<forall>s fd ip q. if puerto s fd \<in> usados s then fst (so_connect O' s fd ip q) = - 1
        else fst (so_connect O' s fd ip q) \<noteq> - 1 \<and> usados (snd (so_connect O' s fd ip q)) = insert (puerto s fd) (usados s))"

lemma red_connect:
  assumes "red_ok O' usados puerto"
  shows "if puerto s fd \<in> usados s then fst (so_connect O' s fd ip q) = - 1
    else fst (so_connect O' s fd ip q) \<noteq> - 1 \<and> usados (snd (so_connect O' s fd ip q)) = insert (puerto s fd) (usados s)"
  using assms unfolding red_ok_def by blast

lemma abrir_libre:
  assumes "red_ok O' usados puerto" "word_of_int port \<notin> usados s"
  obtains fd s1 where "sockets_createClient O' s ip port = Some (fd, s1)" "fst (sockets_connect O' s1 fd ipr portR) \<noteq> - 1"
    "usados (snd (sockets_connect O' s1 fd ipr portR)) = insert (word_of_int port) (usados s)"
proof -
  let ?fd = "fst (so_socket O' s)" let ?s2 = "snd (so_setsockopt O' (snd (so_socket O' s)) ?fd)"
  let ?b = "so_bind O' ?s2 ?fd ip (word_of_int port)"
  have u: "usados ?s2 = usados s" "fst (so_setsockopt O' (snd (so_socket O' s)) ?fd) \<noteq> - 1" using assms(1) by (simp_all add: red_ok_def)
  have b: "fst ?b \<noteq> - 1" "usados (snd ?b) = usados s" "puerto (snd ?b) ?fd = word_of_int port"
    using assms u(1) by (simp_all add: red_ok_def)
  have "sockets_createClient O' s ip port = Some (?fd, snd ?b)"
    using u(2) b(1) by (auto simp: sockets_createClient_def Let_def split: prod.splits)
  moreover have "puerto (snd ?b) ?fd \<notin> usados (snd ?b)" using b assms(2) by simp
  then have "fst (so_connect O' (snd ?b) ?fd ipr (word_of_int portR)) \<noteq> - 1
    \<and> usados (snd (so_connect O' (snd ?b) ?fd ipr (word_of_int portR))) = insert (word_of_int port) (usados s)"
    using red_connect [OF assms(1), of "snd ?b" ?fd ipr "word_of_int portR"] b(2,3) by simp
  ultimately show thesis using that [of ?fd "snd ?b"] by (simp add: sockets_connect_def)
qed

lemma abrir_usado:
  assumes "red_ok O' usados puerto" "word_of_int port \<in> usados s" "sockets_createClient O' s ip port = Some (fd, s1)"
  shows "fst (sockets_connect O' s1 fd ipr portR) = - 1"
proof -
  let ?s2 = "snd (so_setsockopt O' (snd (so_socket O' s)) fd)" let ?b = "so_bind O' ?s2 fd ip (word_of_int port)"
  have b: "fst ?b \<noteq> - 1" "s1 = snd ?b"
    using assms(3) by (auto simp: sockets_createClient_def Let_def split: prod.splits if_splits)
  moreover have "usados (snd ?b) = usados s" "puerto (snd ?b) fd = word_of_int port" using assms(1) b(1) by (simp_all add: red_ok_def)
  ultimately have "puerto s1 fd \<in> usados s1" using assms(2) by simp
  then show ?thesis using red_connect [OF assms(1), of s1 fd ipr "word_of_int portR"] by (simp add: sockets_connect_def)
qed

text \<open>The ports that the first \<open>n\<close> turns of the loop use.\<close>

definition puertos :: "int \<Rightarrow> nat \<Rightarrow> u16 set" where
  "puertos portL n = (\<lambda>i. word_of_int (portL + int i)) ` {..<n}"

lemma puertos_Suc: "puertos portL (Suc n) = insert (word_of_int (portL + int n)) (puertos portL n)"
  by (simp add: puertos_def lessThan_Suc)

lemma puerto_nuevo:
  assumes "n < 256"
  shows "word_of_int (portL + int n) \<notin> puertos portL n"
proof
  assume "word_of_int (portL + int n) \<in> puertos portL n"
  then obtain j where j: "j < n" "(word_of_int (portL + int n) :: u16) = word_of_int (portL + int j)" by (auto simp: puertos_def)
  then have "(word_of_nat n :: u16) = word_of_nat j" by simp
  then have "unat (word_of_nat n :: u16) = unat (word_of_nat j :: u16)" by simp
  then show False using j(1) assms by (simp add: unsigned_of_nat take_bit_nat_eq_self)
qed

text \<open>The first turns, as many as the counter can count.\<close>

lemma armar_pool_turnos:
  assumes "red_ok O' usados puerto" "n \<le> 256" "int n \<le> cantSock" "puertos portL n \<inter> usados s = {}"
  shows "\<exists>s' pool. armar_pool O' ip portL ipr portR cantSock 0 s [] = armar_pool O' ip portL ipr portR cantSock (word_of_nat n) s' pool
    \<and> length pool = n \<and> usados s' = usados s \<union> puertos portL n"
  using assms(2-4)
proof (induction n)
  case 0
  show ?case by (intro exI [of _ s] exI [of _ "[]"]) (simp add: puertos_def)
next
  case (Suc n)
  then obtain s1 pool where r: "armar_pool O' ip portL ipr portR cantSock 0 s [] = armar_pool O' ip portL ipr portR cantSock (word_of_nat n) s1 pool"
    "length pool = n" "usados s1 = usados s \<union> puertos portL n" by (auto simp: puertos_Suc)
  have n: "unat (word_of_nat n :: u8) = n" using Suc.prems(1) by (simp add: unsigned_of_nat take_bit_nat_eq_self)
  have "word_of_int (portL + int n) \<notin> usados s1"
    using r(3) puerto_nuevo [of n portL] Suc.prems(1,3) by (auto simp: puertos_Suc)
  then obtain fd s2 where o: "sockets_createClient O' s1 ip (portL + int n) = Some (fd, s2)" "fst (sockets_connect O' s2 fd ipr portR) \<noteq> - 1"
    "usados (snd (sockets_connect O' s2 fd ipr portR)) = insert (word_of_int (portL + int n)) (usados s1)"
    by (rule abrir_libre [OF assms(1)])
  have "armar_pool O' ip portL ipr portR cantSock (word_of_nat n) s1 pool
      = armar_pool O' ip portL ipr portR cantSock (word_of_nat (Suc n)) (snd (sockets_connect O' s2 fd ipr portR)) (pool @ [fd])"
    using o(1,2) n Suc.prems(2) by (subst armar_pool.simps) (simp add: habilitar_socket_def add.commute)
  then show ?case using r o(3) by (intro exI conjI) (auto simp: puertos_Suc)
qed

text \<open>
  C30: the pool of the client. With at most 255 sockets, ports that are not in use and a server that accepts, the loop ends with one
  socket for each port, as many as the semaphore of the pool counts. With more than 255 the counter, of eight bits, wraps: after
  256 connections the loop starts again with the first port, which is in use, and the program ends. A pool of more than 255
  sockets can not be configured.
\<close>

theorem armar_pool_termina:
  assumes "red_ok O' usados puerto" "puertos portL (min 256 (nat cantSock)) \<inter> usados s = {}"
  shows "if cantSock \<le> 255
    then \<exists>s' pool. armar_pool O' ip portL ipr portR cantSock 0 s [] = Some (Sigue (s', pool)) \<and> length pool = nat cantSock
      \<and> usados s' = usados s \<union> puertos portL (nat cantSock)
    else armar_pool O' ip portL ipr portR cantSock 0 s [] = Some Exit"
proof -
  let ?n = "min 256 (nat cantSock)"
  have n: "armar_pool O' ip portL ipr portR cantSock (word_of_nat ?n) s' pool = Some (Sigue (s', pool))" if "cantSock \<le> 255" for s' pool
    using that by (subst armar_pool.simps) (simp add: unsigned_of_nat take_bit_nat_eq_self min_def)
  show ?thesis
  proof (cases "0 \<le> cantSock")
    case False
    then show ?thesis by (subst armar_pool.simps) (simp add: puertos_def)
  next
    case True
    then have "int ?n \<le> cantSock" by simp
    from armar_pool_turnos [OF assms(1) _ this assms(2)] obtain s' pool where
      r: "armar_pool O' ip portL ipr portR cantSock 0 s [] = armar_pool O' ip portL ipr portR cantSock (word_of_nat ?n) s' pool"
        "length pool = ?n" "usados s' = usados s \<union> puertos portL ?n" by (meson min.cobounded1)
    show ?thesis
    proof (cases "cantSock \<le> 255")
      case True
      then have "?n = nat cantSock" by simp
      then show ?thesis using r n [OF True] True by auto
    next
      case False
      then have m: "?n = 256" "(word_of_nat ?n :: u8) = 0" by simp_all
      have "word_of_int portL \<in> usados s'" using r(3) m(1) by (force simp: puertos_def)
      then have "sockets_createClient O' s' ip portL = Some (fd, s2) \<Longrightarrow> fst (sockets_connect O' s2 fd ipr portR) = - 1" for fd s2
        using abrir_usado [OF assms(1), of portL s' ip fd s2] by blast
      then have "armar_pool O' ip portL ipr portR cantSock 0 s' pool = Some Exit"
        using False by (subst armar_pool.simps) (auto split: option.splits)
      then show ?thesis using r(1) [unfolded m(2)] False by simp
    qed
  qed
qed

text \<open>A system: the next descriptor, the port of each socket, and the ports that are connected.\<close>

definition so_ej :: "(int \<times> (int \<Rightarrow> u16) \<times> u16 set) so" where
  "so_ej = \<lparr>so_socket = (\<lambda>(n, b, u). (n, n + 1, b, u)), so_setsockopt = (\<lambda>s fd. (0, s)),
     so_bind = (\<lambda>(n, b, u) fd ip p. (0, n, b(fd := p), u)),
     so_connect = (\<lambda>(n, b, u) fd ip q. if b fd \<in> u then (- 1, n, b, u) else (0, n, b, insert (b fd) u))\<rparr>"

lemma so_ej_ok: "red_ok so_ej (\<lambda>(n, b, u). u) (\<lambda>(n, b, u). b)"
  by (simp add: red_ok_def so_ej_def)

theorem armar_pool_termina_witness:
  "(\<exists>s' pool. armar_pool so_ej [] 3902 [] 3901 3 0 (3, \<lambda>_. 0, {}) [] = Some (Sigue (s', pool)) \<and> length pool = 3)
    \<and> armar_pool so_ej [] 3902 [] 3901 300 0 (3, \<lambda>_. 0, {}) [] = Some Exit"
  using armar_pool_termina [OF so_ej_ok, of 3902 3 "(3, \<lambda>_. 0, {})" "[]" "[]" 3901]
    armar_pool_termina [OF so_ej_ok, of 3902 300 "(3, \<lambda>_. 0, {})" "[]" "[]" 3901] by auto

end
