(* ===== verification/Conexiones.thy ===== *)
theory Conexiones
  imports Cola Servidor Arranque "HOL-Library.Multiset"
begin

text \<open>
  The server as a whole, \<^verbatim>\<open>rfs/Main.c\<close>: the main thread waits for descriptors, accepts clients, receives requests and
  queues them; the threads of \<^verbatim>\<open>crearThreads\<close> take them from the queue in the loop of \<^verbatim>\<open>procesarPedido\<close>. Main thread
  and pool share the queue of the theory \<open>Cola\<close> and the semaphore \<^verbatim>\<open>pedidoEnCola\<close>. The interleaving is a relation whose
  steps are the pieces of code between two operations on shared state, labelled with the request that they receive, take or
  answer; the turns of the main thread, which a client or the system starts, have a label of their own. What a handler does to the file system is the subject of the theories \<open>Servidor\<close> and \<open>Atencion\<close>.

  The results of the system calls are arguments. A buffer that was just allocated has arbitrary contents.
\<close>

section \<open>Receiving\<close>

definition HEADERSIZE :: nat where "HEADERSIZE = 3"
definition HANDSHAKECLIENT :: "u8 list" where "HANDSHAKECLIENT = cadena ''Groso Connect''"
definition HANDSHAKESERV :: "u8 list" where "HANDSHAKESERV = cadena ''Groso Ok''"

text \<open>
  A call of \<^verbatim>\<open>recv\<close> with \<^verbatim>\<open>MSG_WAITALL\<close> fails, or fills the start of the buffer with the bytes that came; less than asked for
  when the other end closes.
\<close>

datatype recepcion = Fallo | Llegan "u8 list"

definition recv_en :: "u8 list \<Rightarrow> nat \<Rightarrow> recepcion \<Rightarrow> int \<times> u8 list" where
  "recv_en buffer len r =
     (case r of Fallo \<Rightarrow> (- 1, buffer)
      | Llegan bs \<Rightarrow> (int (length (take len bs)), take len bs @ drop (length (take len bs)) buffer))"

definition sockets_recvHeaderNipc :: "u8 list \<Rightarrow> recepcion \<Rightarrow> int \<times> u8 list" where
  "sockets_recvHeaderNipc buffer r = recv_en buffer HEADERSIZE r"

definition sockets_recvPayloadNipc :: "u8 list \<Rightarrow> u16 \<Rightarrow> recepcion \<Rightarrow> int \<times> u8 list" where
  "sockets_recvPayloadNipc buffer payloadLen r = recv_en buffer (unat payloadLen) r"

text \<open>
  The handshake of the server: what it returns and what it sends. The comparison reads the buffer whatever \<^verbatim>\<open>recv\<close>
  returned, and its result replaces the \<^verbatim>\<open>-1\<close> of a failed reception.
\<close>

definition recibirHandshake :: "u8 list \<Rightarrow> recepcion \<Rightarrow> int \<times> u8 list" where
  "recibirHandshake buffer r =
     (let (recvd, buffer) = recv_en buffer (length HANDSHAKECLIENT + 1) r in
      if take (length HANDSHAKECLIENT + 1) buffer = HANDSHAKECLIENT @ [0] then (1, HANDSHAKESERV @ [0]) else (0, []))"

definition enviarHandshake :: "u8 list \<Rightarrow> recepcion \<Rightarrow> u8 list \<times> int" where
  "enviarHandshake buffer r =
     (let (recvd, buffer) = recv_en buffer (length HANDSHAKESERV + 1) r in
      (HANDSHAKECLIENT @ [0], if take (length HANDSHAKESERV + 1) buffer = HANDSHAKESERV @ [0] then 1 else 0))"

section \<open>The main thread\<close>

record escucha =
  master :: "int set"
  maxfd :: int
  listaClientes :: "nat list"
  clientes :: t_clientes
  es_delay :: u32

text \<open>What the system calls of one turn of the loop return.\<close>

record entrada =
  en_cfg :: "u8 list option"
  en_accept :: int
  en_hs :: "u8 list \<times> recepcion"
  en_cab :: "u8 list \<times> recepcion"
  en_pay :: "u8 list \<times> recepcion"

definition aceptar :: "entrada \<Rightarrow> escucha \<Rightarrow> escucha option" where
  "aceptar en E =
     (case sockets_accept (clientes E) (en_accept en) of
        (None, K) \<Rightarrow> Some (E\<lparr>clientes := K\<rparr>)
      | (Some client, K) \<Rightarrow>
          if fst (recibirHandshake (fst (en_hs en)) (snd (en_hs en))) \<le> 0
          then do { K \<leftarrow> sockets_destroy_client K client; Some (E\<lparr>clientes := K\<rparr>) }
          else do { fd \<leftarrow> cl_mem K client;
                    Some (E\<lparr>clientes := K, listaClientes := listaClientes E @ [client], master := insert fd (master E),
                            maxfd := (if fd > maxfd E then fd else maxfd E)\<rparr>) })"

definition desconectar :: "int \<Rightarrow> escucha \<Rightarrow> escucha option" where
  "desconectar i E =
     do { (K, l) \<leftarrow> eliminarFd (clientes E) (listaClientes E) i;
          Some (E\<lparr>clientes := K, listaClientes := l, master := master E - {i}\<rparr>) }"

definition recibir :: "entrada \<Rightarrow> int \<Rightarrow> escucha \<Rightarrow> (escucha \<times> Pedido option) option" where
  "recibir en i E =
     do { client \<leftarrow> buscarFd (clientes E) (listaClientes E) i;
          let (bytesRecv, buffer) = sockets_recvHeaderNipc (fst (en_cab en)) (snd (en_cab en));
          if bytesRecv \<le> 0 then do { E \<leftarrow> desconectar i E; Some (E, None) } else
          do { tipoPaquete \<leftarrow> lee buffer 0 1;
               largo \<leftarrow> lee buffer 1 2;
               let payloadLen = dec16 largo;
               let (bytesRecv, buffer) = sockets_recvPayloadNipc (fst (en_pay en)) payloadLen (snd (en_pay en));
               if bytesRecv \<le> 0 then do { E \<leftarrow> desconectar i E; Some (E, None) } else
               do { s_pedido \<leftarrow> crearPedido client buffer (dec8 tipoPaquete) payloadLen;
                    Some (E, Some s_pedido) } } }"

text \<open>One turn of the loop, for a descriptor that \<^verbatim>\<open>select\<close> left in the copy of the set; the request is not queued yet.\<close>

definition atender_fd :: "int \<Rightarrow> int \<Rightarrow> entrada \<Rightarrow> int \<Rightarrow> escucha \<Rightarrow> (escucha \<times> Pedido option) option" where
  "atender_fd inotFd server en i E =
     (if i = inotFd then do { d \<leftarrow> actualizarDelay (en_cfg en) (es_delay E); Some (E\<lparr>es_delay := d\<rparr>, None) }
      else if i = server then do { E \<leftarrow> aceptar en E; Some (E, None) }
      else recibir en i E)"

section \<open>The threads\<close>

datatype hilo = Espera | Despierto | Atiende Pedido

datatype principal = Elige | Publica

record rfs =
  escucha :: escucha
  colaPedidos :: "Pedido heap \<times> t_queue"
  pedidoEnCola :: nat
  hilos :: "hilo list"
  principal :: principal

datatype etiqueta = Interno | Turno | Recibe Pedido | Toma Pedido | Contesta Pedido

text \<open>
  Every handler reads the client, to log its descriptor and to send the answer; the default of the \<^verbatim>\<open>switch\<close> does not. A
  thread whose handler reads a client that was destroyed has no step.
\<close>

definition con_manejador :: "u8 list" where
  "con_manejador = [TIPOGETATTR, TIPOREADDIR, TIPOREAD, TIPOOPEN, TIPOTRUNCATE, TIPOWRITE, TIPOCREATE, TIPOUNLINK, TIPOMKDIR, TIPORMDIR]"

definition puede_contestar :: "t_clientes \<Rightarrow> Pedido \<Rightarrow> bool" where
  "puede_contestar K p \<longleftrightarrow> (p_tipoPaquete p \<in> set con_manejador \<longrightarrow> sockets_send K (p_client p) [] \<noteq> None)"

text \<open>
  What the system guarantees of a turn: a descriptor that \<^verbatim>\<open>accept\<close> returns was not open. The buffers have the length
  they were allocated with.
\<close>

definition entrada_ok :: "escucha \<Rightarrow> entrada \<Rightarrow> bool" where
  "entrada_ok E en \<longleftrightarrow> en_accept en \<notin> master E \<and> length (fst (en_cab en)) = HEADERSIZE
     \<and> length (fst (en_pay en)) = unat (dec16 (drop 1 (snd (sockets_recvHeaderNipc (fst (en_cab en)) (snd (en_cab en))))))"

inductive paso_rfs :: "int \<Rightarrow> int \<Rightarrow> rfs \<Rightarrow> etiqueta \<Rightarrow> rfs \<Rightarrow> bool" for inotFd server where
  turno: "\<lbrakk>principal m = Elige; i \<in> master (escucha m); entrada_ok (escucha m) en;
           atender_fd inotFd server en i (escucha m) = Some (E, None)\<rbrakk> \<Longrightarrow>
     paso_rfs inotFd server m Turno (m\<lparr>escucha := E\<rparr>)"
| encola: "\<lbrakk>principal m = Elige; i \<in> master (escucha m); entrada_ok (escucha m) en;
            atender_fd inotFd server en i (escucha m) = Some (E, Some p); queue_push (colaPedidos m) p = Some q\<rbrakk> \<Longrightarrow>
     paso_rfs inotFd server m (Recibe p) (m\<lparr>escucha := E, colaPedidos := q, principal := Publica\<rparr>)"
| publica: "principal m = Publica \<Longrightarrow>
     paso_rfs inotFd server m Interno (m\<lparr>pedidoEnCola := pedidoEnCola m + 1, principal := Elige\<rparr>)"
| despierta: "\<lbrakk>k < length (hilos m); hilos m ! k = Espera; 0 < pedidoEnCola m\<rbrakk> \<Longrightarrow>
     paso_rfs inotFd server m Interno (m\<lparr>pedidoEnCola := pedidoEnCola m - 1, hilos := (hilos m)[k := Despierto]\<rparr>)"
| toma: "\<lbrakk>k < length (hilos m); hilos m ! k = Despierto; queue_pop (colaPedidos m) = Some (q, Some p)\<rbrakk> \<Longrightarrow>
     paso_rfs inotFd server m (Toma p) (m\<lparr>colaPedidos := q, hilos := (hilos m)[k := Atiende p]\<rparr>)"
| contesta: "\<lbrakk>k < length (hilos m); hilos m ! k = Atiende p; puede_contestar (clientes (escucha m)) p\<rbrakk> \<Longrightarrow>
     paso_rfs inotFd server m (Contesta p) (m\<lparr>hilos := (hilos m)[k := Espera]\<rparr>)"

inductive_cases paso_rfsE: "paso_rfs inotFd server m l m'"

definition rfs_inicial :: "int \<Rightarrow> int \<Rightarrow> u32 \<Rightarrow> u8 \<Rightarrow> rfs" where
  "rfs_inicial inotFd server delay maxThreads =
     \<lparr>escucha = \<lparr>master = {server, inotFd}, maxfd = (if inotFd < server then server else inotFd), listaClientes = [],
                 clientes = clientes_vacio, es_delay = delay\<rparr>,
      colaPedidos = (heap_empty, queue_create), pedidoEnCola = 0, hilos = replicate (unat maxThreads) Espera, principal = Elige\<rparr>"

inductive corre :: "int \<Rightarrow> int \<Rightarrow> rfs \<Rightarrow> etiqueta list \<Rightarrow> rfs \<Rightarrow> bool" for inotFd server m where
  corre_nada: "corre inotFd server m [] m"
| corre_paso: "\<lbrakk>corre inotFd server m ls m1; paso_rfs inotFd server m1 l m2\<rbrakk> \<Longrightarrow> corre inotFd server m (ls @ [l]) m2"

section \<open>The clients of the main thread\<close>

definition escucha_ok :: "int \<Rightarrow> int \<Rightarrow> escucha \<Rightarrow> bool" where
  "escucha_ok inotFd server E \<longleftrightarrow> master E = {inotFd, server} \<union> ran (cl_mem (clientes E))
     \<and> {inotFd, server} \<inter> ran (cl_mem (clientes E)) = {} \<and> (\<forall>fd \<in> master E. fd \<le> maxfd E)
     \<and> distinct (listaClientes E) \<and> set (listaClientes E) = dom (cl_mem (clientes E))
     \<and> inj_on (cl_mem (clientes E)) (dom (cl_mem (clientes E))) \<and> abiertos (clientes E) = ran (cl_mem (clientes E))
     \<and> (\<forall>c \<in> dom (cl_mem (clientes E)). c < cl_brk (clientes E))"

lemma ran_quitar: "inj_on m (dom m) \<Longrightarrow> m c = Some d \<Longrightarrow> ran (m(c := None)) = ran m - {d}"
  unfolding ran_def inj_on_def dom_def by (auto 0 3)

lemma inj_quitar: "inj_on m (dom m) \<Longrightarrow> inj_on (m(c := None)) (dom m - {c})"
  by (auto simp: inj_on_def)

lemma indice_fd_primero:
  assumes "\<forall>c \<in> set pre. \<exists>d. cl_mem K c = Some d \<and> d \<noteq> fd" "cl_mem K c = Some fd"
  shows "indice_fd K (pre @ c # post) fd i = Some (i + length pre + 1)"
  using assms(1) by (induction pre arbitrary: i) (auto simp: assms(2))

lemma clientes_fd:
  assumes "c \<in> set l" "set l = dom (cl_mem K)" "inj_on (cl_mem K) (dom (cl_mem K))" "cl_mem K c = Some fd" "distinct l"
  shows "buscarFd K l fd = Some c"
    "eliminarFd K l fd = Some (K\<lparr>cl_mem := (cl_mem K)(c := None), abiertos := abiertos K - {fd}\<rparr>, remove1 c l)"
proof -
  obtain pre post where l: "l = pre @ c # post" "c \<notin> set pre" using assms(1) by (metis split_list_first)
  have "\<forall>x \<in> set pre. \<exists>d. cl_mem K x = Some d \<and> d \<noteq> fd"
  proof
    fix x assume x: "x \<in> set pre"
    then obtain d where d: "cl_mem K x = Some d" using assms(2) l(1) by auto
    moreover have "d \<noteq> fd" using inj_onD [OF assms(3), of x c] d assms(4) x l(2) by auto
    ultimately show "\<exists>d. cl_mem K x = Some d \<and> d \<noteq> fd" by blast
  qed
  then have i: "indice_fd K l fd 0 = Some (length pre + 1)" unfolding l(1) using indice_fd_primero assms(4) by simp
  show "buscarFd K l fd = Some c" using i by (simp add: buscarFd_def l(1))
  show "eliminarFd K l fd = Some (K\<lparr>cl_mem := (cl_mem K)(c := None), abiertos := abiertos K - {fd}\<rparr>, remove1 c l)"
    using i assms(4) l by (simp add: eliminarFd_def sockets_destroy_client_def remove1_append)
qed



text \<open>What a disconnection leaves: the struct of the client is freed, its descriptor closed, and both are forgotten.\<close>

definition sin_cliente :: "nat \<Rightarrow> int \<Rightarrow> escucha \<Rightarrow> escucha" where
  "sin_cliente c i E = E\<lparr>clientes := (clientes E)\<lparr>cl_mem := (cl_mem (clientes E))(c := None), abiertos := abiertos (clientes E) - {i}\<rparr>,
     listaClientes := remove1 c (listaClientes E), master := master E - {i}\<rparr>"

lemma desconectar_ok:
  assumes "escucha_ok inotFd server E" "cl_mem (clientes E) c = Some i"
  shows "desconectar i E = Some (sin_cliente c i E)" "escucha_ok inotFd server (sin_cliente c i E)"
proof -
  have e: "c \<in> set (listaClientes E)" "set (listaClientes E) = dom (cl_mem (clientes E))" "distinct (listaClientes E)"
      "inj_on (cl_mem (clientes E)) (dom (cl_mem (clientes E)))"
    using assms by (auto simp: escucha_ok_def)
  show "desconectar i E = Some (sin_cliente c i E)"
    using clientes_fd(2) [OF e(1,2,4) assms(2) e(3)] by (simp add: desconectar_def sin_cliente_def)
  have "i \<in> ran (cl_mem (clientes E))" using assms(2) by (rule ranI)
  then show "escucha_ok inotFd server (sin_cliente c i E)"
    using assms ran_quitar [OF e(4) assms(2)]
    by (auto simp: escucha_ok_def sin_cliente_def set_remove1_eq inj_quitar)
qed

lemma aceptar_ok:
  assumes "escucha_ok inotFd server E" "entrada_ok E en"
  obtains E' where "aceptar en E = Some E'" "escucha_ok inotFd server E'"
proof -
  let ?K = "clientes E" and ?c = "cl_brk (clientes E)" and ?fd = "en_accept en"
  have n: "cl_mem ?K ?c = None" using assms(1) by (fastforce simp: escucha_ok_def)
  have fd: "?fd \<notin> ran (cl_mem ?K)" "?fd \<notin> master E" using assms by (auto simp: escucha_ok_def entrada_ok_def)
  let ?m = "(cl_mem ?K)(?c \<mapsto> ?fd)"
  have m: "ran ?m = insert ?fd (ran (cl_mem ?K))" "dom ?m = insert ?c (dom (cl_mem ?K))" using n by (auto simp: ran_map_upd)
  have inj: "inj_on ?m (dom ?m)" unfolding m(2)
    using assms(1) n fd(1) by (auto simp: escucha_ok_def inj_on_def ran_def)
  consider "?fd = - 1" | "?fd \<noteq> - 1" "fst (recibirHandshake (fst (en_hs en)) (snd (en_hs en))) \<le> 0"
    | "?fd \<noteq> - 1" "\<not> fst (recibirHandshake (fst (en_hs en)) (snd (en_hs en))) \<le> 0" by blast
  then show thesis
  proof cases
    case 1
    then have "aceptar en E = Some E" by (simp add: aceptar_def sockets_accept_def)
    then show thesis using assms(1) by (rule that)
  next
    case 2
    have "(cl_mem ?K)(?c := None) = cl_mem ?K" using n by (simp add: fun_upd_idem)
    moreover have "abiertos ?K - {?fd} = abiertos ?K" using assms(1) fd(1) by (auto simp: escucha_ok_def)
    ultimately have "aceptar en E = Some (E\<lparr>clientes := ?K\<lparr>cl_brk := Suc ?c\<rparr>\<rparr>)"
      using 2 by (simp add: aceptar_def sockets_accept_def sockets_destroy_client_def)
    then show thesis by (rule that) (use assms(1) in \<open>auto simp: escucha_ok_def less_Suc_eq\<close>)
  next
    case 3
    let ?E = "E\<lparr>clientes := \<lparr>cl_mem = ?m, cl_brk = Suc ?c, abiertos = insert ?fd (abiertos ?K)\<rparr>, listaClientes := listaClientes E @ [?c],
      master := insert ?fd (master E), maxfd := (if ?fd > maxfd E then ?fd else maxfd E)\<rparr>"
    have "aceptar en E = Some ?E" using 3 by (simp add: aceptar_def sockets_accept_def)
    moreover have "\<forall>d \<in> insert ?fd (master E). d \<le> maxfd ?E" using assms(1) by (fastforce simp: escucha_ok_def)
    then have "escucha_ok inotFd server ?E"
      using assms(1) fd n inj unfolding escucha_ok_def by (auto simp: m less_Suc_eq)
    ultimately show thesis by (rule that)
  qed
qed

lemma largo_recv: "length (snd (recv_en buffer len r)) = length buffer" if "len \<le> length buffer"
  using that by (auto simp: recv_en_def split: recepcion.splits)

text \<open>A turn for a client never leaves the defined: the client is found, and a request carries its descriptor and its whole payload.\<close>

lemma recibir_ok:
  assumes "escucha_ok inotFd server E" "entrada_ok E en" "cl_mem (clientes E) c = Some i"
  obtains E' p where "recibir en i E = Some (E', p)" "escucha_ok inotFd server E'"
    "\<And>q. p = Some q \<Longrightarrow> E' = E \<and> p_client q = c \<and> length (p_buffer q) = unat (p_payloadLength q)"
proof -
  have e: "c \<in> set (listaClientes E)" "set (listaClientes E) = dom (cl_mem (clientes E))" "distinct (listaClientes E)"
      "inj_on (cl_mem (clientes E)) (dom (cl_mem (clientes E)))"
    using assms(1,3) by (auto simp: escucha_ok_def)
  obtain n b where h: "sockets_recvHeaderNipc (fst (en_cab en)) (snd (en_cab en)) = (n, b)" by fastforce
  have lb: "length b = 3" "length (fst (en_pay en)) = unat (dec16 (drop 1 b))"
    using assms(2) h largo_recv [of HEADERSIZE "fst (en_cab en)" "snd (en_cab en)"]
    by (simp_all add: entrada_ok_def sockets_recvHeaderNipc_def HEADERSIZE_def)
  then have ll: "lee b 0 1 = Some (take 1 b)" "lee b 1 2 = Some (drop 1 b)" by (simp_all add: lee_def)
  obtain n2 b2 where h2: "sockets_recvPayloadNipc (fst (en_pay en)) (dec16 (drop 1 b)) (snd (en_pay en)) = (n2, b2)" by fastforce
  have lb2: "length b2 = unat (dec16 (drop 1 b))"
    using h2 largo_recv [of "unat (dec16 (drop 1 b))" "fst (en_pay en)" "snd (en_pay en)"] lb(2)
    by (simp add: sockets_recvPayloadNipc_def)
  note E1 = desconectar_ok [OF assms(1,3)]
  let ?q = "\<lparr>p_client = c, p_buffer = b2, p_tipoPaquete = dec8 (take 1 b), p_payloadLength = dec16 (drop 1 b)\<rparr>"
  have "recibir en i E = Some (if n \<le> 0 \<or> n2 \<le> 0 then (sin_cliente c i E, None) else (E, Some ?q))"
    using clientes_fd(1) [OF e(1,2,4) assms(3) e(3)] h h2 ll lb2 E1(1) by (simp add: recibir_def crearPedido_def)
  then show thesis using that [of "sin_cliente c i E" None] that [of E "Some ?q"] E1(2) assms(1) lb2 by (auto split: if_splits)
qed

lemma atender_fd_ok:
  assumes "escucha_ok inotFd server E" "entrada_ok E en" "i \<in> master E" "atender_fd inotFd server en i E = Some (E', p)"
  shows "escucha_ok inotFd server E'"
proof -
  consider "i = inotFd" | "i \<noteq> inotFd" "i = server" | "i \<noteq> inotFd" "i \<noteq> server" by blast
  then show ?thesis
  proof cases
    case 1
    then show ?thesis using assms(1,4) by (auto simp: atender_fd_def escucha_ok_def split: bind_splits)
  next
    case 2
    obtain E1 where "aceptar en E = Some E1" "escucha_ok inotFd server E1" by (rule aceptar_ok [OF assms(1,2)])
    then show ?thesis using assms(4) 2 by (auto simp: atender_fd_def)
  next
    case 3
    then have "i \<in> ran (cl_mem (clientes E))" using assms(1,3) by (auto simp: escucha_ok_def)
    then obtain c where c: "cl_mem (clientes E) c = Some i" by (auto simp: ran_def)
    obtain E1 p1 where "recibir en i E = Some (E1, p1)" "escucha_ok inotFd server E1" by (rule recibir_ok [OF assms(1,2) c])
    then show ?thesis using assms(4) 3 by (simp add: atender_fd_def)
  qed
qed

section \<open>The queue and the semaphore\<close>

primrec recibidos :: "etiqueta list \<Rightarrow> Pedido list" where
  "recibidos [] = []"
| "recibidos (l # ls) = (case l of Recibe p \<Rightarrow> p # recibidos ls | _ \<Rightarrow> recibidos ls)"

primrec tomados :: "etiqueta list \<Rightarrow> Pedido list" where
  "tomados [] = []"
| "tomados (l # ls) = (case l of Toma p \<Rightarrow> p # tomados ls | _ \<Rightarrow> tomados ls)"

primrec contestados :: "etiqueta list \<Rightarrow> Pedido list" where
  "contestados [] = []"
| "contestados (l # ls) = (case l of Contesta p \<Rightarrow> p # contestados ls | _ \<Rightarrow> contestados ls)"

primrec en_manos :: "hilo \<Rightarrow> Pedido multiset" where
  "en_manos Espera = {#}"
| "en_manos Despierto = {#}"
| "en_manos (Atiende p) = {#p#}"

definition despiertos :: "hilo list \<Rightarrow> nat" where
  "despiertos hs = length (filter (\<lambda>h. h = Despierto) hs)"

lemma etiquetas_append [simp]:
  "recibidos (ls @ ls') = recibidos ls @ recibidos ls'" "tomados (ls @ ls') = tomados ls @ tomados ls'"
  "contestados (ls @ ls') = contestados ls @ contestados ls'"
  by (induction ls) (auto split: etiqueta.splits)

text \<open>
  The invariant: every queued request is counted once, in the semaphore, by a thread that passed it, or by the main thread that
  has queued it and not yet said so.
\<close>

definition cola_ok :: "rfs \<Rightarrow> Pedido list \<Rightarrow> bool" where
  "cola_ok m xs \<longleftrightarrow> es_cola (colaPedidos m) xs
     \<and> pedidoEnCola m + despiertos (hilos m) + (case principal m of Elige \<Rightarrow> 0 | Publica \<Rightarrow> 1) = length xs"

lemma despiertos_update:
  assumes "k < length hs"
  shows "despiertos (hs[k := h]) + (if hs ! k = Despierto then 1 else 0) = despiertos hs + (if h = Despierto then 1 else 0)"
  unfolding despiertos_def by (rule cuenta_update [OF assms])

lemma manos_update:
  assumes "k < length hs"
  shows "(\<Sum>h \<in># mset (hs[k := h']). en_manos h) + en_manos (hs ! k) = (\<Sum>h \<in># mset hs. en_manos h) + en_manos h'"
proof -
  have "mset hs = add_mset (hs ! k) (mset hs - {#hs ! k#})" using assms by simp
  then have "(\<Sum>h \<in># mset hs. en_manos h) = en_manos (hs ! k) + (\<Sum>h \<in># mset hs - {#hs ! k#}. en_manos h)"
    by (metis image_mset_add_mset sum_mset.insert)
  then show ?thesis using assms by (simp add: mset_update)
qed

lemma despierto_hay: "k < length hs \<Longrightarrow> hs ! k = Despierto \<Longrightarrow> 0 < despiertos hs"
  unfolding despiertos_def by (metis (mono_tags, lifting) filter_empty_conv length_greater_0_conv nth_mem)

lemma cola_ok_toma:
  assumes "cola_ok m xs" "k < length (hilos m)" "hilos m ! k = Despierto"
  obtains p ys q where "xs = p # ys" "queue_pop (colaPedidos m) = Some (q, Some p)" "es_cola q ys"
proof -
  have "0 < length xs" using despierto_hay [OF assms(2,3)] assms(1) by (auto simp: cola_ok_def)
  then obtain p ys where xs: "xs = p # ys" by (cases xs) auto
  then show thesis using cola.pop_Cons [of "colaPedidos m" p ys] assms(1) that by (auto simp: cola_ok_def)
qed

text \<open>One step: what it receives enters at the end, what it takes leaves at the front.\<close>

lemma paso_cola:
  assumes "paso_rfs inotFd server m l m'" "cola_ok m xs"
  shows "\<exists>ys. cola_ok m' ys \<and> xs @ recibidos [l] = tomados [l] @ ys
    \<and> (\<Sum>h \<in># mset (hilos m). en_manos h) + mset (tomados [l]) = (\<Sum>h \<in># mset (hilos m'). en_manos h) + mset (contestados [l])"
  using assms(1)
proof (cases rule: paso_rfs.cases)
  case (turno i en E)
  then show ?thesis using assms(2) by (auto simp: cola_ok_def)
next
  case (encola i en E p q)
  obtain q' where "queue_push (colaPedidos m) p = Some q'" "es_cola q' (xs @ [p])"
    using cola.push [of "colaPedidos m" xs p] assms(2) by (auto simp: cola_ok_def)
  then show ?thesis using encola assms(2) by (intro exI [of _ "xs @ [p]"]) (auto simp: cola_ok_def)
next
  case publica
  then show ?thesis using assms(2) by (auto simp: cola_ok_def)
next
  case (despierta k)
  then show ?thesis
    using assms(2) despiertos_update [OF despierta(3), of Despierto] manos_update [OF despierta(3), of Despierto]
    by (auto simp: cola_ok_def)
next
  case (toma k q p)
  obtain p' ys q' where xs: "xs = p' # ys" "queue_pop (colaPedidos m) = Some (q', Some p')" "es_cola q' ys"
    by (rule cola_ok_toma [OF assms(2) toma(3,4)])
  then show ?thesis
    using toma assms(2) despiertos_update [OF toma(3), of "Atiende p"] manos_update [OF toma(3), of "Atiende p"]
    by (intro exI [of _ ys]) (auto simp: cola_ok_def)
next
  case (contesta k p)
  then show ?thesis
    using assms(2) despiertos_update [OF contesta(3), of Espera] manos_update [OF contesta(3), of Espera]
    by (intro exI [of _ xs]) (auto simp: cola_ok_def)
qed

lemma paso_escucha:
  "paso_rfs inotFd server m l m' \<Longrightarrow> escucha_ok inotFd server (escucha m) \<Longrightarrow> escucha_ok inotFd server (escucha m')"
  by (erule paso_rfs.cases) (auto intro: atender_fd_ok)

lemma inicial_ok_rfs:
  assumes "inotFd \<noteq> server"
  shows "escucha_ok inotFd server (escucha (rfs_inicial inotFd server d n))" "cola_ok (rfs_inicial inotFd server d n) []"
  by (auto simp: rfs_inicial_def escucha_ok_def clientes_vacio_def cola_ok_def es_cola_create despiertos_def)

lemma corre_inv:
  assumes "corre inotFd server (rfs_inicial inotFd server d n) ls m" "inotFd \<noteq> server"
  shows "escucha_ok inotFd server (escucha m) \<and> length (hilos m) = unat n \<and> (\<exists>xs. cola_ok m xs \<and> recibidos ls = tomados ls @ xs
    \<and> mset (tomados ls) = mset (contestados ls) + (\<Sum>h \<in># mset (hilos m). en_manos h))"
  using assms(1)
proof induction
  case corre_nada
  have "(\<Sum>h \<in># mset (hilos (rfs_inicial inotFd server d n)). en_manos h) = {#}"
    by (simp add: rfs_inicial_def)
  then show ?case using inicial_ok_rfs [OF assms(2)] by (auto simp: rfs_inicial_def)
next
  case (corre_paso ls m1 l m2)
  then obtain xs where xs: "cola_ok m1 xs" "recibidos ls = tomados ls @ xs"
    "mset (tomados ls) = mset (contestados ls) + (\<Sum>h \<in># mset (hilos m1). en_manos h)" by blast
  obtain ys where ys: "cola_ok m2 ys" "xs @ recibidos [l] = tomados [l] @ ys"
    "(\<Sum>h \<in># mset (hilos m1). en_manos h) + mset (tomados [l]) = (\<Sum>h \<in># mset (hilos m2). en_manos h) + mset (contestados [l])"
    using paso_cola [OF corre_paso.hyps(2) xs(1)] by blast
  have "recibidos (ls @ [l]) = tomados (ls @ [l]) @ ys" using xs(2) ys(2) unfolding etiquetas_append by simp
  moreover have "mset (tomados (ls @ [l])) = mset (contestados (ls @ [l])) + (\<Sum>h \<in># mset (hilos m2). en_manos h)"
    using xs(3) ys(3) unfolding etiquetas_append mset_append by (simp add: ac_simps)
  moreover have "length (hilos m2) = length (hilos m1)" using corre_paso.hyps(2) by cases auto
  ultimately show ?case using ys(1) paso_escucha [OF corre_paso.hyps(2)] corre_paso.IH by auto
qed

section \<open>A run\<close>

text \<open>A client connects, sends one request, and a thread takes it.\<close>

definition pedido_ej :: Pedido where
  "pedido_ej = \<lparr>p_client = 1, p_buffer = [47, 0], p_tipoPaquete = TIPOOPEN, p_payloadLength = 2\<rparr>"

definition conecta_ej :: entrada where
  "conecta_ej = \<lparr>en_cfg = None, en_accept = 5, en_hs = (replicate 14 0, Llegan (HANDSHAKECLIENT @ [0])),
     en_cab = ([0, 0, 0], Fallo), en_pay = ([], Fallo)\<rparr>"

definition pide_ej :: entrada where
  "pide_ej = \<lparr>en_cfg = None, en_accept = - 1, en_hs = ([], Fallo),
     en_cab = ([0, 0, 0], Llegan [TIPOOPEN, 2, 0]), en_pay = ([0, 0], Llegan [47, 0])\<rparr>"

definition escucha_ej :: escucha where
  "escucha_ej = \<lparr>master = {3, 4, 5}, maxfd = 5, listaClientes = [1],
     clientes = \<lparr>cl_mem = [1 \<mapsto> 5], cl_brk = 2, abiertos = {5}\<rparr>, es_delay = 0\<rparr>"

lemma turnos_ej:
  "aceptar conecta_ej (escucha (rfs_inicial 3 4 0 1)) = Some escucha_ej"
  "recibir pide_ej 5 escucha_ej
    = Some (escucha_ej, Some pedido_ej)"
  by (auto simp: aceptar_def recibir_def conecta_ej_def pide_ej_def rfs_inicial_def recibirHandshake_def recv_en_def HANDSHAKECLIENT_def
      HANDSHAKESERV_def cadena_def sockets_recvHeaderNipc_def sockets_recvPayloadNipc_def HEADERSIZE_def buscarFd_def lee_def sockets_accept_def clientes_vacio_def escucha_ej_def
      crearPedido_def pedido_ej_def dec16_def dec8_def TIPOOPEN_def Let_def)

lemma entradas_ej:
  "entrada_ok (escucha (rfs_inicial 3 4 0 1)) conecta_ej"
  "entrada_ok escucha_ej pide_ej"
  by (simp_all add: entrada_ok_def conecta_ej_def pide_ej_def rfs_inicial_def sockets_recvHeaderNipc_def recv_en_def HEADERSIZE_def dec16_def escucha_ej_def)

lemma corre_ej:
  obtains m where "corre 3 4 (rfs_inicial 3 4 0 1) [Turno, Recibe pedido_ej] m" "es_cola (colaPedidos m) [pedido_ej]"
    "hilos m = [Espera]" "principal m = Publica" "pedidoEnCola m = 0"
    "escucha m = escucha_ej"
proof -
  let ?m0 = "rfs_inicial 3 4 0 1" and ?E = escucha_ej
  let ?m1 = "?m0\<lparr>escucha := ?E\<rparr>"
  have "paso_rfs 3 4 ?m0 Turno ?m1"
    using turnos_ej(1) entradas_ej(1) by (intro turno [of _ 4]) (simp_all add: atender_fd_def, simp_all add: rfs_inicial_def)
  then have 1: "corre 3 4 ?m0 [Turno] ?m1" using corre_paso [OF corre_nada] by fastforce
  obtain q where q: "queue_push (colaPedidos ?m0) pedido_ej = Some q" "es_cola q [pedido_ej]"
    using cola.push [OF es_cola_create [OF heap_ok_empty], of pedido_ej] by (auto simp: rfs_inicial_def)
  have "paso_rfs 3 4 ?m1 (Recibe pedido_ej) (?m1\<lparr>escucha := ?E, colaPedidos := q, principal := Publica\<rparr>)"
    using turnos_ej(2) entradas_ej(2) q(1) by (intro encola [of _ 5]) (simp_all add: rfs_inicial_def atender_fd_def escucha_ej_def)
  from corre_paso [OF 1 this] have "corre 3 4 ?m0 [Turno, Recibe pedido_ej] (?m1\<lparr>escucha := ?E, colaPedidos := q, principal := Publica\<rparr>)"
    by simp
  then show thesis by (rule that) (use q(2) in \<open>simp_all add: rfs_inicial_def\<close>)
qed

section \<open>Properties\<close>

text \<open>
  C26: in every state that the server reaches, the clients that exist are those of the list, each once, with an open descriptor of its
  own; the set of descriptors is that of the clients with the two of the server; a turn for a client is defined and a request
  carries the client that sent it; and a thread that passed the semaphore finds a request in the queue, so that the null pointer
  of an empty queue is never followed.
\<close>

theorem rfs_definido:
  assumes "corre inotFd server (rfs_inicial inotFd server d n) ls m" "inotFd \<noteq> server"
  shows "master (escucha m) = {inotFd, server} \<union> ran (cl_mem (clientes (escucha m)))
    \<and> distinct (listaClientes (escucha m)) \<and> set (listaClientes (escucha m)) = dom (cl_mem (clientes (escucha m)))
    \<and> inj_on (cl_mem (clientes (escucha m))) (dom (cl_mem (clientes (escucha m))))
    \<and> abiertos (clientes (escucha m)) = ran (cl_mem (clientes (escucha m)))
    \<and> (\<forall>fd \<in> master (escucha m). fd \<le> maxfd (escucha m))
    \<and> (\<forall>c i. cl_mem (clientes (escucha m)) c = Some i \<longrightarrow> (\<forall>en. entrada_ok (escucha m) en \<longrightarrow>
        (\<exists>E p. atender_fd inotFd server en i (escucha m) = Some (E, p) \<and> (\<forall>q. p = Some q \<longrightarrow> p_client q = c))))
    \<and> (\<forall>k < length (hilos m). hilos m ! k = Despierto \<longrightarrow> (\<exists>q p. queue_pop (colaPedidos m) = Some (q, Some p)))"
proof -
  from corre_inv [OF assms] obtain xs where I: "escucha_ok inotFd server (escucha m)" "cola_ok m xs" by blast
  have "\<exists>E p. atender_fd inotFd server en i (escucha m) = Some (E, p) \<and> (\<forall>q. p = Some q \<longrightarrow> p_client q = c)"
    if i: "cl_mem (clientes (escucha m)) c = Some i" and en: "entrada_ok (escucha m) en" for c i en
  proof -
    have "i \<in> ran (cl_mem (clientes (escucha m)))" using i by (rule ranI)
    then have "i \<noteq> inotFd" "i \<noteq> server" using I(1) by (auto simp: escucha_ok_def)
    moreover obtain E p where "recibir en i (escucha m) = Some (E, p)" "\<And>q. p = Some q \<Longrightarrow> p_client q = c"
      by (rule recibir_ok [OF I(1) en i]) blast
    ultimately show ?thesis by (simp add: atender_fd_def)
  qed
  moreover have "\<exists>q p. queue_pop (colaPedidos m) = Some (q, Some p)" if "k < length (hilos m)" "hilos m ! k = Despierto" for k
    by (rule cola_ok_toma [OF I(2) that]) blast
  ultimately show ?thesis using I(1) by (simp add: escucha_ok_def)
qed

theorem rfs_definido_witness:
  "\<exists>m E. corre 3 4 (rfs_inicial 3 4 0 1) [Turno, Recibe pedido_ej] m \<and> master (escucha m) = {3, 4, 5} \<and> listaClientes (escucha m) = [1]
    \<and> atender_fd 3 4 pide_ej 5 (escucha m) = Some (E, Some pedido_ej) \<and> distinct (listaClientes (escucha m))"
proof -
  obtain m where m: "corre 3 4 (rfs_inicial 3 4 0 1) [Turno, Recibe pedido_ej] m" "escucha m = escucha_ej" by (rule corre_ej)
  have "distinct (listaClientes (escucha m))" using rfs_definido [OF m(1)] by simp
  then show ?thesis using m turnos_ej(2) by (auto simp: atender_fd_def escucha_ej_def)
qed

text \<open>
  C25: order. In every run the requests received are those taken by the threads, in the same order, followed by those in the queue; and
  every request taken was answered or is in the hands of exactly one thread.
\<close>

theorem rfs_orden:
  assumes "corre inotFd server (rfs_inicial inotFd server d n) ls m" "inotFd \<noteq> server"
  shows "\<exists>xs. es_cola (colaPedidos m) xs \<and> recibidos ls = tomados ls @ xs
    \<and> mset (tomados ls) = mset (contestados ls) + (\<Sum>h \<in># mset (hilos m). en_manos h)"
  using corre_inv [OF assms] by (auto simp: cola_ok_def)

theorem rfs_orden_witness:
  "\<exists>m xs. corre 3 4 (rfs_inicial 3 4 0 1) [Turno, Recibe pedido_ej] m \<and> es_cola (colaPedidos m) xs \<and> xs = [pedido_ej]"
proof -
  obtain m where m: "corre 3 4 (rfs_inicial 3 4 0 1) [Turno, Recibe pedido_ej] m" by (rule corre_ej)
  show ?thesis using rfs_orden [OF m] m by auto
qed

text \<open>The three ways in which the oldest request is taken.\<close>

lemma toma_ya:
  assumes "cola_ok m (p # xs)" "k < length (hilos m)" "hilos m ! k = Despierto"
  shows "\<exists>m'. corre inotFd server m [Toma p] m'"
proof -
  obtain q where "queue_pop (colaPedidos m) = Some (q, Some p)" by (rule cola_ok_toma [OF assms]) auto
  from corre_paso [OF corre_nada toma [OF assms(2,3) this]] show ?thesis by fastforce
qed

lemma corre_antes:
  assumes "paso_rfs inotFd server m l m1" "corre inotFd server m1 ls m2"
  shows "corre inotFd server m (l # ls) m2"
  using assms(2)
proof induction
  case corre_nada
  show ?case using corre.corre_paso [OF corre.corre_nada assms(1)] by simp
next
  case (corre_paso ls m3 l' m4)
  from corre.corre_paso [OF corre_paso.IH corre_paso.hyps(2)] show ?case by simp
qed

lemma despierta_y_toma:
  assumes "cola_ok m (p # xs)" "0 < pedidoEnCola m" "k < length (hilos m)" "hilos m ! k = Espera"
  shows "\<exists>m'. corre inotFd server m [Interno, Toma p] m'"
proof -
  note st = despierta [where inotFd = inotFd and server = server, OF assms(3,4,2)]
  have "cola_ok (m\<lparr>pedidoEnCola := pedidoEnCola m - 1, hilos := (hilos m)[k := Despierto]\<rparr>) (p # xs)"
    using paso_cola [OF st assms(1)] by auto
  from toma_ya [OF this, of k] assms(3) corre_antes [OF st] show ?thesis by fastforce
qed

lemma publica_y_toma:
  assumes "cola_ok m (p # xs)" "principal m = Publica" "k < length (hilos m)" "hilos m ! k = Espera"
  shows "\<exists>m'. corre inotFd server m [Interno, Interno, Toma p] m'"
proof -
  note st = publica [where inotFd = inotFd and server = server, OF assms(2)]
  have "cola_ok (m\<lparr>pedidoEnCola := pedidoEnCola m + 1, principal := Elige\<rparr>) (p # xs)" using paso_cola [OF st assms(1)] by auto
  from despierta_y_toma [OF this, of k] assms(3,4) corre_antes [OF st] show ?thesis by fastforce
qed

text \<open>
  C27: progress. When a request waits and a thread is not busy, steps of the server alone lead to a thread taking the request that
  has waited longest.
\<close>

theorem rfs_progresa:
  assumes "corre inotFd server (rfs_inicial inotFd server d n) ls m" "inotFd \<noteq> server"
    and "recibidos ls = tomados ls @ p # xs" "k < length (hilos m)" "\<forall>q. hilos m ! k \<noteq> Atiende q"
  shows "\<exists>ls' m'. corre inotFd server m (ls' @ [Toma p]) m' \<and> set ls' \<subseteq> {Interno}"
proof -
  from corre_inv [OF assms(1,2)] assms(3) have I: "cola_ok m (p # xs)" by auto
  have r: "\<exists>ls' m'. corre inotFd server m (ls' @ [Toma p]) m' \<and> set ls' \<subseteq> {Interno}"
    if "\<exists>m'. corre inotFd server m (replicate j Interno @ [Toma p]) m'" for j
    using that by (metis set_replicate_conv_if empty_subsetI subset_refl)
  show ?thesis
  proof (cases "\<exists>j < length (hilos m). hilos m ! j = Despierto")
    case True
    then show ?thesis using toma_ya [OF I] r [of 0] by auto
  next
    case False
    then have "despiertos (hilos m) = 0" unfolding despiertos_def by (auto simp: filter_empty_conv in_set_conv_nth)
    moreover have h: "hilos m ! k = Espera" using False assms(4,5) by (cases "hilos m ! k") auto
    ultimately consider "0 < pedidoEnCola m" | "principal m = Publica"
      using I by (cases "principal m") (auto simp: cola_ok_def)
    then show ?thesis
    proof cases
      case 1
      then show ?thesis using despierta_y_toma [OF I _ assms(4) h] r [of 1] by simp
    next
      case 2
      then show ?thesis using publica_y_toma [OF I _ assms(4) h] r [of 2] by (simp add: numeral_2_eq_2)
    qed
  qed
qed

theorem rfs_progresa_witness:
  "\<exists>m ls' m'. corre 3 4 (rfs_inicial 3 4 0 1) [Turno, Recibe pedido_ej] m \<and> corre 3 4 m (ls' @ [Toma pedido_ej]) m'"
proof -
  obtain m where m: "corre 3 4 (rfs_inicial 3 4 0 1) [Turno, Recibe pedido_ej] m" "hilos m = [Espera]" by (rule corre_ej)
  from rfs_progresa [OF m(1), of pedido_ej "[]" 0] m(2) have "\<exists>ls' m'. corre 3 4 m (ls' @ [Toma pedido_ej]) m' \<and> set ls' \<subseteq> {Interno}" by simp
  then show ?thesis using m(1) by blast
qed

text \<open>
  C28: nothing keeps a client while one of its requests is served. When the connection closes, the next turn of the main thread for it
  closes the descriptor and frees the struct of the client that a thread is serving; the thread keeps the request, and the handler
  reads the freed struct.
\<close>

theorem cliente_destruido:
  assumes "corre inotFd server (rfs_inicial inotFd server d n) ls m" "inotFd \<noteq> server" "principal m = Elige"
    and "k < length (hilos m)" "hilos m ! k = Atiende p" "cl_mem (clientes (escucha m)) (p_client p) = Some fd"
    and "p_tipoPaquete p \<in> set con_manejador"
  shows "\<exists>m'. paso_rfs inotFd server m Turno m' \<and> hilos m' ! k = Atiende p
    \<and> cl_mem (clientes (escucha m')) (p_client p) = None \<and> fd \<in> abiertos (clientes (escucha m)) \<and> fd \<notin> abiertos (clientes (escucha m'))
    \<and> sockets_send (clientes (escucha m')) (p_client p) rta = None \<and> \<not> puede_contestar (clientes (escucha m')) p"
proof -
  let ?E = "escucha m" and ?E' = "sin_cliente (p_client p) fd (escucha m)"
  from corre_inv [OF assms(1,2)] have I: "escucha_ok inotFd server ?E" by blast
  have r: "fd \<in> ran (cl_mem (clientes ?E))" using assms(6) by (rule ranI)
  then have d: "fd \<in> master ?E" "fd \<noteq> inotFd" "fd \<noteq> server" "fd \<in> abiertos (clientes ?E)" using I by (auto simp: escucha_ok_def)
  have e: "p_client p \<in> set (listaClientes ?E)" "set (listaClientes ?E) = dom (cl_mem (clientes ?E))" "distinct (listaClientes ?E)"
      "inj_on (cl_mem (clientes ?E)) (dom (cl_mem (clientes ?E)))"
    using I assms(6) by (auto simp: escucha_ok_def)
  have "finite (master ?E)" using I e(2) by (metis escucha_ok_def finite_Un finite_ran finite_set finite.intros)
  then obtain nuevo where nuevo: "nuevo \<notin> master ?E" using ex_new_if_finite [OF infinite_UNIV_int] by blast
  let ?en = "\<lparr>en_cfg = None, en_accept = nuevo, en_hs = ([], Fallo), en_cab = ([0, 0, 0], Llegan []), en_pay = ([], Fallo)\<rparr>"
  have ok: "entrada_ok ?E ?en" using nuevo by (simp add: entrada_ok_def sockets_recvHeaderNipc_def recv_en_def HEADERSIZE_def dec16_def)
  have "atender_fd inotFd server ?en fd ?E = Some (?E', None)"
    using d clientes_fd(1) [OF e(1,2,4) assms(6) e(3)] desconectar_ok(1) [OF I assms(6)]
    by (simp add: atender_fd_def recibir_def sockets_recvHeaderNipc_def recv_en_def)
  from turno [OF assms(3) d(1) ok this] show ?thesis
    using assms(5,7) d(4) by (intro exI [of _ "m\<lparr>escucha := ?E'\<rparr>"]) (auto simp: sin_cliente_def sockets_send_def puede_contestar_def)
qed

theorem cliente_destruido_witness:
  "\<exists>ls m m'. corre 3 4 (rfs_inicial 3 4 0 1) ls m \<and> paso_rfs 3 4 m Turno m' \<and> hilos m' ! 0 = Atiende pedido_ej
    \<and> cl_mem (clientes (escucha m)) 1 = Some 5 \<and> cl_mem (clientes (escucha m')) 1 = None \<and> 5 \<notin> abiertos (clientes (escucha m'))"
proof -
  obtain m where m: "corre 3 4 (rfs_inicial 3 4 0 1) [Turno, Recibe pedido_ej] m" "es_cola (colaPedidos m) [pedido_ej]"
    "hilos m = [Espera]" "principal m = Publica" "pedidoEnCola m = 0" "escucha m = escucha_ej" by (rule corre_ej)
  let ?m1 = "m\<lparr>pedidoEnCola := 1, principal := Elige\<rparr>" and ?m2 = "m\<lparr>principal := Elige, pedidoEnCola := 0, hilos := [Despierto]\<rparr>"
  have 1: "paso_rfs 3 4 m Interno ?m1" using publica [OF m(4), of 3 4] m(5) by simp
  have 2: "paso_rfs 3 4 ?m1 Interno ?m2" using despierta [of 0 ?m1 3 4] m(3) by simp
  obtain q where q: "queue_pop (colaPedidos m) = Some (q, Some pedido_ej)" using cola.pop_Cons [OF m(2)] by blast
  let ?m3 = "?m2\<lparr>colaPedidos := q, hilos := [Atiende pedido_ej]\<rparr>"
  have 3: "paso_rfs 3 4 ?m2 (Toma pedido_ej) ?m3" using toma [of 0 ?m2 q pedido_ej 3 4] q by simp
  note c = corre_paso [OF corre_paso [OF corre_paso [OF m(1) 1] 2] 3]
  have "cl_mem (clientes (escucha ?m3)) (p_client pedido_ej) = Some 5" using m(6) by (simp add: escucha_ej_def pedido_ej_def)
  from cliente_destruido [OF c _ _ _ _ this, of 0] obtain m' where "paso_rfs 3 4 ?m3 Turno m'" "hilos m' ! 0 = Atiende pedido_ej"
    "cl_mem (clientes (escucha m')) 1 = None" "5 \<notin> abiertos (clientes (escucha m'))"
    by (auto simp: pedido_ej_def con_manejador_def)
  with c show ?thesis by (intro exI conjI) (auto simp: m(6) escucha_ej_def)
qed

end
