(* ===== verification/Creacion.thy ===== *)
theory Creacion
  imports Atencion
begin

text \<open>
  The creation of a file, \<^verbatim>\<open>procesarCreate\<close> of \<^verbatim>\<open>rfs/Rfs.c\<close>, from the request to the image: an inode is allocated and
  initialised, its entry inserted in the root directory, superblock and descriptor table written back. Each of these
  writes a zone of the image of its own; the proofs rest on that: what a step does not write, it leaves.
\<close>

section \<open>Zones of the image\<close>

definition intacto :: "disk \<Rightarrow> disk \<Rightarrow> nat \<Rightarrow> nat \<Rightarrow> bool" where
  "intacto d d' p n \<longleftrightarrow> (\<forall>j. p \<le> j \<and> j < p + n \<longrightarrow> dk_byte d' j = dk_byte d j)"

lemma intacto_put: "disjuntos p n q (length bs) \<Longrightarrow> p + n \<le> dk_len d \<Longrightarrow> intacto d (put_bytes d q bs) p n"
  by (auto simp: intacto_def disjuntos_def dk_byte_put_outside)

lemma intacto_solo: "solo_bloque d d' q m \<Longrightarrow> disjuntos p n q m \<Longrightarrow> p + n \<le> dk_len d \<Longrightarrow> intacto d d' p n"
  by (auto simp: intacto_def disjuntos_def solo_bloque_def)

lemma intacto_trans: "intacto d d1 p n \<Longrightarrow> intacto d1 d2 p n \<Longrightarrow> intacto d d2 p n"
  by (simp add: intacto_def)

lemma intacto_dentro: "intacto d d' p n \<Longrightarrow> p \<le> q \<Longrightarrow> q + m \<le> p + n \<Longrightarrow> intacto d d' q m"
  by (auto simp: intacto_def)

lemma intacto_bytes: "intacto d d' p n \<Longrightarrow> bytes_at d' p n = bytes_at d p n"
  by (rule bytes_at_cong) (simp add: intacto_def)

lemma disjuntos_sym: "disjuntos p n q m \<longleftrightarrow> disjuntos q m p n"
  by (auto simp: disjuntos_def)

lemma disjuntos_dentro: "disjuntos p n q m \<Longrightarrow> p \<le> p' \<Longrightarrow> p' + n' \<le> p + n \<Longrightarrow> disjuntos p' n' q m"
  by (auto simp: disjuntos_def)

section \<open>What a step leaves\<close>

lemma fs_ok_intacto:
  assumes "fs_ok F" "dk_len d = dk_len (f_ext2fs F)"
    and "\<And>g. g < nGr F \<Longrightarrow> intacto (f_ext2fs F) d (addrB F g) (tamB F g) \<and> intacto (f_ext2fs F) d (addrI F g) (tamI F g)"
  shows "fs_ok (F\<lparr>f_ext2fs := d\<rparr>)"
    and "\<And>n. inodo_valido F n \<Longrightarrow> inodo_ocupado (F\<lparr>f_ext2fs := d\<rparr>) n = inodo_ocupado F n"
    and "\<And>b. bloque_valido F b \<Longrightarrow> bloque_ocupado (F\<lparr>f_ext2fs := d\<rparr>) b = bloque_ocupado F b"
proof -
  have v: "addrB (F\<lparr>f_ext2fs := d\<rparr>) = addrB F" "tamB (F\<lparr>f_ext2fs := d\<rparr>) = tamB F" "cntB (F\<lparr>f_ext2fs := d\<rparr>) = cntB F"
    "addrI (F\<lparr>f_ext2fs := d\<rparr>) = addrI F" "tamI (F\<lparr>f_ext2fs := d\<rparr>) = tamI F" "cntI (F\<lparr>f_ext2fs := d\<rparr>) = cntI F"
    by (simp_all add: fun_eq_iff addrB_def tamB_def cntB_def addrI_def tamI_def cntI_def)
  have b: "bits_en d (addrB F g) (tamB F g) = bits_en (f_ext2fs F) (addrB F g) (tamB F g)"
    "bits_en d (addrI F g) (tamI F g) = bits_en (f_ext2fs F) (addrI F g) (tamI F g)" if "g < nGr F" for g
    using assms(3) [OF that] by (simp_all add: bits_en_def intacto_bytes [of "f_ext2fs F"])
  then show "fs_ok (F\<lparr>f_ext2fs := d\<rparr>)" using assms(1,2) unfolding fs_ok_def mapas_ok_def geom_ok_def v by simp
  show "inodo_ocupado (F\<lparr>f_ext2fs := d\<rparr>) n = inodo_ocupado F n" if "inodo_valido F n" for n
    using that b by (simp add: inodo_ocupado_def inodo_valido_def mapaI_def v)
  show "bloque_ocupado (F\<lparr>f_ext2fs := d\<rparr>) m = bloque_ocupado F m" if "bloque_valido F m" for m
    using that b by (simp add: bloque_ocupado_def bloque_valido_def mapaB_def v)
qed

lemma pos_inodo_cong:
  assumes "map bg_inode_table t' = map bg_inode_table t"
  shows "pos_inodo ip t' n bs = pos_inodo ip t n bs"
proof -
  have l: "length t' = length t" using assms by (rule map_eq_imp_length_eq)
  have "bg_inode_table (t' ! g) = bg_inode_table (t ! g)" if "g < length t" for g
    using assms that l by (metis nth_map)
  then show ?thesis using l by (simp add: pos_inodo_def Let_def)
qed

lemma leerInodo_intacto:
  assumes "Inode_leerInodo d ip t n bs = Some inodo" "map bg_inode_table t' = map bg_inode_table t" "dk_len d' = dk_len d"
    and "\<And>q. pos_inodo ip t n bs = Some q \<Longrightarrow> intacto d d' (unat q) 128"
  shows "Inode_leerInodo d' ip t' n bs = Some inodo"
proof -
  obtain q where q: "pos_inodo ip t n bs = Some q" using assms(1) by (auto simp: Inode_leerInodo_def split: bind_splits)
  then have "disk_read d' q 128 = disk_read d q 128" using intacto_bytes [OF assms(4)] assms(3) by (simp add: disk_read_def)
  then show ?thesis using assms(1) q by (simp add: Inode_leerInodo_def pos_inodo_cong [OF assms(2)])
qed

lemma directorio_intacto:
  assumes D: "directorio F n inodo ess" and f: "block_size (f_sb F') = block_size (f_sb F)"
    "s_inodes_per_group (f_sb F') = s_inodes_per_group (f_sb F)" "map bg_inode_table (f_bgdt F') = map bg_inode_table (f_bgdt F)"
    "dk_len (f_ext2fs F') = dk_len (f_ext2fs F)"
    and i: "\<And>q. pos_inodo (s_inodes_per_group (f_sb F)) (f_bgdt F) n (block_size (f_sb F)) = Some q \<Longrightarrow>
        intacto (f_ext2fs F) (f_ext2fs F') (unat q) 128"
    and b: "\<And>i. i < length ess \<Longrightarrow> intacto (f_ext2fs F) (f_ext2fs F') (base (block_size (f_sb F)) (i_block inodo ! i)) (unat (block_size (f_sb F)))"
  shows "directorio F' n inodo ess"
proof -
  have dir: "dir_en (f_ext2fs F) (block_size (f_sb F)) inodo ess" using D unfolding directorio_def by blast
  have "entradas_en (f_ext2fs F') (base (block_size (f_sb F)) (i_block inodo ! i)) (unat (block_size (f_sb F))) 0 (ess ! i)"
    if "i < length ess" for i
    by (rule entradas_frame [OF _ dir_enD(2) [OF dir that]]) (use b [OF that] in \<open>simp add: intacto_def\<close>)
  then have "dir_en (f_ext2fs F') (block_size (f_sb F)) inodo ess"
    using dir f(4) unfolding dir_en_def bloque_en_def by simp
  moreover have "Inode_leerInodo (f_ext2fs F') (s_inodes_per_group (f_sb F)) (f_bgdt F') n (block_size (f_sb F)) = Some inodo"
    by (rule leerInodo_intacto [OF _ f(3,4)]) (use D i in \<open>auto simp: directorio_def\<close>)
  ultimately show ?thesis using D unfolding directorio_def f(1,2) pos_inodo_cong [OF f(3)] by blast
qed

section \<open>The plan of the image\<close>

text \<open>
  A zone apart from the bitmaps and from the blocks of the directory; where the descriptor table is; the plan: inode tables, superblock,
  descriptor table, bitmaps and the blocks of the directory do not overlap.
\<close>

definition zona :: "fs \<Rightarrow> Inode \<Rightarrow> Dir list list \<Rightarrow> nat \<Rightarrow> nat \<Rightarrow> bool" where
  "zona F inodo ess p k \<longleftrightarrow> p + k \<le> dk_len (f_ext2fs F)
     \<and> (\<forall>h < nGr F. disjuntos p k (addrB F h) (tamB F h) \<and> disjuntos p k (addrI F h) (tamI F h))
     \<and> (\<forall>i < length ess. disjuntos p k (base (block_size (f_sb F)) (i_block inodo ! i)) (unat (block_size (f_sb F))))"

abbreviation pos_bgdt :: "fs \<Rightarrow> nat" where
  "pos_bgdt F \<equiv> unat (block_size (f_sb F) * (s_first_data_block (f_sb F) + 1))"

abbreviation tabla_en :: "fs \<Rightarrow> nat \<Rightarrow> nat" where
  "tabla_en F g \<equiv> base_tabla (f_bgdt F) (block_size (f_sb F)) g"

definition plano_ok :: "fs \<Rightarrow> Inode \<Rightarrow> Dir list list \<Rightarrow> bool" where
  "plano_ok F inodo ess \<longleftrightarrow> tabla_ok (s_inodes_per_group (f_sb F)) (f_bgdt F) (block_size (f_sb F))
     \<and> (\<forall>g < nGr F. zona F inodo ess (tabla_en F g) (ipg F * 128))
     \<and> zona F inodo ess 1024 84 \<and> zona F inodo ess (pos_bgdt F) (32 * nGr F)
     \<and> (\<forall>g < nGr F. disjuntos 1024 84 (tabla_en F g) (ipg F * 128) \<and> disjuntos (pos_bgdt F) (32 * nGr F) (tabla_en F g) (ipg F * 128))
     \<and> (\<forall>h < nGr F. \<forall>i < length ess.
          disjuntos (base (block_size (f_sb F)) (i_block inodo ! i)) (unat (block_size (f_sb F))) (addrB F h) (tamB F h)
          \<and> disjuntos (base (block_size (f_sb F)) (i_block inodo ! i)) (unat (block_size (f_sb F))) (addrI F h) (tamI F h))
     \<and> disjuntos 1024 84 (pos_bgdt F) (32 * nGr F) \<and> pos_bgdt F < 2 ^ 31 \<and> nGr F < 2 ^ 27"

text \<open>The changes of the allocation keep the plan.\<close>

lemma plano_igual:
  assumes "plano_ok F inodo ess" "dk_len (f_ext2fs F') = dk_len (f_ext2fs F)" "nGr F' = nGr F"
    and "addrB F' = addrB F" "tamB F' = tamB F" "addrI F' = addrI F" "tamI F' = tamI F"
    and "block_size (f_sb F') = block_size (f_sb F)" "s_inodes_per_group (f_sb F') = s_inodes_per_group (f_sb F)"
      "s_first_data_block (f_sb F') = s_first_data_block (f_sb F)"
    and t: "map bg_inode_table (f_bgdt F') = map bg_inode_table (f_bgdt F)"
  shows "plano_ok F' inodo ess"
proof -
  have b: "bg_inode_table (f_bgdt F' ! g) = bg_inode_table (f_bgdt F ! g)" if "g < nGr F" for g
    using t that assms(3) by (metis nth_map)
  then have "tabla_ok (s_inodes_per_group (f_sb F)) (f_bgdt F') (block_size (f_sb F))"
    using assms(1,3) unfolding plano_ok_def tabla_ok_def by auto
  then show ?thesis using assms(1) b unfolding plano_ok_def zona_def assms(2-10) by auto
qed

lemma plano_zona:
  assumes "plano_ok F inodo ess" "1 \<le> unat n" "(unat n - 1) div ipg F < nGr F"
    and "pos_inodo (s_inodes_per_group (f_sb F)) (f_bgdt F) n (block_size (f_sb F)) = Some q"
  shows "zona F inodo ess (unat q) 128" "tabla_en F ((unat n - 1) div ipg F) \<le> unat q"
    "unat q + 128 \<le> tabla_en F ((unat n - 1) div ipg F) + ipg F * 128" "unat q + 128 \<le> 2 ^ 31"
proof -
  let ?g = "(unat n - 1) div ipg F"
  have t: "tabla_ok (s_inodes_per_group (f_sb F)) (f_bgdt F) (block_size (f_sb F))" using assms(1) by (simp add: plano_ok_def)
  then have ip: "0 < ipg F" by (simp add: tabla_ok_def)
  have u: "unat q = tabla_en F ?g + (unat n - 1) mod ipg F * 128" "unat q + 128 \<le> 2 ^ 31"
    using pos_inodo_eq [OF t assms(2,3)] assms(4) by auto
  have "(unat n - 1) mod ipg F * 128 + 128 \<le> ipg F * 128" using mod_less_divisor [OF ip, of "unat n - 1"] by linarith
  then show in1: "tabla_en F ?g \<le> unat q" "unat q + 128 \<le> tabla_en F ?g + ipg F * 128" using u(1) by linarith+
  show "unat q + 128 \<le> 2 ^ 31" by (rule u(2))
  have z: "zona F inodo ess (tabla_en F ?g) (ipg F * 128)" using assms(1,3) by (simp add: plano_ok_def)
  then show "zona F inodo ess (unat q) 128" unfolding zona_def using in1 by (auto intro: disjuntos_dentro [OF _ in1])
qed

lemma map_tabla_update: "map bg_inode_table (t[g := (t ! g)\<lparr>bg_free_inodes_count := c\<rparr>]) = map bg_inode_table t"
  by (cases "g < length t") (simp_all add: map_update list_update_same_conv list_update_beyond)

lemma con_mapaI_plano:
  assumes ok: "fs_ok F" and P: "plano_ok F inodo ess" and D: "directorio F r inodo ess" and r: "inodo_valido F r"
    and g: "g < nGr F" "length bs = tamI F g"
  shows "directorio (con_mapaI F g bs c s) r inodo ess" "plano_ok (con_mapaI F g bs c s) inodo ess"
proof -
  let ?F = "con_mapaI F g bs c s"
  have l: "addrI F g + length bs \<le> dk_len (f_ext2fs F)" using mapas_okD(2) [OF fs_okD(3) [OF ok] g(1)] g(2) by simp
  have len: "dk_len (f_ext2fs ?F) = dk_len (f_ext2fs F)" using l by (simp add: con_mapaI_def)
  have sel: "block_size (f_sb ?F) = block_size (f_sb F)" "s_inodes_per_group (f_sb ?F) = s_inodes_per_group (f_sb F)"
    "s_first_data_block (f_sb ?F) = s_first_data_block (f_sb F)" "map bg_inode_table (f_bgdt ?F) = map bg_inode_table (f_bgdt F)"
    by (simp_all add: con_mapaI_def map_tabla_update)
  have n: "1 \<le> unat r" "(unat r - 1) div ipg F < nGr F" using r by (simp_all add: inodo_valido_def)
  show "plano_ok ?F inodo ess"
    by (rule plano_igual [OF P len]) (use con_mapaI_view [OF g(1)] sel in simp_all)
  show "directorio ?F r inodo ess"
  proof (rule directorio_intacto [OF D sel(1,2,4) len])
    fix q assume "pos_inodo (s_inodes_per_group (f_sb F)) (f_bgdt F) r (block_size (f_sb F)) = Some q"
    then have "zona F inodo ess (unat q) 128" by (rule plano_zona(1) [OF P n])
    then show "intacto (f_ext2fs F) (f_ext2fs ?F) (unat q) 128"
      using g by (auto simp: con_mapaI_def zona_def intro!: intacto_put)
  next
    fix i assume i: "i < length ess"
    have "bloque_en (f_ext2fs F) (i_block inodo ! i) (block_size (f_sb F))"
      by (rule dir_enD(1) [OF _ i]) (use D in \<open>simp add: directorio_def\<close>)
    then show "intacto (f_ext2fs F) (f_ext2fs ?F) (base (block_size (f_sb F)) (i_block inodo ! i)) (unat (block_size (f_sb F)))"
      using P g i by (auto simp: con_mapaI_def plano_ok_def bloque_en_def intro!: intacto_put)
  qed
qed

text \<open>A write to a zone apart from bitmaps and directory, and from the inode of the directory.\<close>

lemma escribe_zona:
  assumes ok: "fs_ok F" and P: "plano_ok F inodo ess" and D: "directorio F r inodo ess" and r: "inodo_valido F r"
    and z: "zona F inodo ess p (length bs)"
    and q: "\<And>q. pos_inodo (s_inodes_per_group (f_sb F)) (f_bgdt F) r (block_size (f_sb F)) = Some q \<Longrightarrow> disjuntos (unat q) 128 p (length bs)"
  shows "fs_ok (F\<lparr>f_ext2fs := put_bytes (f_ext2fs F) p bs\<rparr>)" "directorio (F\<lparr>f_ext2fs := put_bytes (f_ext2fs F) p bs\<rparr>) r inodo ess"
    "plano_ok (F\<lparr>f_ext2fs := put_bytes (f_ext2fs F) p bs\<rparr>) inodo ess"
    and "\<And>n. inodo_valido F n \<Longrightarrow> inodo_ocupado (F\<lparr>f_ext2fs := put_bytes (f_ext2fs F) p bs\<rparr>) n = inodo_ocupado F n"
    and "\<And>b. bloque_valido F b \<Longrightarrow> bloque_ocupado (F\<lparr>f_ext2fs := put_bytes (f_ext2fs F) p bs\<rparr>) b = bloque_ocupado F b"
proof -
  let ?F = "F\<lparr>f_ext2fs := put_bytes (f_ext2fs F) p bs\<rparr>"
  have len: "dk_len (put_bytes (f_ext2fs F) p bs) = dk_len (f_ext2fs F)" using z by (simp add: zona_def)
  have "intacto (f_ext2fs F) (put_bytes (f_ext2fs F) p bs) (addrB F g) (tamB F g)
      \<and> intacto (f_ext2fs F) (put_bytes (f_ext2fs F) p bs) (addrI F g) (tamI F g)" if g: "g < nGr F" for g
    using z g mapas_okD(2) [OF fs_okD(2) [OF ok] g] mapas_okD(2) [OF fs_okD(3) [OF ok] g]
    by (auto simp: zona_def disjuntos_sym [of p] intro!: intacto_put)
  note I = fs_ok_intacto [OF ok len this]
  show "fs_ok ?F" using I(1) .
  show "inodo_ocupado ?F n = inodo_ocupado F n" if "inodo_valido F n" for n using I(2) [OF _ that] .
  show "bloque_ocupado ?F b = bloque_ocupado F b" if "bloque_valido F b" for b using I(3) [OF _ that] .
  show "plano_ok ?F inodo ess"
    by (rule plano_igual [OF P]) (simp_all add: len fun_eq_iff addrB_def tamB_def addrI_def tamI_def)
  have n: "1 \<le> unat r" "(unat r - 1) div ipg F < nGr F" using r by (simp_all add: inodo_valido_def)
  show "directorio ?F r inodo ess"
  proof (rule directorio_intacto [OF D])
    fix q' assume q': "pos_inodo (s_inodes_per_group (f_sb F)) (f_bgdt F) r (block_size (f_sb F)) = Some q'"
    show "intacto (f_ext2fs F) (f_ext2fs ?F) (unat q') 128"
      using plano_zona(1) [OF P n q'] q [OF q'] by (auto simp: zona_def intro!: intacto_put)
  next
    fix i assume i: "i < length ess"
    have "bloque_en (f_ext2fs F) (i_block inodo ! i) (block_size (f_sb F))"
      by (rule dir_enD(1) [OF _ i]) (use D in \<open>simp add: directorio_def\<close>)
    then show "intacto (f_ext2fs F) (f_ext2fs ?F) (base (block_size (f_sb F)) (i_block inodo ! i)) (unat (block_size (f_sb F)))"
      using z i by (auto simp: zona_def bloque_en_def disjuntos_sym [of p] intro!: intacto_put)
  qed (simp_all add: len)
qed

section \<open>States of the creation\<close>

text \<open>
  \<open>estable\<close>: the image is consistent, its plan holds and \<open>r\<close> is a directory with the listing \<open>ess\<close>.
  \<open>mantiene\<close>: a step that changes neither the memory of superblock and descriptors, nor the inodes, nor which of them are in use.
\<close>

definition estable :: "fs \<Rightarrow> u32 \<Rightarrow> Inode \<Rightarrow> Dir list list \<Rightarrow> bool" where
  "estable F r inodo ess \<longleftrightarrow> fs_ok F \<and> plano_ok F inodo ess \<and> directorio F r inodo ess \<and> inodo_valido F r"

abbreviation inodo_en :: "fs \<Rightarrow> u32 \<Rightarrow> Inode option" where
  "inodo_en F n \<equiv> Inode_leerInodo (f_ext2fs F) (s_inodes_per_group (f_sb F)) (f_bgdt F) n (block_size (f_sb F))"

definition mantiene :: "fs \<Rightarrow> fs \<Rightarrow> bool" where
  "mantiene F F' \<longleftrightarrow> f_sb F' = f_sb F \<and> f_bgdt F' = f_bgdt F \<and> (\<forall>m. inodo_valido F' m = inodo_valido F m)
     \<and> (\<forall>m. inodo_valido F m \<longrightarrow> inodo_ocupado F' m = inodo_ocupado F m)
     \<and> (\<forall>m x. inodo_valido F m \<longrightarrow> inodo_en F m = Some x \<longrightarrow> inodo_en F' m = Some x)
     \<and> (\<forall>b. bloque_valido F' b = bloque_valido F b) \<and> (\<forall>b. bloque_valido F b \<longrightarrow> bloque_ocupado F' b = bloque_ocupado F b)"

lemma mantieneD:
  assumes "mantiene F F'"
  shows "inodo_valido F m \<Longrightarrow> inodo_ocupado F' m = inodo_ocupado F m" "inodo_valido F m \<Longrightarrow> inodo_en F m = Some x \<Longrightarrow> inodo_en F' m = Some x"
    "bloque_valido F b \<Longrightarrow> bloque_ocupado F' b = bloque_ocupado F b"
  using assms unfolding mantiene_def by blast+

lemma mantiene_trans:
  assumes M: "mantiene F F1" "mantiene F1 F2"
  shows "mantiene F F2"
proof -
  have v: "f_sb F1 = f_sb F" "f_bgdt F1 = f_bgdt F" "\<forall>m. inodo_valido F1 m = inodo_valido F m" "\<forall>b. bloque_valido F1 b = bloque_valido F b"
    "f_sb F2 = f_sb F1" "f_bgdt F2 = f_bgdt F1" "\<forall>m. inodo_valido F2 m = inodo_valido F1 m" "\<forall>b. bloque_valido F2 b = bloque_valido F1 b"
    using M unfolding mantiene_def by blast+
  moreover have "inodo_en F2 m = Some x" if "inodo_valido F m" "inodo_en F m = Some x" for m x
    using mantieneD(2) [OF M(2) _ mantieneD(2) [OF M(1) that]] v(3) that(1) by blast
  ultimately show ?thesis using mantieneD(1,3) [OF M(1)] mantieneD(1,3) [OF M(2)] unfolding mantiene_def by simp
qed

lemma valido_disco: "inodo_valido (F\<lparr>f_ext2fs := d\<rparr>) m = inodo_valido F m" "bloque_valido (F\<lparr>f_ext2fs := d\<rparr>) b = bloque_valido F b"
  by (simp_all add: inodo_valido_def tamI_def bloque_valido_def tamB_def)

lemma estableD:
  assumes "estable F r inodo ess"
  shows "fs_ok F" "plano_ok F inodo ess" "directorio F r inodo ess" "inodo_valido F r"
  using assms by (simp_all add: estable_def)

text \<open>The zone of a valid inode.\<close>

lemma zona_inodo:
  assumes "plano_ok F inodo ess" "inodo_valido F n"
    and "pos_inodo (s_inodes_per_group (f_sb F)) (f_bgdt F) n (block_size (f_sb F)) = Some q"
  shows "zona F inodo ess (unat q) 128"
  by (rule plano_zona(1) [OF assms(1) _ _ assms(3)]) (use assms(2) in \<open>simp_all add: inodo_valido_def\<close>)

section \<open>Allocating\<close>

text \<open>Writing an inode other than the one of the directory.\<close>

lemma escribir_inodo_bien:
  assumes E: "estable F r inodo ess" and n: "inodo_valido F n" "n \<noteq> r" and x: "inode_ok x"
  obtains d where "Inode_escribirInodo (f_ext2fs F) (s_inodes_per_group (f_sb F)) (f_bgdt F) n (block_size (f_sb F)) x = Some d"
    "estable (F\<lparr>f_ext2fs := d\<rparr>) r inodo ess" "inodo_en (F\<lparr>f_ext2fs := d\<rparr>) n = Some x"
    "\<forall>m. inodo_valido F m \<longrightarrow> inodo_ocupado (F\<lparr>f_ext2fs := d\<rparr>) m = inodo_ocupado F m"
    "\<forall>b. bloque_valido F b \<longrightarrow> bloque_ocupado (F\<lparr>f_ext2fs := d\<rparr>) b = bloque_ocupado F b"
    "\<forall>m y. inodo_valido F m \<longrightarrow> m \<noteq> n \<longrightarrow> inodo_en F m = Some y \<longrightarrow> inodo_en (F\<lparr>f_ext2fs := d\<rparr>) m = Some y"
proof -
  let ?bs = "block_size (f_sb F)" and ?ip = "s_inodes_per_group (f_sb F)"
  note P = estableD(2) [OF E]
  have t: "tabla_ok ?ip (f_bgdt F) ?bs" using P by (simp add: plano_ok_def)
  have g: "1 \<le> unat m" "(unat m - 1) div ipg F < nGr F" if "inodo_valido F m" for m using that by (simp_all add: inodo_valido_def)
  obtain q where q: "pos_inodo ?ip (f_bgdt F) n ?bs = Some q" "unat q + 128 \<le> 2 ^ 31" using pos_inodo_eq [OF t g [OF n(1)]] by auto
  have z: "zona F inodo ess (unat q) 128" by (rule zona_inodo [OF P n(1) q(1)])
  have lx: "length (enc_Inode x) = 128" by (rule inc.enc_width [OF x])
  let ?d = "put_bytes (f_ext2fs F) (unat q) (enc_Inode x)"
  have dj: "disjuntos (unat q') 128 (unat q) (length (enc_Inode x))"
    if "inodo_valido F m" "m \<noteq> n" "pos_inodo ?ip (f_bgdt F) m ?bs = Some q'" for m q'
    using pos_inodo_disj [OF t g(1) [OF n(1)] g(2) [OF n(1)] g(1) [OF that(1)] g(2) [OF that(1)] _ q(1) that(3)] that(2) lx
    by (auto simp: disjuntos_def)
  have W: "estable (F\<lparr>f_ext2fs := ?d\<rparr>) r inodo ess" "\<And>m. inodo_valido F m \<Longrightarrow> inodo_ocupado (F\<lparr>f_ext2fs := ?d\<rparr>) m = inodo_ocupado F m"
    "\<And>b. bloque_valido F b \<Longrightarrow> bloque_ocupado (F\<lparr>f_ext2fs := ?d\<rparr>) b = bloque_ocupado F b"
    using escribe_zona [OF estableD(1) [OF E] P estableD(3,4) [OF E], of "unat q" "enc_Inode x"] z lx dj [OF estableD(4) [OF E]] n(2) estableD(4) [OF E]
    by (simp_all add: estable_def valido_disco)
  have "inodo_en (F\<lparr>f_ext2fs := ?d\<rparr>) m = Some y" if m: "inodo_valido F m" "m \<noteq> n" "inodo_en F m = Some y" for m y
  proof -
    have "Inode_leerInodo ?d ?ip (f_bgdt F) m ?bs = Some y"
    proof (rule leerInodo_intacto [OF m(3) refl])
      show "dk_len ?d = dk_len (f_ext2fs F)" using z lx by (simp add: zona_def)
      fix q' assume q': "pos_inodo ?ip (f_bgdt F) m ?bs = Some q'"
      show "intacto (f_ext2fs F) ?d (unat q') 128" using zona_inodo [OF P m(1) q'] dj [OF m(1,2) q'] by (auto simp: zona_def intro!: intacto_put)
    qed
    then show ?thesis by simp
  qed
  moreover have "Inode_escribirInodo (f_ext2fs F) ?ip (f_bgdt F) n ?bs x = Some ?d"
    using q by (simp add: Inode_escribirInodo_def disk_write_def)
  moreover have "inodo_en (F\<lparr>f_ext2fs := ?d\<rparr>) n = Some x"
    using q z lx inc.dec_enc [OF x] by (simp add: Inode_leerInodo_def disk_read_def zona_def)
  ultimately show thesis using that W by blast
qed

lemma leer_valido:
  assumes "plano_ok F inodo ess" "inodo_valido F n"
  obtains x where "inodo_en F n = Some x" "inode_ok x"
proof -
  have t: "tabla_ok (s_inodes_per_group (f_sb F)) (f_bgdt F) (block_size (f_sb F))" using assms(1) by (simp add: plano_ok_def)
  obtain q where q: "pos_inodo (s_inodes_per_group (f_sb F)) (f_bgdt F) n (block_size (f_sb F)) = Some q" "unat q + 128 \<le> 2 ^ 31"
    using pos_inodo_eq [OF t] assms(2) by (auto simp: inodo_valido_def)
  then have "inodo_en F n = Some (dec_Inode (bytes_at (f_ext2fs F) (unat q) 128))"
    using zona_inodo [OF assms q(1)] by (simp add: Inode_leerInodo_def disk_read_def zona_def)
  then show thesis using that inc.dec_ok by blast
qed

lemma numero_no_menos_uno:
  assumes "fs_ok F" "inodo_valido F n"
  shows "n \<noteq> - 1"
proof
  assume "n = - 1"
  moreover have "0 < ipg F" "nGr F * ipg F < 2 ^ 31" using fs_okD(1) [OF assms(1)] by (simp_all add: geom_ok_def)
  moreover have "unat n - 1 < nGr F * ipg F" using assms(2) \<open>0 < ipg F\<close> by (simp add: inodo_valido_def div_less_iff_less_mult)
  ultimately show False by (simp add: unat_m1_u32)
qed

lemma asignar_bien:
  assumes E: "estable F r inodo ess" and lib: "s_free_inodes_count (f_sb F) \<noteq> 0" and oc: "inodo_ocupado F r"
  obtains n F' x where "Inode_asignarInodo F mode links = Some (n, F')" "inodo_valido F n" "\<not> inodo_ocupado F n" "n \<noteq> - 1"
    "estable F' r inodo ess" "\<forall>m. inodo_valido F' m = inodo_valido F m"
    "\<forall>m. inodo_valido F m \<longrightarrow> inodo_ocupado F' m = (m = n \<or> inodo_ocupado F m)"
    "inodo_en F' n = Some x" "i_mode x = mode" "i_links_count x = links"
proof -
  let ?g = "\<lambda>n. (unat n - 1) div ipg F"
  have "0 < unat (s_free_inodes_count (f_sb F))" using lib by (simp add: unat_gt_0)
  from ino.pedir_ok [OF estableD(1) [OF E] this] obtain n bs F1 where
    p: "Inode_pedirInodoLibre F = Some (n, F1)" "inodo_valido F n" "\<not> inodo_ocupado F n" "fs_ok F1" "\<forall>m. inodo_valido F1 m = inodo_valido F m"
      "\<forall>m. inodo_valido F m \<longrightarrow> inodo_ocupado F1 m = (m = n \<or> inodo_ocupado F m)"
    and c: "F1 = con_mapaI F (?g n) bs (bg_free_inodes_count (f_bgdt F ! ?g n) - 1) (s_free_inodes_count (f_sb F) - 1)"
      "length bs = tamI F (?g n)" by blast
  have g: "?g n < nGr F" using p(2) by (simp add: inodo_valido_def)
  have D1: "directorio F1 r inodo ess" and P1: "plano_ok F1 inodo ess"
    unfolding c(1) by (rule con_mapaI_plano [OF estableD(1-4) [OF E] g c(2)])+
  have E1: "estable F1 r inodo ess" using p(4,5) D1 P1 estableD(4) [OF E] by (simp add: estable_def)
  obtain x where x: "inodo_en F1 n = Some x" "inode_ok x" using leer_valido [OF P1] p(2,5) by blast
  have nn: "n \<noteq> - 1" "n \<noteq> r" using numero_no_menos_uno [OF estableD(1) [OF E] p(2)] p(3) oc by auto
  let ?x = "x\<lparr>i_links_count := links, i_mode := mode\<rparr>"
  have "inode_ok ?x" using x(2) by (simp add: inode_ok_def)
  then obtain d where d: "Inode_escribirInodo (f_ext2fs F1) (s_inodes_per_group (f_sb F1)) (f_bgdt F1) n (block_size (f_sb F1)) ?x = Some d"
    "estable (F1\<lparr>f_ext2fs := d\<rparr>) r inodo ess" "inodo_en (F1\<lparr>f_ext2fs := d\<rparr>) n = Some ?x"
    "\<forall>m. inodo_valido F1 m \<longrightarrow> inodo_ocupado (F1\<lparr>f_ext2fs := d\<rparr>) m = inodo_ocupado F1 m"
    using escribir_inodo_bien [OF E1 _ nn(2)] p(2,5) by metis
  have "block_size (f_sb F1) = block_size (f_sb F)" by (simp add: c(1) con_mapaI_def)
  then have "Inode_asignarInodo F mode links = Some (n, F1\<lparr>f_ext2fs := d\<rparr>)"
    using p(1) nn(1) x(1) d(1) by (simp add: Inode_asignarInodo_def)
  then show thesis using that [of n "F1\<lparr>f_ext2fs := d\<rparr>" ?x] p(2,3,5,6) nn(1) d(2-4) by (simp add: valido_disco)
qed

section \<open>Writing superblock and descriptors back\<close>

text \<open>A write apart from bitmaps, directory and inode tables.\<close>

lemma guarda_zona:
  assumes E: "estable F r inodo ess" and z: "zona F inodo ess p (length bs)"
    and t: "\<forall>g < nGr F. disjuntos p (length bs) (tabla_en F g) (ipg F * 128)"
    and F': "F' = F\<lparr>f_ext2fs := put_bytes (f_ext2fs F) p bs\<rparr>"
  shows "estable F' r inodo ess \<and> mantiene F F'"
proof -
  note P = estableD(2) [OF E]
  have q: "disjuntos (unat q) 128 p (length bs)"
    if "inodo_valido F n" "pos_inodo (s_inodes_per_group (f_sb F)) (f_bgdt F) n (block_size (f_sb F)) = Some q" for n q
  proof -
    have n: "1 \<le> unat n" "(unat n - 1) div ipg F < nGr F" using that(1) by (simp_all add: inodo_valido_def)
    show ?thesis
      by (rule disjuntos_dentro [OF _ plano_zona(2,3) [OF P n that(2)]]) (use t n(2) in \<open>simp add: disjuntos_sym [of p]\<close>)
  qed
  have e: "fs_ok F'" "directorio F' r inodo ess" "plano_ok F' inodo ess"
    "\<And>n. inodo_valido F n \<Longrightarrow> inodo_ocupado F' n = inodo_ocupado F n"
    "\<And>b. bloque_valido F b \<Longrightarrow> bloque_ocupado F' b = bloque_ocupado F b"
    unfolding F' using escribe_zona [OF estableD(1) [OF E] P estableD(3,4) [OF E] z q [OF estableD(4) [OF E]]] by blast+
  have "inodo_en F' n = Some x" if n: "inodo_valido F n" "inodo_en F n = Some x" for n x
  proof -
    have "Inode_leerInodo (f_ext2fs F') (s_inodes_per_group (f_sb F)) (f_bgdt F) n (block_size (f_sb F)) = Some x"
    proof (rule leerInodo_intacto [OF n(2) refl])
      show "dk_len (f_ext2fs F') = dk_len (f_ext2fs F)" using z by (simp add: F' zona_def)
      fix q' assume q': "pos_inodo (s_inodes_per_group (f_sb F)) (f_bgdt F) n (block_size (f_sb F)) = Some q'"
      show "intacto (f_ext2fs F) (f_ext2fs F') (unat q') 128"
        using zona_inodo [OF P n(1) q'] q [OF n(1) q'] by (auto simp: F' zona_def intro!: intacto_put)
    qed
    then show ?thesis by (simp add: F')
  qed
  then show ?thesis using e estableD(4) [OF E] by (simp add: estable_def mantiene_def F' valido_disco)
qed

text \<open>\<open>persistido\<close>: superblock and descriptor table of the image are those of the memory.\<close>

definition persistido :: "fs \<Rightarrow> bool" where
  "persistido F \<longleftrightarrow> Superblock_leer (f_ext2fs F) = Some (f_sb F) \<and> Grupos_leerTabla (f_ext2fs F) (f_sb F) = Some (f_bgdt F)"

lemma persistir_bien:
  assumes E: "estable (sv_fs S) r inodo ess"
  obtains F' where "sv_guardar S = Some (S\<lparr>sv_fs := F'\<rparr>)" "estable F' r inodo ess" "mantiene (sv_fs S) F'" "persistido F'"
proof -
  let ?F = "sv_fs S"
  let ?sb = "enc_Superblock (f_sb ?F)" and ?t = "concat (map enc_Group_descriptor (f_bgdt ?F))"
  note P = estableD(2) [OF E]
  have lsb: "length ?sb = 84" by (simp add: sbc.enc_width)
  have lt: "length ?t = 32 * nGr ?F" using length_concat_fixed [of "f_bgdt ?F" enc_Group_descriptor 32] by (simp add: gdc.enc_width)
  define d1 where "d1 = put_bytes (f_ext2fs ?F) 1024 ?sb"
  define F1 where "F1 = ?F\<lparr>f_ext2fs := d1\<rparr>"
  define d2 where "d2 = put_bytes d1 (pos_bgdt ?F) ?t"
  have z: "zona ?F inodo ess 1024 (length ?sb)" "\<forall>g < nGr ?F. disjuntos 1024 (length ?sb) (tabla_en ?F g) (ipg ?F * 128)"
    "\<forall>g < nGr ?F. disjuntos (pos_bgdt ?F) (length ?t) (tabla_en ?F g) (ipg ?F * 128)" "disjuntos 1024 84 (pos_bgdt ?F) (length ?t)"
    using P unfolding plano_ok_def lsb lt by blast+
  have E1: "estable F1 r inodo ess" "mantiene ?F F1" using guarda_zona [OF E z(1,2)] by (simp_all add: F1_def d1_def)
  have sel: "f_sb F1 = f_sb ?F" "f_bgdt F1 = f_bgdt ?F" "f_ext2fs F1 = d1" by (simp_all add: F1_def)
  have P1: "zona F1 inodo ess (pos_bgdt F1) (length ?t)" "zona F1 inodo ess 1024 84"
    using estableD(2) [OF E1(1)] unfolding plano_ok_def sel lt by blast+
  have E2: "estable (F1\<lparr>f_ext2fs := d2\<rparr>) r inodo ess" "mantiene F1 (F1\<lparr>f_ext2fs := d2\<rparr>)"
    using guarda_zona [OF E1(1) P1(1)] z(3) by (simp_all add: sel d2_def)
  have c: "cantGrupos (f_sb ?F) = Some (word_of_nat (nGr ?F))" "0 < nGr ?F" "nGr ?F < 2 ^ 27" "pos_bgdt ?F < 2 ^ 31"
    using fs_okD(1) [OF estableD(1) [OF E]] P by (simp_all add: geom_ok_def plano_ok_def)
  have u: "unat (word_of_nat (nGr ?F) :: u32) = nGr ?F" using c(3) by (simp add: unat_of_nat_u32)
  have T: "Grupos_escribirTabla d1 (f_sb ?F) (f_bgdt ?F) = Some d2" "Grupos_leerTabla d2 (f_sb ?F) = Some (f_bgdt ?F)"
    using leer_escrita_Tabla [OF c(1), of "f_bgdt ?F" d1] c u unfolding d2_def by auto
  have sb: "Superblock_escribir (f_ext2fs ?F) (f_sb ?F) = Some d1" by (simp add: Superblock_escribir_def disk_write_def d1_def)
  have "intacto d1 d2 1024 84" unfolding d2_def by (rule intacto_put [OF z(4)]) (use P1(2) in \<open>simp add: zona_def sel\<close>)
  moreover have "bytes_at d1 1024 84 = ?sb" unfolding d1_def using bytes_at_put_same [of "f_ext2fs ?F" 1024 ?sb] by (simp add: lsb)
  ultimately have "bytes_at d2 1024 84 = ?sb" by (simp add: intacto_bytes)
  moreover have "1024 + 84 \<le> dk_len d2" using estableD(2) [OF E2(1)] by (simp add: plano_ok_def zona_def)
  ultimately have "Superblock_leer d2 = Some (f_sb ?F)" by (simp add: Superblock_leer_def disk_read_def sbc.dec_enc)
  with T(2) have "persistido (F1\<lparr>f_ext2fs := d2\<rparr>)" by (simp add: persistido_def sel)
  moreover have "sv_guardar S = Some (S\<lparr>sv_fs := F1\<lparr>f_ext2fs := d2\<rparr>\<rparr>)" using sb T(1) by (simp add: sv_guardar_def F1_def)
  ultimately show thesis using that E2 mantiene_trans [OF E1(2) E2(2)] by blast
qed

section \<open>The new entry\<close>

lemma directorio_largo: "directorio F n inodo ess \<Longrightarrow> directorio F' n inodo ess' \<Longrightarrow> block_size (f_sb F') = block_size (f_sb F) \<Longrightarrow>
    length ess' = length ess"
  by (auto simp: directorio_def dir_en_def word_of_nat_eq_iff take_bit_nat_eq_self)

text \<open>A change of the directory confined to one of its blocks.\<close>

lemma un_bloque_bien:
  assumes E: "estable F r inodo ess" and D': "directorio (F\<lparr>f_ext2fs := d\<rparr>) r inodo ess'"
    and i: "i < length ess" and s: "solo_bloque (f_ext2fs F) d (base (block_size (f_sb F)) (i_block inodo ! i)) (unat (block_size (f_sb F)))"
  shows "estable (F\<lparr>f_ext2fs := d\<rparr>) r inodo ess' \<and> mantiene F (F\<lparr>f_ext2fs := d\<rparr>)"
proof -
  let ?bs = "block_size (f_sb F)"
  note ok = estableD(1) [OF E] and P = estableD(2) [OF E] and D = estableD(3) [OF E]
  have len: "dk_len d = dk_len (f_ext2fs F)" using s by (simp add: solo_bloque_def)
  have l: "length ess' = length ess" by (rule directorio_largo [OF D D']) simp
  have "intacto (f_ext2fs F) d (addrB F g) (tamB F g) \<and> intacto (f_ext2fs F) d (addrI F g) (tamI F g)" if g: "g < nGr F" for g
    using P i g mapas_okD(2) [OF fs_okD(2) [OF ok] g] mapas_okD(2) [OF fs_okD(3) [OF ok] g]
    by (auto simp: plano_ok_def intro!: intacto_solo [OF s] intro: disjuntos_sym [THEN iffD1])
  note I = fs_ok_intacto [OF ok len this]
  have "plano_ok (F\<lparr>f_ext2fs := d\<rparr>) inodo ess"
    by (rule plano_igual [OF P]) (simp_all add: len fun_eq_iff addrB_def tamB_def addrI_def tamI_def)
  then have P': "plano_ok (F\<lparr>f_ext2fs := d\<rparr>) inodo ess'" unfolding plano_ok_def zona_def l .
  have "Inode_leerInodo d (s_inodes_per_group (f_sb F)) (f_bgdt F) n ?bs = Some x"
    if n: "inodo_valido F n" "inodo_en F n = Some x" for n x
  proof (rule leerInodo_intacto [OF n(2) refl len])
    fix q assume q: "pos_inodo (s_inodes_per_group (f_sb F)) (f_bgdt F) n ?bs = Some q"
    show "intacto (f_ext2fs F) d (unat q) 128"
      using zona_inodo [OF P n(1) q] i by (auto simp: zona_def intro!: intacto_solo [OF s])
  qed
  then have "mantiene F (F\<lparr>f_ext2fs := d\<rparr>)" using I(2,3) by (simp add: mantiene_def valido_disco)
  moreover have "estable (F\<lparr>f_ext2fs := d\<rparr>) r inodo ess'" using I(1) P' D' estableD(4) [OF E] by (simp add: estable_def valido_disco)
  ultimately show ?thesis by blast
qed

lemma insertar_bien:
  assumes E: "estable F r inodo ess" and nom: "nombre_ok nombre" "length nombre < 256" and nuevo: "nuevo \<noteq> 0"
    and hay: "\<exists>e \<in> set (concat ess). cabe (tam_entrada (word_of_nat (length nombre))) e"
  obtains F' ess' as cs where "Dir_crearNuevaEntrada F nombre r nuevo = Some (0, F')" "estable F' r inodo ess'" "mantiene F F'"
    "map par (listado ess) = as @ cs" "map par (listado ess') = as @ (nuevo, Some nombre) # cs"
proof -
  have hn: "hasta_nul nombre = nombre" using nom(1) by (simp add: nombre_ok_def hasta_nul_sin_nul)
  obtain d ess' as cs i where C: "Dir_crearNuevaEntrada F nombre r nuevo = Some (0, F\<lparr>f_ext2fs := d\<rparr>)"
    "directorio (F\<lparr>f_ext2fs := d\<rparr>) r inodo ess'" "i < length ess"
    "solo_bloque (f_ext2fs F) d (base (block_size (f_sb F)) (i_block inodo ! i)) (unat (block_size (f_sb F)))"
    "map par (listado ess) = as @ cs" "map par (listado ess') = as @ (nuevo, Some nombre) # cs"
    using Dir_crearNuevaEntrada_existe [OF estableD(3) [OF E], of nombre nuevo] nom hay nuevo unfolding hn by blast
  then show thesis using that un_bloque_bien [OF E C(2-4)] by blast
qed

section \<open>Creating a file\<close>

lemma hasta_nul_dos [simp]: "hasta_nul (hasta_nul s) = hasta_nul s"
  by (simp add: hasta_nul_def)

lemma separarPath_hasta: "separarPath (hasta_nul buffer) = separarPath buffer"
  by (simp add: separarPath_def)

lemma buscarPath_hasta: "Dir_buscarPath d (hasta_nul path) ip t bs = Dir_buscarPath d path ip t bs"
  by (simp add: Dir_buscarPath_def strtok_todos_def)

lemma buscarPath_barra: "Dir_buscarPath d [47] ip t bs = Some INODO_RAIZ"
  by (simp add: Dir_buscarPath_def strtok_todos_def hasta_nul_def)

lemma separar_bajo_raiz:
  assumes "hasta_nul buffer = 47 # nombre" "nombre_ok nombre" "length nombre < 256"
  shows "separarPath buffer = Some \<lparr>pathDir = [47], nombreArch = nombre\<rparr>"
  using separarPath_correcto [of "47 # nombre" "[]" nombre] assms separarPath_hasta [of buffer] by (simp add: nombre_ok_def)

lemma responder_bien:
  assumes "sv_guardar S = Some S'" "error \<noteq> 0"
  obtains envio where "responder_creacion S error n 0 TIPOCREATE = Some (S', envio)" "serializar_Result_Rta 0 TIPOCREATE = Some envio"
proof -
  obtain envio where "serializar_Result_Rta 0 TIPOCREATE = Some envio" "lee envio 0 7 = Some envio"
    by (simp add: serializar_Result_Rta_def serializar_Nipc_def lee_def)
  then show thesis using that assms by (simp add: responder_creacion_def)
qed

lemma procesarCreate_pasos:
  assumes "separarPath buffer = Some \<lparr>pathDir = [47], nombreArch = nombre\<rparr>"
    and "Inode_asignarInodo (sv_fs S) MODO_ARCHIVO 1 = Some (n, F1)" "n \<noteq> - 1"
    and "Dir_buscarPath (f_ext2fs F1) buffer (s_inodes_per_group (f_sb F1)) (f_bgdt F1) (block_size (f_sb F1)) = Some 0"
    and "Sincro_monitorLock INODO_RAIZ (sv_monitor S) TIPOWRITE = Some l"
    and "Dir_crearNuevaEntrada F1 nombre INODO_RAIZ n = Some (0, F2)"
  shows "procesarCreate S buffer =
    responder_creacion (S\<lparr>sv_fs := F2, sv_monitor := Sincro_monitorUnlock INODO_RAIZ l\<rparr>) INODO_RAIZ n 0 TIPOCREATE"
  using assms by (simp add: procesarCreate_def buscarPath_barra sv_lock_def sv_unlock_def INODO_RAIZ_def)

text \<open>
  What a creation leaves, from the server \<open>S\<close> to the server \<open>S'\<close>: the file has an inode that was free and is now marked, with the
  mode and the link count of a new file; no other inode changes its state; the path of the file resolves to it and every other path
  under the root resolves as before; bitmaps and counters still agree, superblock and descriptors on the image are those of the memory.
\<close>

definition archivo_creado :: "'c servidor \<Rightarrow> 'c servidor \<Rightarrow> u8 list \<Rightarrow> bool" where
  "archivo_creado S S' nombre \<longleftrightarrow> (\<exists>n x. inodo_valido (sv_fs S) n \<and> \<not> inodo_ocupado (sv_fs S) n
    \<and> (\<forall>m. inodo_valido (sv_fs S) m \<longrightarrow> inodo_ocupado (sv_fs S') m = (m = n \<or> inodo_ocupado (sv_fs S) m))
    \<and> sv_leerInodo S' n = Some x \<and> i_mode x = MODO_ARCHIVO \<and> i_links_count x = 1
    \<and> (\<forall>otro. nombre_ok otro \<longrightarrow> sv_buscarPath S' (47 # otro) = (if otro = nombre then Some n else sv_buscarPath S (47 # otro)))
    \<and> fs_ok (sv_fs S') \<and> persistido (sv_fs S'))"

lemma procesarCreate_bien:
  assumes E: "estable (sv_fs S) INODO_RAIZ inodo ess" "inodo_ocupado (sv_fs S) INODO_RAIZ"
    and lib: "s_free_inodes_count (f_sb (sv_fs S)) \<noteq> 0"
    and nom: "nombre_ok nombre" "length nombre < 256" and buffer: "hasta_nul buffer = 47 # nombre"
    and hay: "\<exists>e \<in> set (concat ess). cabe (tam_entrada (word_of_nat (length nombre))) e"
    and no: "sv_buscarPath S (47 # nombre) = Some 0" and mon: "Sincro_monitorLock INODO_RAIZ (sv_monitor S) TIPOWRITE = Some l"
  obtains S' envio where "procesarCreate S buffer = Some (S', envio)" "serializar_Result_Rta 0 TIPOCREATE = Some envio"
    "archivo_creado S S' nombre" "sv_monitor S' = Sincro_monitorUnlock INODO_RAIZ l"
proof -
  obtain n F1 x where A: "Inode_asignarInodo (sv_fs S) MODO_ARCHIVO 1 = Some (n, F1)" "inodo_valido (sv_fs S) n"
    "\<not> inodo_ocupado (sv_fs S) n" "n \<noteq> - 1" "estable F1 INODO_RAIZ inodo ess" "\<forall>m. inodo_valido F1 m = inodo_valido (sv_fs S) m"
    "\<forall>m. inodo_valido (sv_fs S) m \<longrightarrow> inodo_ocupado F1 m = (m = n \<or> inodo_ocupado (sv_fs S) m)"
    "inodo_en F1 n = Some x" "i_mode x = MODO_ARCHIVO" "i_links_count x = 1"
    by (rule asignar_bien [OF E(1) lib E(2), where mode = MODO_ARCHIVO and links = 1])
  have n0: "n \<noteq> 0" using A(2) by (auto simp: inodo_valido_def)
  obtain F2 ess' as cs where B: "Dir_crearNuevaEntrada F1 nombre INODO_RAIZ n = Some (0, F2)" "estable F2 INODO_RAIZ inodo ess'"
    "mantiene F1 F2" "map par (listado ess) = as @ cs" "map par (listado ess') = as @ (n, Some nombre) # cs"
    by (rule insertar_bien [OF A(5) nom n0 hay])
  let ?S3 = "S\<lparr>sv_fs := F2, sv_monitor := Sincro_monitorUnlock INODO_RAIZ l\<rparr>"
  have "estable (sv_fs ?S3) INODO_RAIZ inodo ess'" using B(2) by simp
  then obtain F3 where G: "sv_guardar ?S3 = Some (?S3\<lparr>sv_fs := F3\<rparr>)" "estable F3 INODO_RAIZ inodo ess'" "mantiene (sv_fs ?S3) F3" "persistido F3"
    by (rule persistir_bien)
  let ?S' = "?S3\<lparr>sv_fs := F3\<rparr>"
  have "INODO_RAIZ \<noteq> 0" by (simp add: INODO_RAIZ_def)
  with G(1) obtain envio where R: "responder_creacion ?S3 INODO_RAIZ n 0 TIPOCREATE = Some (?S', envio)" "serializar_Result_Rta 0 TIPOCREATE = Some envio"
    by (rule responder_bien)
  have M: "mantiene F1 F3" using mantiene_trans [OF B(3)] G(3) by simp
  have bp: "sv_buscarPath S (47 # otro) = Some (buscar_par (as @ cs) otro)"
    "Dir_buscarPath (f_ext2fs F1) (47 # otro) (s_inodes_per_group (f_sb F1)) (f_bgdt F1) (block_size (f_sb F1)) = Some (buscar_par (as @ cs) otro)"
    "sv_buscarPath ?S' (47 # otro) = Some (buscar_par (as @ (n, Some nombre) # cs) otro)" if "nombre_ok otro" for otro
    using buscarPath_raiz [OF estableD(3) that] E(1) A(5) G(2) B(4,5) by simp_all
  have z: "buscar_par (as @ cs) nombre = 0" using no bp(1) [OF nom(1)] by simp
  have "0 \<notin> fst ` set (as @ cs)" using listado_vivo [of ess] unfolding B(4) .
  then have look: "sv_buscarPath ?S' (47 # otro) = (if otro = nombre then Some n else sv_buscarPath S (47 # otro))" if "nombre_ok otro" for otro
    using bp(1,3) [OF that] buscar_par_inserta [OF nom(1) that z, of n] by simp
  have "Dir_buscarPath (f_ext2fs F1) buffer (s_inodes_per_group (f_sb F1)) (f_bgdt F1) (block_size (f_sb F1)) = Some 0"
    using bp(2) [OF nom(1)] unfolding z buffer [symmetric] buscarPath_hasta .
  from procesarCreate_pasos [OF separar_bajo_raiz [OF buffer nom] A(1,4) this mon B(1)]
  have C: "procesarCreate S buffer = Some (?S', envio)" unfolding R(1) .
  have "sv_leerInodo ?S' n = Some x" using mantieneD(2) [OF M _ A(8)] A(2,6) by simp
  moreover have "inodo_ocupado F3 m = (m = n \<or> inodo_ocupado (sv_fs S) m)" if "inodo_valido (sv_fs S) m" for m
    using mantieneD(1) [OF M, of m] A(6,7) that by simp
  ultimately have "archivo_creado S ?S' nombre"
    unfolding archivo_creado_def using A(2,3,9,10) G(4) look estableD(1) [OF G(2)] by (intro exI [of _ n] exI [of _ x]) simp
  then show thesis using that [OF C R(2)] by simp
qed

section \<open>From the client\<close>

lemma transmite_path:
  assumes "length path + 1 < 65536"
  shows "transmite (serializar_path path t) t (path @ [0])"
  using transmite_arma [of "[path @ [0]]" _ t] assms by (simp add: serializar_path_def Let_def)

text \<open>The answer with a result code, as the client receives it.\<close>

lemma resultado_recibido:
  assumes "serializar_Result_Rta 0 t = Some envio"
  shows "\<exists>pl. recv_Nipc envio = Some (\<lparr>tipo = t, payloadLength = 4, payload = pl\<rparr>, []) \<and> deserializar_Result_Rta pl = Some 0"
  using recv_serializar_Nipc [of "enc32 (word_of_int 0)" 4 t "[]"] assms
  by (auto simp: serializar_Result_Rta_def deserializar_Result_Rta_def lee_def)

lemma separarPathCliente_igual: "separarPathCliente p = separarPath p"
  by (simp add: separarPathCliente_def separarPath_def)

text \<open>The exchange of a request that carries a path.\<close>

lemma intercambio_de_path:
  assumes pool: "cl_pool C = s # ss" and path: "length path < 65000"
    and at: "atender A M' (cl_remoto C) \<lparr>p_client = 0, p_buffer = path @ [0], p_tipoPaquete = t, p_payloadLength = word_of_nat (length (path @ [0]))\<rparr>
      = Some (S', envio)" and rta: "recv_Nipc envio = Some (\<lparr>tipo = t, payloadLength = n, payload = pl\<rparr>, [])"
  obtains pk where "serializar_path path t = Some pk"
    "intercambio (servir A M') C pk (tam_pedido path 0) t = Some (Some (n, pl), C\<lparr>cl_pool := ss @ [s], cl_remoto := S'\<rparr>)"
proof -
  have lp: "length (path @ [0]) < 65536" using path by simp
  have tr: "transmite (serializar_path path t) t (path @ [0])" by (rule transmite_path) (use path in simp)
  obtain pk where pk: "serializar_path path t = Some pk" "length pk = 3 + length (path @ [0])"
    "recv_Nipc pk = Some (\<lparr>tipo = t, payloadLength = word_of_nat (length (path @ [0])), payload = path @ [0]\<rparr>, [])"
    "crearPedido 0 (path @ [0]) t (word_of_nat (length (path @ [0]))) =
       Some \<lparr>p_client = 0, p_buffer = path @ [0], p_tipoPaquete = t, p_payloadLength = word_of_nat (length (path @ [0]))\<rparr>"
    by (rule crearPedido_transmite [OF tr lp])
  have srv: "servir A M' (cl_remoto C) pk = Some (S', envio)" unfolding servir_def pk(3) using pk(4) at by simp
  have "unat (tam_pedido path 0) = length pk" unfolding tam_pedido_def by (subst unat_word16) (use path pk(2) in simp_all)
  from intercambio_bien [where srv = "servir A M'", OF pool this srv rta] that [OF pk(1)] show thesis by blast
qed

text \<open>The same, answered with the code 0.\<close>

lemma intercambio_path:
  assumes pool: "cl_pool C = s # ss" and path: "length path < 65000"
    and at: "atender A M' (cl_remoto C) \<lparr>p_client = 0, p_buffer = path @ [0], p_tipoPaquete = t, p_payloadLength = word_of_nat (length (path @ [0]))\<rparr>
      = Some (S', envio)" and res: "serializar_Result_Rta 0 t = Some envio"
  obtains pk pl where "serializar_path path t = Some pk" "deserializar_Result_Rta pl = Some 0"
    "intercambio (servir A M') C pk (tam_pedido path 0) t = Some (Some (4, pl), C\<lparr>cl_pool := ss @ [s], cl_remoto := S'\<rparr>)"
proof -
  obtain pl where pl: "recv_Nipc envio = Some (\<lparr>tipo = t, payloadLength = 4, payload = pl\<rparr>, [])" "deserializar_Result_Rta pl = Some 0"
    using resultado_recibido [OF res] by blast
  show thesis by (rule intercambio_de_path [OF pool path at pl(1)]) (rule that [OF _ pl(2)])
qed

lemma borrarCache_bajo_raiz:
  assumes "nombre_ok nombre" "length nombre < 256"
  obtains c' where "borrarCacheDirectorios M (47 # nombre) c = Some c'"
  using separar_bajo_raiz [of "47 # nombre" nombre] assms
  by (simp add: borrarCacheDirectorios_def Let_def separarPathCliente_igual nombre_ok_def hasta_nul_barra)

lemma hasta_nul_path: "nombre_ok nombre \<Longrightarrow> hasta_nul ((47 # nombre) @ [0]) = 47 # nombre"
  by (auto simp: nombre_ok_def hasta_nul_def takeWhile_append)

text \<open>
  C3: creating a file from the client. With a free inode, room in the root directory and a name that the directory does not have, the
  operation of the client returns success; on the server the file exists with an inode of its own, every other path under the root
  resolves as before, image and memory agree and the lock of the directory is given back; on the client what was cached
  of the file and of its directory is dropped, and the socket is back in the pool.
\<close>

theorem creacion_remota:
  fixes C :: "('a, 'c servidor) cliente"
  defines "S \<equiv> cl_remoto C"
  assumes E: "estable (sv_fs S) INODO_RAIZ inodo ess" "inodo_ocupado (sv_fs S) INODO_RAIZ"
    and lib: "s_free_inodes_count (f_sb (sv_fs S)) \<noteq> 0"
    and nom: "nombre_ok nombre" "length nombre < 256"
    and hay: "\<exists>e \<in> set (concat ess). cabe (tam_entrada (word_of_nat (length nombre))) e"
    and no: "sv_buscarPath S (47 # nombre) = Some 0" and mon: "Sincro_monitorLock INODO_RAIZ (sv_monitor S) TIPOWRITE = Some l"
    and pool: "cl_pool C = s # ss"
  shows "\<exists>C'. fsc_create M (servir A M') C (47 # nombre) = Some (0, C') \<and> archivo_creado S (cl_remoto C') nombre
    \<and> sv_monitor (cl_remoto C') = Sincro_monitorUnlock INODO_RAIZ l
    \<and> borrarCacheDirectorios M (47 # nombre) (cl_cache C) = Some (cl_cache C') \<and> cl_pool C' = ss @ [s]"
proof -
  let ?path = "47 # nombre"
  obtain S' envio where R: "procesarCreate S (?path @ [0]) = Some (S', envio)" "serializar_Result_Rta 0 TIPOCREATE = Some envio"
    "archivo_creado S S' nombre" "sv_monitor S' = Sincro_monitorUnlock INODO_RAIZ l"
    by (rule procesarCreate_bien [OF E lib nom hasta_nul_path [OF nom(1)] hay no mon])
  have len: "length ?path < 65000" using nom(2) by simp
  have at: "atender A M' (cl_remoto C) \<lparr>p_client = 0, p_buffer = ?path @ [0], p_tipoPaquete = TIPOCREATE, p_payloadLength = word_of_nat (length (?path @ [0]))\<rparr>
      = Some (S', envio)"
    using R(1) by (simp add: atender_def Let_def S_def TIPOGETATTR_def TIPOREADDIR_def TIPOREAD_def TIPOOPEN_def TIPOTRUNCATE_def
        TIPOWRITE_def TIPOCREATE_def)
  obtain pk pl where I: "serializar_path ?path TIPOCREATE = Some pk" "deserializar_Result_Rta pl = Some 0"
    "intercambio (servir A M') C pk (tam_pedido ?path 0) TIPOCREATE = Some (Some (4, pl), C\<lparr>cl_pool := ss @ [s], cl_remoto := S'\<rparr>)"
    by (rule intercambio_path [OF pool len at R(2)])
  obtain c where c: "borrarCacheDirectorios M ?path (cl_cache C) = Some c" by (rule borrarCache_bajo_raiz [OF nom])
  then have "fsc_create M (servir A M') C ?path = Some (0, C\<lparr>cl_pool := ss @ [s], cl_remoto := S', cl_cache := c\<rparr>)"
    using I by (simp add: fsc_create_def)
  then show ?thesis using R(3,4) c by (intro exI conjI) auto
qed

section \<open>The example\<close>

lemma intacto_dir_ej:
  assumes "disjuntos p n 10368 128" "disjuntos p n 71680 21" "p + n \<le> 102400"
  shows "intacto disco_ej (f_ext2fs fs_dir_ej) p n"
proof -
  let ?d = "put_bytes disco_ej 10368 (enc_Inode inodo_dir_ej)"
  let ?bs = "[2, 0, 0, 0, 12, 0, 1, 0, 46, 0, 0, 0, 5, 0, 0, 0, 0xF4, 3, 1, 0, 97] :: u8 list"
  have l: "length ?bs = 21" "dk_len ?d = 102400" by (simp_all add: enc_dir_ej ej_sel)
  have "intacto disco_ej ?d p n" by (rule intacto_put) (simp_all add: enc_dir_ej ej_sel assms)
  moreover have "intacto ?d (put_bytes ?d 71680 ?bs) p n" by (rule intacto_put) (simp_all only: l assms)
  ultimately show ?thesis unfolding fs_dir_ej_def by (auto intro: intacto_trans)
qed

lemma vista_dir_ej: "addrB fs_dir_ej = addrB fs_ej" "tamB fs_dir_ej = tamB fs_ej" "addrI fs_dir_ej = addrI fs_ej" "tamI fs_dir_ej = tamI fs_ej"
  by (simp_all add: fs_dir_ej_def fun_eq_iff addrB_def tamB_def addrI_def tamI_def)

lemma fs_dir_ej_ok: "fs_ok fs_dir_ej" "inodo_ocupado fs_dir_ej 2"
proof -
  have s: "f_ext2fs fs_ej = disco_ej" "f_sb fs_ej = sb_ej" "f_bgdt fs_ej = bgdt_ej" by (simp_all add: fs_ej_def)
  have e: "fs_ej\<lparr>f_ext2fs := f_ext2fs fs_dir_ej\<rparr> = fs_dir_ej" by (simp add: fs_dir_ej_def)
  have len: "dk_len (f_ext2fs fs_dir_ej) = dk_len (f_ext2fs fs_ej)" by (simp add: s fs_dir_ej_sel ej_sel)
  have "\<forall>g < 2. intacto disco_ej (f_ext2fs fs_dir_ej) (addrB fs_ej g) (tamB fs_ej g) \<and> intacto disco_ej (f_ext2fs fs_dir_ej) (addrI fs_ej g) (tamI fs_ej g)"
    by (simp add: All_less_2 ej_vista intacto_dir_ej disjuntos_def)
  then have "intacto (f_ext2fs fs_ej) (f_ext2fs fs_dir_ej) (addrB fs_ej g) (tamB fs_ej g)
      \<and> intacto (f_ext2fs fs_ej) (f_ext2fs fs_dir_ej) (addrI fs_ej g) (tamI fs_ej g)" if "g < nGr fs_ej" for g
    using that by (simp add: s ej_sel)
  note I = fs_ok_intacto [OF fs_ok_ej len this, unfolded e]
  show "fs_ok fs_dir_ej" using I(1) .
  have "inodo_valido fs_ej 2" "inodo_ocupado fs_ej 2"
    by (simp_all add: inodo_valido_def inodo_ocupado_def s ej_sel ej_vista mapaI_def bits_en_eval disco_ej_def)
  with I(2) show "inodo_ocupado fs_dir_ej 2" by simp
qed

lemma estable_ej: "estable fs_dir_ej 2 inodo_dir_ej [dir_ej]"
proof -
  have "plano_ok fs_dir_ej inodo_dir_ej [dir_ej]"
    using tabla_ok_ej
    by (simp add: plano_ok_def zona_def fs_dir_ej_sel ej_sel ej_tabla vista_dir_ej ej_vista All_less_2 disjuntos_def)
  then show ?thesis using fs_dir_ej_ok directorio_ej by (simp add: estable_def inodo_valido_def fs_dir_ej_sel ej_sel vista_dir_ej ej_vista)
qed

theorem creacion_remota_witness:
  "\<exists>C'. fsc_create mem_mapa (servir ilp32_server mem_mapa) \<lparr>cl_cache = Map.empty, cl_pool = [5, 6], cl_remoto = servidor_ej\<rparr> [47, 98] = Some (0, C')
    \<and> archivo_creado servidor_ej (cl_remoto C') [98] \<and> sv_monitor (cl_remoto C') = [] \<and> cl_pool C' = [6, 5]"
proof -
  let ?C = "\<lparr>cl_cache = (Map.empty :: u8 list \<Rightarrow> u8 list option), cl_pool = [5, 6 :: int], cl_remoto = servidor_ej\<rparr>"
  have E: "estable (sv_fs (cl_remoto ?C)) INODO_RAIZ inodo_dir_ej [dir_ej]" "inodo_ocupado (sv_fs (cl_remoto ?C)) INODO_RAIZ"
    using estable_ej fs_dir_ej_ok(2) by (simp_all add: servidor_ej_sel INODO_RAIZ_def)
  have b: "sv_buscarPath (cl_remoto ?C) [47, 98] = Some 0"
    using buscarPath_raiz [OF estableD(3) [OF E(1)], of "[98]"] by (simp add: nombre_ok_def dir_ej_def hasta_nul_def)
  obtain l where l: "Sincro_monitorLock INODO_RAIZ (sv_monitor (cl_remoto ?C)) TIPOWRITE = Some l" "Sincro_monitorUnlock INODO_RAIZ l = []"
    by (simp add: servidor_ej_sel Sincro_monitorLock_def INODO_RAIZ_def TIPOWRITE_def rwlock_tomar_def TIPOREAD_def rwlock_init_def)
  have h: "\<exists>e \<in> set (concat [dir_ej]). cabe (tam_entrada (word_of_nat (length [98 :: u8]))) e" by (simp add: dir_ej_def cabe_def)
  from creacion_remota [OF E _ _ _ h b l(1), where M = mem_mapa and M' = mem_mapa and A = ilp32_server]
  have "\<exists>C'. fsc_create mem_mapa (servir ilp32_server mem_mapa) ?C [47, 98] = Some (0, C') \<and> archivo_creado servidor_ej (cl_remoto C') [98]
      \<and> sv_monitor (cl_remoto C') = Sincro_monitorUnlock INODO_RAIZ l \<and> cl_pool C' = [6, 5]"
    by (auto simp: servidor_ej_sel fs_dir_ej_sel ej_sel nombre_ok_def)
  then show ?thesis unfolding l(2) .
qed

end
