(* ===== verification/Espacio.thy ===== *)
theory Espacio
  imports Inodos
begin

text \<open>
  The space of a file: \<^verbatim>\<open>Inode_truncarArriba\<close> and \<^verbatim>\<open>Inode_truncarAbajo\<close> of \<^verbatim>\<open>rfs/Inode.c\<close> on files of at most twelve blocks,
  which the inode names directly. Growing either gives the file all the blocks it needs or, on a full image, takes back the ones
  it gave; shrinking gives back exactly the blocks behind the new end.
\<close>

section \<open>Steps that write block bitmaps only\<close>

abbreviation hay_bloques :: "fs \<Rightarrow> nat" where
  "hay_bloques F \<equiv> unat (s_free_blocks_count (f_sb F))"

definition solo_mapaB :: "fs \<Rightarrow> fs \<Rightarrow> bool" where
  "solo_mapaB F F' \<longleftrightarrow> (\<exists>c. f_sb F' = (f_sb F)\<lparr>s_free_blocks_count := c\<rparr>)
     \<and> map bg_inode_table (f_bgdt F') = map bg_inode_table (f_bgdt F)
     \<and> addrB F' = addrB F \<and> tamB F' = tamB F \<and> addrI F' = addrI F \<and> tamI F' = tamI F
     \<and> dk_len (f_ext2fs F') = dk_len (f_ext2fs F)
     \<and> (\<forall>i < dk_len (f_ext2fs F). (\<forall>g < nGr F. i < addrB F g \<or> addrB F g + tamB F g \<le> i) \<longrightarrow>
          dk_byte (f_ext2fs F') i = dk_byte (f_ext2fs F) i)
     \<and> (\<forall>m. inodo_valido F m \<longrightarrow> inodo_ocupado F' m = inodo_ocupado F m)"

lemma solo_mapaB_refl: "solo_mapaB F F"
  unfolding solo_mapaB_def by (auto intro: exI [of _ "s_free_blocks_count (f_sb F)"])

lemma solo_mapaB_sel:
  assumes "solo_mapaB F F'"
  shows "nGr F' = nGr F" "block_size (f_sb F') = block_size (f_sb F)" "s_inodes_per_group (f_sb F') = s_inodes_per_group (f_sb F)"
    "s_first_data_block (f_sb F') = s_first_data_block (f_sb F)" "s_free_inodes_count (f_sb F') = s_free_inodes_count (f_sb F)"
    "bloque_valido F' m = bloque_valido F m" "inodo_valido F' n = inodo_valido F n"
proof -
  obtain c where sb: "f_sb F' = (f_sb F)\<lparr>s_free_blocks_count := c\<rparr>" using assms unfolding solo_mapaB_def by blast
  show n: "nGr F' = nGr F" using assms unfolding solo_mapaB_def by (metis length_map)
  have v: "tamB F' = tamB F" "tamI F' = tamI F" using assms by (simp_all add: solo_mapaB_def)
  show "bloque_valido F' m = bloque_valido F m" "inodo_valido F' n = inodo_valido F n"
    unfolding bloque_valido_def inodo_valido_def n v sb by simp_all
  show "block_size (f_sb F') = block_size (f_sb F)" "s_inodes_per_group (f_sb F') = s_inodes_per_group (f_sb F)"
    "s_first_data_block (f_sb F') = s_first_data_block (f_sb F)" "s_free_inodes_count (f_sb F') = s_free_inodes_count (f_sb F)"
    unfolding sb by simp_all
qed

lemma solo_mapaB_trans: "solo_mapaB F F1 \<Longrightarrow> solo_mapaB F1 F2 \<Longrightarrow> solo_mapaB F F2"
  using solo_mapaB_sel [of F F1] unfolding solo_mapaB_def by auto

lemma map_tabla_bloques: "map bg_inode_table (t[g := (t ! g)\<lparr>bg_free_blocks_count := c\<rparr>]) = map bg_inode_table t"
  by (cases "g < length t") (simp_all add: map_update list_update_same_conv list_update_beyond)

lemma solo_mapaB_con:
  assumes ok: "fs_ok F" and g: "g < nGr F" "length bs = tamB F g"
  shows "solo_mapaB F (con_mapaB F g bs c s)"
proof -
  let ?F = "con_mapaB F g bs c s"
  have "addrB F g + length bs \<le> dk_len (f_ext2fs F)" using mapas_okD(2) [OF fs_okD(2) [OF ok] g(1)] g(2) by simp
  then have "dk_len (f_ext2fs ?F) = dk_len (f_ext2fs F)" by (simp add: con_mapaB_def)
  moreover have "\<forall>i < dk_len (f_ext2fs F). (\<forall>g < nGr F. i < addrB F g \<or> addrB F g + tamB F g \<le> i) \<longrightarrow>
      dk_byte (f_ext2fs ?F) i = dk_byte (f_ext2fs F) i"
    using g by (auto simp: con_mapaB_def intro!: dk_byte_put_outside)
  moreover have "f_sb ?F = (f_sb F)\<lparr>s_free_blocks_count := s\<rparr>" by (simp add: con_mapaB_def)
  moreover have "map bg_inode_table (f_bgdt ?F) = map bg_inode_table (f_bgdt F)" by (simp add: con_mapaB_def map_tabla_bloques)
  ultimately show ?thesis
    using con_mapaB_view(5-8) [OF g(1)] ocupado_ajeno(1) [OF ok g] unfolding solo_mapaB_def by blast
qed

lemma pide_bloque:
  assumes ok: "fs_ok F" and hay: "0 < hay_bloques F"
  obtains b F' where "Grupos_pedirBloqueLibre F = Some (b, F')" "fs_ok F'" "solo_mapaB F F'" "bloque_valido F b" "\<not> bloque_ocupado F b"
    "hay_bloques F' + 1 = hay_bloques F" "\<forall>m. bloque_valido F m \<longrightarrow> bloque_ocupado F' m = (m = b \<or> bloque_ocupado F m)"
proof -
  from bl.pedir_ok [OF ok hay] obtain b bs F' where
    p: "Grupos_pedirBloqueLibre F = Some (b, F')" "bloque_valido F b" "\<not> bloque_ocupado F b" "fs_ok F'" "hay_bloques F' + 1 = hay_bloques F"
      "\<forall>m. bloque_valido F m \<longrightarrow> bloque_ocupado F' m = (m = b \<or> bloque_ocupado F m)"
    and c: "F' = con_mapaB F ((unat b - primero F) div bpg F) bs
        (bg_free_blocks_count (f_bgdt F ! ((unat b - primero F) div bpg F)) - 1) (s_free_blocks_count (f_sb F) - 1)"
      "length bs = tamB F ((unat b - primero F) div bpg F)" by blast
  have "solo_mapaB F F'" unfolding c(1) by (rule solo_mapaB_con [OF ok _ c(2)]) (use p(2) in \<open>simp add: bloque_valido_def\<close>)
  then show thesis using that p by blast
qed

lemma libera_bloque:
  assumes ok: "fs_ok F" and b: "bloque_valido F b" "bloque_ocupado F b"
  obtains F' where "Grupos_liberarBloqueEnBitmap F b = Some F'" "fs_ok F'" "solo_mapaB F F'" "hay_bloques F' = hay_bloques F + 1"
    "\<forall>m. bloque_valido F m \<longrightarrow> bloque_ocupado F' m = (m \<noteq> b \<and> bloque_ocupado F m)"
proof -
  from bl.liberar_ok [OF ok b] obtain bs F' where
    p: "Grupos_liberarBloqueEnBitmap F b = Some F'" "fs_ok F'" "hay_bloques F' = hay_bloques F + 1"
      "\<forall>m. bloque_valido F m \<longrightarrow> bloque_ocupado F' m = (m \<noteq> b \<and> bloque_ocupado F m)"
    and c: "F' = con_mapaB F ((unat b - primero F) div bpg F) bs
        (bg_free_blocks_count (f_bgdt F ! ((unat b - primero F) div bpg F)) + 1) (s_free_blocks_count (f_sb F) + 1)"
      "length bs = tamB F ((unat b - primero F) div bpg F)" by blast
  have "solo_mapaB F F'" unfolding c(1) by (rule solo_mapaB_con [OF ok _ c(2)]) (use b(1) in \<open>simp add: bloque_valido_def\<close>)
  then show thesis using that p by blast
qed

section \<open>The loops on direct blocks\<close>

abbreviation con_bloques :: "Inode \<Rightarrow> nat \<Rightarrow> u32 list \<Rightarrow> Inode" where
  "con_bloques inodo i bs \<equiv> inodo\<lparr>i_block := take i (i_block inodo) @ bs @ drop (i + length bs) (i_block inodo)\<rparr>"

lemma directo_u32: "i < 12 \<Longrightarrow> (word_of_nat i :: u32) < 12 \<and> unat (word_of_nat i :: u32) = i"
  by (simp add: word_less_nat_alt unat_of_nat_u32)

lemma con_bloques_Cons:
  assumes "i < length (i_block inodo)"
  shows "con_bloques (pon_bloque inodo i b) (Suc i) bs = con_bloques inodo i (b # bs)"
  using assms by (simp add: take_Suc_conv_app_nth)

text \<open>
  The loop of \<^verbatim>\<open>Inode_truncarArriba\<close>: with room it gives \<open>n\<close> blocks, without it all there are, and stops.
\<close>

lemma asignar_directos:
  "fs_ok F \<Longrightarrow> length (i_block inodo) = 15 \<Longrightarrow> i + n \<le> 12 \<Longrightarrow>
   \<exists>bs F'. asignar_bloques n i (F, inodo) =
       Some (if n \<le> hay_bloques F then (i + n, 0, F', con_bloques inodo i bs) else (i + hay_bloques F + 1, - 1, F', con_bloques inodo i bs))
     \<and> length bs = min n (hay_bloques F) \<and> distinct bs \<and> (\<forall>b \<in> set bs. bloque_valido F b \<and> \<not> bloque_ocupado F b)
     \<and> fs_ok F' \<and> hay_bloques F' + length bs = hay_bloques F \<and> solo_mapaB F F'
     \<and> (\<forall>m. bloque_valido F m \<longrightarrow> bloque_ocupado F' m = (m \<in> set bs \<or> bloque_ocupado F m))"
proof (induction n arbitrary: i F inodo)
  case 0
  then show ?case by (intro exI [of _ "[]"] exI [of _ F]) (simp add: solo_mapaB_refl)
next
  case (Suc n)
  have i: "(word_of_nat i :: u32) < 12" "unat (word_of_nat i :: u32) = i" using directo_u32 [of i] Suc.prems(3) by simp_all
  have lib: "s_free_blocks_count (f_sb F) < 1 \<longleftrightarrow> hay_bloques F = 0" by (simp add: word_less_nat_alt)
  show ?case
  proof (cases "hay_bloques F = 0")
    case True
    then have "asignar_bloques (Suc n) i (F, inodo) = Some (i + 1, - 1, F, inodo)"
      using i lib by (simp add: Inode_asignarBloque_def)
    then show ?thesis using True Suc.prems(1) by (intro exI [of _ "[]"] exI [of _ F]) (simp add: solo_mapaB_refl)
  next
    case False
    then have "0 < hay_bloques F" by simp
    from pide_bloque [OF Suc.prems(1) this] obtain b F1 where
      p: "Grupos_pedirBloqueLibre F = Some (b, F1)" "fs_ok F1" "solo_mapaB F F1" "bloque_valido F b" "\<not> bloque_ocupado F b"
        "hay_bloques F1 + 1 = hay_bloques F" "\<forall>m. bloque_valido F m \<longrightarrow> bloque_ocupado F1 m = (m = b \<or> bloque_ocupado F m)" by blast
    have a: "Inode_asignarBloque F (word_of_nat i) inodo = Some (0, F1, pon_bloque inodo i b)"
      using i lib False p(1) by (simp add: Inode_asignarBloque_def)
    have "length (i_block (pon_bloque inodo i b)) = 15" "Suc i + n \<le> 12" using Suc.prems(2,3) by simp_all
    from Suc.IH [OF p(2) this] obtain bs F' where
      q: "asignar_bloques n (Suc i) (F1, pon_bloque inodo i b) =
         Some (if n \<le> hay_bloques F1 then (Suc i + n, 0, F', con_bloques (pon_bloque inodo i b) (Suc i) bs)
               else (Suc i + hay_bloques F1 + 1, - 1, F', con_bloques (pon_bloque inodo i b) (Suc i) bs))"
        "length bs = min n (hay_bloques F1)" "distinct bs" "\<forall>b \<in> set bs. bloque_valido F1 b \<and> \<not> bloque_ocupado F1 b"
        "fs_ok F'" "hay_bloques F' + length bs = hay_bloques F1" "solo_mapaB F1 F'"
        "\<forall>m. bloque_valido F1 m \<longrightarrow> bloque_ocupado F' m = (m \<in> set bs \<or> bloque_ocupado F1 m)" by blast
    have v: "bloque_valido F1 m = bloque_valido F m" for m by (rule solo_mapaB_sel(6) [OF p(3)])
    have c: "con_bloques (pon_bloque inodo i b) (Suc i) bs = con_bloques inodo i (b # bs)"
      by (rule con_bloques_Cons) (use Suc.prems(2,3) in simp)
    have "asignar_bloques (Suc n) i (F, inodo) =
       Some (if Suc n \<le> hay_bloques F then (i + Suc n, 0, F', con_bloques inodo i (b # bs))
             else (i + hay_bloques F + 1, - 1, F', con_bloques inodo i (b # bs)))"
      using a q(1) p(6) unfolding c by (auto simp: eval_nat_numeral simp flip: p(6))
    moreover have "length (b # bs) = min (Suc n) (hay_bloques F)" using q(2) p(6) by simp
    moreover have "distinct (b # bs)" using q(3,4) p(4,7) v by auto
    moreover have "\<forall>x \<in> set (b # bs). bloque_valido F x \<and> \<not> bloque_ocupado F x" using p(4,5,7) q(4) v by auto
    moreover have "hay_bloques F' + length (b # bs) = hay_bloques F" using q(6) p(6) by simp
    moreover have "solo_mapaB F F'" by (rule solo_mapaB_trans [OF p(3) q(7)])
    moreover have "\<forall>m. bloque_valido F m \<longrightarrow> bloque_ocupado F' m = (m \<in> set (b # bs) \<or> bloque_ocupado F m)" using p(7) q(8) v by auto
    ultimately show ?thesis using q(5) by (intro exI [of _ "b # bs"] exI [of _ F']) blast
  qed
qed

lemma asignar_alcanza:
  assumes "fs_ok F" "length (i_block inodo) = 15" "i + n \<le> 12" and h: "n \<le> hay_bloques F"
  obtains bs F' where "asignar_bloques n i (F, inodo) = Some (i + n, 0, F', con_bloques inodo i bs)" "length bs = n" "distinct bs"
    "\<forall>b \<in> set bs. bloque_valido F b \<and> \<not> bloque_ocupado F b" "fs_ok F'" "hay_bloques F' + n = hay_bloques F" "solo_mapaB F F'"
    "\<forall>m. bloque_valido F m \<longrightarrow> bloque_ocupado F' m = (m \<in> set bs \<or> bloque_ocupado F m)"
  using asignar_directos [OF assms(1-3)] unfolding if_P [OF h] min_absorb1 [OF h] by metis

lemma asignar_falta:
  assumes "fs_ok F" "length (i_block inodo) = 15" "i + n \<le> 12" and h: "hay_bloques F < n"
  obtains bs F' where "asignar_bloques n i (F, inodo) = Some (i + hay_bloques F + 1, - 1, F', con_bloques inodo i bs)" "length bs = hay_bloques F"
    "distinct bs" "\<forall>b \<in> set bs. bloque_valido F b \<and> \<not> bloque_ocupado F b" "fs_ok F'" "hay_bloques F' = 0" "solo_mapaB F F'"
    "\<forall>m. bloque_valido F m \<longrightarrow> bloque_ocupado F' m = (m \<in> set bs \<or> bloque_ocupado F m)"
proof -
  have n: "\<not> n \<le> hay_bloques F" "hay_bloques F \<le> n" using h by simp_all
  from asignar_directos [OF assms(1-3)] show thesis unfolding if_not_P [OF n(1)] min_absorb2 [OF n(2)] using that by (metis add_eq_self_zero add.commute)
qed

text \<open>The loop of \<^verbatim>\<open>Inode_truncarAbajo\<close>: the blocks from \<open>a\<close> on are given back, the last one first.\<close>

lemma liberar_directos:
  "fs_ok F \<Longrightarrow> length (i_block inodo) = 15 \<Longrightarrow> a + n \<le> 12 \<Longrightarrow> distinct (take n (drop a (i_block inodo))) \<Longrightarrow>
   \<forall>b \<in> set (take n (drop a (i_block inodo))). bloque_valido F b \<and> bloque_ocupado F b \<Longrightarrow>
   \<exists>F'. liberar_bloques (rev [a..<a + n]) (F, inodo) = Some (F', con_bloques inodo a (replicate n 0))
     \<and> fs_ok F' \<and> hay_bloques F' = hay_bloques F + n \<and> solo_mapaB F F'
     \<and> (\<forall>m. bloque_valido F m \<longrightarrow> bloque_ocupado F' m = (m \<notin> set (take n (drop a (i_block inodo))) \<and> bloque_ocupado F m))"
proof (induction n arbitrary: F inodo)
  case 0
  then show ?case by (intro exI [of _ F]) (simp add: solo_mapaB_refl)
next
  case (Suc n)
  let ?ib = "i_block inodo" let ?b = "?ib ! (a + n)"
  have i: "(word_of_nat (a + n) :: u32) < 12" "unat (word_of_nat (a + n) :: u32) = a + n" using directo_u32 [of "a + n"] Suc.prems(3) by simp_all
  have t: "take (Suc n) (drop a ?ib) = take n (drop a ?ib) @ [?b]" using Suc.prems(2,3) by (simp add: take_Suc_conv_app_nth)
  have b: "bloque_valido F ?b" "bloque_ocupado F ?b" using Suc.prems(5) unfolding t by simp_all
  from libera_bloque [OF Suc.prems(1) b] obtain F1 where
    p: "Grupos_liberarBloqueEnBitmap F ?b = Some F1" "fs_ok F1" "solo_mapaB F F1" "hay_bloques F1 = hay_bloques F + 1"
      "\<forall>m. bloque_valido F m \<longrightarrow> bloque_ocupado F1 m = (m \<noteq> ?b \<and> bloque_ocupado F m)" by blast
  have l: "Inode_liberarBloque F (word_of_nat (a + n)) inodo = Some (F1, pon_bloque inodo (a + n) 0)"
    using i p(1) by (simp add: Inode_liberarBloque_def Let_def)
  have v: "bloque_valido F1 m = bloque_valido F m" for m by (rule solo_mapaB_sel(6) [OF p(3)])
  have t1: "take n (drop a (i_block (pon_bloque inodo (a + n) 0))) = take n (drop a ?ib)" by (simp add: drop_update_swap)
  have "length (i_block (pon_bloque inodo (a + n) 0)) = 15" "a + n \<le> 12" using Suc.prems(2,3) by simp_all
  moreover have "distinct (take n (drop a (i_block (pon_bloque inodo (a + n) 0))))" using Suc.prems(4) unfolding t1 t by simp
  moreover have "\<forall>b \<in> set (take n (drop a (i_block (pon_bloque inodo (a + n) 0)))). bloque_valido F1 b \<and> bloque_ocupado F1 b"
    using Suc.prems(4,5) p(5) v unfolding t1 t by auto
  ultimately obtain F' where
    q: "liberar_bloques (rev [a..<a + n]) (F1, pon_bloque inodo (a + n) 0) = Some (F', con_bloques (pon_bloque inodo (a + n) 0) a (replicate n 0))"
      "fs_ok F'" "hay_bloques F' = hay_bloques F1 + n" "solo_mapaB F1 F'"
      "\<forall>m. bloque_valido F1 m \<longrightarrow> bloque_ocupado F' m = (m \<notin> set (take n (drop a ?ib)) \<and> bloque_ocupado F1 m)"
    using Suc.IH [OF p(2), of "pon_bloque inodo (a + n) 0"] unfolding t1 by blast
  have "con_bloques (pon_bloque inodo (a + n) 0) a (replicate n 0) = con_bloques inodo a (replicate (Suc n) 0)"
    using Suc.prems(2,3) by (simp add: replicate_app_Cons_same drop_update_swap Cons_nth_drop_Suc [symmetric])
  then have "liberar_bloques (rev [a..<a + Suc n]) (F, inodo) = Some (F', con_bloques inodo a (replicate (Suc n) 0))"
    using l q(1) by simp
  moreover have "hay_bloques F' = hay_bloques F + Suc n" using p(4) q(3) by simp
  moreover have "solo_mapaB F F'" by (rule solo_mapaB_trans [OF p(3) q(4)])
  moreover have "\<forall>m. bloque_valido F m \<longrightarrow> bloque_ocupado F' m = (m \<notin> set (take (Suc n) (drop a ?ib)) \<and> bloque_ocupado F m)"
    using p(5) q(5) v unfolding t by auto
  ultimately show ?case using q(2) by blast
qed

section \<open>Shrinking and growing\<close>

text \<open>A file of \<open>k\<close> direct blocks: its size needs \<open>k\<close> blocks, and they are different blocks of the image in use.\<close>

definition archivo_directo :: "fs \<Rightarrow> Inode \<Rightarrow> nat \<Rightarrow> bool" where
  "archivo_directo F inodo k \<longleftrightarrow> length (i_block inodo) = 15 \<and> k \<le> 12
     \<and> cant_bloques (i_size inodo) (block_size (f_sb F)) = Some (word_of_nat k)
     \<and> distinct (take k (i_block inodo)) \<and> (\<forall>b \<in> set (take k (i_block inodo)). bloque_valido F b \<and> bloque_ocupado F b)"

lemma directo_cant: "archivo_directo F inodo k \<Longrightarrow> unat (word_of_nat k :: u32) = k"
  by (simp add: archivo_directo_def unat_of_nat_u32)

lemma truncarAbajo_bien:
  assumes ok: "fs_ok F" and A: "archivo_directo F inodo k" and m: "cant_bloques nuevoTam (block_size (f_sb F)) = Some (word_of_nat m)" "m \<le> k"
  obtains F' where "Inode_truncarAbajo F inodo nuevoTam = Some (F', (con_bloques inodo m (replicate (k - m) 0))\<lparr>i_size := nuevoTam\<rparr>)"
    "fs_ok F'" "solo_mapaB F F'" "hay_bloques F' = hay_bloques F + (k - m)"
    "\<forall>b. bloque_valido F b \<longrightarrow> bloque_ocupado F' b = (b \<notin> set (drop m (take k (i_block inodo))) \<and> bloque_ocupado F b)"
proof -
  let ?ib = "i_block inodo"
  have a: "length ?ib = 15" "k \<le> 12" "cant_bloques (i_size inodo) (block_size (f_sb F)) = Some (word_of_nat k)"
    "distinct (take k ?ib)" "\<forall>b \<in> set (take k ?ib). bloque_valido F b \<and> bloque_ocupado F b"
    using A by (simp_all add: archivo_directo_def)
  have t: "take (k - m) (drop m ?ib) = drop m (take k ?ib)" by (simp add: drop_take)
  have "m + (k - m) \<le> 12" "distinct (take (k - m) (drop m ?ib))"
    "\<forall>b \<in> set (take (k - m) (drop m ?ib)). bloque_valido F b \<and> bloque_ocupado F b"
    using a(2,4,5) m(2) unfolding t by (auto dest: in_set_dropD)
  from liberar_directos [OF ok a(1) this] obtain F' where
    q: "liberar_bloques (rev [m..<m + (k - m)]) (F, inodo) = Some (F', con_bloques inodo m (replicate (k - m) 0))"
      "fs_ok F'" "hay_bloques F' = hay_bloques F + (k - m)" "solo_mapaB F F'"
      "\<forall>b. bloque_valido F b \<longrightarrow> bloque_ocupado F' b = (b \<notin> set (drop m (take k ?ib)) \<and> bloque_ocupado F b)" unfolding t by blast
  have "unat (word_of_nat m :: u32) = m" using m(2) a(2) by (simp add: unat_of_nat_u32)
  then have "Inode_truncarAbajo F inodo nuevoTam = Some (F', (con_bloques inodo m (replicate (k - m) 0))\<lparr>i_size := nuevoTam\<rparr>)"
    using q(1) a(3) m directo_cant [OF A] by (simp add: Inode_truncarAbajo_def)
  then show thesis using that q(2-5) by blast
qed

lemma distinct_corte: "distinct xs \<Longrightarrow> x \<in> set (take m xs) \<Longrightarrow> x \<notin> set (drop m xs)"
  by (metis append_take_drop_id disjoint_iff distinct_append)

text \<open>
  Shrinking a file of direct blocks gives back exactly the blocks behind its new end: they are free afterwards, every other block of the
  image is as it was, the file keeps the blocks in front, bitmaps and counters agree and nothing but block bitmaps is written.
\<close>

lemma Inode_truncarAbajo_correcto:
  assumes ok: "fs_ok F" and A: "archivo_directo F inodo k" and m: "cant_bloques nuevoTam (block_size (f_sb F)) = Some (word_of_nat m)" "m \<le> k"
  shows "\<exists>F' inodo'. Inode_truncarAbajo F inodo nuevoTam = Some (F', inodo') \<and> archivo_directo F' inodo' m
    \<and> i_size inodo' = nuevoTam \<and> take m (i_block inodo') = take m (i_block inodo)
    \<and> fs_ok F' \<and> solo_mapaB F F' \<and> hay_bloques F' = hay_bloques F + (k - m)
    \<and> (\<forall>b. bloque_valido F b \<longrightarrow> bloque_ocupado F' b = (b \<notin> set (drop m (take k (i_block inodo))) \<and> bloque_ocupado F b))"
proof -
  let ?ib = "i_block inodo" and ?x = "(con_bloques inodo m (replicate (k - m) 0))\<lparr>i_size := nuevoTam\<rparr>"
  obtain F' where q: "Inode_truncarAbajo F inodo nuevoTam = Some (F', ?x)" "fs_ok F'" "solo_mapaB F F'" "hay_bloques F' = hay_bloques F + (k - m)"
    "\<forall>b. bloque_valido F b \<longrightarrow> bloque_ocupado F' b = (b \<notin> set (drop m (take k ?ib)) \<and> bloque_ocupado F b)"
    by (rule truncarAbajo_bien [OF assms])
  have a: "length ?ib = 15" "k \<le> 12" "distinct (take k ?ib)" "\<forall>b \<in> set (take k ?ib). bloque_valido F b \<and> bloque_ocupado F b"
    using A by (simp_all add: archivo_directo_def)
  have t: "take m (i_block ?x) = take m ?ib" "length (i_block ?x) = 15" using a(1,2) m(2) by simp_all
  have s: "take m ?ib = take m (take k ?ib)" using m(2) by (simp add: min_absorb1)
  have "bloque_valido F' b \<and> bloque_ocupado F' b" if "b \<in> set (take m ?ib)" for b
    using that a(3,4) q(5) solo_mapaB_sel(6) [OF q(3)] distinct_corte [of "take k ?ib" b m] in_set_takeD [of b m "take k ?ib"] unfolding s by auto
  then have "archivo_directo F' ?x m"
    using t a m solo_mapaB_sel(2) [OF q(3)] distinct_take [OF a(3), of m] unfolding archivo_directo_def t s by simp
  then show ?thesis using q t(1) by (intro exI [of _ F'] exI [of _ ?x]) simp
qed

lemma cant_bloques_exacta:
  assumes "n * unat bs < 2 ^ 32" "n \<le> 12" "0 < unat bs"
  shows "cant_bloques (word_of_nat n * bs) bs = Some (word_of_nat n)"
proof -
  have u: "unat (word_of_nat n :: u32) = n" using assms(2) by (simp add: unat_of_nat_u32)
  have p: "unat (word_of_nat n * bs) = n * unat bs" using assms(1) u by (subst unat_mult_u32) simp_all
  have "word_of_nat n * bs mod bs = 0" using p by (simp add: word_unat_eq_iff unat_mod)
  moreover have "word_of_nat n * bs div bs = word_of_nat n" using p u assms(3) by (simp add: word_unat_eq_iff unat_div)
  ultimately show ?thesis using assms(3) by (auto simp: cant_bloques_def)
qed

lemma directo_crece:
  assumes ok: "fs_ok F1" and A: "archivo_directo F inodo k" and S: "solo_mapaB F F1" and n: "k + length bs \<le> 12"
    and bs: "distinct bs" "\<forall>b \<in> set bs. bloque_valido F b \<and> \<not> bloque_ocupado F b"
    and oc: "\<forall>m. bloque_valido F m \<longrightarrow> bloque_ocupado F1 m = (m \<in> set bs \<or> bloque_ocupado F m)"
    and sz: "cant_bloques sz (block_size (f_sb F)) = Some (word_of_nat (k + length bs))"
  shows "archivo_directo F1 ((con_bloques inodo k bs)\<lparr>i_size := sz\<rparr>) (k + length bs)"
    "take (k + length bs) (i_block (con_bloques inodo k bs)) = take k (i_block inodo) @ bs"
proof -
  let ?ib = "i_block inodo"
  have a: "length ?ib = 15" "k \<le> 12" "distinct (take k ?ib)" "\<forall>b \<in> set (take k ?ib). bloque_valido F b \<and> bloque_ocupado F b"
    using A by (simp_all add: archivo_directo_def)
  show t: "take (k + length bs) (i_block (con_bloques inodo k bs)) = take k ?ib @ bs" using a(1,2) by simp
  have "distinct (take k ?ib @ bs)" using a(3,4) bs by auto
  moreover have "\<forall>b \<in> set (take k ?ib @ bs). bloque_valido F1 b \<and> bloque_ocupado F1 b"
    using a(4) bs(2) oc solo_mapaB_sel(6) [OF S] by auto
  moreover have "length (i_block (con_bloques inodo k bs)) = 15" using a(1) n by simp
  ultimately show "archivo_directo F1 ((con_bloques inodo k bs)\<lparr>i_size := sz\<rparr>) (k + length bs)"
    using n sz solo_mapaB_sel(2) [OF S] t by (simp add: archivo_directo_def)
qed

lemma truncarArriba_falla:
  assumes ok: "fs_ok F" and A: "archivo_directo F inodo k" and m: "cant_bloques nuevoTam (block_size (f_sb F)) = Some (word_of_nat m)" "k \<le> m" "m \<le> 12"
    and bs: "12 * unat (block_size (f_sb F)) < 2 ^ 32" and h: "hay_bloques F < m - k"
  obtains F' inodo' where "Inode_truncarArriba F inodo nuevoTam = Some (- 1, F', inodo')" "archivo_directo F' inodo' k"
    "i_size inodo' = i_size inodo" "take k (i_block inodo') = take k (i_block inodo)" "fs_ok F'" "solo_mapaB F F'" "hay_bloques F' = hay_bloques F"
    "\<forall>b. bloque_valido F b \<longrightarrow> bloque_ocupado F' b = bloque_ocupado F b"
proof -
  let ?bs = "block_size (f_sb F)" and ?h = "hay_bloques F" and ?ib = "i_block inodo"
  have a: "length ?ib = 15" "k \<le> 12" "cant_bloques (i_size inodo) ?bs = Some (word_of_nat k)" "distinct (take k ?ib)"
    "\<forall>b \<in> set (take k ?ib). bloque_valido F b \<and> bloque_ocupado F b" using A by (simp_all add: archivo_directo_def)
  have um: "unat (word_of_nat m :: u32) = m" using m(3) by (simp add: unat_of_nat_u32)
  have "k + (m - k) \<le> 12" using m by simp
  then obtain cs F1 where
    p: "asignar_bloques (m - k) k (F, inodo) = Some (k + ?h + 1, - 1, F1, con_bloques inodo k cs)" "length cs = ?h" "distinct cs"
      "\<forall>b \<in> set cs. bloque_valido F b \<and> \<not> bloque_ocupado F b" "fs_ok F1" "hay_bloques F1 = 0" "solo_mapaB F F1"
      "\<forall>b. bloque_valido F b \<longrightarrow> bloque_ocupado F1 b = (b \<in> set cs \<or> bloque_ocupado F b)"
    by (rule asignar_falta [OF ok a(1) _ h])
  let ?n = "k + length cs"
  let ?x = "(con_bloques inodo k cs)\<lparr>i_size := word_of_nat ?n * ?bs\<rparr>"
  have n: "?n \<le> 12" "?n - k = length cs" using h m p(2) by simp_all
  have b0: "0 < unat ?bs" using a(3) by (cases "?bs = 0") (auto simp: cant_bloques_def unat_gt_0)
  have "?n * unat ?bs \<le> 12 * unat ?bs" using n by simp
  then have "?n * unat ?bs < 2 ^ 32" using bs by linarith
  then have "cant_bloques (word_of_nat ?n * ?bs) ?bs = Some (word_of_nat ?n)" by (rule cant_bloques_exacta [OF _ n(1) b0])
  note X = directo_crece [OF p(5) A p(7) n(1) p(3,4,8) this]
  have bs1: "block_size (f_sb F1) = ?bs" by (rule solo_mapaB_sel(2) [OF p(7)])
  have "cant_bloques (i_size inodo) (block_size (f_sb F1)) = Some (word_of_nat k)" "k \<le> ?n" using a(3) bs1 by simp_all
  then obtain F' where
    q: "Inode_truncarAbajo F1 ?x (i_size inodo) = Some (F', (con_bloques ?x k (replicate (?n - k) 0))\<lparr>i_size := i_size inodo\<rparr>)"
      "fs_ok F'" "solo_mapaB F1 F'" "hay_bloques F' = hay_bloques F1 + (?n - k)"
      "\<forall>b. bloque_valido F1 b \<longrightarrow> bloque_ocupado F' b = (b \<notin> set (drop k (take ?n (i_block ?x))) \<and> bloque_ocupado F1 b)"
    by (rule truncarAbajo_bien [OF p(5) X(1)])
  let ?y = "(con_bloques ?x k (replicate (?n - k) 0))\<lparr>i_size := i_size inodo\<rparr>"
  have w: "word_of_nat (k + ?h + 1) - 1 = (word_of_nat ?n :: u32)" using p(2) by simp
  have "i_size (con_bloques inodo k cs) = i_size inodo" by simp
  then have T: "Inode_truncarArriba F inodo nuevoTam = Some (- 1, F', ?y)"
    using a(3) m(1) p(1) um directo_cant [OF A] q(1) unfolding Inode_truncarArriba_def
    by (simp only: bind.simps(2) Let_def prod.case fst_conv snd_conv w Inode.simps if_True simp_thms)
  have "drop k (take ?n (i_block (con_bloques inodo k cs))) = cs" unfolding X(2) using a(1,2) by simp
  then have d: "drop k (take ?n (i_block ?x)) = cs" by simp
  have S: "solo_mapaB F F'" by (rule solo_mapaB_trans [OF p(7) q(3)])
  have oc: "\<forall>b. bloque_valido F b \<longrightarrow> bloque_ocupado F' b = bloque_ocupado F b"
    using q(5) p(4,8) solo_mapaB_sel(6) [OF p(7)] unfolding d by auto
  have t: "take k (i_block ?y) = take k ?ib" "length (i_block ?y) = 15" using a(1,2) n by simp_all
  have ad: "archivo_directo F' ?y k"
    using a oc t(2) solo_mapaB_sel(2,6) [OF S] unfolding archivo_directo_def t(1) by simp
  have hb: "hay_bloques F' = ?h" using q(4) p(2,6) by simp
  have "i_size ?y = i_size inodo" by simp
  from that [OF T ad this t(1) q(2) S hb oc] show thesis .
qed

lemma truncarArriba_alcanza:
  assumes ok: "fs_ok F" and A: "archivo_directo F inodo k" and m: "cant_bloques nuevoTam (block_size (f_sb F)) = Some (word_of_nat m)" "k \<le> m" "m \<le> 12"
    and h: "m - k \<le> hay_bloques F"
  obtains cs F' inodo' where "Inode_truncarArriba F inodo nuevoTam = Some (0, F', inodo')" "archivo_directo F' inodo' m"
    "inodo' = (con_bloques inodo k cs)\<lparr>i_size := nuevoTam\<rparr>" "k + length cs = m" "drop k (take m (i_block inodo')) = cs"
    "take k (i_block inodo') = take k (i_block inodo)" "fs_ok F'" "solo_mapaB F F'" "hay_bloques F' + (m - k) = hay_bloques F"
    "\<forall>b \<in> set cs. bloque_valido F b \<and> \<not> bloque_ocupado F b"
    "\<forall>b. bloque_valido F b \<longrightarrow> bloque_ocupado F' b = (b \<in> set cs \<or> bloque_ocupado F b)"
proof -
  let ?ib = "i_block inodo"
  have a: "length ?ib = 15" "cant_bloques (i_size inodo) (block_size (f_sb F)) = Some (word_of_nat k)" "k \<le> 12"
    using A by (simp_all add: archivo_directo_def)
  have um: "unat (word_of_nat m :: u32) = m" using m(3) by (simp add: unat_of_nat_u32)
  have "k + (m - k) \<le> 12" using m by simp
  then obtain cs F1 where
    p: "asignar_bloques (m - k) k (F, inodo) = Some (k + (m - k), 0, F1, con_bloques inodo k cs)" "length cs = m - k" "distinct cs"
      "\<forall>b \<in> set cs. bloque_valido F b \<and> \<not> bloque_ocupado F b" "fs_ok F1" "hay_bloques F1 + (m - k) = hay_bloques F" "solo_mapaB F F1"
      "\<forall>b. bloque_valido F b \<longrightarrow> bloque_ocupado F1 b = (b \<in> set cs \<or> bloque_ocupado F b)"
    by (rule asignar_alcanza [OF ok a(1) _ h])
  let ?x = "(con_bloques inodo k cs)\<lparr>i_size := nuevoTam\<rparr>"
  have n: "k + length cs \<le> 12" "k + length cs = m" using m p(2) by simp_all
  have "cant_bloques nuevoTam (block_size (f_sb F)) = Some (word_of_nat (k + length cs))" using m(1) unfolding n(2) .
  note X = directo_crece [OF p(5) A p(7) n(1) p(3,4,8) this]
  have X1: "archivo_directo F1 ?x m" using X(1) n(2) by simp
  have T: "Inode_truncarArriba F inodo nuevoTam = Some (0, F1, ?x)"
    using a(2) m(1) p(1) um directo_cant [OF A] n(2) p(2) by (simp add: Inode_truncarArriba_def)
  have "drop k (take m (i_block (con_bloques inodo k cs))) = cs" unfolding n(2) [symmetric] X(2) using a(1,3) by simp
  then have D: "drop k (take m (i_block ?x)) = cs" by simp
  have x: "take k (i_block ?x) = take k ?ib" using a(1,3) by simp
  from that [OF T X1 refl n(2) D x p(5,7,6,4,8)] show thesis .
qed

text \<open>
  C9: growing a file of direct blocks is all or nothing. With enough free blocks the file gets the blocks it lacks, each of them free before;
  otherwise the result is the error and the blocks that were given in the meantime are given back: every block of the image is as it was, and
  so are the counter of free blocks and the size of the file. In both cases the blocks the file had stay, and only block bitmaps are written.
\<close>

theorem Inode_truncarArriba_todo_o_nada:
  assumes ok: "fs_ok F" and A: "archivo_directo F inodo k" and m: "cant_bloques nuevoTam (block_size (f_sb F)) = Some (word_of_nat m)" "k \<le> m" "m \<le> 12"
    and bs: "12 * unat (block_size (f_sb F)) < 2 ^ 32"
  shows "\<exists>r F' inodo'. Inode_truncarArriba F inodo nuevoTam = Some (r, F', inodo')
    \<and> fs_ok F' \<and> solo_mapaB F F' \<and> take k (i_block inodo') = take k (i_block inodo)
    \<and> (if m - k \<le> hay_bloques F
       then r = 0 \<and> archivo_directo F' inodo' m \<and> i_size inodo' = nuevoTam \<and> hay_bloques F' + (m - k) = hay_bloques F
         \<and> (\<forall>b. bloque_valido F b \<longrightarrow> bloque_ocupado F' b = (b \<in> set (drop k (take m (i_block inodo'))) \<or> bloque_ocupado F b))
         \<and> (\<forall>b \<in> set (drop k (take m (i_block inodo'))). \<not> bloque_ocupado F b)
       else r = - 1 \<and> archivo_directo F' inodo' k \<and> i_size inodo' = i_size inodo \<and> hay_bloques F' = hay_bloques F
         \<and> (\<forall>b. bloque_valido F b \<longrightarrow> bloque_ocupado F' b = bloque_ocupado F b))"
proof (cases "m - k \<le> hay_bloques F")
  case True
  obtain cs F' inodo' where
    T: "Inode_truncarArriba F inodo nuevoTam = Some (0, F', inodo')" "archivo_directo F' inodo' m"
      "inodo' = (con_bloques inodo k cs)\<lparr>i_size := nuevoTam\<rparr>" "k + length cs = m" "drop k (take m (i_block inodo')) = cs"
      "take k (i_block inodo') = take k (i_block inodo)" "fs_ok F'" "solo_mapaB F F'" "hay_bloques F' + (m - k) = hay_bloques F"
      "\<forall>b \<in> set cs. bloque_valido F b \<and> \<not> bloque_ocupado F b"
      "\<forall>b. bloque_valido F b \<longrightarrow> bloque_ocupado F' b = (b \<in> set cs \<or> bloque_ocupado F b)"
    by (rule truncarArriba_alcanza [OF ok A m True])
  have "i_size inodo' = nuevoTam" "\<forall>b \<in> set cs. \<not> bloque_ocupado F b" using T(3,10) by auto
  note all = T(1,7,8,6,2) this(1) T(9,11) this(2)
  show ?thesis unfolding if_P [OF True]
    by (rule exI [of _ 0], rule exI [of _ F'], rule exI [of _ inodo'], unfold T(5)) (intro conjI refl all)
next
  case False
  then have "hay_bloques F < m - k" by simp
  from truncarArriba_falla [OF assms this] obtain F' inodo' where
    "Inode_truncarArriba F inodo nuevoTam = Some (- 1, F', inodo')" "archivo_directo F' inodo' k"
    "i_size inodo' = i_size inodo" "take k (i_block inodo') = take k (i_block inodo)" "fs_ok F'" "solo_mapaB F F'" "hay_bloques F' = hay_bloques F"
    "\<forall>b. bloque_valido F b \<longrightarrow> bloque_ocupado F' b = bloque_ocupado F b" by blast
  then show ?thesis unfolding if_not_P [OF False] by blast
qed

section \<open>A file for the witnesses\<close>

text \<open>1500 bytes in the blocks 66 and 67 of the example image, where four blocks are free.\<close>

definition inodo_66 :: Inode where
  "inodo_66 = inodo_ej\<lparr>i_block := [66, 67, 0, 0, 0, 0, 0, 0, 0, 0, 0, 0, 0, 0, 0]\<rparr>"

lemma fs_ej_sel: "f_sb fs_ej = sb_ej" "f_bgdt fs_ej = bgdt_ej" "f_ext2fs fs_ej = disco_ej"
  by (simp_all add: fs_ej_def)

lemma directo_66: "archivo_directo fs_ej inodo_66 2" "i_size inodo_66 = 1500" "i_block inodo_66 = [66, 67, 0, 0, 0, 0, 0, 0, 0, 0, 0, 0, 0, 0, 0]"
proof -
  show s: "i_size inodo_66 = 1500" and b: "i_block inodo_66 = [66, 67, 0, 0, 0, 0, 0, 0, 0, 0, 0, 0, 0, 0, 0]"
    by (simp_all add: inodo_66_def inodo_ej_def)
  have "bloque_valido fs_ej 66 \<and> bloque_ocupado fs_ej 66" "bloque_valido fs_ej 67 \<and> bloque_ocupado fs_ej 67"
    by (simp_all add: bloque_valido_def bloque_ocupado_def mapaB_def fs_ej_sel ej_sel ej_vista bits_en_eval disco_ej_def)
  then show "archivo_directo fs_ej inodo_66 2"
    by (simp add: archivo_directo_def s b fs_ej_sel ej_sel cant_bloques_def)
qed

lemma Inode_truncarAbajo_correcto_ej:
  "\<exists>F' inodo'. Inode_truncarAbajo fs_ej inodo_66 1024 = Some (F', inodo') \<and> archivo_directo F' inodo' 1
    \<and> take 1 (i_block inodo') = [66] \<and> fs_ok F' \<and> hay_bloques F' = 5"
  using Inode_truncarAbajo_correcto [OF fs_ok_ej directo_66(1), of 1024 1]
  by (simp add: fs_ej_sel ej_sel cant_bloques_def directo_66(3)) blast

theorem Inode_truncarArriba_todo_o_nada_witness:
  "(\<exists>F' inodo'. Inode_truncarArriba fs_ej inodo_66 6144 = Some (0, F', inodo') \<and> archivo_directo F' inodo' 6 \<and> hay_bloques F' = 0)
   \<and> (\<exists>F' inodo'. Inode_truncarArriba fs_ej inodo_66 7168 = Some (- 1, F', inodo') \<and> archivo_directo F' inodo' 2 \<and> hay_bloques F' = 4)"
  using Inode_truncarArriba_todo_o_nada [OF fs_ok_ej directo_66(1), of 6144 6] Inode_truncarArriba_todo_o_nada [OF fs_ok_ej directo_66(1), of 7168 7]
  by (simp add: fs_ej_sel ej_sel cant_bloques_def) blast

end
