(* ===== verification/Borrado.thy ===== *)
theory Borrado
  imports Creacion Espacio
begin

text \<open>
  The removal of a file, \<^verbatim>\<open>procesarUnlink\<close> of \<^verbatim>\<open>rfs/Rfs.c\<close>, from the client to the image: the entry leaves the directory, the blocks and
  the inode are given back, superblock and descriptor table are written. It is for a file of the root directory with direct
  blocks and one name.
\<close>

section \<open>The steps\<close>

lemma borrar_entrada_bien:
  assumes E: "estable F r inodo ess" and bs: "unat (block_size (f_sb F)) < 65536" and b: "borrar \<noteq> 0"
  obtains F' ess' where "Dir_borrarEntrada F r borrar = Some (0, F')" "estable F' r inodo ess'" "mantiene F F'"
    "map par (listado ess') = quitar_inodo borrar (map par (listado ess))"
proof -
  obtain d ess' where C: "Dir_borrarEntrada F r borrar = Some (0, F\<lparr>f_ext2fs := d\<rparr>)" "directorio (F\<lparr>f_ext2fs := d\<rparr>) r inodo ess'"
    "d = f_ext2fs F \<or> (\<exists>i < length ess. solo_bloque (f_ext2fs F) d (base (block_size (f_sb F)) (i_block inodo ! i)) (unat (block_size (f_sb F))))"
    "map par (listado ess') = quitar_inodo borrar (map par (listado ess))"
    using Dir_borrarEntrada_existe [OF estableD(3) [OF E] bs b] by blast
  show thesis
  proof (cases "d = f_ext2fs F")
    case True
    then have F: "F\<lparr>f_ext2fs := d\<rparr> = F" by simp
    have D': "directorio F r inodo ess'" using C(2) unfolding F .
    have "length ess' = length ess" by (rule directorio_largo [OF estableD(3) [OF E] D' refl])
    then have "estable F r inodo ess'" using E D' by (simp add: estable_def plano_ok_def zona_def)
    moreover have "mantiene F F" by (simp add: mantiene_def)
    ultimately show thesis using that C(1,4) unfolding F by blast
  next
    case False
    then show thesis using that C un_bloque_bien [OF E C(2)] by blast
  qed
qed

text \<open>A step that writes block bitmaps only keeps the rest.\<close>

lemma intacto_mapaB:
  assumes "solo_mapaB F F'" "p + k \<le> dk_len (f_ext2fs F)" "\<forall>g < nGr F. disjuntos p k (addrB F g) (tamB F g)"
  shows "intacto (f_ext2fs F) (f_ext2fs F') p k"
  unfolding intacto_def
proof (intro allI impI)
  fix j assume j: "p \<le> j \<and> j < p + k"
  then have "\<forall>g < nGr F. j < addrB F g \<or> addrB F g + tamB F g \<le> j" using assms(3) unfolding disjuntos_def by fastforce
  then show "dk_byte (f_ext2fs F') j = dk_byte (f_ext2fs F) j" using assms(1,2) j unfolding solo_mapaB_def by auto
qed

lemma estable_mapaB:
  assumes E: "estable F r inodo ess" and ok: "fs_ok F'" and S: "solo_mapaB F F'"
  shows "estable F' r inodo ess" "inodo_valido F m \<Longrightarrow> inodo_en F m = Some x \<Longrightarrow> inodo_en F' m = Some x"
proof -
  note P = estableD(2) [OF E] and D = estableD(3) [OF E] and sel = solo_mapaB_sel [OF S]
  have v: "map bg_inode_table (f_bgdt F') = map bg_inode_table (f_bgdt F)" "dk_len (f_ext2fs F') = dk_len (f_ext2fs F)"
    "addrB F' = addrB F" "tamB F' = tamB F" "addrI F' = addrI F" "tamI F' = tamI F" using S by (simp_all add: solo_mapaB_def)
  have in1: "intacto (f_ext2fs F) (f_ext2fs F') (unat q) 128"
    if "inodo_valido F n" "pos_inodo (s_inodes_per_group (f_sb F)) (f_bgdt F) n (block_size (f_sb F)) = Some q" for n q
    using zona_inodo [OF P that] by (intro intacto_mapaB [OF S]) (simp_all add: zona_def)
  have "directorio F' r inodo ess"
  proof (rule directorio_intacto [OF D sel(2,3) v(1,2)])
    fix i assume i: "i < length ess"
    have "bloque_en (f_ext2fs F) (i_block inodo ! i) (block_size (f_sb F))"
      by (rule dir_enD(1) [OF _ i]) (use D in \<open>simp add: directorio_def\<close>)
    then show "intacto (f_ext2fs F) (f_ext2fs F') (base (block_size (f_sb F)) (i_block inodo ! i)) (unat (block_size (f_sb F)))"
      using P i by (intro intacto_mapaB [OF S]) (simp_all add: plano_ok_def bloque_en_def)
  qed (rule in1 [OF estableD(4) [OF E]])
  moreover have "plano_ok F' inodo ess" by (rule plano_igual [OF P v(2) sel(1) v(3-6) sel(2,3,4) v(1)])
  ultimately show "estable F' r inodo ess" using ok estableD(4) [OF E] sel(7) by (simp add: estable_def)
  show "inodo_en F' m = Some x" if "inodo_valido F m" "inodo_en F m = Some x"
    unfolding sel(2,3) by (rule leerInodo_intacto [OF that(2) v(1,2)]) (rule in1 [OF that(1)])
qed

text \<open>Giving an inode back.\<close>

lemma liberar_inodo_bien:
  assumes E: "estable F r inodo ess" and n: "inodo_valido F n" "inodo_ocupado F n"
  obtains F' where "Grupos_liberarInodoEnBitmap F n = Some F'" "estable F' r inodo ess" "\<forall>m. inodo_valido F' m = inodo_valido F m"
    "\<forall>m. inodo_valido F m \<longrightarrow> inodo_ocupado F' m = (m \<noteq> n \<and> inodo_ocupado F m)"
    "\<forall>b. bloque_valido F' b = bloque_valido F b" "\<forall>b. bloque_valido F b \<longrightarrow> bloque_ocupado F' b = bloque_ocupado F b"
    "\<forall>m x. inodo_valido F m \<longrightarrow> inodo_en F m = Some x \<longrightarrow> inodo_en F' m = Some x"
proof -
  let ?g = "(unat n - 1) div ipg F"
  note ok = estableD(1) [OF E] and P = estableD(2) [OF E]
  from ino.liberar_ok [OF ok n] obtain bs F' where
    p: "Grupos_liberarInodoEnBitmap F n = Some F'" "fs_ok F'" "\<forall>m. inodo_valido F' m = inodo_valido F m"
      "\<forall>m. inodo_valido F m \<longrightarrow> inodo_ocupado F' m = (m \<noteq> n \<and> inodo_ocupado F m)"
    and c: "F' = con_mapaI F ?g bs (bg_free_inodes_count (f_bgdt F ! ?g) + 1) (s_free_inodes_count (f_sb F) + 1)"
      "length bs = tamI F ?g" by blast
  have g: "?g < nGr F" using n(1) by (simp add: inodo_valido_def)
  have "directorio F' r inodo ess" "plano_ok F' inodo ess"
    unfolding c(1) by (rule con_mapaI_plano [OF estableD(1-4) [OF E] g c(2)])+
  then have E': "estable F' r inodo ess" using p(2,3) estableD(4) [OF E] by (simp add: estable_def)
  have v: "\<forall>b. bloque_valido F' b = bloque_valido F b" unfolding c(1) bloque_valido_def con_mapaI_view [OF g] by blast
  have "\<forall>b. bloque_valido F b \<longrightarrow> bloque_ocupado F' b = bloque_ocupado F b" unfolding c(1) using ocupado_ajeno(2) [OF ok g c(2)] by blast
  moreover have "inodo_en F' m = Some x" if m: "inodo_valido F m" "inodo_en F m = Some x" for m x
  proof -
    have len: "dk_len (f_ext2fs F') = dk_len (f_ext2fs F)"
      using mapas_okD(2) [OF fs_okD(3) [OF ok] g] c(2) by (simp add: c(1) con_mapaI_def)
    have sel: "block_size (f_sb F') = block_size (f_sb F)" "s_inodes_per_group (f_sb F') = s_inodes_per_group (f_sb F)"
      "map bg_inode_table (f_bgdt F') = map bg_inode_table (f_bgdt F)" by (simp_all add: c(1) con_mapaI_def map_tabla_update)
    show ?thesis unfolding sel(1,2)
    proof (rule leerInodo_intacto [OF m(2) sel(3) len])
      fix q assume q: "pos_inodo (s_inodes_per_group (f_sb F)) (f_bgdt F) m (block_size (f_sb F)) = Some q"
      show "intacto (f_ext2fs F) (f_ext2fs F') (unat q) 128"
        using zona_inodo [OF P m(1) q] g c(2) by (auto simp: c(1) con_mapaI_def zona_def intro!: intacto_put)
    qed
  qed
  ultimately show thesis using that p(1,3,4) E' v by blast
qed

section \<open>The listing without the entry\<close>

abbreviation nombre_par :: "u32 \<times> u8 list option \<Rightarrow> u8 list" where
  "nombre_par x \<equiv> (case snd x of None \<Rightarrow> [] | Some n \<Rightarrow> hasta_nul n)"

lemma buscar_par_en: "buscar_par L a \<noteq> 0 \<Longrightarrow> buscar_par L a \<in> fst ` set L"
  by (induction L) auto

lemma buscar_par_ajeno: "hasta_nul a \<notin> nombre_par ` set L \<Longrightarrow> buscar_par L a = 0"
  by (induction L) auto

text \<open>With one entry for the inode, and no name twice, removing the inode removes its name and nothing else.\<close>

lemma buscar_par_quita:
  assumes "nombre_ok nombre" "nombre_ok otro" "n \<noteq> 0"
  shows "distinct (map nombre_par L) \<Longrightarrow> buscar_par L nombre = n \<Longrightarrow> length (filter (\<lambda>x. fst x = n) L) = 1 \<Longrightarrow>
    buscar_par (quitar_inodo n L) otro = (if otro = nombre then 0 else buscar_par L otro)"
proof (induction L)
  case (Cons x L)
  have hn: "hasta_nul nombre = nombre" "hasta_nul otro = otro" using assms(1,2) by (simp_all add: nombre_ok_def hasta_nul_sin_nul)
  show ?case
  proof (cases "fst x = n")
    case True
    then have "n \<notin> fst ` set L" using Cons.prems(3) by (auto simp: filter_empty_conv)
    then have "buscar_par L nombre \<noteq> n" using buscar_par_en [of L nombre] assms(3) by auto
    then have nx: "nombre_par x = nombre" using Cons.prems(2) hn by (auto split: if_splits)
    then have "buscar_par L nombre = 0" using Cons.prems(1) hn by (intro buscar_par_ajeno) simp
    then show ?thesis using True nx hn by simp
  next
    case False
    then have "nombre_par x \<noteq> nombre" "buscar_par L nombre = n" using Cons.prems(2) hn by (auto split: if_splits)
    then show ?thesis using False Cons hn by auto
  qed
qed simp

section \<open>Removing a file\<close>

text \<open>
  What a removal leaves, from the server \<open>S\<close> to the server \<open>S'\<close>: the name does not resolve any more and every other one resolves as before; the
  inode and the blocks of the file are free and every other inode and block is as it was; the other inodes have not changed, the
  removed one is cleared; image, counters and memory agree.
\<close>

definition archivo_borrado :: "'c servidor \<Rightarrow> 'c servidor \<Rightarrow> u8 list \<Rightarrow> u32 \<Rightarrow> u32 list \<Rightarrow> bool" where
  "archivo_borrado S S' nombre n bloques \<longleftrightarrow>
    (\<forall>otro. nombre_ok otro \<longrightarrow> sv_buscarPath S' (47 # otro) = (if otro = nombre then Some 0 else sv_buscarPath S (47 # otro)))
    \<and> (\<forall>m. inodo_valido (sv_fs S) m \<longrightarrow> inodo_ocupado (sv_fs S') m = (m \<noteq> n \<and> inodo_ocupado (sv_fs S) m))
    \<and> (\<forall>b. bloque_valido (sv_fs S) b \<longrightarrow> bloque_ocupado (sv_fs S') b = (b \<notin> set bloques \<and> bloque_ocupado (sv_fs S) b))
    \<and> (\<forall>m x. inodo_valido (sv_fs S) m \<longrightarrow> m \<noteq> n \<longrightarrow> sv_leerInodo S m = Some x \<longrightarrow> sv_leerInodo S' m = Some x)
    \<and> (\<exists>x. sv_leerInodo S' n = Some x \<and> i_mode x = 0 \<and> i_links_count x = 0 \<and> i_size x = 0)
    \<and> fs_ok (sv_fs S') \<and> persistido (sv_fs S')"

text \<open>The changes of the image between the locks, with what they keep.\<close>

lemma quitar_archivo:
  assumes E: "estable F r inodo ess" and bs: "unat (block_size (f_sb F)) < 65536"
    and n: "n \<noteq> 0" "n \<noteq> r" "inodo_valido F n" "inodo_ocupado F n" and A: "archivo_directo F x k"
  obtains F1 F2 y F3 d ess' where "Dir_borrarEntrada F r n = Some (0, F1)" "Inode_truncarAbajo F1 x 0 = Some (F2, y)" "i_size y = 0"
    "Grupos_liberarInodoEnBitmap F2 n = Some F3"
    "Inode_escribirInodo (f_ext2fs F3) (s_inodes_per_group (f_sb F3)) (f_bgdt F3) n (block_size (f_sb F3)) (y\<lparr>i_links_count := 0, i_mode := 0\<rparr>) = Some d"
    "estable (F3\<lparr>f_ext2fs := d\<rparr>) r inodo ess'" "map par (listado ess') = quitar_inodo n (map par (listado ess))"
    "inodo_en (F3\<lparr>f_ext2fs := d\<rparr>) n = Some (y\<lparr>i_links_count := 0, i_mode := 0\<rparr>)"
    "\<forall>m. inodo_valido (F3\<lparr>f_ext2fs := d\<rparr>) m = inodo_valido F m" "\<forall>b. bloque_valido (F3\<lparr>f_ext2fs := d\<rparr>) b = bloque_valido F b"
    "\<forall>m. inodo_valido F m \<longrightarrow> inodo_ocupado (F3\<lparr>f_ext2fs := d\<rparr>) m = (m \<noteq> n \<and> inodo_ocupado F m)"
    "\<forall>b. bloque_valido F b \<longrightarrow> bloque_ocupado (F3\<lparr>f_ext2fs := d\<rparr>) b = (b \<notin> set (take k (i_block x)) \<and> bloque_ocupado F b)"
    "\<forall>m z. inodo_valido F m \<longrightarrow> m \<noteq> n \<longrightarrow> inodo_en F m = Some z \<longrightarrow> inodo_en (F3\<lparr>f_ext2fs := d\<rparr>) m = Some z"
proof -
  obtain F1 ess' where 1: "Dir_borrarEntrada F r n = Some (0, F1)" "estable F1 r inodo ess'" "mantiene F F1"
    "map par (listado ess') = quitar_inodo n (map par (listado ess))" by (rule borrar_entrada_bien [OF E bs n(1)])
  have v1: "f_sb F1 = f_sb F" "inodo_valido F1 m = inodo_valido F m" "bloque_valido F1 b = bloque_valido F b" for m b
    using 1(3) by (simp_all add: mantiene_def)
  have A1: "archivo_directo F1 x k" using A v1 mantieneD(3) [OF 1(3)] by (simp add: archivo_directo_def)
  have "block_size (f_sb F) \<noteq> 0" using A by (auto simp: archivo_directo_def cant_bloques_def)
  then have c0: "cant_bloques 0 (block_size (f_sb F1)) = Some (word_of_nat 0)" by (simp add: cant_bloques_def v1)
  let ?y = "(con_bloques x 0 (replicate (k - 0) 0))\<lparr>i_size := 0\<rparr>"
  obtain F2 where 2: "Inode_truncarAbajo F1 x 0 = Some (F2, ?y)" "fs_ok F2" "solo_mapaB F1 F2"
    "\<forall>b. bloque_valido F1 b \<longrightarrow> bloque_ocupado F2 b = (b \<notin> set (drop 0 (take k (i_block x))) \<and> bloque_ocupado F1 b)"
    by (rule truncarAbajo_bien [OF estableD(1) [OF 1(2)] A1 c0 le0])
  have v2: "inodo_valido F2 m = inodo_valido F m" "bloque_valido F2 b = bloque_valido F b" for m b
    using solo_mapaB_sel(6,7) [OF 2(3)] v1 by simp_all
  note E2 = estable_mapaB [OF 1(2) 2(2,3)]
  have o2: "inodo_ocupado F2 m = inodo_ocupado F m" if "inodo_valido F m" for m
    using 2(3) that v1 mantieneD(1) [OF 1(3) that] by (simp add: solo_mapaB_def)
  have "inodo_valido F2 n" "inodo_ocupado F2 n" using n(3,4) v2 o2 by simp_all
  then obtain F3 where
    3: "Grupos_liberarInodoEnBitmap F2 n = Some F3" "estable F3 r inodo ess'" "\<forall>m. inodo_valido F3 m = inodo_valido F2 m"
      "\<forall>m. inodo_valido F2 m \<longrightarrow> inodo_ocupado F3 m = (m \<noteq> n \<and> inodo_ocupado F2 m)"
      "\<forall>b. bloque_valido F3 b = bloque_valido F2 b" "\<forall>b. bloque_valido F2 b \<longrightarrow> bloque_ocupado F3 b = bloque_ocupado F2 b"
      "\<forall>m x. inodo_valido F2 m \<longrightarrow> inodo_en F2 m = Some x \<longrightarrow> inodo_en F3 m = Some x"
    by (rule liberar_inodo_bien [OF E2(1)])
  have "inodo_valido F3 n" using 3(3) v2 n(3) by simp
  moreover have "inode_ok (?y\<lparr>i_links_count := 0, i_mode := 0\<rparr>)" using A by (simp add: inode_ok_def archivo_directo_def)
  ultimately obtain d where
    4: "Inode_escribirInodo (f_ext2fs F3) (s_inodes_per_group (f_sb F3)) (f_bgdt F3) n (block_size (f_sb F3)) (?y\<lparr>i_links_count := 0, i_mode := 0\<rparr>) = Some d"
      "estable (F3\<lparr>f_ext2fs := d\<rparr>) r inodo ess'" "inodo_en (F3\<lparr>f_ext2fs := d\<rparr>) n = Some (?y\<lparr>i_links_count := 0, i_mode := 0\<rparr>)"
      "\<forall>m. inodo_valido F3 m \<longrightarrow> inodo_ocupado (F3\<lparr>f_ext2fs := d\<rparr>) m = inodo_ocupado F3 m"
      "\<forall>b. bloque_valido F3 b \<longrightarrow> bloque_ocupado (F3\<lparr>f_ext2fs := d\<rparr>) b = bloque_ocupado F3 b"
      "\<forall>m z. inodo_valido F3 m \<longrightarrow> m \<noteq> n \<longrightarrow> inodo_en F3 m = Some z \<longrightarrow> inodo_en (F3\<lparr>f_ext2fs := d\<rparr>) m = Some z"
    by (rule escribir_inodo_bien [OF 3(2) _ n(2)])
  show thesis
  proof (rule that [OF 1(1) 2(1) _ 3(1) 4(1,2) 1(4) 4(3)])
    show "\<forall>m. inodo_valido (F3\<lparr>f_ext2fs := d\<rparr>) m = inodo_valido F m" "\<forall>b. bloque_valido (F3\<lparr>f_ext2fs := d\<rparr>) b = bloque_valido F b"
      using 3(3,5) v2 by (simp_all add: valido_disco)
    show "\<forall>m. inodo_valido F m \<longrightarrow> inodo_ocupado (F3\<lparr>f_ext2fs := d\<rparr>) m = (m \<noteq> n \<and> inodo_ocupado F m)"
      using 4(4) 3(3,4) v2 o2 by simp
    show "\<forall>b. bloque_valido F b \<longrightarrow> bloque_ocupado (F3\<lparr>f_ext2fs := d\<rparr>) b = (b \<notin> set (take k (i_block x)) \<and> bloque_ocupado F b)"
      using 4(5) 3(5,6) 2(4) v1 v2 mantieneD(3) [OF 1(3)] by simp
    show "\<forall>m z. inodo_valido F m \<longrightarrow> m \<noteq> n \<longrightarrow> inodo_en F m = Some z \<longrightarrow> inodo_en (F3\<lparr>f_ext2fs := d\<rparr>) m = Some z"
    proof (intro allI impI)
      fix m z assume m: "inodo_valido F m" "m \<noteq> n" "inodo_en F m = Some z"
      have "inodo_en F1 m = Some z" by (rule mantieneD(2) [OF 1(3) m(1,3)])
      then have "inodo_en F2 m = Some z" using E2(2) [of m z] v1 m(1) by blast
      then have "inodo_en F3 m = Some z" using 3(7) v2 m(1) by blast
      then show "inodo_en (F3\<lparr>f_ext2fs := d\<rparr>) m = Some z" using 4(6) 3(3) v2 m(1,2) by blast
    qed
  qed simp
qed

lemma procesarUnlink_pasos:
  assumes "separarPath buffer = Some \<lparr>pathDir = [47], nombreArch = nombre\<rparr>" "sv_buscarPath S buffer = Some n" "n \<noteq> 0"
    and "Sincro_monitorLock INODO_RAIZ (sv_monitor S) TIPOWRITE = Some l" "Sincro_monitorLock n l TIPOWRITE = Some l2"
    and "sv_leerInodo S n = Some x" "i_mode x \<noteq> 0" "Dir_borrarEntrada (sv_fs S) INODO_RAIZ n = Some (0, F1)"
    and "Inode_truncarAbajo F1 x 0 = Some (F2, y)" "Grupos_liberarInodoEnBitmap F2 n = Some F3"
    and "Inode_escribirInodo (f_ext2fs F3) (s_inodes_per_group (f_sb F3)) (f_bgdt F3) n (block_size (f_sb F3)) (y\<lparr>i_links_count := 0, i_mode := 0\<rparr>) = Some d"
    and "serializar_Result_Rta 0 TIPOUNLINK = Some envio" "lee envio 0 7 = Some envio"
    and "sv_guardar (S\<lparr>sv_fs := F3\<lparr>f_ext2fs := d\<rparr>, sv_monitor := Sincro_monitorUnlock INODO_RAIZ (Sincro_monitorUnlock n l2)\<rparr>) = Some S'"
  shows "procesarUnlink S buffer = Some (S', envio)"
  using assms by (simp add: procesarUnlink_def buscarPath_barra sv_lock_def sv_unlock_def sv_escribirInodo_def INODO_RAIZ_def)

lemma procesarUnlink_bien:
  assumes E: "estable (sv_fs S) INODO_RAIZ inodo ess" and bs: "unat (sv_bs S) < 65536"
    and nom: "nombre_ok nombre" "length nombre < 256" and buffer: "hasta_nul buffer = 47 # nombre"
    and n: "sv_buscarPath S (47 # nombre) = Some n" "n \<noteq> 0" "n \<noteq> INODO_RAIZ" "inodo_valido (sv_fs S) n" "inodo_ocupado (sv_fs S) n"
    and x: "sv_leerInodo S n = Some x" "i_mode x \<noteq> 0" "archivo_directo (sv_fs S) x k"
    and uno: "distinct (map nombre_par (map par (listado ess)))" "length (filter (\<lambda>y. fst y = n) (map par (listado ess))) = 1"
    and mon: "Sincro_monitorLock INODO_RAIZ (sv_monitor S) TIPOWRITE = Some l" "Sincro_monitorLock n l TIPOWRITE = Some l2"
  obtains S' envio where "procesarUnlink S buffer = Some (S', envio)" "serializar_Result_Rta 0 TIPOUNLINK = Some envio"
    "archivo_borrado S S' nombre n (take k (i_block x))" "sv_monitor S' = Sincro_monitorUnlock INODO_RAIZ (Sincro_monitorUnlock n l2)"
proof -
  obtain F1 F2 y F3 d ess' where Q: "Dir_borrarEntrada (sv_fs S) INODO_RAIZ n = Some (0, F1)" "Inode_truncarAbajo F1 x 0 = Some (F2, y)" "i_size y = 0"
    "Grupos_liberarInodoEnBitmap F2 n = Some F3"
    "Inode_escribirInodo (f_ext2fs F3) (s_inodes_per_group (f_sb F3)) (f_bgdt F3) n (block_size (f_sb F3)) (y\<lparr>i_links_count := 0, i_mode := 0\<rparr>) = Some d"
    "estable (F3\<lparr>f_ext2fs := d\<rparr>) INODO_RAIZ inodo ess'" "map par (listado ess') = quitar_inodo n (map par (listado ess))"
    "inodo_en (F3\<lparr>f_ext2fs := d\<rparr>) n = Some (y\<lparr>i_links_count := 0, i_mode := 0\<rparr>)"
    "\<forall>m. inodo_valido (F3\<lparr>f_ext2fs := d\<rparr>) m = inodo_valido (sv_fs S) m" "\<forall>b. bloque_valido (F3\<lparr>f_ext2fs := d\<rparr>) b = bloque_valido (sv_fs S) b"
    "\<forall>m. inodo_valido (sv_fs S) m \<longrightarrow> inodo_ocupado (F3\<lparr>f_ext2fs := d\<rparr>) m = (m \<noteq> n \<and> inodo_ocupado (sv_fs S) m)"
    "\<forall>b. bloque_valido (sv_fs S) b \<longrightarrow> bloque_ocupado (F3\<lparr>f_ext2fs := d\<rparr>) b = (b \<notin> set (take k (i_block x)) \<and> bloque_ocupado (sv_fs S) b)"
    "\<forall>m z. inodo_valido (sv_fs S) m \<longrightarrow> m \<noteq> n \<longrightarrow> inodo_en (sv_fs S) m = Some z \<longrightarrow> inodo_en (F3\<lparr>f_ext2fs := d\<rparr>) m = Some z"
    by (rule quitar_archivo [OF E bs n(2-5) x(3)])
  define F4 where "F4 = F3\<lparr>f_ext2fs := d\<rparr>"
  note Q4 = Q(6-13) [folded F4_def]
  let ?S3 = "S\<lparr>sv_fs := F4, sv_monitor := Sincro_monitorUnlock INODO_RAIZ (Sincro_monitorUnlock n l2)\<rparr>"
  have "estable (sv_fs ?S3) INODO_RAIZ inodo ess'" using Q4(1) by simp
  then obtain F5 where G: "sv_guardar ?S3 = Some (?S3\<lparr>sv_fs := F5\<rparr>)" "estable F5 INODO_RAIZ inodo ess'" "mantiene (sv_fs ?S3) F5" "persistido F5"
    by (rule persistir_bien)
  let ?S' = "?S3\<lparr>sv_fs := F5\<rparr>"
  have M: "mantiene F4 F5" using G(3) by simp
  obtain envio where e: "serializar_Result_Rta 0 TIPOUNLINK = Some envio" "lee envio 0 7 = Some envio"
    by (simp add: serializar_Result_Rta_def serializar_Nipc_def lee_def)
  have "sv_buscarPath S buffer = Some n" using n(1) unfolding buffer [symmetric] buscarPath_hasta .
  moreover have "sv_guardar (S\<lparr>sv_fs := F3\<lparr>f_ext2fs := d\<rparr>, sv_monitor := Sincro_monitorUnlock INODO_RAIZ (Sincro_monitorUnlock n l2)\<rparr>) = Some ?S'"
    using G(1) by (simp only: F4_def)
  ultimately have C: "procesarUnlink S buffer = Some (?S', envio)"
    by (rule procesarUnlink_pasos [OF separar_bajo_raiz [OF buffer nom] _ n(2) mon x(1,2) Q(1,2,4,5) e])
  have look: "sv_buscarPath ?S' (47 # otro) = (if otro = nombre then Some 0 else sv_buscarPath S (47 # otro))" if "nombre_ok otro" for otro
    using buscarPath_raiz [OF estableD(3) [OF E] that] buscarPath_raiz [OF estableD(3) [OF E] nom(1)] buscarPath_raiz [OF estableD(3) [OF G(2)] that]
      buscar_par_quita [OF nom(1) that n(2) uno(1) _ uno(2)] n(1) Q4(2) by simp
  have "\<forall>m. inodo_valido (sv_fs S) m \<longrightarrow> inodo_ocupado F5 m = (m \<noteq> n \<and> inodo_ocupado (sv_fs S) m)"
    using mantieneD(1) [OF M] Q4(4,6) by simp
  moreover have "\<forall>b. bloque_valido (sv_fs S) b \<longrightarrow> bloque_ocupado F5 b = (b \<notin> set (take k (i_block x)) \<and> bloque_ocupado (sv_fs S) b)"
    using mantieneD(3) [OF M] Q4(5,7) by simp
  moreover have "\<forall>m z. inodo_valido (sv_fs S) m \<longrightarrow> m \<noteq> n \<longrightarrow> inodo_en (sv_fs S) m = Some z \<longrightarrow> inodo_en F5 m = Some z"
    using mantieneD(2) [OF M] Q4(4,8) by blast
  moreover have "inodo_en F5 n = Some (y\<lparr>i_links_count := 0, i_mode := 0\<rparr>)" by (rule mantieneD(2) [OF M _ Q4(3)]) (use Q4(4) n(4) in simp)
  ultimately have "archivo_borrado S ?S' nombre n (take k (i_block x))"
    using look Q(3) estableD(1) [OF G(2)] G(4) unfolding archivo_borrado_def by simp
  then show thesis using that [OF C e(1)] by simp
qed

text \<open>
  C4: removing a file from the client. For a file of the root directory with direct blocks, one name and no name of the directory twice, the
  operation of the client returns success; on the server the name is gone and every other path under the root resolves as before, the
  inode and the blocks of the file are free and no other inode or block changes its state, image and memory agree and both locks are given
  back; on the client what was cached of the file and of its directory is dropped, and the socket is back in the pool.
\<close>

theorem borrado_remoto:
  fixes C :: "('a, 'c servidor) cliente"
  defines "S \<equiv> cl_remoto C"
  assumes E: "estable (sv_fs S) INODO_RAIZ inodo ess" and bs: "unat (sv_bs S) < 65536" and nom: "nombre_ok nombre" "length nombre < 256"
    and n: "sv_buscarPath S (47 # nombre) = Some n" "n \<noteq> 0" "n \<noteq> INODO_RAIZ" "inodo_valido (sv_fs S) n" "inodo_ocupado (sv_fs S) n"
    and x: "sv_leerInodo S n = Some x" "i_mode x \<noteq> 0" "archivo_directo (sv_fs S) x k"
    and uno: "distinct (map nombre_par (map par (listado ess)))" "length (filter (\<lambda>y. fst y = n) (map par (listado ess))) = 1"
    and mon: "Sincro_monitorLock INODO_RAIZ (sv_monitor S) TIPOWRITE = Some l" "Sincro_monitorLock n l TIPOWRITE = Some l2"
    and pool: "cl_pool C = s # ss"
  shows "\<exists>C'. fsc_unlink M (servir A M') C (47 # nombre) = Some (0, C') \<and> archivo_borrado S (cl_remoto C') nombre n (take k (i_block x))
    \<and> sv_monitor (cl_remoto C') = Sincro_monitorUnlock INODO_RAIZ (Sincro_monitorUnlock n l2)
    \<and> borrarCacheDirectorios M (47 # nombre) (cl_cache C) = Some (cl_cache C') \<and> cl_pool C' = ss @ [s]"
proof -
  let ?path = "47 # nombre"
  obtain S' envio where R: "procesarUnlink S (?path @ [0]) = Some (S', envio)" "serializar_Result_Rta 0 TIPOUNLINK = Some envio"
    "archivo_borrado S S' nombre n (take k (i_block x))" "sv_monitor S' = Sincro_monitorUnlock INODO_RAIZ (Sincro_monitorUnlock n l2)"
    by (rule procesarUnlink_bien [OF E bs nom hasta_nul_path [OF nom(1)] n x uno mon])
  have len: "length ?path < 65000" using nom(2) by simp
  have at: "atender A M' (cl_remoto C) \<lparr>p_client = 0, p_buffer = ?path @ [0], p_tipoPaquete = TIPOUNLINK, p_payloadLength = word_of_nat (length (?path @ [0]))\<rparr>
      = Some (S', envio)"
    using R(1) by (simp add: atender_def Let_def S_def TIPOGETATTR_def TIPOREADDIR_def TIPOREAD_def TIPOOPEN_def TIPOTRUNCATE_def
        TIPOWRITE_def TIPOCREATE_def TIPOUNLINK_def)
  obtain pk pl where I: "serializar_path ?path TIPOUNLINK = Some pk" "deserializar_Result_Rta pl = Some 0"
    "intercambio (servir A M') C pk (tam_pedido ?path 0) TIPOUNLINK = Some (Some (4, pl), C\<lparr>cl_pool := ss @ [s], cl_remoto := S'\<rparr>)"
    by (rule intercambio_path [OF pool len at R(2)])
  obtain c where c: "borrarCacheDirectorios M ?path (cl_cache C) = Some c" by (rule borrarCache_bajo_raiz [OF nom])
  then have "fsc_unlink M (servir A M') C ?path = Some (0, C\<lparr>cl_pool := ss @ [s], cl_remoto := S', cl_cache := c\<rparr>)"
    using I by (simp add: fsc_unlink_def)
  then show ?thesis using R(3,4) c by (intro exI conjI) auto
qed

section \<open>The example\<close>

text \<open>The root directory in block 68 and, under the name \<open>a\<close>, the file of inode 3 with the blocks 66 and 67.\<close>

definition dir_68 :: "Dir list" where
  "dir_68 = [\<lparr>d_inode = 2, d_rec_len = 12, d_name_len = 1, d_filetype = 0, d_name = Some [46]\<rparr>,
             \<lparr>d_inode = 3, d_rec_len = 1012, d_name_len = 1, d_filetype = 0, d_name = Some [97]\<rparr>]"

definition inodo_68 :: Inode where
  "inodo_68 = inodo_ej\<lparr>i_mode := 0x41ED, i_size := 1024, i_block := [68, 0, 0, 0, 0, 0, 0, 0, 0, 0, 0, 0, 0, 0, 0]\<rparr>"

definition bytes_68 :: "u8 list" where
  "bytes_68 = [2, 0, 0, 0, 12, 0, 1, 0, 46, 0, 0, 0, 3, 0, 0, 0, 0xF4, 3, 1, 0, 97]"

definition disco_68 :: disk where
  "disco_68 = put_bytes (put_bytes (put_bytes disco_ej 10368 (enc_Inode inodo_68)) 10496 (enc_Inode inodo_66)) 69632 bytes_68"

definition fs_68 :: fs where
  "fs_68 = fs_ej\<lparr>f_ext2fs := disco_68\<rparr>"

lemma largos_68: "length (enc_Inode inodo_68) = 128" "length (enc_Inode inodo_66) = 128" "length bytes_68 = 21"
  "dec_Inode (enc_Inode inodo_68) = inodo_68" "dec_Inode (enc_Inode inodo_66) = inodo_66"
  by (simp_all add: inc.enc_width inc.dec_enc inode_ok_def inodo_68_def inodo_66_def bytes_68_def)

lemma fs_68_sel: "f_sb fs_68 = sb_ej" "f_bgdt fs_68 = bgdt_ej" "f_ext2fs fs_68 = disco_68" "dk_len disco_68 = 102400"
  "i_block inodo_68 ! 0 = 68" "i_size inodo_68 = 1024" "i_mode inodo_68 \<noteq> 0" "i_mode inodo_66 \<noteq> 0"
  by (simp_all add: fs_68_def fs_ej_def disco_68_def ej_sel largos_68) (simp_all add: inodo_68_def inodo_66_def inodo_ej_def)

lemma vista_68: "addrB fs_68 = addrB fs_ej" "tamB fs_68 = tamB fs_ej" "addrI fs_68 = addrI fs_ej" "tamI fs_68 = tamI fs_ej"
  by (simp_all add: fs_68_def fun_eq_iff addrB_def tamB_def addrI_def tamI_def)

lemma leer_68: "Inode_leerInodo disco_68 64 bgdt_ej 2 1024 = Some inodo_68" "Inode_leerInodo disco_68 64 bgdt_ej 3 1024 = Some inodo_66"
proof -
  have "bytes_at disco_68 10368 128 = enc_Inode inodo_68" "bytes_at disco_68 10496 128 = enc_Inode inodo_66"
    unfolding disco_68_def by (simp_all add: bytes_at_put_disj ej_sel largos_68)
  moreover have "pos_inodo 64 bgdt_ej 3 1024 = Some 10496" by (simp add: pos_inodo_def ej_sel ej_tabla)
  ultimately show "Inode_leerInodo disco_68 64 bgdt_ej 2 1024 = Some inodo_68" "Inode_leerInodo disco_68 64 bgdt_ej 3 1024 = Some inodo_66"
    by (simp_all add: Inode_leerInodo_def pos_dir_ej disk_read_def fs_68_sel largos_68)
qed

lemma etiquetas_68: "map etiqueta dir_68 = [[2, 0, 0, 0, 12, 0, 1, 0], [3, 0, 0, 0, 0xF4, 3, 1, 0]]"
  by code_simp

lemma entradas_68: "entradas_en disco_68 69632 1024 0 dir_68"
  using etiquetas_68 by (simp add: disco_68_def bytes_68_def dir_68_def entrada_en_def bytes_at_def upt_rec put_bytes_def)

lemma directorio_68: "directorio fs_68 2 inodo_68 [dir_68]"
proof -
  have "\<forall>e \<in> set dir_68. entrada_ok e" by (simp add: dir_68_def entrada_ok_def)
  then have "dir_en disco_68 1024 inodo_68 [dir_68]"
    using entradas_68 by (simp add: dir_en_def cant_bloques_def fs_68_sel bloque_en_def)
  then show ?thesis using leer_68(1) by (simp add: directorio_def fs_68_sel ej_sel pos_dir_ej)
qed

lemma intacto_68:
  assumes "disjuntos p n 10368 128" "disjuntos p n 10496 128" "disjuntos p n 69632 21" "p + n \<le> 102400"
  shows "intacto disco_ej disco_68 p n"
proof -
  let ?d1 = "put_bytes disco_ej 10368 (enc_Inode inodo_68)"
  let ?d2 = "put_bytes ?d1 10496 (enc_Inode inodo_66)"
  have l: "dk_len ?d1 = 102400" "dk_len ?d2 = 102400" by (simp_all add: largos_68 ej_sel)
  have "intacto disco_ej ?d1 p n" by (rule intacto_put) (simp_all add: largos_68 ej_sel assms)
  moreover have "intacto ?d1 ?d2 p n" by (rule intacto_put) (simp_all only: largos_68 l assms)
  moreover have "intacto ?d2 disco_68 p n" unfolding disco_68_def by (rule intacto_put) (simp_all only: largos_68 l assms)
  ultimately show ?thesis by (blast intro: intacto_trans)
qed

lemma fs_68_ok: "fs_ok fs_68" "inodo_valido fs_68 2" "inodo_valido fs_68 3" "inodo_ocupado fs_68 3" "archivo_directo fs_68 inodo_66 2"
proof -
  have len: "dk_len disco_68 = dk_len (f_ext2fs fs_ej)" by (simp add: fs_ej_sel fs_68_sel ej_sel)
  have "\<forall>g < 2. intacto disco_ej disco_68 (addrB fs_ej g) (tamB fs_ej g) \<and> intacto disco_ej disco_68 (addrI fs_ej g) (tamI fs_ej g)"
    by (simp add: All_less_2 ej_vista intacto_68 disjuntos_def)
  then have "intacto (f_ext2fs fs_ej) disco_68 (addrB fs_ej g) (tamB fs_ej g) \<and> intacto (f_ext2fs fs_ej) disco_68 (addrI fs_ej g) (tamI fs_ej g)"
    if "g < nGr fs_ej" for g using that by (simp add: fs_ej_sel ej_sel)
  note I = fs_ok_intacto [OF fs_ok_ej len this, folded fs_68_def]
  show "fs_ok fs_68" using I(1) .
  have v: "inodo_valido fs_ej 2" "inodo_valido fs_ej 3" "inodo_ocupado fs_ej 3"
    by (simp_all add: inodo_valido_def inodo_ocupado_def fs_ej_sel ej_sel ej_vista mapaI_def bits_en_eval disco_ej_def)
  then show "inodo_valido fs_68 2" "inodo_valido fs_68 3" unfolding fs_68_def by (simp_all add: valido_disco)
  show "inodo_ocupado fs_68 3" using I(2) v(2,3) by simp
  have b: "bloque_valido fs_68 b = bloque_valido fs_ej b" for b unfolding fs_68_def by (simp add: valido_disco)
  show "archivo_directo fs_68 inodo_66 2"
    using directo_66(1) I(3) unfolding archivo_directo_def b by (simp add: fs_68_sel fs_ej_sel)
qed

lemma estable_68: "estable fs_68 2 inodo_68 [dir_68]"
proof -
  have "plano_ok fs_68 inodo_68 [dir_68]"
    using tabla_ok_ej by (simp add: plano_ok_def zona_def fs_68_sel ej_sel ej_tabla vista_68 ej_vista All_less_2 disjuntos_def)
  then show ?thesis using fs_68_ok(1,2) directorio_68 by (simp add: estable_def)
qed

theorem borrado_remoto_witness:
  "\<exists>C'. fsc_unlink mem_mapa (servir ilp32_server mem_mapa)
      \<lparr>cl_cache = Map.empty, cl_pool = [5, 6], cl_remoto = \<lparr>sv_fs = fs_68, sv_cache = Map.empty, sv_monitor = []\<rparr>\<rparr> [47, 97] = Some (0, C')
    \<and> archivo_borrado \<lparr>sv_fs = fs_68, sv_cache = Map.empty, sv_monitor = []\<rparr> (cl_remoto C') [97] 3 [66, 67]
    \<and> sv_monitor (cl_remoto C') = [] \<and> cl_pool C' = [6, 5]"
proof -
  let ?S = "\<lparr>sv_fs = fs_68, sv_cache = (Map.empty :: u8 list \<Rightarrow> u8 list option), sv_monitor = []\<rparr>"
  let ?C = "\<lparr>cl_cache = (Map.empty :: u8 list \<Rightarrow> u8 list option), cl_pool = [5, 6 :: int], cl_remoto = ?S\<rparr>"
  have E: "estable (sv_fs (cl_remoto ?C)) INODO_RAIZ inodo_68 [dir_68]" using estable_68 by (simp add: INODO_RAIZ_def)
  have b: "sv_buscarPath (cl_remoto ?C) (47 # [97]) = Some 3"
    using buscarPath_raiz [OF estableD(3) [OF E], of "[97]"] by (simp add: nombre_ok_def dir_68_def hasta_nul_def)
  have x: "sv_leerInodo (cl_remoto ?C) 3 = Some inodo_66" using leer_68(2) by (simp add: fs_68_sel ej_sel)
  have u: "distinct (map nombre_par (map par (listado [dir_68])))" "length (filter (\<lambda>y. fst y = 3) (map par (listado [dir_68]))) = 1"
    by (simp_all add: dir_68_def hasta_nul_def)
  obtain l l2 where l: "Sincro_monitorLock INODO_RAIZ (sv_monitor (cl_remoto ?C)) TIPOWRITE = Some l" "Sincro_monitorLock 3 l TIPOWRITE = Some l2"
    "Sincro_monitorUnlock INODO_RAIZ (Sincro_monitorUnlock 3 l2) = []"
    by (simp add: Sincro_monitorLock_def INODO_RAIZ_def TIPOWRITE_def rwlock_tomar_def TIPOREAD_def rwlock_init_def)
  have t: "take 2 (i_block inodo_66) = [66, 67]" by (simp add: directo_66(3))
  from borrado_remoto [OF E _ _ _ b _ _ _ _ x _ _ u l(1,2), where M = mem_mapa and M' = mem_mapa and A = ilp32_server and k = 2]
  have "\<exists>C'. fsc_unlink mem_mapa (servir ilp32_server mem_mapa) ?C [47, 97] = Some (0, C') \<and> archivo_borrado ?S (cl_remoto C') [97] 3 [66, 67]
      \<and> sv_monitor (cl_remoto C') = Sincro_monitorUnlock INODO_RAIZ (Sincro_monitorUnlock 3 l2) \<and> cl_pool C' = [6, 5]"
    using fs_68_ok unfolding t by (auto simp: fs_68_sel ej_sel nombre_ok_def INODO_RAIZ_def)
  then show ?thesis unfolding l(3) .
qed

end
