(* ===== verification/Escritura.thy ===== *)
theory Escritura
  imports Contenido
begin

text \<open>
  Writing to a file, \<^verbatim>\<open>Dir_escribirArchivo\<close> of \<^verbatim>\<open>rfs/Dir.c\<close>, from the start of a block: the bytes arrive where they belong, no other byte of the
  file changes, and what is stored in the cache agrees with the image. A write that starts inside a block loses this, which
  \<open>Contenido\<close> shows.
\<close>

section \<open>Bytes of a file of direct blocks\<close>

text \<open>
  \<open>bloques_ok\<close>: the first \<open>K\<close> blocks of the file are different blocks of the image, of those that \<open>P\<close> names. \<open>borde_ok\<close>: after a whole number
  of blocks the code turns to the block behind, for nothing, so what the next pointer names has to be such a block too.
  \<open>escrito\<close>: the bytes from \<open>off\<close> on are \<open>xs\<close>, the others of the \<open>K\<close> blocks are the old ones, and outside these blocks the image is as it was.
\<close>

definition bloques_ok :: "disk \<Rightarrow> (u32 \<Rightarrow> bool) \<Rightarrow> Inode \<Rightarrow> u32 \<Rightarrow> nat \<Rightarrow> bool" where
  "bloques_ok d P inodo bs K \<longleftrightarrow> K \<le> 11 \<and> K \<le> length (i_block inodo) \<and> distinct (take K (i_block inodo))
     \<and> (\<forall>i < K. bloque_en d (i_block inodo ! i) bs \<and> P (i_block inodo ! i))"

definition borde_ok :: "disk \<Rightarrow> (u32 \<Rightarrow> bool) \<Rightarrow> Inode \<Rightarrow> u32 \<Rightarrow> nat \<Rightarrow> bool" where
  "borde_ok d P inodo bs K \<longleftrightarrow> bloque_en d (i_block inodo ! K) bs \<and> P (i_block inodo ! K)"

definition escrito :: "disk \<Rightarrow> disk \<Rightarrow> Inode \<Rightarrow> u32 \<Rightarrow> nat \<Rightarrow> nat \<Rightarrow> u8 list \<Rightarrow> bool" where
  "escrito d d' inodo bs K off xs \<longleftrightarrow> dk_len d' = dk_len d \<and> (\<forall>j < K * unat bs. byte_de d' inodo bs j =
     (if off \<le> j \<and> j < off + length xs then xs ! (j - off) else byte_de d inodo bs j))
     \<and> (\<forall>p < dk_len d. (\<forall>i < K. p < base bs (i_block inodo ! i) \<or> base bs (i_block inodo ! i) + unat bs \<le> p) \<longrightarrow> dk_byte d' p = dk_byte d p)"

text \<open>What the cache may hold: blocks of the image that \<open>P\<close> names, with their bytes.\<close>

definition coherente_dentro :: "disk \<Rightarrow> (u32 \<Rightarrow> bool) \<Rightarrow> u32 \<Rightarrow> (u8 list \<Rightarrow> u8 list option) \<Rightarrow> bool" where
  "coherente_dentro d P bs m \<longleftrightarrow> coherente d bs m
     \<and> (\<forall>b. m (cache_armarClaveServer b) \<noteq> None \<longrightarrow> P b \<and> base bs b + unat bs \<le> dk_len d)"

lemma escrito_append:
  assumes "escrito d d1 inodo bs K off xs" "escrito d1 d2 inodo bs K (off + length xs) ys"
  shows "escrito d d2 inodo bs K off (xs @ ys)"
  using assms by (auto simp: escrito_def nth_append)

lemma byte_directo: "j div unat bs < 12 \<Longrightarrow> byte_de d inodo bs j = dk_byte d (base bs (i_block inodo ! (j div unat bs)) + j mod unat bs)"
  by (simp add: byte_de_def leerBloque_directo)

lemma bloques_ok_len:
  "bloques_ok d P inodo bs K \<Longrightarrow> dk_len d' = dk_len d \<Longrightarrow> bloques_ok d' P inodo bs K" "borde_ok d P inodo bs K \<Longrightarrow> dk_len d' = dk_len d \<Longrightarrow> borde_ok d' P inodo bs K"
  by (simp_all add: bloques_ok_def borde_ok_def bloque_en_def)

lemma bloques_okD:
  assumes "bloques_ok d P inodo bs K"
  shows "k < K \<Longrightarrow> bloque_en d (i_block inodo ! k) bs" "k < K \<Longrightarrow> P (i_block inodo ! k)"
    "i < K \<Longrightarrow> j < K \<Longrightarrow> i \<noteq> j \<Longrightarrow> i_block inodo ! i \<noteq> i_block inodo ! j"
proof -
  show "k < K \<Longrightarrow> bloque_en d (i_block inodo ! k) bs" "k < K \<Longrightarrow> P (i_block inodo ! k)" using assms by (simp_all add: bloques_ok_def)
  have "distinct (take K (i_block inodo))" "K \<le> length (i_block inodo)" using assms by (simp_all add: bloques_ok_def)
  then show "i < K \<Longrightarrow> j < K \<Longrightarrow> i \<noteq> j \<Longrightarrow> i_block inodo ! i \<noteq> i_block inodo ! j"
    by (auto simp: distinct_conv_nth)
qed

text \<open>One block: at most a block of bytes at its start.\<close>

lemma escrito_bloque:
  assumes B: "bloques_ok d P inodo bs K" and k: "k < K \<or> xs = []" and xs: "length xs \<le> unat bs"
  shows "escrito d (put_bytes d (base bs (i_block inodo ! k)) xs) inodo bs K (k * unat bs) xs"
proof (cases "xs = []")
  case False
  let ?b = "i_block inodo ! k" and ?d = "put_bytes d (base bs (i_block inodo ! k)) xs"
  have K: "K \<le> 11" "k < K" using B k False by (simp_all add: bloques_ok_def)
  have en: "bloque_en d (i_block inodo ! i) bs" if "i < K" for i by (rule bloques_okD(1) [OF B]) (use that in simp)
  then have b0: "0 < unat bs" using K(2) by (auto simp: bloque_en_def)
  have len: "dk_len ?d = dk_len d" using bloque_en_limite [OF en [OF K(2)]] xs by simp
  have "byte_de ?d inodo bs j = (if k * unat bs \<le> j \<and> j < k * unat bs + length xs then xs ! (j - k * unat bs) else byte_de d inodo bs j)"
    if j: "j < K * unat bs" for j
  proof -
    let ?i = "j div unat bs" and ?r = "j mod unat bs"
    have i: "?i < K" using j b0 by (simp add: div_less_iff_less_mult)
    have r: "?r < unat bs" "j = ?i * unat bs + ?r" using b0 by simp_all
    have e: "byte_de d' inodo bs j = dk_byte d' (base bs (i_block inodo ! ?i) + ?r)" for d' by (rule byte_directo) (use i K(1) in simp)
    have lim: "base bs (i_block inodo ! ?i) + ?r < dk_len d" using bloque_en_limite [OF en [OF i]] r(1) by simp
    show ?thesis
    proof (cases "?i = k")
      case True
      have "j = k * unat bs + ?r" using r(2) unfolding True .
      then have "j - k * unat bs = ?r" "k * unat bs \<le> j \<and> j < k * unat bs + length xs \<longleftrightarrow> ?r < length xs" by linarith+
      moreover have "i_block inodo ! ?i = ?b" using True by simp
      ultimately show ?thesis using False lim unfolding e by (simp add: put_bytes_def)
    next
      case ne: False
      have "base bs (i_block inodo ! ?i) + unat bs \<le> base bs ?b \<or> base bs ?b + unat bs \<le> base bs (i_block inodo ! ?i)"
        by (rule bloques_disj) (rule bloques_okD(3) [OF B i K(2) ne])
      then have "dk_byte ?d (base bs (i_block inodo ! ?i) + ?r) = dk_byte d (base bs (i_block inodo ! ?i) + ?r)"
        using r(1) xs lim by (intro dk_byte_put_outside) auto
      moreover have "\<not> (k * unat bs \<le> j \<and> j < k * unat bs + length xs)"
      proof
        assume "k * unat bs \<le> j \<and> j < k * unat bs + length xs"
        then have "k * unat bs \<le> j" "j < Suc k * unat bs" using xs by simp_all
        then have "j div unat bs = k" by (intro div_nat_eqI) (simp_all add: mult.commute)
        with ne show False by simp
      qed
      ultimately show ?thesis unfolding e by (simp only: if_False)
    qed
  qed
  moreover have "dk_byte ?d p = dk_byte d p" if "p < dk_len d" "p < base bs ?b \<or> base bs ?b + unat bs \<le> p" for p
    using that xs by (intro dk_byte_put_outside) auto
  ultimately show ?thesis using len K(2) by (simp add: escrito_def)
next
  case True
  then show ?thesis unfolding escrito_def by (auto simp: put_bytes_def)
qed

lemma coherente_escribe:
  assumes C: "coherente_dentro d P bs m" and b: "bloque_en d b bs" "P b" and xs: "length xs \<le> unat bs" and d': "d' = put_bytes d (base bs b) xs"
  shows "coherente_dentro d' P bs (m(cache_armarClaveServer b \<mapsto> bytes_at d' (base bs b) (unat bs)))"
proof -
  have len: "dk_len d' = dk_len d" using bloque_en_limite [OF b(1)] xs by (simp add: d')
  have "v = bytes_at d' (base bs a) (unat bs)" if v: "m (cache_armarClaveServer a) = Some v" and ab: "a \<noteq> b" for a v
  proof -
    have "v = bytes_at d (base bs a) (unat bs)" "base bs a + unat bs \<le> dk_len d" using C v by (auto simp: coherente_dentro_def coherente_def)
    moreover have "base bs a + unat bs \<le> base bs b \<or> base bs b + unat bs \<le> base bs a" by (rule bloques_disj [OF ab])
    ultimately show ?thesis using xs by (auto simp: d' intro!: bytes_at_put_disj [symmetric])
  qed
  then show ?thesis using C bloque_en_limite [OF b(1)] b(2) len by (auto simp: coherente_dentro_def coherente_def clave_servidor_inj)
qed

section \<open>The loop\<close>

text \<open>The context of a write: a cache with the contract, whose keys and values are admitted.\<close>

definition cache_ok ::
  "'c memcached \<Rightarrow> ('c \<Rightarrow> (u8 list \<Rightarrow> u8 list option) \<Rightarrow> bool) \<Rightarrow> (u8 list \<Rightarrow> bool) \<Rightarrow> (u8 list \<Rightarrow> bool) \<Rightarrow> u32 \<Rightarrow> bool" where
  "cache_ok M rep clave_ok valor_ok bs \<longleftrightarrow> almacen_clave (memcached_get M) (memcached_set M) (memcached_delete M) rep clave_ok valor_ok
     \<and> (\<forall>b. clave_ok (cache_armarClaveServer b)) \<and> (\<forall>v. length v = unat bs \<longrightarrow> valor_ok v) \<and> 0 < unat bs \<and> unat bs < 65536"

definition escritura ::
  "('c \<Rightarrow> (u8 list \<Rightarrow> u8 list option) \<Rightarrow> bool) \<Rightarrow> disk \<Rightarrow> (u32 \<Rightarrow> bool) \<Rightarrow> Inode \<Rightarrow> u32 \<Rightarrow> nat \<Rightarrow> nat \<Rightarrow> u8 list \<Rightarrow> 'c \<Rightarrow> disk \<Rightarrow> bool" where
  "escritura rep d P inodo bs K off xs c' d' \<longleftrightarrow> escrito d d' inodo bs K off xs \<and> (\<exists>m. rep c' m \<and> coherente_dentro d' P bs m)"

text \<open>Writing at the start of block \<open>k\<close> and storing the block in the cache.\<close>

lemma un_bloque_escrito:
  assumes M: "cache_ok M rep clave_ok valor_ok bs" and R: "rep c m" "coherente_dentro d P bs m"
    and B: "bloques_ok d P inodo bs K" and k: "k < K \<or> xs = [] \<and> k = K \<and> borde_ok d P inodo bs K" and xs: "length xs \<le> unat bs"
  obtains d' c' where "Inode_leerBloque d (word_of_nat k) inodo bs = Some (i_block inodo ! k)"
    "disk_write d (i_block inodo ! k * bs) xs = Some d'" "subir_desde M c d' (i_block inodo ! k * bs) (i_block inodo ! k) bs = Some c'"
    "escritura rep d P inodo bs K (k * unat bs) xs c' d'"
proof -
  let ?b = "i_block inodo ! k"
  define d' where "d' = put_bytes d (base bs ?b) xs"
  let ?v = "bytes_at d' (base bs ?b) (unat bs)"
  have b: "bloque_en d ?b bs" "P ?b" using k bloques_okD(1,2) [OF B] by (auto simp: borde_ok_def)
  have len: "dk_len d' = dk_len d" using bloque_en_limite [OF b(1)] xs by (simp add: d'_def)
  have u: "unat (?b * bs) = base bs ?b" using unat_dir_pos [OF b(1), of 0] by simp
  have w: "disk_write d (?b * bs) xs = Some d'" using disk_write_en [OF b(1) refl, of 0 xs] xs by (simp add: d'_def)
  have "disk_read d' (?b * bs) (unat bs) = Some ?v" using b(1) u len by (simp add: disk_read_def bloque_en_def)
  moreover have m: "almacen_clave (memcached_get M) (memcached_set M) (memcached_delete M) rep clave_ok valor_ok" "clave_ok (cache_armarClaveServer ?b)"
    "valor_ok ?v" "unat bs < 65536" using M by (simp_all add: cache_ok_def)
  ultimately have s: "subir_desde M c d' (?b * bs) ?b bs = Some (memcached_set M c (cache_armarClaveServer ?b) ?v)"
    by (simp add: subir_desde_def cache_subir_infoServer_def)
  have "rep (memcached_set M c (cache_armarClaveServer ?b) ?v) (m(cache_armarClaveServer ?b \<mapsto> ?v))"
    by (rule almacen_clave.put_rep [OF m(1) R(1) m(2,3)])
  then have "escritura rep d P inodo bs K (k * unat bs) xs (memcached_set M c (cache_armarClaveServer ?b) ?v) d'"
    using escrito_bloque [OF B _ xs] k coherente_escribe [OF R(2) b xs d'_def] by (auto simp: escritura_def d'_def)
  moreover have "Inode_leerBloque d (word_of_nat k) inodo bs = Some ?b" by (rule leerBloque_directo) (use B k in \<open>auto simp: bloques_ok_def\<close>)
  ultimately show thesis using that w s by blast
qed

text \<open>The loop and the last, perhaps empty, piece.\<close>

definition escribir_resto ::
  "'c memcached \<Rightarrow> Inode \<Rightarrow> u32 \<Rightarrow> 'c \<Rightarrow> disk \<Rightarrow> u32 \<Rightarrow> u32 \<Rightarrow> u8 list \<Rightarrow> ('c \<times> disk) option" where
  "escribir_resto M inodo bs c d nro sz buf =
     do { (c, d, nro, resto, buf) \<leftarrow> escribir_bloques M inodo bs c d nro sz buf;
          bloque \<leftarrow> Inode_leerBloque d (nro + 1) inodo bs;
          d \<leftarrow> disk_write d (bloque * bs) (take (unat resto) buf);
          c \<leftarrow> subir_desde M c d (bloque * bs) bloque bs;
          Some (c, d) }"

lemma escribir_resto_bien:
  assumes M: "cache_ok M rep clave_ok valor_ok bs"
  shows "rep c m \<Longrightarrow> coherente_dentro d P bs m \<Longrightarrow> bloques_ok d P inodo bs K \<Longrightarrow> unat sz \<le> length buf \<Longrightarrow> k * unat bs + unat sz \<le> K * unat bs \<Longrightarrow>
    nro + 1 = word_of_nat k \<Longrightarrow> unat sz = 0 \<longrightarrow> borde_ok d P inodo bs K \<Longrightarrow>
    \<exists>c' d'. escribir_resto M inodo bs c d nro sz buf = Some (c', d') \<and> escritura rep d P inodo bs K (k * unat bs) (take (unat sz) buf) c' d'"
proof (induction "unat sz" arbitrary: sz buf k nro c m d rule: less_induct)
  case less
  have b0: "0 < unat bs" using M by (simp add: cache_ok_def)
  then have kK: "k \<le> K" using less.prems(5) by (metis add_leD1 mult_le_cancel2)
  show ?case
  proof (cases "bs < sz")
    case False
    then have sz: "unat sz \<le> unat bs" by (simp add: word_less_nat_alt)
    have k: "k < K \<or> take (unat sz) buf = [] \<and> k = K \<and> borde_ok d P inodo bs K" using less.prems(5,7) kK by (cases "k = K") auto
    have l: "length (take (unat sz) buf) \<le> unat bs" using sz by simp
    obtain d' c' where u: "Inode_leerBloque d (word_of_nat k) inodo bs = Some (i_block inodo ! k)"
      "disk_write d (i_block inodo ! k * bs) (take (unat sz) buf) = Some d'"
      "subir_desde M c d' (i_block inodo ! k * bs) (i_block inodo ! k) bs = Some c'"
      "escritura rep d P inodo bs K (k * unat bs) (take (unat sz) buf) c' d'"
      by (rule un_bloque_escrito [OF M less.prems(1-3) k l])
    have "escribir_resto M inodo bs c d nro sz buf = Some (c', d')"
      using False u(1-3) less.prems(6) by (simp add: escribir_resto_def escribir_bloques.simps [of M inodo bs c d nro])
    then show ?thesis using u(4) by blast
  next
    case True
    then have sz: "unat bs < unat sz" by (simp add: word_less_nat_alt)
    have us: "unat (sz - bs) = unat sz - unat bs" using sz by (subst unat_sub_u32) simp_all
    have k: "k < K" using less.prems(5) sz b0 kK by (cases "k = K") auto
    let ?xs = "take (unat bs) buf"
    have l: "length ?xs = unat bs" using sz less.prems(4) by simp
    obtain d1 c1 where u: "Inode_leerBloque d (word_of_nat k) inodo bs = Some (i_block inodo ! k)" "disk_write d (i_block inodo ! k * bs) ?xs = Some d1"
      "subir_desde M c d1 (i_block inodo ! k * bs) (i_block inodo ! k) bs = Some c1" "escritura rep d P inodo bs K (k * unat bs) ?xs c1 d1"
      by (rule un_bloque_escrito [OF M less.prems(1-3) disjI1 [OF k] eq_imp_le [OF l]])
    obtain m1 where m1: "rep c1 m1" "coherente_dentro d1 P bs m1" "escrito d d1 inodo bs K (k * unat bs) ?xs" using u(4) by (auto simp: escritura_def)
    have B1: "bloques_ok d1 P inodo bs K" by (rule bloques_ok_len(1) [OF less.prems(3)]) (use m1(3) in \<open>simp add: escrito_def\<close>)
    have "unat (sz - bs) < unat sz" "unat (sz - bs) \<le> length (drop (unat bs) buf)" "Suc k * unat bs + unat (sz - bs) \<le> K * unat bs"
      "nro + 1 + 1 = word_of_nat (Suc k)" "unat (sz - bs) = 0 \<longrightarrow> borde_ok d1 P inodo bs K" using us sz b0 less.prems(4,5,6) by simp_all
    from less.hyps [OF this(1) m1(1,2) B1 this(2-5)] obtain c' d' where
      r: "escribir_resto M inodo bs c1 d1 (nro + 1) (sz - bs) (drop (unat bs) buf) = Some (c', d')"
        "escritura rep d1 P inodo bs K (Suc k * unat bs) (take (unat (sz - bs)) (drop (unat bs) buf)) c' d'" by blast
    have "escribir_resto M inodo bs c d nro sz buf = Some (c', d')"
      using True u(1-3) r(1) less.prems(6) by (simp add: escribir_resto_def escribir_bloques.simps [of M inodo bs c d nro])
    moreover have "take (unat sz) buf = ?xs @ take (unat (sz - bs)) (drop (unat bs) buf)"
      using sz us take_add [of "unat bs" "unat sz - unat bs" buf] by simp
    moreover have "Suc k * unat bs = k * unat bs + length ?xs" using l by simp
    ultimately show ?thesis using r(2) escrito_append [OF m1(3)] unfolding escritura_def by metis
  qed
qed

section \<open>The whole write\<close>

lemma alineado:
  fixes off bs :: u32
  assumes "unat off mod unat bs = 0" "0 < unat bs"
  shows "off mod bs = 0" "off div bs = word_of_nat (unat off div unat bs)" "unat off = unat off div unat bs * unat bs"
proof -
  show "off mod bs = 0" using assms(1) by (simp add: word_arith_nat_mod)
  show "off div bs = word_of_nat (unat off div unat bs)" by (rule word_arith_nat_div)
  show "unat off = unat off div unat bs * unat bs" using div_mult_mod_eq [of "unat off" "unat bs"] assms(1) by simp
qed

lemma escribirArchivo_alineada:
  fixes F :: fs
  defines "bs \<equiv> block_size (f_sb F)"
  assumes M: "cache_ok M rep clave_ok valor_ok bs" and R: "rep c m" "coherente_dentro (f_ext2fs F) P bs m"
    and B: "bloques_ok (f_ext2fs F) P inodo bs K" and off: "unat off mod unat bs = 0" "unat off + unat sz \<le> K * unat bs"
    and sz: "off + sz \<le> i_size inodo" "unat sz \<le> length buf" and E: "unat sz \<in> {0, unat bs} \<longrightarrow> borde_ok (f_ext2fs F) P inodo bs K"
  shows "\<exists>c' d'. Dir_escribirArchivo M c F inodo off sz buf = Some (int (unat sz), c', F\<lparr>f_ext2fs := d'\<rparr>, inodo)
    \<and> escritura rep (f_ext2fs F) P inodo bs K (unat off) (take (unat sz) buf) c' d'"
proof -
  let ?k = "unat off div unat bs" and ?d = "f_ext2fs F"
  have b0: "0 < unat bs" "bs \<noteq> 0" using M by (auto simp: cache_ok_def)
  note o = alineado [OF off(1) b0(1)]
  have lt: "\<not> off + sz > i_size inodo" using sz(1) by simp
  have kK: "?k \<le> K" using off(2) o(3) b0(1) by (metis add_leD1 mult_le_cancel2)
  show ?thesis
  proof (cases "sz < bs")
    case True
    have k: "?k < K \<or> take (unat sz) buf = [] \<and> ?k = K \<and> borde_ok ?d P inodo bs K" using off(2) kK o(3) E by (cases "?k = K") auto
    have l: "length (take (unat sz) buf) \<le> unat bs" using True by (simp add: word_less_nat_alt)
    obtain d' c' where u: "Inode_leerBloque ?d (word_of_nat ?k) inodo bs = Some (i_block inodo ! ?k)"
      "disk_write ?d (i_block inodo ! ?k * bs) (take (unat sz) buf) = Some d'"
      "subir_desde M c d' (i_block inodo ! ?k * bs) (i_block inodo ! ?k) bs = Some c'"
      "escritura rep ?d P inodo bs K (?k * unat bs) (take (unat sz) buf) c' d'"
      by (rule un_bloque_escrito [OF M R B k l])
    have "Dir_escribirArchivo M c F inodo off sz buf = Some (int (unat sz), c', F\<lparr>f_ext2fs := d'\<rparr>, inodo)"
      using True b0(2) o(1,2) sz(2) lt u(1-3) by (simp add: Dir_escribirArchivo_def flip: bs_def)
    then show ?thesis using u(4) o(3) by auto
  next
    case False
    then have ge: "unat bs \<le> unat sz" by (simp add: word_less_nat_alt)
    have us: "unat (sz - bs) = unat sz - unat bs" using ge by (subst unat_sub_u32) simp_all
    let ?xs = "take (unat bs) buf"
    have l: "length ?xs = unat bs" using ge sz(2) by simp
    have k: "?k < K" using off(2) o(3) ge b0(1) kK by (cases "?k = K") auto
    obtain d1 c1 where u: "Inode_leerBloque ?d (word_of_nat ?k) inodo bs = Some (i_block inodo ! ?k)"
      "disk_write ?d (i_block inodo ! ?k * bs) ?xs = Some d1" "subir_desde M c d1 (i_block inodo ! ?k * bs) (i_block inodo ! ?k) bs = Some c1"
      "escritura rep ?d P inodo bs K (?k * unat bs) ?xs c1 d1"
      by (rule un_bloque_escrito [OF M R B disjI1 [OF k] eq_imp_le [OF l]])
    obtain m1 where m1: "rep c1 m1" "coherente_dentro d1 P bs m1" "escrito ?d d1 inodo bs K (?k * unat bs) ?xs" using u(4) by (auto simp: escritura_def)
    have len: "dk_len d1 = dk_len ?d" using m1(3) by (simp add: escrito_def)
    have B1: "bloques_ok d1 P inodo bs K" by (rule bloques_ok_len(1) [OF B len])
    have E1: "unat (sz - bs) = 0 \<longrightarrow> borde_ok d1 P inodo bs K" using E bloques_ok_len(2) [OF _ len] us ge by auto
    have "unat (sz - bs) \<le> length (drop (unat bs) buf)" "Suc ?k * unat bs + unat (sz - bs) \<le> K * unat bs" "off div bs + 1 = word_of_nat (Suc ?k)"
      using us ge sz(2) off(2) o(2,3) by simp_all
    from escribir_resto_bien [OF M m1(1,2) B1 this E1] obtain c' d' where
      r: "escribir_resto M inodo bs c1 d1 (off div bs) (sz - bs) (drop (unat bs) buf) = Some (c', d')"
        "escritura rep d1 P inodo bs K (Suc ?k * unat bs) (take (unat (sz - bs)) (drop (unat bs) buf)) c' d'" by blast
    have "Dir_escribirArchivo M c F inodo off sz buf = Some (int (unat sz), c', F\<lparr>f_ext2fs := d'\<rparr>, inodo)"
      using False b0(2) o(1) sz(2) lt u(1-3) r(1) unfolding o(2) [symmetric]
      by (auto simp: Dir_escribirArchivo_def escribir_resto_def bind_eq_Some_conv simp flip: bs_def)
    moreover have "take (unat sz) buf = ?xs @ take (unat (sz - bs)) (drop (unat bs) buf)"
      using ge us take_add [of "unat bs" "unat sz - unat bs" buf] by simp
    moreover have "Suc ?k * unat bs = unat off + length ?xs" using l o(3) by simp
    ultimately show ?thesis using r(2) escrito_append [OF m1(3)] o(3) unfolding escritura_def by metis
  qed
qed

lemma techo_hasta:
  assumes "0 < b" "k * b + n \<le> K * b"
  shows "k + techo n b \<le> K"
proof -
  have "techo n b * b < n + b" using assms(1) div_mult_mod_eq [of n b] by (cases "n mod b") (simp_all add: techo_def)
  then have "(k + techo n b) * b < Suc K * b" using assms(2) by (simp add: algebra_simps)
  then have "k + techo n b < Suc K" by (simp only: mult_less_cancel2)
  then show ?thesis by simp
qed

end
