(* ===== verification/Guardado.thy ===== *)
theory Guardado
  imports Borrado Escritura
begin

text \<open>
  Writing a file from the client to the image, \<^verbatim>\<open>procesarWrite\<close> of \<^verbatim>\<open>rfs/Rfs.c\<close>: a file of the root directory grows if it has to, its
  bytes are written block by block, its inode, superblock and descriptor table go back to the image, and what is read next is what was
  written. The blocks that files may have are apart from everything else on the image; this keeps the cache of blocks in agreement with it.
\<close>

section \<open>Blocks of data\<close>

text \<open>A block apart from bitmaps, inode tables, superblock, descriptor table and the blocks of the directory.\<close>

definition dato :: "fs \<Rightarrow> Inode \<Rightarrow> Dir list list \<Rightarrow> u32 \<Rightarrow> bool" where
  "dato F r ess b \<longleftrightarrow> bloque_en (f_ext2fs F) b (block_size (f_sb F))
     \<and> zona F r ess (base (block_size (f_sb F)) b) (unat (block_size (f_sb F)))
     \<and> (\<forall>g < nGr F. disjuntos (base (block_size (f_sb F)) b) (unat (block_size (f_sb F))) (tabla_en F g) (ipg F * 128))
     \<and> disjuntos (base (block_size (f_sb F)) b) (unat (block_size (f_sb F))) 1024 84
     \<and> disjuntos (base (block_size (f_sb F)) b) (unat (block_size (f_sb F))) (pos_bgdt F) (32 * nGr F)"

text \<open>Two states with the same plan.\<close>

definition planta_igual :: "fs \<Rightarrow> fs \<Rightarrow> bool" where
  "planta_igual F F' \<longleftrightarrow> dk_len (f_ext2fs F') = dk_len (f_ext2fs F) \<and> nGr F' = nGr F
     \<and> addrB F' = addrB F \<and> tamB F' = tamB F \<and> addrI F' = addrI F \<and> tamI F' = tamI F
     \<and> block_size (f_sb F') = block_size (f_sb F) \<and> s_inodes_per_group (f_sb F') = s_inodes_per_group (f_sb F)
     \<and> s_first_data_block (f_sb F') = s_first_data_block (f_sb F) \<and> s_blocks_per_group (f_sb F') = s_blocks_per_group (f_sb F) \<and> map bg_inode_table (f_bgdt F') = map bg_inode_table (f_bgdt F)"

lemma planta_trans: "planta_igual F F1 \<Longrightarrow> planta_igual F1 F2 \<Longrightarrow> planta_igual F F2"
  by (simp add: planta_igual_def)

lemma planta_mapaB: "solo_mapaB F F' \<Longrightarrow> planta_igual F F'"
  using solo_mapaB_sel [of F F'] by (auto simp: planta_igual_def solo_mapaB_def)

lemma planta_disco: "dk_len d = dk_len (f_ext2fs F) \<Longrightarrow> planta_igual F (F\<lparr>f_ext2fs := d\<rparr>)"
  by (simp add: planta_igual_def fun_eq_iff addrB_def tamB_def addrI_def tamI_def)

lemma valido_planta: "planta_igual F F' \<Longrightarrow> bloque_valido F' b = bloque_valido F b" "planta_igual F F' \<Longrightarrow> inodo_valido F' n = inodo_valido F n"
  by (simp_all add: planta_igual_def bloque_valido_def inodo_valido_def)

lemma dato_planta:
  assumes "planta_igual F F'"
  shows "dato F' r ess b = dato F r ess b"
proof -
  note v = assms [unfolded planta_igual_def]
  have "bg_inode_table (f_bgdt F' ! g) = bg_inode_table (f_bgdt F ! g)" if "g < nGr F" for g
    using v that by (metis nth_map)
  moreover have "dk_len (f_ext2fs F') = dk_len (f_ext2fs F)" "nGr F' = nGr F" "addrB F' = addrB F" "tamB F' = tamB F" "addrI F' = addrI F" "tamI F' = tamI F"
    "block_size (f_sb F') = block_size (f_sb F)" "s_inodes_per_group (f_sb F') = s_inodes_per_group (f_sb F)"
    "s_first_data_block (f_sb F') = s_first_data_block (f_sb F)" using v by blast+
  ultimately show ?thesis unfolding dato_def zona_def bloque_en_def by auto
qed

section \<open>Steps that leave data or that change only data\<close>

lemma coherente_intacto:
  assumes "coherente_dentro d P bs m" "dk_len d' = dk_len d" "\<And>b. P b \<Longrightarrow> intacto d d' (base bs b) (unat bs)"
  shows "coherente_dentro d' P bs m"
  unfolding coherente_dentro_def
proof (intro conjI allI impI)
  have c: "coherente d bs m" "\<And>b. m (cache_armarClaveServer b) \<noteq> None \<Longrightarrow> P b \<and> base bs b + unat bs \<le> dk_len d"
    using assms(1) by (auto simp: coherente_dentro_def)
  show "coherente d' bs m" unfolding coherente_def
  proof (intro allI impI)
    fix b v assume v: "m (cache_armarClaveServer b) = Some v"
    then have "P b" using c(2) by blast
    from intacto_bytes [OF assms(3) [OF this]] show "v = bytes_at d' (base bs b) (unat bs)" using c(1) v by (simp add: coherente_def)
  qed
  fix b assume "m (cache_armarClaveServer b) \<noteq> None"
  then show "P b" "base bs b + unat bs \<le> dk_len d'" using c(2) assms(2) by auto
qed

lemma byte_intacto:
  assumes "bloques_ok d P inodo bs K" "0 < unat bs" "\<And>b. P b \<Longrightarrow> intacto d d' (base bs b) (unat bs)" "j < K * unat bs"
  shows "byte_de d' inodo bs j = byte_de d inodo bs j"
proof -
  have i: "j div unat bs < K" using assms(2,4) by (simp add: div_less_iff_less_mult)
  then have "j div unat bs < 12" using assms(1) by (simp add: bloques_ok_def)
  note e = byte_directo [OF this]
  have "intacto d d' (base bs (i_block inodo ! (j div unat bs))) (unat bs)" by (rule assms(3) [OF bloques_okD(2) [OF assms(1) i]])
  then show ?thesis unfolding e using mod_less_divisor [OF assms(2), of j] by (simp add: intacto_def)
qed

text \<open>Writing an inode, and superblock and descriptors.\<close>

lemma escribirInodo_fuera:
  assumes E: "estable F r inodo ess" and n: "inodo_valido F n" and x: "inode_ok x"
    and W: "Inode_escribirInodo (f_ext2fs F) (s_inodes_per_group (f_sb F)) (f_bgdt F) n (block_size (f_sb F)) x = Some d"
  shows "dk_len d = dk_len (f_ext2fs F)" "dato F r' ess' b \<Longrightarrow> intacto (f_ext2fs F) d (base (block_size (f_sb F)) b) (unat (block_size (f_sb F)))"
proof -
  let ?bs = "block_size (f_sb F)" and ?ip = "s_inodes_per_group (f_sb F)"
  note P = estableD(2) [OF E]
  have t: "tabla_ok ?ip (f_bgdt F) ?bs" using P by (simp add: plano_ok_def)
  have g: "1 \<le> unat n" "(unat n - 1) div ipg F < nGr F" using n by (simp_all add: inodo_valido_def)
  obtain q where q: "pos_inodo ?ip (f_bgdt F) n ?bs = Some q" "unat q + 128 \<le> 2 ^ 31" using pos_inodo_eq [OF t g] by auto
  have lx: "length (enc_Inode x) = 128" by (rule inc.enc_width [OF x])
  have d: "d = put_bytes (f_ext2fs F) (unat q) (enc_Inode x)" using W q by (simp add: Inode_escribirInodo_def disk_write_def)
  have z: "zona F inodo ess (unat q) 128" by (rule zona_inodo [OF P n q(1)])
  then show "dk_len d = dk_len (f_ext2fs F)" using d lx by (simp add: zona_def)
  assume b: "dato F r' ess' b"
  have "disjuntos (tabla_en F ((unat n - 1) div ipg F)) (ipg F * 128) (base ?bs b) (unat ?bs)"
    using b g(2) by (simp add: dato_def disjuntos_sym [of "base ?bs b"])
  from disjuntos_dentro [OF this plano_zona(2,3) [OF P g q(1)]]
  have "disjuntos (base ?bs b) (unat ?bs) (unat q) (length (enc_Inode x))" using lx by (simp add: disjuntos_sym [of "base ?bs b"])
  then show "intacto (f_ext2fs F) d (base ?bs b) (unat ?bs)" unfolding d by (rule intacto_put) (use b in \<open>simp add: dato_def zona_def\<close>)
qed

lemma guardar_fuera:
  assumes E: "estable (sv_fs S) r inodo ess" and G: "sv_guardar S = Some (S\<lparr>sv_fs := F'\<rparr>)"
  shows "dk_len (f_ext2fs F') = dk_len (f_ext2fs (sv_fs S))" "planta_igual (sv_fs S) F'"
    "dato (sv_fs S) r' ess' b \<Longrightarrow> intacto (f_ext2fs (sv_fs S)) (f_ext2fs F') (base (sv_bs S) b) (unat (sv_bs S))"
proof -
  let ?F = "sv_fs S"
  let ?sb = "enc_Superblock (f_sb ?F)" and ?t = "concat (map enc_Group_descriptor (f_bgdt ?F))"
  define d1 where "d1 = put_bytes (f_ext2fs ?F) 1024 ?sb"
  note P = estableD(2) [OF E]
  have lsb: "length ?sb = 84" by (simp add: sbc.enc_width)
  have lt: "length ?t = 32 * nGr ?F" using length_concat_fixed [of "f_bgdt ?F" enc_Group_descriptor 32] by (simp add: gdc.enc_width)
  have c: "cantGrupos (f_sb ?F) = Some (word_of_nat (nGr ?F))" "0 < nGr ?F" "nGr ?F < 2 ^ 27" "pos_bgdt ?F < 2 ^ 31"
    "1024 + 84 \<le> dk_len (f_ext2fs ?F)" "pos_bgdt ?F + 32 * nGr ?F \<le> dk_len (f_ext2fs ?F)"
    using fs_okD(1) [OF estableD(1) [OF E]] P by (simp_all add: geom_ok_def plano_ok_def zona_def)
  have u: "unat (word_of_nat (nGr ?F) :: u32) = nGr ?F" using c(3) by (simp add: unat_of_nat_u32)
  have T: "Grupos_escribirTabla d1 (f_sb ?F) (f_bgdt ?F) = Some (put_bytes d1 (pos_bgdt ?F) ?t)"
    using leer_escrita_Tabla [OF c(1), of "f_bgdt ?F" d1] c u by auto
  have "Superblock_escribir (f_ext2fs ?F) (f_sb ?F) = Some d1" by (simp add: Superblock_escribir_def disk_write_def d1_def)
  then have F': "F' = ?F\<lparr>f_ext2fs := put_bytes d1 (pos_bgdt ?F) ?t\<rparr>" using G T by (cases S) (simp add: sv_guardar_def)
  have l1: "dk_len d1 = dk_len (f_ext2fs ?F)" using c(5) lsb by (simp add: d1_def)
  then have l2: "dk_len (put_bytes d1 (pos_bgdt ?F) ?t) = dk_len (f_ext2fs ?F)" using c(6) lt by simp
  then show "dk_len (f_ext2fs F') = dk_len (f_ext2fs ?F)" "planta_igual ?F F'" unfolding F' by (simp_all add: planta_disco)
  assume b: "dato ?F r' ess' b"
  then have in1: "base (sv_bs S) b + unat (sv_bs S) \<le> dk_len (f_ext2fs ?F)" by (simp add: dato_def zona_def)
  have "intacto (f_ext2fs ?F) d1 (base (sv_bs S) b) (unat (sv_bs S))"
    unfolding d1_def by (rule intacto_put [OF _ in1]) (use b lsb in \<open>simp add: dato_def\<close>)
  moreover have "intacto d1 (put_bytes d1 (pos_bgdt ?F) ?t) (base (sv_bs S) b) (unat (sv_bs S))"
    by (rule intacto_put) (use b lt l1 in1 in \<open>simp_all add: dato_def\<close>)
  ultimately show "intacto (f_ext2fs ?F) (f_ext2fs F') (base (sv_bs S) b) (unat (sv_bs S))" unfolding F' by (simp add: intacto_trans)
qed

text \<open>A write to the blocks of a file.\<close>

lemma escrito_fuera:
  assumes W: "escrito d d' x bs K off xs" and p: "p + n \<le> dk_len d" "\<And>i. i < K \<Longrightarrow> disjuntos (base bs (i_block x ! i)) (unat bs) p n"
  shows "intacto d d' p n"
  unfolding intacto_def
proof (intro allI impI)
  fix j assume j: "p \<le> j \<and> j < p + n"
  have "\<forall>i < K. j < base bs (i_block x ! i) \<or> base bs (i_block x ! i) + unat bs \<le> j"
    using p(2) j by (fastforce simp: disjuntos_def)
  then show "dk_byte d' j = dk_byte d j" using W j p(1) by (simp add: escrito_def)
qed

lemma estable_datos:
  assumes E: "estable F r ino ess" and B: "bloques_ok (f_ext2fs F) (dato F ino ess) x (block_size (f_sb F)) K"
    and W: "escrito (f_ext2fs F) d' x (block_size (f_sb F)) K off xs"
  shows "estable (F\<lparr>f_ext2fs := d'\<rparr>) r ino ess" "mantiene F (F\<lparr>f_ext2fs := d'\<rparr>)"
proof -
  let ?bs = "block_size (f_sb F)" and ?d = "f_ext2fs F" and ?F = "F\<lparr>f_ext2fs := d'\<rparr>"
  note ok = estableD(1) [OF E] and P = estableD(2) [OF E] and D = estableD(3) [OF E]
  have len: "dk_len d' = dk_len ?d" using W by (simp add: escrito_def)
  have dat: "dato F ino ess (i_block x ! i)" if "i < K" for i by (rule bloques_okD(2) [OF B that])
  have "intacto ?d d' (addrB F g) (tamB F g) \<and> intacto ?d d' (addrI F g) (tamI F g)" if g: "g < nGr F" for g
    using dat g mapas_okD(2) [OF fs_okD(2) [OF ok] g] mapas_okD(2) [OF fs_okD(3) [OF ok] g]
    by (auto simp: dato_def zona_def intro!: escrito_fuera [OF W])
  note I = fs_ok_intacto [OF ok len this]
  have ino: "intacto ?d d' (unat q) 128" if n: "inodo_valido F n" and q: "pos_inodo (s_inodes_per_group (f_sb F)) (f_bgdt F) n ?bs = Some q" for n q
  proof (rule escrito_fuera [OF W])
    have g: "1 \<le> unat n" "(unat n - 1) div ipg F < nGr F" using n by (simp_all add: inodo_valido_def)
    show "unat q + 128 \<le> dk_len ?d" using zona_inodo [OF P n q] by (simp add: zona_def)
    fix i assume "i < K"
    from dat [OF this] have "disjuntos (tabla_en F ((unat n - 1) div ipg F)) (ipg F * 128) (base ?bs (i_block x ! i)) (unat ?bs)"
      using g(2) by (simp add: dato_def disjuntos_sym [of "base ?bs (i_block x ! i)"])
    from disjuntos_dentro [OF this plano_zona(2,3) [OF P g q]] show "disjuntos (base ?bs (i_block x ! i)) (unat ?bs) (unat q) 128"
      by (simp add: disjuntos_sym [of "base ?bs (i_block x ! i)"])
  qed
  have "directorio ?F r ino ess"
  proof (rule directorio_intacto [OF D])
    fix i assume i: "i < length ess"
    have "bloque_en ?d (i_block ino ! i) ?bs" by (rule dir_enD(1) [OF _ i]) (use D in \<open>simp add: directorio_def\<close>)
    then show "intacto ?d (f_ext2fs ?F) (base ?bs (i_block ino ! i)) (unat ?bs)"
      using dat i by (auto simp: dato_def zona_def bloque_en_def intro!: escrito_fuera [OF W])
  qed (use ino [OF estableD(4) [OF E]] len in simp_all)
  moreover have "plano_ok ?F ino ess"
    by (rule plano_igual [OF P]) (use planta_disco [OF len] in \<open>simp_all add: planta_igual_def\<close>)
  ultimately show "estable ?F r ino ess" using I(1) estableD(4) [OF E] by (simp add: estable_def valido_disco)
  have "inodo_en ?F n = Some y" if "inodo_valido F n" "inodo_en F n = Some y" for n y
    using leerInodo_intacto [OF that(2) refl len ino [OF that(1)]] by simp
  then show "mantiene F ?F" using I(2,3) by (simp add: mantiene_def valido_disco)
qed

section \<open>The write, growing or not\<close>

lemma escribir_crece:
  assumes "i_size inodo < off + sz" "Inode_truncarArriba F inodo (off + sz) = Some (0, F1, x)" "block_size (f_sb F1) = block_size (f_sb F)" "i_size x = off + sz"
  shows "Dir_escribirArchivo M c F inodo off sz buf = Dir_escribirArchivo M c F1 x off sz buf"
  using assms by (simp add: Dir_escribirArchivo_def Let_def)

text \<open>The blocks a size takes, as a number.\<close>

lemma cant_bloques_nat:
  assumes "0 < unat bs" "techo (unat sz) (unat bs) < 2 ^ 32"
  shows "cant_bloques sz bs = Some (word_of_nat (techo (unat sz) (unat bs)))"
proof -
  obtain w where "cant_bloques sz bs = Some w" "unat w = techo (unat sz) (unat bs)" using cant_bloques_techo [OF assms(1)] by blast
  then show ?thesis by (metis word_of_nat_unat_u32)
qed

lemma directo_techo:
  assumes "archivo_directo F x k"
  shows "0 < unat (block_size (f_sb F))" "k = techo (unat (i_size x)) (unat (block_size (f_sb F)))"
proof -
  let ?bs = "block_size (f_sb F)"
  have c: "cant_bloques (i_size x) ?bs = Some (word_of_nat k)" "k \<le> 12" using assms by (simp_all add: archivo_directo_def)
  then show b: "0 < unat ?bs" by (cases "?bs = 0") (auto simp: cant_bloques_def unat_gt_0)
  obtain w where "cant_bloques (i_size x) ?bs = Some w" "unat w = techo (unat (i_size x)) (unat ?bs)" using cant_bloques_techo [OF b] by blast
  then show "k = techo (unat (i_size x)) (unat ?bs)" using c directo_cant [OF assms] by simp
qed

lemma techo_mono: "0 < b \<Longrightarrow> n \<le> m \<Longrightarrow> techo n b \<le> techo m b"
  using techo_hasta [of b 0 n "techo m b"] techo_alcanza [of b m] by simp

text \<open>
  The state in which the bytes are written: as it was, or with the blocks the file lacked.
\<close>

lemma lugar_para_escribir:
  fixes F x off sz
  defines "bs \<equiv> block_size (f_sb F)" and "K \<equiv> techo (max (unat (i_size x)) (unat off + unat sz)) (unat (block_size (f_sb F)))"
  assumes ok: "fs_ok F" and A: "archivo_directo F x k" and K: "K \<le> 12" and nov: "unat off + unat sz < 2 ^ 32" and hay: "K - k \<le> hay_bloques F"
  obtains F1 x1 where "\<forall>c. Dir_escribirArchivo M c F x off sz buf = Dir_escribirArchivo M c F1 x1 off sz buf"
    "unat (i_size x1) = max (unat (i_size x)) (unat off + unat sz)" "archivo_directo F1 x1 K" "fs_ok F1" "solo_mapaB F F1"
    "take k (i_block x1) = take k (i_block x)" "i_block x1 ! K = i_block x ! K"
    "\<forall>b \<in> set (drop k (take K (i_block x1))). bloque_valido F b \<and> \<not> bloque_ocupado F b"
    "\<forall>b. bloque_valido F b \<longrightarrow> bloque_ocupado F1 b = (b \<in> set (drop k (take K (i_block x1))) \<or> bloque_ocupado F b)"
    "\<exists>ib sz'. x1 = x\<lparr>i_block := ib, i_size := sz'\<rparr>" "i_size x < off + sz \<or> x1 = x \<and> F1 = F"
proof -
  have b0: "0 < unat bs" and k: "k = techo (unat (i_size x)) (unat bs)" using directo_techo [OF A] by (simp_all add: bs_def)
  have u: "unat (off + sz) = unat off + unat sz" using nov by (subst unat_add_u32) simp_all
  have kK: "k \<le> K" unfolding k K_def bs_def [symmetric] by (rule techo_mono [OF b0]) simp
  have l: "length (i_block x) = 15" using A by (simp add: archivo_directo_def)
  show thesis
  proof (cases "i_size x < off + sz")
    case True
    then have lt: "unat (i_size x) < unat off + unat sz" using u by (simp add: word_less_nat_alt)
    then have e: "K = techo (unat (off + sz)) (unat bs)" unfolding K_def u bs_def by simp
    have c: "cant_bloques (off + sz) (block_size (f_sb F)) = Some (word_of_nat K)"
      using cant_bloques_nat [OF b0, of "off + sz"] K unfolding e bs_def by simp
    obtain cs F1 x1 where
      T: "Inode_truncarArriba F x (off + sz) = Some (0, F1, x1)" "archivo_directo F1 x1 K"
        "x1 = (con_bloques x k cs)\<lparr>i_size := off + sz\<rparr>" "k + length cs = K" "drop k (take K (i_block x1)) = cs"
        "take k (i_block x1) = take k (i_block x)" "fs_ok F1" "solo_mapaB F F1" "hay_bloques F1 + (K - k) = hay_bloques F"
        "\<forall>b \<in> set cs. bloque_valido F b \<and> \<not> bloque_ocupado F b"
        "\<forall>b. bloque_valido F b \<longrightarrow> bloque_ocupado F1 b = (b \<in> set cs \<or> bloque_ocupado F b)"
      by (rule truncarArriba_alcanza [OF ok A c kK K hay])
    have sz: "i_size x1 = off + sz" by (simp add: T(3))
    have W: "\<forall>c. Dir_escribirArchivo M c F x off sz buf = Dir_escribirArchivo M c F1 x1 off sz buf"
      by (rule allI, rule escribir_crece [OF True T(1) solo_mapaB_sel(2) [OF T(8)] sz])
    have "i_block x1 ! K = i_block x ! K" using K l unfolding T(3) T(4) [symmetric] by (simp add: nth_append)
    moreover have "unat (i_size x1) = max (unat (i_size x)) (unat off + unat sz)" unfolding sz u using lt by simp
    moreover have "\<exists>ib sz'. x1 = x\<lparr>i_block := ib, i_size := sz'\<rparr>" unfolding T(3) by auto
    ultimately show thesis using that [OF W _ T(2,7,8,6)] T(10,11) True unfolding T(5) by blast
  next
    case False
    then have ge: "unat off + unat sz \<le> unat (i_size x)" using u by (simp add: word_less_nat_alt)
    then have e: "K = k" unfolding K_def k bs_def by (simp add: max_absorb1)
    have "\<exists>ib sz'. x = x\<lparr>i_block := ib, i_size := sz'\<rparr>" by (intro exI [of _ "i_block x"] exI [of _ "i_size x"]) simp
    then show thesis using that [OF allI [OF refl] _ _ ok solo_mapaB_refl refl refl] A ge unfolding e by (simp add: max_absorb1)
  qed
qed

text \<open>
  \<open>cache_al_dia\<close>: the cache holds blocks of data only, with the bytes of the image. \<open>archivo_datos\<close>: a file of direct blocks, all of
  them data. \<open>libres_datos\<close>: a free block is data. \<open>bytes_escritos\<close>: the file has the new bytes where they were written and the old ones elsewhere.
  \<open>respeta\<close>: no block in use is freed, the data of other files stay, and so do the inodes.
\<close>

definition cache_al_dia ::
  "('c \<Rightarrow> (u8 list \<Rightarrow> u8 list option) \<Rightarrow> bool) \<Rightarrow> fs \<Rightarrow> Inode \<Rightarrow> Dir list list \<Rightarrow> 'c \<Rightarrow> bool" where
  "cache_al_dia rep F r ess c \<longleftrightarrow> (\<exists>m. rep c m \<and> coherente_dentro (f_ext2fs F) (dato F r ess) (block_size (f_sb F)) m)"

definition archivo_datos :: "fs \<Rightarrow> Inode \<Rightarrow> Dir list list \<Rightarrow> Inode \<Rightarrow> nat \<Rightarrow> bool" where
  "archivo_datos F r ess x k \<longleftrightarrow> archivo_directo F x k \<and> (\<forall>b \<in> set (take k (i_block x)). dato F r ess b)"

definition libres_datos :: "fs \<Rightarrow> Inode \<Rightarrow> Dir list list \<Rightarrow> bool" where
  "libres_datos F r ess \<longleftrightarrow> (\<forall>b. bloque_valido F b \<and> \<not> bloque_ocupado F b \<longrightarrow> dato F r ess b)"

definition bytes_escritos :: "fs \<Rightarrow> fs \<Rightarrow> Inode \<Rightarrow> Inode \<Rightarrow> nat \<Rightarrow> u8 list \<Rightarrow> bool" where
  "bytes_escritos F F' x x' off xs \<longleftrightarrow> unat (i_size x') = max (unat (i_size x)) (off + length xs)
     \<and> (\<forall>j < unat (i_size x'). byte_de (f_ext2fs F') x' (block_size (f_sb F)) j =
          (if off \<le> j \<and> j < off + length xs then xs ! (j - off) else byte_de (f_ext2fs F) x (block_size (f_sb F)) j))"

definition respeta :: "fs \<Rightarrow> fs \<Rightarrow> Inode \<Rightarrow> Dir list list \<Rightarrow> u32 list \<Rightarrow> u32 set \<Rightarrow> bool" where
  "respeta F F' r ess propios ns \<longleftrightarrow> (\<forall>b. bloque_valido F b \<and> bloque_ocupado F b \<longrightarrow> bloque_ocupado F' b)
     \<and> (\<forall>b. dato F r ess b \<and> bloque_valido F b \<and> bloque_ocupado F b \<and> b \<notin> set propios \<longrightarrow>
          bytes_at (f_ext2fs F') (base (block_size (f_sb F)) b) (unat (block_size (f_sb F))) = bytes_at (f_ext2fs F) (base (block_size (f_sb F)) b) (unat (block_size (f_sb F))))
     \<and> (\<forall>m. inodo_valido F m \<longrightarrow> inodo_ocupado F' m = inodo_ocupado F m)
     \<and> (\<forall>m y. inodo_valido F m \<and> m \<notin> ns \<and> inodo_en F m = Some y \<longrightarrow> inodo_en F' m = Some y)"

lemma dato_mapaB:
  assumes "solo_mapaB F F1" "dato F r ess b"
  shows "intacto (f_ext2fs F) (f_ext2fs F1) (base (block_size (f_sb F)) b) (unat (block_size (f_sb F)))"
  by (rule intacto_mapaB [OF assms(1)]) (use assms(2) in \<open>simp_all add: dato_def zona_def\<close>)

lemma nth_en_take: "i < k \<Longrightarrow> i < length xs \<Longrightarrow> xs ! i \<in> set (take k xs)"
  by (force simp: in_set_conv_nth)

lemma bloques_de_archivo:
  assumes A: "archivo_datos F r ess x k" and lib: "libres_datos F r ess" and S: "solo_mapaB F F1" and A1: "archivo_directo F1 x1 K" and K: "K \<le> 11"
    and t: "take k (i_block x1) = take k (i_block x)" "\<forall>b \<in> set (drop k (take K (i_block x1))). bloque_valido F b \<and> \<not> bloque_ocupado F b"
  shows "bloques_ok (f_ext2fs F1) (dato F r ess) x1 (block_size (f_sb F)) K"
proof -
  have a: "length (i_block x1) = 15" "distinct (take K (i_block x1))" using A1 by (simp_all add: archivo_directo_def)
  have d: "dato F r ess b" if b: "b \<in> set (take K (i_block x1))" for b
  proof -
    consider "b \<in> set (take k (take K (i_block x1)))" | "b \<in> set (drop k (take K (i_block x1)))"
      using b append_take_drop_id [of k "take K (i_block x1)"] by (metis Un_iff set_append)
    then show ?thesis
    proof cases
      case 1
      then have "b \<in> set (take k (i_block x1))" by (metis in_set_takeD take_take min.commute)
      then show ?thesis using A unfolding t(1) archivo_datos_def by blast
    qed (use t(2) lib in \<open>auto simp: libres_datos_def\<close>)
  qed
  have len: "dk_len (f_ext2fs F1) = dk_len (f_ext2fs F)" using S by (simp add: solo_mapaB_def)
  have "dato F r ess (i_block x1 ! i)" if "i < K" for i by (rule d [OF nth_en_take]) (use that a(1) K in simp_all)
  then show ?thesis using a K len by (auto simp: bloques_ok_def dato_def bloque_en_def)
qed

lemma dato_ajeno:
  assumes t: "take k (i_block x1) = take k (i_block x)" "\<forall>b \<in> set (drop k (take K (i_block x1))). bloque_valido F b \<and> \<not> bloque_ocupado F b"
    and l: "length (i_block x1) = 15" "K \<le> 11" and b: "bloque_ocupado F b" "b \<notin> set (take k (i_block x))" and i: "i < K"
  shows "b \<noteq> i_block x1 ! i"
proof
  assume e: "b = i_block x1 ! i"
  show False
  proof (cases "i < k")
    case True
    then have "b \<in> set (take k (i_block x1))" unfolding e using i l by (intro nth_en_take) simp_all
    then show False using b(2) unfolding t(1) by blast
  next
    case False
    then have "b = drop k (take K (i_block x1)) ! (i - k)" unfolding e using i l by simp
    moreover have "i - k < length (drop k (take K (i_block x1)))" using False i l by simp
    ultimately have "b \<in> set (drop k (take K (i_block x1)))" by simp
    then show False using t(2) b(1) by blast
  qed
qed

text \<open>The bytes in the blocks that a file keeps.\<close>

lemma byte_igual:
  assumes A: "archivo_datos F r ess x k" and I: "\<And>b. dato F r ess b \<Longrightarrow> intacto (f_ext2fs F) d' (base (block_size (f_sb F)) b) (unat (block_size (f_sb F)))"
    and t: "take q (i_block x1) = take q (i_block x)" "q \<le> k" and j: "j < q * unat (block_size (f_sb F))"
  shows "byte_de d' x1 (block_size (f_sb F)) j = byte_de (f_ext2fs F) x (block_size (f_sb F)) j"
proof -
  let ?bs = "block_size (f_sb F)"
  let ?i = "j div unat ?bs"
  have D: "archivo_directo F x k" using A by (simp add: archivo_datos_def)
  have b0: "0 < unat ?bs" by (rule directo_techo(1) [OF D])
  have i: "?i < q" "?i < k" using j t(2) b0 by (simp_all add: div_less_iff_less_mult less_le_trans)
  have k12: "k \<le> 12" "length (i_block x) = 15" using D by (simp_all add: archivo_directo_def)
  then have e: "byte_de d z ?bs j = dk_byte d (base ?bs (i_block z ! ?i) + j mod unat ?bs)" for d z by (intro byte_directo) (use i in simp)
  have p: "i_block x1 ! ?i = i_block x ! ?i" using t(1) i(1) by (metis nth_take)
  have "i_block x ! ?i \<in> set (take k (i_block x))" using i k12 by (intro nth_en_take) simp_all
  then have "intacto (f_ext2fs F) d' (base ?bs (i_block x ! ?i)) (unat ?bs)" using A I by (auto simp: archivo_datos_def)
  then show ?thesis unfolding e p using mod_less_divisor [OF b0, of j] by (simp add: intacto_def)
qed

lemma byte_crece:
  assumes A: "archivo_datos F r ess x k" and S: "solo_mapaB F F1" and t: "take k (i_block x1) = take k (i_block x)" and j: "j < unat (i_size x)"
  shows "byte_de (f_ext2fs F1) x1 (block_size (f_sb F)) j = byte_de (f_ext2fs F) x (block_size (f_sb F)) j"
proof (rule byte_igual [OF A dato_mapaB [OF S] t le_refl])
  have "archivo_directo F x k" using A by (simp add: archivo_datos_def)
  note d = directo_techo [OF this]
  show "j < k * unat (block_size (f_sb F))" using j techo_alcanza [OF d(1), of "unat (i_size x)"] unfolding d(2) by linarith
qed

lemma bytes_bien:
  assumes A: "archivo_datos F r ess x k" and S: "solo_mapaB F F1" and t: "take k (i_block x1) = take k (i_block x)"
    and w: "escrito (f_ext2fs F1) d' x1 (block_size (f_sb F)) K off xs"
    and sz: "unat (i_size x1) = max (unat (i_size x)) (off + length xs)" "unat (i_size x1) \<le> K * unat (block_size (f_sb F))" "off \<le> unat (i_size x)"
  shows "bytes_escritos F (F1\<lparr>f_ext2fs := d'\<rparr>) x x1 off xs"
  unfolding bytes_escritos_def
proof (intro conjI allI impI)
  let ?bs = "block_size (f_sb F)"
  fix j assume j: "j < unat (i_size x1)"
  have "byte_de d' x1 ?bs j = (if off \<le> j \<and> j < off + length xs then xs ! (j - off) else byte_de (f_ext2fs F1) x1 ?bs j)"
    using w less_le_trans [OF j sz(2)] unfolding escrito_def by blast
  moreover have "byte_de (f_ext2fs F1) x1 ?bs j = byte_de (f_ext2fs F) x ?bs j" if "\<not> (off \<le> j \<and> j < off + length xs)"
    by (rule byte_crece [OF A S t]) (use that j sz(1,3) in linarith)
  ultimately show "byte_de (f_ext2fs (F1\<lparr>f_ext2fs := d'\<rparr>)) x1 ?bs j =
      (if off \<le> j \<and> j < off + length xs then xs ! (j - off) else byte_de (f_ext2fs F) x ?bs j)" by simp
qed (rule sz(1))

lemma respeta_bien:
  assumes E: "estable F r ino ess" and A: "archivo_datos F ino ess x k" and F1: "fs_ok F1" "solo_mapaB F F1"
    and t: "take k (i_block x1) = take k (i_block x)" "\<forall>b \<in> set (drop k (take K (i_block x1))). bloque_valido F b \<and> \<not> bloque_ocupado F b"
    and l: "length (i_block x1) = 15" "K \<le> 11"
    and oc: "\<forall>b. bloque_valido F b \<longrightarrow> bloque_ocupado F1 b = (b \<in> set (drop k (take K (i_block x1))) \<or> bloque_ocupado F b)"
    and w: "escrito (f_ext2fs F1) d' x1 (block_size (f_sb F)) K off xs" and M: "mantiene F1 (F1\<lparr>f_ext2fs := d'\<rparr>)"
  shows "respeta F (F1\<lparr>f_ext2fs := d'\<rparr>) ino ess (take k (i_block x)) {}"
  unfolding respeta_def
proof (intro conjI allI impI)
  let ?bs = "block_size (f_sb F)" and ?F = "F1\<lparr>f_ext2fs := d'\<rparr>"
  have len: "dk_len (f_ext2fs F1) = dk_len (f_ext2fs F)" using F1(2) by (simp add: solo_mapaB_def)
  have v: "bloque_valido F1 b = bloque_valido F b" "inodo_valido F1 n = inodo_valido F n" for b n by (rule solo_mapaB_sel(6,7) [OF F1(2)])+
  {
    fix b assume b: "dato F ino ess b \<and> bloque_valido F b \<and> bloque_ocupado F b \<and> b \<notin> set (take k (i_block x))"
    have "intacto (f_ext2fs F1) d' (base ?bs b) (unat ?bs)"
    proof (rule escrito_fuera [OF w])
      show "base ?bs b + unat ?bs \<le> dk_len (f_ext2fs F1)" using b len by (simp add: dato_def zona_def)
      fix i assume i: "i < K"
      have "b \<noteq> i_block x1 ! i" by (rule dato_ajeno [OF t l]) (use b i in auto)
      then have "base ?bs (i_block x1 ! i) + unat ?bs \<le> base ?bs b \<or> base ?bs b + unat ?bs \<le> base ?bs (i_block x1 ! i)" by (intro bloques_disj) simp
      then show "disjuntos (base ?bs (i_block x1 ! i)) (unat ?bs) (base ?bs b) (unat ?bs)" by (simp add: disjuntos_def)
    qed
    then have "intacto (f_ext2fs F) d' (base ?bs b) (unat ?bs)" using b dato_mapaB [OF F1(2)] intacto_trans by blast
    then show "bytes_at (f_ext2fs ?F) (base ?bs b) (unat ?bs) = bytes_at (f_ext2fs F) (base ?bs b) (unat ?bs)" by (simp add: intacto_bytes)
  next
    fix b assume "bloque_valido F b \<and> bloque_ocupado F b"
    then show "bloque_ocupado ?F b" using mantieneD(3) [OF M] oc v by simp
  next
    fix n assume "inodo_valido F n"
    then show "inodo_ocupado ?F n = inodo_ocupado F n" using mantieneD(1) [OF M] F1(2) v by (simp add: solo_mapaB_def)
  next
    fix n y assume "inodo_valido F n \<and> n \<notin> {} \<and> inodo_en F n = Some y"
    then show "inodo_en ?F n = Some y" using mantieneD(2) [OF M] estable_mapaB(2) [OF E F1] v by blast
  }
qed

lemma escribir_bien:
  fixes F x off sz
  defines "K \<equiv> techo (max (unat (i_size x)) (unat off + unat sz)) (unat (block_size (f_sb F)))"
  assumes E: "estable F r ino ess" and M: "cache_ok M rep clave_ok valor_ok (block_size (f_sb F))" and C: "cache_al_dia rep F ino ess c"
    and A: "archivo_datos F ino ess x k" and lib: "libres_datos F ino ess" and K: "K \<le> 11" and hay: "K - k \<le> hay_bloques F"
    and off: "unat off mod unat (block_size (f_sb F)) = 0" "unat off \<le> unat (i_size x)" and nov: "unat off + unat sz < 2 ^ 32" "unat sz \<le> length buf"
    and B: "unat sz \<in> {0, unat (block_size (f_sb F))} \<longrightarrow> dato F ino ess (i_block x ! K)"
  obtains c' F' x' where "Dir_escribirArchivo M c F x off sz buf = Some (int (unat sz), c', F', x')" "estable F' r ino ess" "planta_igual F F'"
    "cache_al_dia rep F' ino ess c'" "archivo_directo F' x' K" "bloques_ok (f_ext2fs F') (dato F ino ess) x' (block_size (f_sb F)) K"
    "bytes_escritos F F' x x' (unat off) (take (unat sz) buf)" "respeta F F' ino ess (take k (i_block x)) {}"
    "\<exists>ib sz'. x' = x\<lparr>i_block := ib, i_size := sz'\<rparr>" "i_size x < off + sz \<or> x' = x"
proof -
  let ?bs = "block_size (f_sb F)" and ?P = "dato F ino ess" and ?xs = "take (unat sz) buf"
  have D: "archivo_directo F x k" using A by (simp add: archivo_datos_def)
  have K12: "K \<le> 12" using K by simp
  obtain F1 x1 where L: "\<forall>c. Dir_escribirArchivo M c F x off sz buf = Dir_escribirArchivo M c F1 x1 off sz buf"
    "unat (i_size x1) = max (unat (i_size x)) (unat off + unat sz)" "archivo_directo F1 x1 K" "fs_ok F1" "solo_mapaB F F1"
    "take k (i_block x1) = take k (i_block x)" "i_block x1 ! K = i_block x ! K"
    "\<forall>b \<in> set (drop k (take K (i_block x1))). bloque_valido F b \<and> \<not> bloque_ocupado F b"
    "\<forall>b. bloque_valido F b \<longrightarrow> bloque_ocupado F1 b = (b \<in> set (drop k (take K (i_block x1))) \<or> bloque_ocupado F b)"
    "\<exists>ib sz'. x1 = x\<lparr>i_block := ib, i_size := sz'\<rparr>" "i_size x < off + sz \<or> x1 = x \<and> F1 = F"
    unfolding K_def by (rule lugar_para_escribir [where M = M and buf = buf, OF estableD(1) [OF E] D K12 [unfolded K_def] nov(1) hay [unfolded K_def]])
  have bs: "block_size (f_sb F1) = ?bs" by (rule solo_mapaB_sel(2) [OF L(5)])
  have pl: "planta_igual F F1" by (rule planta_mapaB [OF L(5)])
  have len: "dk_len (f_ext2fs F1) = dk_len (f_ext2fs F)" using pl by (simp add: planta_igual_def)
  have l15: "length (i_block x1) = 15" using L(3) by (simp add: archivo_directo_def)
  have E1: "estable F1 r ino ess" by (rule estable_mapaB(1) [OF E L(4,5)])
  have B1: "bloques_ok (f_ext2fs F1) ?P x1 ?bs K" by (rule bloques_de_archivo [OF A lib L(5,3) K L(6,8)])
  obtain m where m: "rep c m" "coherente_dentro (f_ext2fs F) ?P ?bs m" using C by (auto simp: cache_al_dia_def)
  have m1: "coherente_dentro (f_ext2fs F1) ?P ?bs m" by (rule coherente_intacto [OF m(2) len dato_mapaB [OF L(5)]])
  have b0: "0 < unat ?bs" by (rule directo_techo(1) [OF D])
  have tK: "unat (i_size x1) \<le> K * unat ?bs" unfolding L(2) K_def by (rule techo_alcanza [OF b0])
  have "off + sz \<le> i_size x1" using L(2) nov(1) by (simp add: word_le_nat_alt unat_add_u32)
  moreover have "unat off + unat sz \<le> K * unat ?bs" using tK unfolding L(2) by simp
  moreover have "unat sz \<in> {0, unat ?bs} \<longrightarrow> borde_ok (f_ext2fs F1) ?P x1 ?bs K"
    using B len unfolding borde_ok_def L(7) by (auto simp: dato_def bloque_en_def)
  ultimately obtain c' d' where W: "Dir_escribirArchivo M c F1 x1 off sz buf = Some (int (unat sz), c', F1\<lparr>f_ext2fs := d'\<rparr>, x1)"
    "escritura rep (f_ext2fs F1) ?P x1 ?bs K (unat off) ?xs c' d'"
    using escribirArchivo_alineada [where F = F1, unfolded bs, OF M m(1) m1 B1 off(1) _ _ nov(2)] by blast
  let ?F = "F1\<lparr>f_ext2fs := d'\<rparr>"
  obtain m' where w: "escrito (f_ext2fs F1) d' x1 ?bs K (unat off) ?xs" "rep c' m'" "coherente_dentro d' ?P ?bs m'" using W(2) by (auto simp: escritura_def)
  have ld: "dk_len d' = dk_len (f_ext2fs F1)" using w(1) by (simp add: escrito_def)
  have pl2: "planta_igual F ?F" by (rule planta_trans [OF pl planta_disco [OF ld]])
  have dt: "dato F1 ino ess = ?P" "dato ?F ino ess = ?P" using dato_planta [OF pl] dato_planta [OF pl2] by (auto simp: fun_eq_iff)
  have E2: "estable ?F r ino ess" "mantiene F1 ?F" by (rule estable_datos [OF E1, unfolded dt bs, OF B1 w(1)])+
  have C2: "cache_al_dia rep ?F ino ess c'" using w(2,3) dt(2) bs by (auto simp: cache_al_dia_def)
  have v: "bloque_valido F1 b = bloque_valido F b" "inodo_valido F1 n = inodo_valido F n" for b n by (rule solo_mapaB_sel(6,7) [OF L(5)])+
  have D2: "archivo_directo ?F x1 K" using L(3) mantieneD(3) [OF E2(2)] by (simp add: archivo_directo_def valido_disco)
  have B2: "bloques_ok (f_ext2fs ?F) ?P x1 ?bs K" using bloques_ok_len(1) [OF B1 ld] by simp
  have lxs: "length ?xs = unat sz" using nov(2) by simp
  have Y: "bytes_escritos F ?F x x1 (unat off) ?xs"
    by (rule bytes_bien [OF A L(5,6) w(1) _ _ off(2)]) (use L(2) tK lxs in simp_all)
  have R: "respeta F ?F ino ess (take k (i_block x)) {}" by (rule respeta_bien [OF E A L(4,5,6,8) l15 K L(9) w(1) E2(2)])
  show thesis
    by (rule that [OF _ E2(1) pl2 C2 D2 B2 Y R L(10)]) (use L(1,11) W(1) in auto)
qed

section \<open>Writing back\<close>

text \<open>A step that leaves the data and, but for the inodes \<open>ns\<close>, everything else that counts.\<close>

definition aparte :: "fs \<Rightarrow> fs \<Rightarrow> Inode \<Rightarrow> Dir list list \<Rightarrow> u32 set \<Rightarrow> bool" where
  "aparte F G r ess ns \<longleftrightarrow> planta_igual F G
     \<and> (\<forall>b. dato F r ess b \<longrightarrow> intacto (f_ext2fs F) (f_ext2fs G) (base (block_size (f_sb F)) b) (unat (block_size (f_sb F))))
     \<and> (\<forall>b. bloque_valido F b \<longrightarrow> bloque_ocupado G b = bloque_ocupado F b) \<and> (\<forall>m. inodo_valido F m \<longrightarrow> inodo_ocupado G m = inodo_ocupado F m)
     \<and> (\<forall>m y. inodo_valido F m \<and> m \<notin> ns \<and> inodo_en F m = Some y \<longrightarrow> inodo_en G m = Some y)"

lemma aparte_trans:
  assumes A: "aparte F G r ess ns" and B: "aparte G H r ess ms"
  shows "aparte F H r ess (ns \<union> ms)"
proof -
  have p: "planta_igual F G" "planta_igual G H" using A B by (simp_all add: aparte_def)
  have bs: "block_size (f_sb G) = block_size (f_sb F)" using p(1) by (simp add: planta_igual_def)
  note v = valido_planta [OF p(1)] dato_planta [OF p(1)] bs
  have i: "intacto (f_ext2fs F) (f_ext2fs H) (base (block_size (f_sb F)) b) (unat (block_size (f_sb F)))" if "dato F r ess b" for b
  proof (rule intacto_trans)
    show "intacto (f_ext2fs F) (f_ext2fs G) (base (block_size (f_sb F)) b) (unat (block_size (f_sb F)))" using A that by (simp add: aparte_def)
    have "dato G r ess b" using that v(3) by simp
    then show "intacto (f_ext2fs G) (f_ext2fs H) (base (block_size (f_sb F)) b) (unat (block_size (f_sb F)))" using B bs by (simp add: aparte_def)
  qed
  have "inodo_en H m = Some y" if "inodo_valido F m" "m \<notin> ns \<union> ms" "inodo_en F m = Some y" for m y
    using A B that v(2) unfolding aparte_def by auto
  then show ?thesis using planta_trans [OF p] i A B v(1,2) unfolding aparte_def by simp
qed

lemma aparte_inodo:
  assumes E: "estable F r ino ess" and n: "inodo_valido F n" "n \<noteq> r" and x: "inode_ok x"
  obtains d where "Inode_escribirInodo (f_ext2fs F) (s_inodes_per_group (f_sb F)) (f_bgdt F) n (block_size (f_sb F)) x = Some d"
    "estable (F\<lparr>f_ext2fs := d\<rparr>) r ino ess" "inodo_en (F\<lparr>f_ext2fs := d\<rparr>) n = Some x" "aparte F (F\<lparr>f_ext2fs := d\<rparr>) ino ess {n}"
proof -
  obtain d where d: "Inode_escribirInodo (f_ext2fs F) (s_inodes_per_group (f_sb F)) (f_bgdt F) n (block_size (f_sb F)) x = Some d"
    "estable (F\<lparr>f_ext2fs := d\<rparr>) r ino ess" "inodo_en (F\<lparr>f_ext2fs := d\<rparr>) n = Some x"
    "\<forall>m. inodo_valido F m \<longrightarrow> inodo_ocupado (F\<lparr>f_ext2fs := d\<rparr>) m = inodo_ocupado F m"
    "\<forall>b. bloque_valido F b \<longrightarrow> bloque_ocupado (F\<lparr>f_ext2fs := d\<rparr>) b = bloque_ocupado F b"
    "\<forall>m y. inodo_valido F m \<longrightarrow> m \<noteq> n \<longrightarrow> inodo_en F m = Some y \<longrightarrow> inodo_en (F\<lparr>f_ext2fs := d\<rparr>) m = Some y"
    by (rule escribir_inodo_bien [OF E n x])
  note f = escribirInodo_fuera [OF E n(1) x d(1)]
  have "aparte F (F\<lparr>f_ext2fs := d\<rparr>) ino ess {n}" using planta_disco [OF f(1)] f(2) d(4-6) by (simp add: aparte_def)
  then show thesis using that d(1-3) by blast
qed

lemma aparte_guardar:
  assumes E: "estable (sv_fs S) r ino ess"
  obtains G where "sv_guardar S = Some (S\<lparr>sv_fs := G\<rparr>)" "estable G r ino ess" "persistido G" "aparte (sv_fs S) G ino ess {}"
proof -
  obtain G where G: "sv_guardar S = Some (S\<lparr>sv_fs := G\<rparr>)" "estable G r ino ess" "mantiene (sv_fs S) G" "persistido G" by (rule persistir_bien [OF E])
  have "aparte (sv_fs S) G ino ess {}"
    using guardar_fuera(2,3) [OF E G(1)] mantieneD [OF G(3)] by (simp add: aparte_def)
  then show thesis using that G(1,2,4) by blast
qed

text \<open>What was written stays written.\<close>

lemma aparte_bien:
  assumes A: "aparte G H r ess ns" and P: "planta_igual F G" and B: "bloques_ok (f_ext2fs G) (dato F r ess) x' (block_size (f_sb F)) K" and K: "archivo_directo G x' K"
  shows "bytes_escritos F G x x' off xs \<Longrightarrow> bytes_escritos F H x x' off xs" "respeta F G r ess ps {} \<Longrightarrow> respeta F H r ess ps ns"
    "cache_al_dia rep G r ess c \<Longrightarrow> cache_al_dia rep H r ess c" "archivo_datos H r ess x' K"
    "bloques_ok (f_ext2fs H) (dato F r ess) x' (block_size (f_sb F)) K"
proof -
  have PH: "planta_igual G H" using A by (simp add: aparte_def)
  have bs: "block_size (f_sb G) = block_size (f_sb F)" "block_size (f_sb H) = block_size (f_sb F)" using P PH by (simp_all add: planta_igual_def)
  have len: "dk_len (f_ext2fs H) = dk_len (f_ext2fs G)" using PH by (simp add: planta_igual_def)
  have dt: "dato G r ess = dato F r ess" "dato H r ess = dato F r ess" using dato_planta [OF P] dato_planta [OF PH] by (simp_all add: fun_eq_iff)
  have i: "intacto (f_ext2fs G) (f_ext2fs H) (base (block_size (f_sb F)) b) (unat (block_size (f_sb F)))" if "dato F r ess b" for b
    using A that unfolding aparte_def dt bs by blast
  have oc: "bloque_ocupado H b = bloque_ocupado G b" if "bloque_valido G b" for b using A that by (simp add: aparte_def)
  note v = valido_planta [OF P] valido_planta [OF PH] and t = directo_techo [OF K, unfolded bs]
  show B': "bloques_ok (f_ext2fs H) (dato F r ess) x' (block_size (f_sb F)) K" by (rule bloques_ok_len(1) [OF B len])
  show "archivo_datos H r ess x' K"
    using K oc B v by (auto simp: archivo_datos_def archivo_directo_def bloques_ok_def bs dt in_set_conv_nth)
  show "cache_al_dia rep H r ess c" if "cache_al_dia rep G r ess c"
    using that coherente_intacto [OF _ len i] unfolding cache_al_dia_def dt bs by blast
  show "bytes_escritos F H x x' off xs" if Y: "bytes_escritos F G x x' off xs"
  proof -
    have "byte_de (f_ext2fs H) x' (block_size (f_sb F)) j = byte_de (f_ext2fs G) x' (block_size (f_sb F)) j" if "j < unat (i_size x')" for j
      by (rule byte_intacto [OF B t(1) i]) (use that techo_alcanza [OF t(1), of "unat (i_size x')"] t(2) in simp_all)
    then show ?thesis using Y by (simp add: bytes_escritos_def)
  qed
  show "respeta F H r ess ps ns" if R: "respeta F G r ess ps {}"
  proof -
    have y: "bytes_at (f_ext2fs H) (base (block_size (f_sb F)) b) (unat (block_size (f_sb F)))
        = bytes_at (f_ext2fs G) (base (block_size (f_sb F)) b) (unat (block_size (f_sb F)))" if "dato F r ess b" for b
      by (rule intacto_bytes [OF i [OF that]])
    have "\<forall>m. inodo_valido F m \<longrightarrow> inodo_ocupado H m = inodo_ocupado G m" "\<forall>m y. inodo_valido F m \<and> m \<notin> ns \<and> inodo_en G m = Some y \<longrightarrow> inodo_en H m = Some y"
      using A v by (simp_all add: aparte_def)
    then show ?thesis using R oc v y unfolding respeta_def by simp
  qed
qed

section \<open>The request\<close>

text \<open>
  \<open>archivo_guardado\<close>: what a write leaves. The inode on the image gives the file its new bytes; blocks and inodes of other files are
  as they were; the cache agrees with the image; every path under the root resolves as before; bitmaps, counters, superblock and descriptors
  of image and memory agree.
\<close>

definition archivo_guardado ::
  "('c \<Rightarrow> (u8 list \<Rightarrow> u8 list option) \<Rightarrow> bool) \<Rightarrow> 'c servidor \<Rightarrow> 'c servidor \<Rightarrow> Inode \<Rightarrow> Dir list list \<Rightarrow> u32 \<Rightarrow> Inode \<Rightarrow> nat \<Rightarrow> nat \<Rightarrow> u8 list \<Rightarrow> bool" where
  "archivo_guardado rep S S' r ess n x k off xs \<longleftrightarrow>
     (\<exists>x'. sv_leerInodo S' n = Some x' \<and> bytes_escritos (sv_fs S) (sv_fs S') x x' off xs)
     \<and> respeta (sv_fs S) (sv_fs S') r ess (take k (i_block x)) {n} \<and> cache_al_dia rep (sv_fs S') r ess (sv_cache S')
     \<and> (\<forall>otro. nombre_ok otro \<longrightarrow> sv_buscarPath S' (47 # otro) = sv_buscarPath S (47 # otro)) \<and> fs_ok (sv_fs S') \<and> persistido (sv_fs S')"

text \<open>Two states with the same listing of the root directory resolve the same names.\<close>

lemma rutas_iguales:
  assumes "estable (sv_fs S) INODO_RAIZ ino ess" "estable (sv_fs S') INODO_RAIZ ino ess" "nombre_ok otro"
  shows "sv_buscarPath S' (47 # otro) = sv_buscarPath S (47 # otro)"
  using buscarPath_raiz [OF estableD(3) [OF assms(1)] assms(3)] buscarPath_raiz [OF estableD(3) [OF assms(2)] assms(3)] by simp

text \<open>The inode goes back only when the file has grown; superblock and descriptors always do.\<close>

lemma devolver_bien:
  assumes E: "estable F r ino ess" and S: "sv_fs S = F" and n: "inodo_valido F n" "n \<noteq> r" and x: "inode_ok x" "\<not> crece \<longrightarrow> inodo_en F n = Some x"
  obtains S3 G where "(if crece then sv_escribirInodo S n x else Some S) = Some S3" "sv_guardar (sv_unlock S3 n) = Some ((sv_unlock S n)\<lparr>sv_fs := G\<rparr>)"
    "estable G r ino ess" "persistido G" "aparte F G ino ess {n}" "inodo_en G n = Some x"
proof -
  obtain F3 where F3: "(if crece then sv_escribirInodo S n x else Some S) = Some (S\<lparr>sv_fs := F3\<rparr>)" "estable F3 r ino ess" "inodo_en F3 n = Some x"
    "aparte F F3 ino ess {n}"
  proof (cases crece)
    case True
    obtain d where d: "Inode_escribirInodo (f_ext2fs F) (s_inodes_per_group (f_sb F)) (f_bgdt F) n (block_size (f_sb F)) x = Some d"
      "estable (F\<lparr>f_ext2fs := d\<rparr>) r ino ess" "inodo_en (F\<lparr>f_ext2fs := d\<rparr>) n = Some x" "aparte F (F\<lparr>f_ext2fs := d\<rparr>) ino ess {n}"
      by (rule aparte_inodo [OF E n x(1)])
    then show thesis using that [of "F\<lparr>f_ext2fs := d\<rparr>"] True S by (simp add: sv_escribirInodo_def)
  next
    case False
    have "aparte F F ino ess {n}" by (simp add: aparte_def planta_igual_def intacto_def)
    then show thesis using that [of F] False x(2) S E by simp
  qed
  have u: "sv_fs (sv_unlock (S\<lparr>sv_fs := F3\<rparr>) n) = F3" by (simp add: sv_unlock_def)
  have E3: "estable (sv_fs (sv_unlock (S\<lparr>sv_fs := F3\<rparr>) n)) r ino ess" unfolding u by (rule F3(2))
  obtain G where G: "sv_guardar (sv_unlock (S\<lparr>sv_fs := F3\<rparr>) n) = Some ((sv_unlock (S\<lparr>sv_fs := F3\<rparr>) n)\<lparr>sv_fs := G\<rparr>)"
    "estable G r ino ess" "persistido G" "aparte (sv_fs (sv_unlock (S\<lparr>sv_fs := F3\<rparr>) n)) G ino ess {}" by (rule aparte_guardar [OF E3])
  have A: "aparte F G ino ess {n}" using aparte_trans [OF F3(4) G(4) [unfolded u]] by simp
  have "planta_igual F F3" using F3(4) by (simp add: aparte_def)
  then have "inodo_valido F3 n" using n(1) valido_planta(2) by blast
  then have "inodo_en G n = Some x" using G(4) F3(3) unfolding u aparte_def by blast
  then show thesis using that [OF F3(1) _ G(2,3) A] G(1) by (simp add: sv_unlock_def)
qed

lemma procesarWrite_bien:
  fixes S :: "'c servidor" and x off buf
  defines "K \<equiv> techo (max (unat (i_size x)) (off + length buf)) (unat (sv_bs S))"
  assumes E: "estable (sv_fs S) INODO_RAIZ ino ess" and M: "cache_ok M rep clave_ok valor_ok (sv_bs S)" and C: "cache_al_dia rep (sv_fs S) ino ess (sv_cache S)"
    and P: "deserializar_Write_Pedido A buffer = Some \<lparr>dw_path = path, dw_size = length buf, dw_buf = buf, dw_offset = off\<rparr>"
    and n: "sv_buscarPath S path = Some n" "n \<noteq> 0" "n \<noteq> INODO_RAIZ" "inodo_valido (sv_fs S) n" "sv_lock S n TIPOWRITE = Some S1" "sv_leerInodo S n = Some x"
    and X: "archivo_datos (sv_fs S) ino ess x k" and lib: "libres_datos (sv_fs S) ino ess" and K: "K \<le> 11" "K - k \<le> hay_bloques (sv_fs S)"
    and off: "off mod unat (sv_bs S) = 0" "off \<le> unat (i_size x)" "off + length buf < 2 ^ 31"
    and B: "length buf \<in> {0, unat (sv_bs S)} \<longrightarrow> dato (sv_fs S) ino ess (i_block x ! K)"
  obtains S' envio x' where "procesarWrite A M S buffer = Some (S', envio)" "archivo_guardado rep S S' ino ess n x k off buf"
    "serializar_Write_Rta (int (length buf)) = Some envio" "sv_monitor S' = Sincro_monitorUnlock n (sv_monitor S1)"
    "sv_leerInodo S' n = Some x'" "bytes_escritos (sv_fs S) (sv_fs S') x x' off buf" "archivo_legible (f_ext2fs (sv_fs S')) (sv_bs S') x'" "sv_bs S' = sv_bs S"
proof -
  let ?F = "sv_fs S" and ?o = "word_of_nat off :: u32" and ?z = "word_of_nat (length buf) :: u32"
  have u: "unat ?o = off" "unat ?z = length buf" using off(3) by (simp_all add: unat_of_nat_u32)
  have nov: "unat ?o + unat ?z < 2 ^ 32" "unat ?z \<le> length buf" "unat ?o mod unat (sv_bs S) = 0" "unat ?o \<le> unat (i_size x)" using u off by simp_all
  have s1: "sv_fs S1 = ?F" "sv_cache S1 = sv_cache S" using n(5) by (auto simp: sv_lock_def)
  let ?K = "techo (max (unat (i_size x)) (unat ?o + unat ?z)) (unat (sv_bs S))"
  have KK: "?K = K" unfolding K_def u ..
  have Ku: "?K \<le> 11" "?K - k \<le> hay_bloques ?F" and Bu: "unat ?z \<in> {0, unat (sv_bs S)} \<longrightarrow> dato ?F ino ess (i_block x ! ?K)"
    using K B unfolding K_def u by blast+
  obtain c' F' x' where W: "Dir_escribirArchivo M (sv_cache S) ?F x ?o ?z buf = Some (int (unat ?z), c', F', x')" "estable F' INODO_RAIZ ino ess"
    "planta_igual ?F F'" "cache_al_dia rep F' ino ess c'" "archivo_directo F' x' (techo (max (unat (i_size x)) (unat ?o + unat ?z)) (unat (sv_bs S)))"
    "bloques_ok (f_ext2fs F') (dato ?F ino ess) x' (sv_bs S) (techo (max (unat (i_size x)) (unat ?o + unat ?z)) (unat (sv_bs S)))"
    "bytes_escritos ?F F' x x' (unat ?o) (take (unat ?z) buf)" "respeta ?F F' ino ess (take k (i_block x)) {}"
    "\<exists>ib sz'. x' = x\<lparr>i_block := ib, i_size := sz'\<rparr>" "i_size x < ?o + ?z \<or> x' = x"
    by (rule escribir_bien [OF E M C X lib Ku nov(3,4,1,2) Bu])
  note W5 = W(5) [unfolded KK] and W6 = W(6) [unfolded KK]
  have ix: "inode_ok x'" using W5 by (simp add: archivo_directo_def inode_ok_def)
  have nF: "inodo_valido F' n" using valido_planta(2) [OF W(3)] n(4) by simp
  have keep: "\<not> i_size x < ?o + ?z \<longrightarrow> inodo_en F' n = Some x'" using W(8,10) n(4,6) by (auto simp: respeta_def)
  let ?S2 = "S1\<lparr>sv_fs := F', sv_cache := c'\<rparr>"
  obtain S3 G where G: "(if i_size x < ?o + ?z then sv_escribirInodo ?S2 n x' else Some ?S2) = Some S3"
    "sv_guardar (sv_unlock S3 n) = Some ((sv_unlock ?S2 n)\<lparr>sv_fs := G\<rparr>)"
    "estable G INODO_RAIZ ino ess" "persistido G" "aparte F' G ino ess {n}" "inodo_en G n = Some x'"
    by (rule devolver_bien [OF W(2) _ nF n(3) ix keep, of ?S2]) simp
  note T = aparte_bien [OF G(5) W(3) W6 W5]
  let ?S' = "(sv_unlock ?S2 n)\<lparr>sv_fs := G\<rparr>"
  have bsG: "block_size (f_sb G) = sv_bs S" using W(3) G(5) by (simp add: planta_igual_def aparte_def)
  obtain envio where e: "serializar_Write_Rta (int (length buf)) = Some envio" "lee envio 0 7 = Some envio"
    by (simp add: serializar_Write_Rta_def serializar_Nipc_def lee_def)
  have R: "procesarWrite A M S buffer = Some (?S', envio)"
    using P n(1,2,5,6) W(1) G(1,2) e unfolding procesarWrite_def Let_def by (simp add: s1 u)
  have Y: "bytes_escritos ?F G x x' off buf" using T(1) [OF W(7)] u by simp
  have leg: "archivo_legible (f_ext2fs G) (block_size (f_sb G)) x'"
  proof -
    have "bloque_legible (f_ext2fs G) x' (sv_bs S) i" if i: "i < K" for i
    proof -
      have "Inode_leerBloque (f_ext2fs G) (word_of_nat i) x' (sv_bs S) = Some (i_block x' ! i)" by (rule leerBloque_directo) (use i K in simp)
      then show ?thesis using bloques_okD(1) [OF T(5) i] by (simp add: bloque_legible_def)
    qed
    moreover have "K = techo (unat (i_size x')) (unat (sv_bs S))" using directo_techo(2) [OF W5] W(3) by (simp add: planta_igual_def)
    ultimately show ?thesis unfolding archivo_legible_def bsG by simp
  qed
  have "sv_buscarPath ?S' (47 # otro) = sv_buscarPath S (47 # otro)" if "nombre_ok otro" for otro
    by (rule rutas_iguales [OF E _ that]) (use G(3) in simp)
  then have "archivo_guardado rep S ?S' ino ess n x k off buf"
    using G(4,6) Y T(2) [OF W(8)] T(3) [OF W(4)] estableD(1) [OF G(3)] unfolding archivo_guardado_def by (simp add: sv_unlock_def)
  then show thesis by (rule that [OF R _ e(1)]) (use G(6) Y leg bsG in \<open>simp_all add: sv_unlock_def\<close>)
qed

section \<open>From the client\<close>

lemma lee_donde_escribe:
  "Sincro_monitorLock n l TIPOWRITE = Some l1 \<Longrightarrow> \<exists>l2. Sincro_monitorLock n l TIPOREAD = Some l2"
  by (induction l arbitrary: l1)
    (auto simp: Sincro_monitorLock_def rwlock_tomar_def TIPOREAD_def TIPOWRITE_def split: if_splits)

lemma escrito_recibido:
  assumes "serializar_Write_Rta r = Some envio" "- (2 ^ 31) \<le> r" "r < 2 ^ 31"
  obtains pl where "recv_Nipc envio = Some (\<lparr>tipo = TIPOWRITE, payloadLength = 4, payload = pl\<rparr>, [])" "deserializar_Write_Rta pl = Some r"
proof -
  let ?pl = "enc32 (word_of_int r :: u32)"
  have "sint (word_of_int r :: u32) = r" using assms(2,3) unfolding signed_of_int by (simp add: signed_take_bit_int_eq_self)
  then have "deserializar_Write_Rta ?pl = Some r" by (simp add: deserializar_Write_Rta_def lee_def)
  moreover have "recv_Nipc envio = Some (\<lparr>tipo = TIPOWRITE, payloadLength = 4, payload = ?pl\<rparr>, [])"
    using recv_serializar_Nipc [of ?pl 4 TIPOWRITE "[]"] assms(1) by (auto simp: serializar_Write_Rta_def)
  ultimately show thesis using that by blast
qed

text \<open>A write request of the client, given what the server does with it.\<close>

abbreviation carga_write :: "u8 list \<Rightarrow> u8 list \<Rightarrow> nat \<Rightarrow> u8 list" where
  "carga_write path buf off \<equiv> path @ [0] @ bytes_le 4 (length buf) @ buf @ bytes_le 4 off"

lemma carga_recibida:
  assumes "0 \<notin> set path" "length path + length buf < 65000" "off < 2 ^ 32"
  shows "deserializar_Write_Pedido ilp32_server (carga_write path buf off) = Some \<lparr>dw_path = path, dw_size = length buf, dw_buf = buf, dw_offset = off\<rparr>"
proof -
  have "val_le (bytes_le 4 (length buf)) = length buf" "val_le (bytes_le 4 off) = off"
    using assms(2,3) by (simp_all add: val_bytes_le del: bytes_le.simps)
  moreover have "sizeof_size_t ilp32_server = 4" "sizeof_off_t ilp32_server = 4" by (simp_all add: ilp32_server_def ilp32_client_def)
  ultimately show ?thesis
    using deserializar_Write_layout [OF assms(1), of "bytes_le 4 (length buf)" ilp32_server buf "bytes_le 4 off"] assms(2) by simp
qed

lemma escritura_cliente:
  assumes pool: "cl_pool C = s # ss" and len: "length path + length buf < 65000"
    and R: "procesarWrite ilp32_server M (cl_remoto C) (carga_write path buf off) = Some (S', envio)" "serializar_Write_Rta r = Some envio"
      "- (2 ^ 31) \<le> r" "r < 2 ^ 31"
  shows "fsc_write ilp32_client M2 (servir ilp32_server M) C path buf (length buf) off =
    Some (r, C\<lparr>cl_pool := ss @ [s], cl_remoto := S', cl_cache := cache_borrarClave M2 (cl_cache C) CACHEGETATR path\<rparr>)"
proof -
  let ?p = "carga_write path buf off"
  have a: "sizeof_size_t ilp32_client = 4" by (simp add: ilp32_client_def ilp32_server_def)
  have tr: "transmite (serializar_Write_Pedido ilp32_client path (length buf) buf off) TIPOWRITE ?p"
    using transmite_Write_Pedido [of path ilp32_client buf off] len unfolding a by simp
  have lp: "length ?p = length path + length buf + 9" by simp
  have l6: "length ?p < 65536" unfolding lp using len by linarith
  obtain pk where pk: "serializar_Write_Pedido ilp32_client path (length buf) buf off = Some pk" "length pk = 3 + length ?p"
    "recv_Nipc pk = Some (\<lparr>tipo = TIPOWRITE, payloadLength = word_of_nat (length ?p), payload = ?p\<rparr>, [])"
    "crearPedido 0 ?p TIPOWRITE (word_of_nat (length ?p)) =
       Some \<lparr>p_client = 0, p_buffer = ?p, p_tipoPaquete = TIPOWRITE, p_payloadLength = word_of_nat (length ?p)\<rparr>"
    by (rule crearPedido_transmite [OF tr l6])
  have srv: "servir ilp32_server M (cl_remoto C) pk = Some (S', envio)"
    unfolding servir_def pk(3) using pk(4) R(1)
    by (simp add: atender_def Let_def TIPOGETATTR_def TIPOREADDIR_def TIPOREAD_def TIPOOPEN_def TIPOTRUNCATE_def TIPOWRITE_def)
  obtain pl where pl: "recv_Nipc envio = Some (\<lparr>tipo = TIPOWRITE, payloadLength = 4, payload = pl\<rparr>, [])" "deserializar_Write_Rta pl = Some r"
    by (rule escrito_recibido [OF R(2-4)])
  have "unat (tam_pedido path (4 + sizeof_size_t ilp32_client + length buf)) = length pk"
    unfolding tam_pedido_def a by (subst unat_word16) (use len pk(2) lp in simp_all)
  from intercambio_bien [where srv = "servir ilp32_server M", OF pool this srv pl(1)]
  show ?thesis using pk(1) pl(2) by (simp add: fsc_write_def)
qed

text \<open>
  C5: writing a file from the client. A write from the start of a block, not behind the end of a file of the root directory with direct blocks,
  on an image with the blocks it needs, returns the number of bytes: the file has the new bytes and keeps the others, with the size
  it has to have; the contents of the other files, the other inodes and the paths are as they were; the image agrees with the memory of the server and
  the cache of blocks with the image; the lock is given back, the client forgets the attributes of the file and its socket is back in the pool. A read of
  the same range then returns the bytes written.
\<close>

theorem escritura_remota:
  fixes C :: "('a, 'c servidor) cliente" and buf :: "u8 list"
  defines "S \<equiv> cl_remoto C"
  assumes E: "estable (sv_fs S) INODO_RAIZ ino ess" and M: "cache_ok M rep clave_ok valor_ok (sv_bs S)" and D: "cache_al_dia rep (sv_fs S) ino ess (sv_cache S)"
    and nom: "nombre_ok nombre" "length nombre < 256"
    and n: "sv_buscarPath S (47 # nombre) = Some n" "n \<noteq> 0" "n \<noteq> INODO_RAIZ" "inodo_valido (sv_fs S) n" "sv_leerInodo S n = Some x"
    and mon: "Sincro_monitorLock n (sv_monitor S) TIPOWRITE = Some l" "nodos_vivos 1 (sv_monitor S)" and pool: "cl_pool C = s # ss"
    and X: "archivo_datos (sv_fs S) ino ess x k" and lib: "libres_datos (sv_fs S) ino ess"
    and K: "K = techo (max (unat (i_size x)) (off + length buf)) (unat (sv_bs S))" "K \<le> 11" "K - k \<le> hay_bloques (sv_fs S)"
    and off: "off mod unat (sv_bs S) = 0" "off \<le> unat (i_size x)" "length buf < 64000"
    and B: "length buf \<in> {0, unat (sv_bs S)} \<longrightarrow> dato (sv_fs S) ino ess (i_block x ! K)"
  shows "\<exists>C'. fsc_write ilp32_client M2 (servir ilp32_server M) C (47 # nombre) buf (length buf) off = Some (int (length buf), C')
    \<and> archivo_guardado rep S (cl_remoto C') ino ess n x k off buf \<and> sv_monitor (cl_remoto C') = sv_monitor S
    \<and> cl_cache C' = cache_borrarClave M2 (cl_cache C) CACHEGETATR (47 # nombre) \<and> cl_pool C' = ss @ [s]
    \<and> (\<exists>C''. fsc_read ilp32_client (servir ilp32_server M) C' (47 # nombre) (length buf) off = Some (int (length buf), buf, C''))"
proof -
  let ?path = "47 # nombre"
  have path: "0 \<notin> set ?path" using nom(1) by (auto simp: nombre_ok_def)
  have mm: "almacen_clave (memcached_get M) (memcached_set M) (memcached_delete M) rep clave_ok valor_ok" "\<forall>b. clave_ok (cache_armarClaveServer b)"
    "\<forall>v. length v = unat (sv_bs S) \<longrightarrow> valor_ok v" and bs: "0 < unat (sv_bs S)" "unat (sv_bs S) < 65536" using M by (simp_all add: cache_ok_def)
  have "off + length buf \<le> K * unat (sv_bs S)" using techo_alcanza [OF bs(1), of "max (unat (i_size x)) (off + length buf)"] unfolding K(1) by simp
  also have "\<dots> \<le> 11 * 65536" using K(2) bs(2) by (intro mult_le_mono) simp_all
  finally have nov: "off + length buf < 2 ^ 31" by simp
  let ?S1 = "S\<lparr>sv_monitor := l\<rparr>"
  have lk: "sv_lock S n TIPOWRITE = Some ?S1" using mon(1) by (simp add: sv_lock_def)
  note W = procesarWrite_bien [OF E M D _ n(1-4) lk n(5) X lib K(2,3) [unfolded K(1)] off(1,2) nov B [unfolded K(1)]]
  have len: "length ?path + length buf < 65000" using nom(2) off(3) by simp
  have q: "deserializar_Write_Pedido ilp32_server (carga_write ?path buf off) = Some \<lparr>dw_path = ?path, dw_size = length buf, dw_buf = buf, dw_offset = off\<rparr>"
    by (rule carga_recibida [OF path len]) (use nov in simp)
  obtain S' envio x' where S': "procesarWrite ilp32_server M S (carga_write ?path buf off) = Some (S', envio)" "archivo_guardado rep S S' ino ess n x k off buf"
    "serializar_Write_Rta (int (length buf)) = Some envio" "sv_monitor S' = Sincro_monitorUnlock n (sv_monitor ?S1)"
    "sv_leerInodo S' n = Some x'" "bytes_escritos (sv_fs S) (sv_fs S') x x' off buf" "archivo_legible (f_ext2fs (sv_fs S')) (sv_bs S') x'" "sv_bs S' = sv_bs S"
    by (rule procesarWrite_bien [OF E M D q n(1-4) lk n(5) X lib K(2,3) [unfolded K(1)] off(1,2) nov B [unfolded K(1)]])
  let ?C = "C\<lparr>cl_pool := ss @ [s], cl_remoto := S', cl_cache := cache_borrarClave M2 (cl_cache C) CACHEGETATR ?path\<rparr>"
  have W: "fsc_write ilp32_client M2 (servir ilp32_server M) C ?path buf (length buf) off = Some (int (length buf), ?C)"
    by (rule escritura_cliente [OF pool len S'(1) [unfolded S_def] S'(3)]) (use off(3) in simp_all)
  have mo: "sv_monitor S' = sv_monitor S" unfolding S'(4) by (rule sv_lock_vuelta(1) [OF lk, where k = 0]) (use mon(2) in simp_all)
  obtain l2 where "Sincro_monitorLock n (sv_monitor S) TIPOREAD = Some l2" using lee_donde_escribe [OF mon(1)] by blast
  then have lk2: "sv_lock S' n TIPOREAD = Some (S'\<lparr>sv_monitor := l2\<rparr>)" using mo by (simp add: sv_lock_def)
  have g: "sv_buscarPath S' ?path = Some n" "sv_coherente rep S'"
    using S'(2) n(1) nom(1) by (auto simp: archivo_guardado_def cache_al_dia_def coherente_dentro_def sv_coherente_def)
  have sz: "off + length buf \<le> unat (i_size x')" "off \<le> unat (i_size x')" using S'(6) by (simp_all add: bytes_escritos_def)
  have mi: "min (length buf) (unat (i_size x') - off) = length buf" using sz(1) by simp
  obtain s' ss' where p': "cl_pool ?C = s' # ss'" by (cases ss) simp_all
  have rd: "\<exists>C''. fsc_read ilp32_client (servir ilp32_server M) ?C ?path (length buf) off =
      Some (int (length buf), map (byte_de (f_ext2fs (sv_fs S')) x' (sv_bs S')) [off..<off + length buf], C'')"
    using lectura_cliente [where C = ?C and M = M and path = ?path and sz = "length buf" and off = off and n = n
        and ?S1.0 = "S'\<lparr>sv_monitor := l2\<rparr>" and inodo = x', OF mm(1) mm(2) _ _ _ _ path _ p']
      mm(3) bs g S'(5,7,8) n(2) lk2 off(1,3) sz nov nom(2) unfolding mi by auto
  have "map (byte_de (f_ext2fs (sv_fs S')) x' (sv_bs S')) [off..<off + length buf] = buf"
    by (rule nth_equalityI) (use S'(6,8) sz(1) in \<open>simp_all add: bytes_escritos_def\<close>)
  then show ?thesis using W S'(2) mo rd by (intro exI [of _ ?C]) (simp add: S_def)
qed

section \<open>On a full image\<close>

lemma aparte_mapaB:
  assumes E: "estable F r ino ess" and F': "fs_ok F'" "solo_mapaB F F'" and oc: "\<forall>b. bloque_valido F b \<longrightarrow> bloque_ocupado F' b = bloque_ocupado F b"
  shows "aparte F F' ino ess {}"
  unfolding aparte_def
proof (intro conjI allI impI)
  fix m y assume "inodo_valido F m \<and> m \<notin> {} \<and> inodo_en F m = Some y"
  then show "inodo_en F' m = Some y" using estable_mapaB(2) [OF E F'] by blast
qed (use F'(2) oc planta_mapaB dato_mapaB in \<open>auto simp: solo_mapaB_def\<close>)

lemma procesarWrite_sin_lugar:
  fixes S :: "'c servidor"
  assumes E: "estable (sv_fs S) INODO_RAIZ ino ess" and bs: "unat (sv_bs S) < 65536"
    and P: "deserializar_Write_Pedido A buffer = Some \<lparr>dw_path = path, dw_size = length buf, dw_buf = buf, dw_offset = off\<rparr>"
    and n: "sv_buscarPath S path = Some n" "n \<noteq> 0" "sv_lock S n TIPOWRITE = Some S1" "sv_leerInodo S n = Some x"
    and X: "archivo_directo (sv_fs S) x k" and off: "unat (i_size x) < off + length buf" "off + length buf < 2 ^ 32"
    and K: "techo (off + length buf) (unat (sv_bs S)) \<le> 12" "hay_bloques (sv_fs S) < techo (off + length buf) (unat (sv_bs S)) - k"
  obtains S' envio where "procesarWrite A M S buffer = Some (S', envio)" "serializar_Write_Rta (- ENOSPC) = Some envio"
    "estable (sv_fs S') INODO_RAIZ ino ess" "persistido (sv_fs S')" "aparte (sv_fs S) (sv_fs S') ino ess {}" "sv_cache S' = sv_cache S"
    "sv_monitor S' = Sincro_monitorUnlock n (sv_monitor S1)"
proof -
  let ?F = "sv_fs S" and ?o = "word_of_nat off :: u32" and ?z = "word_of_nat (length buf) :: u32"
  let ?K = "techo (off + length buf) (unat (sv_bs S))"
  have u: "unat (?o + ?z) = off + length buf" "unat ?z = length buf" using off(2) by (simp_all add: unat_of_nat_u32 unat_add_u32)
  then have gt: "i_size x < ?o + ?z" using off(1) by (simp add: word_less_nat_alt)
  have b0: "0 < unat (sv_bs S)" and k: "k = techo (unat (i_size x)) (unat (sv_bs S))" by (rule directo_techo [OF X])+
  have c: "cant_bloques (?o + ?z) (sv_bs S) = Some (word_of_nat ?K)" using cant_bloques_nat [OF b0, of "?o + ?z"] K(1) unfolding u by simp
  have kK: "k \<le> ?K" unfolding k by (rule techo_mono [OF b0]) (use off(1) in simp)
  have b12: "12 * unat (sv_bs S) < 2 ^ 32" using bs by simp
  obtain F' x' where T: "Inode_truncarArriba ?F x (?o + ?z) = Some (- 1, F', x')" "archivo_directo F' x' k" "i_size x' = i_size x"
    "take k (i_block x') = take k (i_block x)" "fs_ok F'" "solo_mapaB ?F F'" "hay_bloques F' = hay_bloques ?F"
    "\<forall>b. bloque_valido ?F b \<longrightarrow> bloque_ocupado F' b = bloque_ocupado ?F b"
    by (rule truncarArriba_falla [OF estableD(1) [OF E] X c kK K(1) b12 K(2)])
  have s1: "sv_fs S1 = ?F" "sv_cache S1 = sv_cache S" using n(3) by (auto simp: sv_lock_def)
  have W: "Dir_escribirArchivo M (sv_cache S) ?F x ?o ?z buf = Some (- 1, sv_cache S, F', x')"
    using b0 gt T(1) u(2) by (auto simp: Dir_escribirArchivo_def Let_def)
  have E': "estable F' INODO_RAIZ ino ess" by (rule estable_mapaB(1) [OF E T(5,6)])
  let ?S2 = "sv_unlock (S1\<lparr>sv_fs := F', sv_cache := sv_cache S\<rparr>) n"
  have e2: "sv_fs ?S2 = F'" by (simp add: sv_unlock_def)
  have E2: "estable (sv_fs ?S2) INODO_RAIZ ino ess" unfolding e2 by (rule E')
  obtain G where G: "sv_guardar ?S2 = Some (?S2\<lparr>sv_fs := G\<rparr>)" "estable G INODO_RAIZ ino ess" "persistido G" "aparte (sv_fs ?S2) G ino ess {}"
    by (rule aparte_guardar [OF E2])
  obtain envio where e: "serializar_Write_Rta (- ENOSPC) = Some envio" "lee envio 0 7 = Some envio"
    by (simp add: serializar_Write_Rta_def serializar_Nipc_def lee_def)
  have R: "procesarWrite A M S buffer = Some (?S2\<lparr>sv_fs := G\<rparr>, envio)"
    using P n W G(1) e unfolding procesarWrite_def Let_def by (simp add: s1)
  have "aparte ?F G ino ess {}" using aparte_trans [OF aparte_mapaB [OF E T(5,6,8)] G(4) [unfolded e2]] by simp
  then show thesis by (intro that [OF R e(1)]) (use G(2,3) in \<open>simp_all add: sv_unlock_def s1\<close>)
qed

text \<open>
  C7: a write that would need more blocks than the image has free, at whatever position, is answered with \<^verbatim>\<open>ENOSPC\<close> and undone: no block, no inode
  and no block of data differs from before, every path resolves as before, image and memory of the server agree, its cache was not touched and
  the lock is given back.
\<close>

theorem escritura_sin_lugar:
  fixes C :: "('a, 'c servidor) cliente" and buf :: "u8 list"
  defines "S \<equiv> cl_remoto C"
  assumes E: "estable (sv_fs S) INODO_RAIZ ino ess" and bs: "unat (sv_bs S) < 65536" and nom: "nombre_ok nombre" "length nombre < 256"
    and n: "sv_buscarPath S (47 # nombre) = Some n" "n \<noteq> 0" "sv_leerInodo S n = Some x"
    and mon: "Sincro_monitorLock n (sv_monitor S) TIPOWRITE = Some l" "nodos_vivos 1 (sv_monitor S)" and pool: "cl_pool C = s # ss"
    and X: "archivo_directo (sv_fs S) x k" and off: "unat (i_size x) < off + length buf" "length buf < 64000"
    and K: "K = techo (off + length buf) (unat (sv_bs S))" "K \<le> 12" "hay_bloques (sv_fs S) < K - k"
  shows "\<exists>C'. fsc_write ilp32_client M2 (servir ilp32_server M) C (47 # nombre) buf (length buf) off = Some (- ENOSPC, C')
    \<and> aparte (sv_fs S) (sv_fs (cl_remoto C')) ino ess {} \<and> fs_ok (sv_fs (cl_remoto C')) \<and> persistido (sv_fs (cl_remoto C'))
    \<and> (\<forall>otro. nombre_ok otro \<longrightarrow> sv_buscarPath (cl_remoto C') (47 # otro) = sv_buscarPath S (47 # otro))
    \<and> sv_cache (cl_remoto C') = sv_cache S \<and> sv_monitor (cl_remoto C') = sv_monitor S \<and> cl_pool C' = ss @ [s]"
proof -
  let ?path = "47 # nombre" and ?S1 = "S\<lparr>sv_monitor := l\<rparr>"
  have path: "0 \<notin> set ?path" using nom(1) by (auto simp: nombre_ok_def)
  have len: "length ?path + length buf < 65000" using nom(2) off(2) by simp
  have b0: "0 < unat (sv_bs S)" by (rule directo_techo(1) [OF X])
  have "off + length buf \<le> K * unat (sv_bs S)" unfolding K(1) by (rule techo_alcanza [OF b0])
  also have "\<dots> \<le> 12 * 65536" using K(2) bs by (intro mult_le_mono) simp_all
  finally have nov: "off + length buf < 2 ^ 32" by simp
  have q: "deserializar_Write_Pedido ilp32_server (carga_write ?path buf off) = Some \<lparr>dw_path = ?path, dw_size = length buf, dw_buf = buf, dw_offset = off\<rparr>"
    by (rule carga_recibida [OF path len]) (use nov in simp)
  have lk: "sv_lock S n TIPOWRITE = Some ?S1" using mon(1) by (simp add: sv_lock_def)
  obtain S' envio where S': "procesarWrite ilp32_server M S (carga_write ?path buf off) = Some (S', envio)" "serializar_Write_Rta (- ENOSPC) = Some envio"
    "estable (sv_fs S') INODO_RAIZ ino ess" "persistido (sv_fs S')" "aparte (sv_fs S) (sv_fs S') ino ess {}" "sv_cache S' = sv_cache S"
    "sv_monitor S' = Sincro_monitorUnlock n (sv_monitor ?S1)"
    by (rule procesarWrite_sin_lugar [OF E bs q n(1,2) lk n(3) X off(1) nov K(2,3) [unfolded K(1)]])
  let ?C = "C\<lparr>cl_pool := ss @ [s], cl_remoto := S', cl_cache := cache_borrarClave M2 (cl_cache C) CACHEGETATR ?path\<rparr>"
  have W: "fsc_write ilp32_client M2 (servir ilp32_server M) C ?path buf (length buf) off = Some (- ENOSPC, ?C)"
    by (rule escritura_cliente [OF pool len S'(1) [unfolded S_def] S'(2)]) (simp_all add: ENOSPC_def)
  have "sv_monitor S' = sv_monitor S" unfolding S'(7) by (rule sv_lock_vuelta(1) [OF lk, where k = 0]) (use mon(2) in simp_all)
  moreover have "sv_buscarPath S' (47 # otro) = sv_buscarPath S (47 # otro)" if "nombre_ok otro" for otro
    by (rule rutas_iguales [OF E S'(3) that])
  ultimately show ?thesis using W S'(4-6) estableD(1) [OF S'(3)] by (intro exI [of _ ?C]) simp
qed

section \<open>The example\<close>

text \<open>
  The file \<open>a\<close> of the image with the root directory in block 68: 1500 bytes in the blocks 66 and 67; the blocks 69 to 72 are free. A write of 1500 bytes from
  position 1024 on makes it grow by a block.
\<close>

lemma dato_68:
  assumes "b \<in> {66, 67, 69, 70, 71, 72}"
  shows "dato fs_68 inodo_68 [dir_68] b"
  using assms
  by (auto simp: dato_def zona_def bloque_en_def fs_68_sel ej_sel vista_68 ej_vista ej_tabla All_less_2 disjuntos_def)

lemma archivo_datos_68: "archivo_datos fs_68 inodo_68 [dir_68] inodo_66 2"
  using fs_68_ok(5) dato_68 by (simp add: archivo_datos_def directo_66(3))

lemma mapas_68: "p < 64 \<Longrightarrow> mapaB fs_68 0 ! p" "p < 40 \<Longrightarrow> \<not> mapaB fs_68 1 ! p \<Longrightarrow> 4 \<le> p \<and> p < 8"
proof -
  have e: "bits_en disco_68 3072 8 = bits_en disco_ej 3072 8" "bits_en disco_68 5120 5 = bits_en disco_ej 5120 5"
    unfolding bits_en_def by (simp_all add: intacto_bytes [OF intacto_68] disjuntos_def)
  show "mapaB fs_68 0 ! p" if "p < 64"
    using that ej_libres(1) [unfolded libres_zero_iff] e(1) by (simp add: mapaB_def vista_68 ej_vista fs_68_sel)
  have l: "libres (bits_en disco_ej 5121 4) = 0" by (simp add: bits_en_eval disco_ej_def)
  have m: "mapaB fs_68 1 = map (bit (15 :: u8)) [0..<8] @ bits_en disco_ej 5121 4"
    using e(2) bits_en_numeral [of disco_ej 5120 "num.Bit1 (num.Bit0 num.One)"] by (simp add: mapaB_def vista_68 ej_vista fs_68_sel disco_ej_def)
  show "4 \<le> p \<and> p < 8" if "p < 40" "\<not> mapaB fs_68 1 ! p"
  proof (cases "p < 8")
    case True
    then have "\<not> bit (15 :: u8) p" using that(2) unfolding m by (simp add: nth_append)
    moreover have "bit (15 :: u8) p" if "p < 4" using that by (auto simp: less_Suc_eq numeral_eq_Suc)
    ultimately show ?thesis using True by (cases "p < 4") auto
  next
    case False
    then have "\<not> bits_en disco_ej 5121 4 ! (p - 8)" using that(2) unfolding m by (simp add: nth_append)
    then show ?thesis using l [unfolded libres_zero_iff] False that(1) by simp
  qed
qed

lemma libres_datos_68: "libres_datos fs_68 inodo_68 [dir_68]"
  unfolding libres_datos_def
proof (intro allI impI)
  fix b assume b: "bloque_valido fs_68 b \<and> \<not> bloque_ocupado fs_68 b"
  let ?g = "(unat b - 1) div 64" and ?p = "(unat b - 1) mod 64"
  have v: "1 \<le> unat b" "?g < 2" "?p < 8 * tamB fs_68 ?g" "\<not> mapaB fs_68 ?g ! ?p"
    using b by (simp_all add: bloque_valido_def bloque_ocupado_def fs_68_sel ej_sel)
  have "?p < 64" by simp
  then have "?g \<noteq> 0" using v(4) mapas_68(1) by metis
  then have g: "?g = 1" using v(2) by simp
  have q: "4 \<le> ?p \<and> ?p < 8" by (rule mapas_68(2)) (use v(3,4) in \<open>simp_all only: g, simp_all add: vista_68 ej_vista\<close>)
  have "unat b = 65 + ?p" using v(1) g div_mult_mod_eq [of "unat b - 1" 64] by simp
  then have "unat b \<in> {69, 70, 71, 72}" using q by auto
  then have "b \<in> {69, 70, 71, 72}" by (auto simp: word_unat_eq_iff)
  then show "dato fs_68 inodo_68 [dir_68] b" by (intro dato_68) auto
qed

text \<open>A server with this image and an empty cache, and a client of it.\<close>

abbreviation servidor_68 :: "(u8 list \<Rightarrow> u8 list option) servidor" where
  "servidor_68 \<equiv> \<lparr>sv_fs = fs_68, sv_cache = Map.empty, sv_monitor = []\<rparr>"

abbreviation cliente_68 :: "(u8 list \<Rightarrow> u8 list option, (u8 list \<Rightarrow> u8 list option) servidor) cliente" where
  "cliente_68 \<equiv> \<lparr>cl_cache = Map.empty, cl_pool = [5, 6], cl_remoto = servidor_68\<rparr>"

lemma estado_68:
  "estable (sv_fs (cl_remoto cliente_68)) INODO_RAIZ inodo_68 [dir_68]" "sv_buscarPath (cl_remoto cliente_68) (47 # [97]) = Some 3"
  "sv_leerInodo (cl_remoto cliente_68) 3 = Some inodo_66" "nodos_vivos 1 (sv_monitor (cl_remoto cliente_68))" "cl_pool cliente_68 = 5 # [6]" "nombre_ok [97]"
  "archivo_datos (sv_fs (cl_remoto cliente_68)) inodo_68 [dir_68] inodo_66 2" "libres_datos (sv_fs (cl_remoto cliente_68)) inodo_68 [dir_68]"
  "archivo_directo (sv_fs (cl_remoto cliente_68)) inodo_66 2"
proof -
  show E: "estable (sv_fs (cl_remoto cliente_68)) INODO_RAIZ inodo_68 [dir_68]" using estable_68 by (simp add: INODO_RAIZ_def)
  show "sv_buscarPath (cl_remoto cliente_68) (47 # [97]) = Some 3"
    using buscarPath_raiz [OF estableD(3) [OF E], of "[97]"] by (simp add: nombre_ok_def dir_68_def hasta_nul_def)
  show "sv_leerInodo (cl_remoto cliente_68) 3 = Some inodo_66" using leer_68(2) by (simp add: fs_68_sel ej_sel)
qed (use archivo_datos_68 libres_datos_68 fs_68_ok(5) in \<open>simp_all add: nodos_vivos_def nombre_ok_def\<close>)

lemma cerrojo_68: obtains l where "Sincro_monitorLock 3 (sv_monitor (cl_remoto cliente_68)) TIPOWRITE = Some l"
  by (simp add: Sincro_monitorLock_def TIPOWRITE_def rwlock_tomar_def TIPOREAD_def rwlock_init_def)

theorem escritura_remota_witness:
  "\<exists>C'. fsc_write ilp32_client mem_mapa (servir ilp32_server mem_mapa) cliente_68 [47, 97] (replicate 1500 7) 1500 1024 = Some (1500, C')
    \<and> cl_pool C' = [6, 5] \<and> (\<exists>C''. fsc_read ilp32_client (servir ilp32_server mem_mapa) C' [47, 97] 1500 1024 = Some (1500, replicate 1500 7, C''))"
proof -
  let ?r = "replicate 1500 7 :: u8 list"
  have M: "cache_ok mem_mapa (=) (\<lambda>_. True) (\<lambda>_. True) (sv_bs (cl_remoto cliente_68))" using mem_mapa_almacen by (simp add: cache_ok_def fs_68_sel ej_sel)
  have D: "cache_al_dia (=) (sv_fs (cl_remoto cliente_68)) inodo_68 [dir_68] (sv_cache (cl_remoto cliente_68))"
    by (simp add: cache_al_dia_def coherente_dentro_def coherente_def)
  obtain l where l: "Sincro_monitorLock 3 (sv_monitor (cl_remoto cliente_68)) TIPOWRITE = Some l" by (rule cerrojo_68)
  have K: "3 = techo (max (unat (i_size inodo_66)) (1024 + length ?r)) (unat (sv_bs (cl_remoto cliente_68)))"
    by (simp add: directo_66(2) techo_def fs_68_sel ej_sel)
  have "\<exists>C'. fsc_write ilp32_client mem_mapa (servir ilp32_server mem_mapa) cliente_68 (47 # [97]) ?r (length ?r) 1024 = Some (int (length ?r), C')
    \<and> archivo_guardado (=) (cl_remoto cliente_68) (cl_remoto C') inodo_68 [dir_68] 3 inodo_66 2 1024 ?r \<and> sv_monitor (cl_remoto C') = sv_monitor (cl_remoto cliente_68)
    \<and> cl_cache C' = cache_borrarClave mem_mapa (cl_cache cliente_68) CACHEGETATR (47 # [97]) \<and> cl_pool C' = [6] @ [5]
    \<and> (\<exists>C''. fsc_read ilp32_client (servir ilp32_server mem_mapa) C' (47 # [97]) (length ?r) 1024 = Some (int (length ?r), ?r, C''))"
    by (rule escritura_remota [OF estado_68(1) M D estado_68(6) _ estado_68(2) _ _ _ estado_68(3) l estado_68(4,5,7,8) K])
      (simp_all add: INODO_RAIZ_def fs_68_ok fs_68_sel ej_sel directo_66(2))
  then show ?thesis by auto
qed

theorem escritura_sin_lugar_witness:
  "\<exists>C'. fsc_write ilp32_client mem_mapa (servir ilp32_server mem_mapa) cliente_68 [47, 97] (replicate 5000 7) 5000 1500 = Some (- 28, C')
    \<and> aparte fs_68 (sv_fs (cl_remoto C')) inodo_68 [dir_68] {} \<and> cl_pool C' = [6, 5]"
proof -
  let ?r = "replicate 5000 7 :: u8 list"
  obtain l where l: "Sincro_monitorLock 3 (sv_monitor (cl_remoto cliente_68)) TIPOWRITE = Some l" by (rule cerrojo_68)
  have K: "7 = techo (1500 + length ?r) (unat (sv_bs (cl_remoto cliente_68)))" by (simp add: techo_def fs_68_sel ej_sel)
  have "\<exists>C'. fsc_write ilp32_client mem_mapa (servir ilp32_server mem_mapa) cliente_68 (47 # [97]) ?r (length ?r) 1500 = Some (- ENOSPC, C')
    \<and> aparte (sv_fs (cl_remoto cliente_68)) (sv_fs (cl_remoto C')) inodo_68 [dir_68] {} \<and> fs_ok (sv_fs (cl_remoto C')) \<and> persistido (sv_fs (cl_remoto C'))
    \<and> (\<forall>otro. nombre_ok otro \<longrightarrow> sv_buscarPath (cl_remoto C') (47 # otro) = sv_buscarPath (cl_remoto cliente_68) (47 # otro))
    \<and> sv_cache (cl_remoto C') = sv_cache (cl_remoto cliente_68) \<and> sv_monitor (cl_remoto C') = sv_monitor (cl_remoto cliente_68) \<and> cl_pool C' = [6] @ [5]"
    by (rule escritura_sin_lugar [OF estado_68(1) _ estado_68(6) _ estado_68(2) _ estado_68(3) l estado_68(4,5,9) _ _ K])
      (simp_all add: fs_68_sel ej_sel directo_66(2))
  then show ?thesis by (auto simp: ENOSPC_def)
qed

end
