(* ===== verification/Truncado.thy ===== *)
theory Truncado
  imports Guardado
begin

text \<open>
  Changing the size of a file from the client, \<^verbatim>\<open>procesarTruncate\<close> of \<^verbatim>\<open>rfs/Rfs.c\<close>, for a file of the root directory with direct blocks: it keeps the bytes in
  front of its old and its new end, has the blocks of its new size and no others, and nothing else changes. The bytes behind an old end are those the new
  blocks had: the code does not clear them.
\<close>

section \<open>Shrinking and growing\<close>

text \<open>Both cases: the blocks in use afterwards are those of the file and those of the others.\<close>

lemma truncar_bien:
  fixes F x nuevo
  defines "K \<equiv> techo (unat nuevo) (unat (block_size (f_sb F)))"
  assumes ok: "fs_ok F" and A: "archivo_directo F x k" and K: "K \<le> 12" "K - k \<le> hay_bloques F"
  obtains F1 x1 F' x' where "(if i_size x < nuevo then Inode_truncarArriba F x nuevo else Some (0, F, x)) = Some (0, F1, x1)"
    "(if nuevo < i_size x1 then Inode_truncarAbajo F1 x1 nuevo else Some (F1, x1)) = Some (F', x')"
    "i_size x' = nuevo" "archivo_directo F' x' K" "fs_ok F'" "solo_mapaB F F'" "take (min k K) (i_block x') = take (min k K) (i_block x)"
    "\<forall>b. bloque_valido F b \<longrightarrow> bloque_ocupado F' b = (b \<in> set (take K (i_block x')) \<or> bloque_ocupado F b \<and> b \<notin> set (take k (i_block x)))"
proof -
  let ?bs = "block_size (f_sb F)"
  have b0: "0 < unat ?bs" and k: "k = techo (unat (i_size x)) (unat ?bs)" by (rule directo_techo [OF A])+
  have a: "\<forall>b \<in> set (take k (i_block x)). bloque_ocupado F b" "distinct (take k (i_block x))" using A by (auto simp: archivo_directo_def)
  have c: "cant_bloques nuevo ?bs = Some (word_of_nat K)" using cant_bloques_nat [OF b0, of nuevo] K(1) by (simp add: K_def)
  consider (crece) "i_size x < nuevo" | (igual) "i_size x = nuevo" | (baja) "nuevo < i_size x" by (rule linorder_less_linear [THEN disjE]) auto
  then show thesis
  proof cases
    case crece
    have kK: "k \<le> K" unfolding k K_def by (rule techo_mono [OF b0]) (use crece in \<open>simp add: word_less_nat_alt\<close>)
    obtain cs F' x' where
      T: "Inode_truncarArriba F x nuevo = Some (0, F', x')" "archivo_directo F' x' K" "x' = (con_bloques x k cs)\<lparr>i_size := nuevo\<rparr>" "k + length cs = K"
        "drop k (take K (i_block x')) = cs" "take k (i_block x') = take k (i_block x)" "fs_ok F'" "solo_mapaB F F'" "hay_bloques F' + (K - k) = hay_bloques F"
        "\<forall>b \<in> set cs. bloque_valido F b \<and> \<not> bloque_ocupado F b" "\<forall>b. bloque_valido F b \<longrightarrow> bloque_ocupado F' b = (b \<in> set cs \<or> bloque_ocupado F b)"
      by (rule truncarArriba_alcanza [OF ok A c kK K])
    have t: "take K (i_block x') = take k (i_block x) @ cs"
      using append_take_drop_id [of k "take K (i_block x')"] kK T(5,6) by (simp add: min_absorb1)
    have "\<forall>b. bloque_valido F b \<longrightarrow> bloque_ocupado F' b = (b \<in> set (take K (i_block x')) \<or> bloque_ocupado F b \<and> b \<notin> set (take k (i_block x)))"
      using T(11) a(1) unfolding t by auto
    moreover have "i_size x' = nuevo" by (simp add: T(3))
    ultimately show thesis by (intro that [of F' x' F' x', OF _ _ _ T(2,7,8)]) (use crece T(1,6) kK in \<open>simp_all add: min_absorb1\<close>)
  next
    case igual
    then have e: "K = k" by (simp add: K_def k)
    then show thesis by (intro that [of F x F x]) (use igual ok A a(1) in \<open>auto simp: solo_mapaB_refl\<close>)
  next
    case baja
    have kK: "K \<le> k" unfolding k K_def by (rule techo_mono [OF b0]) (use baja in \<open>simp add: word_less_nat_alt\<close>)
    obtain F' x' where
      T: "Inode_truncarAbajo F x nuevo = Some (F', x')" "archivo_directo F' x' K" "i_size x' = nuevo" "take K (i_block x') = take K (i_block x)" "fs_ok F'"
        "solo_mapaB F F'" "hay_bloques F' = hay_bloques F + (k - K)"
        "\<forall>b. bloque_valido F b \<longrightarrow> bloque_ocupado F' b = (b \<notin> set (drop K (take k (i_block x))) \<and> bloque_ocupado F b)"
      using Inode_truncarAbajo_correcto [OF ok A c kK] by blast
    have t: "take k (i_block x) = take K (i_block x) @ drop K (take k (i_block x))"
      using append_take_drop_id [of K "take k (i_block x)"] kK by (simp add: min_absorb1)
    then have "set (take k (i_block x)) = set (take K (i_block x)) \<union> set (drop K (take k (i_block x)))"
      "set (take K (i_block x)) \<inter> set (drop K (take k (i_block x))) = {}" using a(2) by (metis set_append, metis distinct_append)
    then have "\<forall>b. bloque_valido F b \<longrightarrow> bloque_ocupado F' b = (b \<in> set (take K (i_block x')) \<or> bloque_ocupado F b \<and> b \<notin> set (take k (i_block x)))"
      using T(8) a(1) unfolding T(4) by blast
    moreover have "\<not> i_size x < nuevo" using baja by simp
    ultimately show thesis by (intro that [of F x F' x', OF _ _ T(3,2,5,6)]) (use baja T(1,4) kK in \<open>simp_all add: min_absorb2\<close>)
  qed
qed

section \<open>The request\<close>

text \<open>
  \<open>archivo_truncado\<close>: what a change of size leaves. \<open>k\<close> is the number of blocks the file had, \<open>K\<close> the one it has.
\<close>

definition archivo_truncado :: "'c servidor \<Rightarrow> 'c servidor \<Rightarrow> Inode \<Rightarrow> Dir list list \<Rightarrow> u32 \<Rightarrow> Inode \<Rightarrow> nat \<Rightarrow> nat \<Rightarrow> nat \<Rightarrow> bool" where
  "archivo_truncado S S' r ess n x k K off \<longleftrightarrow>
     (\<exists>x'. sv_leerInodo S' n = Some x' \<and> unat (i_size x') = off \<and> archivo_directo (sv_fs S') x' K
       \<and> (\<forall>j < min (unat (i_size x)) off. byte_de (f_ext2fs (sv_fs S')) x' (sv_bs S) j = byte_de (f_ext2fs (sv_fs S)) x (sv_bs S) j)
       \<and> (\<forall>b. bloque_valido (sv_fs S) b \<longrightarrow> bloque_ocupado (sv_fs S') b =
            (b \<in> set (take K (i_block x')) \<or> bloque_ocupado (sv_fs S) b \<and> b \<notin> set (take k (i_block x)))))
     \<and> (\<forall>b. dato (sv_fs S) r ess b \<longrightarrow> bytes_at (f_ext2fs (sv_fs S')) (base (sv_bs S) b) (unat (sv_bs S)) = bytes_at (f_ext2fs (sv_fs S)) (base (sv_bs S) b) (unat (sv_bs S)))
     \<and> (\<forall>m. inodo_valido (sv_fs S) m \<longrightarrow> inodo_ocupado (sv_fs S') m = inodo_ocupado (sv_fs S) m)
     \<and> (\<forall>m y. inodo_valido (sv_fs S) m \<and> m \<noteq> n \<and> sv_leerInodo S m = Some y \<longrightarrow> sv_leerInodo S' m = Some y)
     \<and> (\<forall>otro. nombre_ok otro \<longrightarrow> sv_buscarPath S' (47 # otro) = sv_buscarPath S (47 # otro)) \<and> fs_ok (sv_fs S') \<and> persistido (sv_fs S')"

lemma archivo_truncado_bien:
  fixes S S' :: "'c servidor" and off
  defines "K \<equiv> techo off (unat (sv_bs S))"
  assumes E: "estable (sv_fs S) INODO_RAIZ ino ess" and X: "archivo_datos (sv_fs S) ino ess x k"
    and T: "unat (i_size x') = off" "archivo_directo F' x' K" "fs_ok F'" "solo_mapaB (sv_fs S) F'" "take (min k K) (i_block x') = take (min k K) (i_block x)"
      "\<forall>b. bloque_valido (sv_fs S) b \<longrightarrow> bloque_ocupado F' b = (b \<in> set (take K (i_block x')) \<or> bloque_ocupado (sv_fs S) b \<and> b \<notin> set (take k (i_block x)))"
    and G: "estable (sv_fs S') INODO_RAIZ ino ess" "persistido (sv_fs S')" "aparte F' (sv_fs S') ino ess {n}" "sv_leerInodo S' n = Some x'"
  shows "archivo_truncado S S' ino ess n x k K off"
proof -
  let ?F = "sv_fs S" and ?G = "sv_fs S'"
  have D: "archivo_directo ?F x k" using X by (simp add: archivo_datos_def)
  have pl: "planta_igual ?F F'" by (rule planta_mapaB [OF T(4)])
  have bsG: "block_size (f_sb F') = sv_bs S" "block_size (f_sb ?G) = sv_bs S" using pl G(3) by (simp_all add: planta_igual_def aparte_def)
  have I: "intacto (f_ext2fs ?F) (f_ext2fs ?G) (base (sv_bs S) b) (unat (sv_bs S))" if b: "dato ?F ino ess b" for b
  proof (rule intacto_trans [OF dato_mapaB [OF T(4) b]])
    have "dato F' ino ess b" using b dato_planta [OF pl] by simp
    then show "intacto (f_ext2fs F') (f_ext2fs ?G) (base (sv_bs S) b) (unat (sv_bs S))" using G(3) bsG(1) by (simp add: aparte_def)
  qed
  note v = valido_planta [OF pl]
  have oc: "bloque_ocupado ?G b = bloque_ocupado F' b" if "bloque_valido ?F b" for b using G(3) v that by (simp add: aparte_def)
  have DG: "archivo_directo ?G x' K"
    using T(2) oc v valido_planta(1) [of F' ?G] G(3) bsG by (auto simp: archivo_directo_def aparte_def)
  have Y: "byte_de (f_ext2fs ?G) x' (sv_bs S) j = byte_de (f_ext2fs ?F) x (sv_bs S) j" if j: "j < min (unat (i_size x)) off" for j
  proof (rule byte_igual [OF X I T(5)])
    note d = directo_techo [OF D]
    have "j < k * unat (sv_bs S)" using j techo_alcanza [OF d(1), of "unat (i_size x)"] unfolding d(2) by simp
    moreover have "j < K * unat (sv_bs S)" using j techo_alcanza [OF d(1), of off] unfolding K_def by simp
    ultimately show "j < min k K * unat (sv_bs S)" by (simp add: min_def)
  qed simp_all
  have ino: "inodo_ocupado ?G m = inodo_ocupado ?F m" if "inodo_valido ?F m" for m using G(3) T(4) v that by (simp add: aparte_def solo_mapaB_def)
  have otros: "inodo_en ?G m = Some y" if "inodo_valido ?F m" "m \<noteq> n" "inodo_en ?F m = Some y" for m y
    using estable_mapaB(2) [OF E T(3,4) that(1,3)] G(3) v(2) that(1,2) by (simp add: aparte_def)
  have "sv_buscarPath S' (47 # otro) = sv_buscarPath S (47 # otro)" if "nombre_ok otro" for otro
    by (rule rutas_iguales [OF E G(1) that])
  then show "archivo_truncado S S' ino ess n x k K off"
    unfolding archivo_truncado_def
    using G(2,4) DG Y T(1,6) oc ino otros intacto_bytes [OF I] estableD(1) [OF G(1)] by (intro conjI exI [of _ x']) simp_all
qed

lemma procesarTruncate_bien:
  fixes S :: "'c servidor" and off
  defines "K \<equiv> techo off (unat (sv_bs S))"
  assumes E: "estable (sv_fs S) INODO_RAIZ ino ess" and P: "deserializar_Truncate_Pedido A buffer = Some \<lparr>dt_path = path, dt_offset = off\<rparr>"
    and n: "sv_buscarPath S path = Some n" "n \<noteq> 0" "n \<noteq> INODO_RAIZ" "inodo_valido (sv_fs S) n" "sv_lock S n TIPOWRITE = Some S1" "sv_leerInodo S n = Some x"
    and X: "archivo_datos (sv_fs S) ino ess x k" and K: "K \<le> 12" "K - k \<le> hay_bloques (sv_fs S)" and off: "off < 2 ^ 32"
  obtains S' envio where "procesarTruncate A S buffer = Some (S', envio)" "serializar_Result_Rta 0 TIPOTRUNCATE = Some envio"
    "archivo_truncado S S' ino ess n x k K off" "sv_monitor S' = Sincro_monitorUnlock n (sv_monitor S1)" "sv_cache S' = sv_cache S"
proof -
  let ?F = "sv_fs S" and ?o = "word_of_nat off :: u32"
  have u: "unat ?o = off" using off by (simp add: unat_of_nat_u32)
  have D: "archivo_directo ?F x k" using X by (simp add: archivo_datos_def)
  have Ku: "techo (unat ?o) (unat (sv_bs S)) = K" unfolding u K_def ..
  obtain F1 x1 F' x' where T: "(if i_size x < ?o then Inode_truncarArriba ?F x ?o else Some (0, ?F, x)) = Some (0, F1, x1)"
    "(if ?o < i_size x1 then Inode_truncarAbajo F1 x1 ?o else Some (F1, x1)) = Some (F', x')"
    "i_size x' = ?o" "archivo_directo F' x' K" "fs_ok F'" "solo_mapaB ?F F'" "take (min k K) (i_block x') = take (min k K) (i_block x)"
    "\<forall>b. bloque_valido ?F b \<longrightarrow> bloque_ocupado F' b = (b \<in> set (take K (i_block x')) \<or> bloque_ocupado ?F b \<and> b \<notin> set (take k (i_block x)))"
    using truncar_bien [OF estableD(1) [OF E] D, of ?o] K unfolding Ku by blast
  have s1: "sv_fs S1 = ?F" "sv_cache S1 = sv_cache S" using n(5) by (auto simp: sv_lock_def)
  have pl: "planta_igual ?F F'" by (rule planta_mapaB [OF T(6)])
  have E': "estable F' INODO_RAIZ ino ess" by (rule estable_mapaB(1) [OF E T(5,6)])
  have nF: "inodo_valido F' n" using valido_planta(2) [OF pl] n(4) by simp
  have ix: "inode_ok x'" using T(4) by (simp add: archivo_directo_def inode_ok_def)
  let ?S2 = "S1\<lparr>sv_fs := F'\<rparr>"
  obtain S3 G where G: "(if True then sv_escribirInodo ?S2 n x' else Some ?S2) = Some S3" "sv_guardar (sv_unlock S3 n) = Some ((sv_unlock ?S2 n)\<lparr>sv_fs := G\<rparr>)"
    "estable G INODO_RAIZ ino ess" "persistido G" "aparte F' G ino ess {n}" "inodo_en G n = Some x'"
    by (rule devolver_bien [where crece = True, OF E' _ nF n(3) ix, of ?S2]) simp_all
  let ?S' = "(sv_unlock ?S2 n)\<lparr>sv_fs := G\<rparr>"
  obtain envio where e: "serializar_Result_Rta 0 TIPOTRUNCATE = Some envio" "lee envio 0 7 = Some envio"
    by (simp add: serializar_Result_Rta_def serializar_Nipc_def lee_def)
  have R: "procesarTruncate A S buffer = Some (?S', envio)"
    using P n(1,2,5,6) T(1,2) G(1,2) e unfolding procesarTruncate_def Let_def
    by (cases "i_size x < ?o"; cases "?o < i_size x1") (simp_all add: s1)
  have "archivo_truncado S ?S' ino ess n x k K off" unfolding K_def
    by (rule archivo_truncado_bien [OF E X _ T(4-8) [unfolded K_def]]) (use T(3) u G(3-6) in simp_all)
  then show thesis by (intro that [OF R e(1)]) (simp_all add: sv_unlock_def s1)
qed

section \<open>From the client\<close>

abbreviation carga_truncate :: "u8 list \<Rightarrow> nat \<Rightarrow> u8 list" where
  "carga_truncate path off \<equiv> path @ [0] @ bytes_le 4 off @ bytes_le 4 (off div 256 ^ 4)"

lemma carga_truncate_recibida:
  assumes "0 \<notin> set path" "off < 2 ^ 32"
  shows "deserializar_Truncate_Pedido ilp32_server (carga_truncate path off) = Some \<lparr>dt_path = path, dt_offset = off\<rparr>"
  using deserializar_Truncate_layout [OF assms(1), of "bytes_le 4 off" ilp32_server] assms(2)
  by (simp add: ilp32_server_def val_bytes_le del: bytes_le.simps)

lemma truncado_cliente:
  assumes pool: "cl_pool C = s # ss" and len: "length path < 65000"
    and R: "procesarTruncate ilp32_server (cl_remoto C) (carga_truncate path off) = Some (S', envio)" "serializar_Result_Rta 0 TIPOTRUNCATE = Some envio"
  shows "fsc_truncate ilp32_client M2 (servir ilp32_server M) C path off =
    Some (0, C\<lparr>cl_pool := ss @ [s], cl_remoto := S', cl_cache := cache_borrarClave M2 (cl_cache C) CACHEGETATR path\<rparr>)"
proof -
  let ?p = "carga_truncate path off"
  have a: "sizeof_off_t ilp32_client = 8" by (simp add: ilp32_client_def)
  have b8: "bytes_le 8 off = bytes_le 4 off @ bytes_le 4 (off div 256 ^ 4)" using bytes_le_split [of 4 4 off] by simp
  have tr: "transmite (serializar_Truncate_Pedido ilp32_client path off) TIPOTRUNCATE ?p"
    using transmite_arma [of "[path @ [0], bytes_le 8 off]" _ TIPOTRUNCATE] len
    unfolding serializar_Truncate_Pedido_def Let_def a by (simp add: b8 add.commute del: bytes_le.simps)
  have lp: "length ?p = length path + 9" by simp
  have l6: "length ?p < 65536" unfolding lp using len by linarith
  obtain pk where pk: "serializar_Truncate_Pedido ilp32_client path off = Some pk" "length pk = 3 + length ?p"
    "recv_Nipc pk = Some (\<lparr>tipo = TIPOTRUNCATE, payloadLength = word_of_nat (length ?p), payload = ?p\<rparr>, [])"
    "crearPedido 0 ?p TIPOTRUNCATE (word_of_nat (length ?p)) =
       Some \<lparr>p_client = 0, p_buffer = ?p, p_tipoPaquete = TIPOTRUNCATE, p_payloadLength = word_of_nat (length ?p)\<rparr>"
    by (rule crearPedido_transmite [OF tr l6])
  have srv: "servir ilp32_server M (cl_remoto C) pk = Some (S', envio)"
    unfolding servir_def pk(3) using pk(4) R(1) by (simp add: atender_def Let_def tipos_def)
  obtain pl where pl: "recv_Nipc envio = Some (\<lparr>tipo = TIPOTRUNCATE, payloadLength = 4, payload = pl\<rparr>, [])" "deserializar_Result_Rta pl = Some 0"
    using resultado_recibido [OF R(2)] by blast
  have "unat (tam_pedido path (sizeof_off_t ilp32_client)) = length pk"
    unfolding tam_pedido_def a by (subst unat_word16) (use len pk(2) lp in simp_all)
  from intercambio_bien [where srv = "servir ilp32_server M", OF pool this srv pl(1)]
  show ?thesis using pk(1) pl(2) by (simp add: fsc_truncate_def)
qed

text \<open>
  C8: changing the size of a file from the client. For a file of the root directory with at most twelve blocks before and after, on an image with the blocks
  it needs, the operation returns success: the inode on the image has the new size and exactly the blocks for it, the bytes in front of both ends are as
  they were, the blocks behind the new end are free; no data on the image, no other inode and no path changes, image and memory agree, the
  lock is given back and the client forgets the attributes of the file.
\<close>

theorem truncado_remoto:
  fixes C :: "('a, 'c servidor) cliente"
  defines "S \<equiv> cl_remoto C"
  assumes E: "estable (sv_fs S) INODO_RAIZ ino ess" and bs: "unat (sv_bs S) < 65536" and nom: "nombre_ok nombre" "length nombre < 256"
    and n: "sv_buscarPath S (47 # nombre) = Some n" "n \<noteq> 0" "n \<noteq> INODO_RAIZ" "inodo_valido (sv_fs S) n" "sv_leerInodo S n = Some x"
    and mon: "Sincro_monitorLock n (sv_monitor S) TIPOWRITE = Some l" "nodos_vivos 1 (sv_monitor S)" and pool: "cl_pool C = s # ss"
    and X: "archivo_datos (sv_fs S) ino ess x k" and K: "K = techo off (unat (sv_bs S))" "K \<le> 12" "K - k \<le> hay_bloques (sv_fs S)"
  shows "\<exists>C'. fsc_truncate ilp32_client M2 (servir ilp32_server M) C (47 # nombre) off = Some (0, C')
    \<and> archivo_truncado S (cl_remoto C') ino ess n x k K off \<and> sv_monitor (cl_remoto C') = sv_monitor S \<and> sv_cache (cl_remoto C') = sv_cache S
    \<and> cl_cache C' = cache_borrarClave M2 (cl_cache C) CACHEGETATR (47 # nombre) \<and> cl_pool C' = ss @ [s]"
proof -
  let ?path = "47 # nombre" and ?S1 = "S\<lparr>sv_monitor := l\<rparr>"
  have path: "0 \<notin> set ?path" using nom(1) by (auto simp: nombre_ok_def)
  have len: "length ?path < 65000" using nom(2) by simp
  have "archivo_directo (sv_fs S) x k" using X by (simp add: archivo_datos_def)
  then have b0: "0 < unat (sv_bs S)" by (rule directo_techo(1))
  have "off \<le> K * unat (sv_bs S)" unfolding K(1) by (rule techo_alcanza [OF b0])
  also have "\<dots> \<le> 12 * 65536" using K(2) bs by (intro mult_le_mono) simp_all
  finally have off: "off < 2 ^ 32" by simp
  have lk: "sv_lock S n TIPOWRITE = Some ?S1" using mon(1) by (simp add: sv_lock_def)
  obtain S' envio where S': "procesarTruncate ilp32_server S (carga_truncate ?path off) = Some (S', envio)" "serializar_Result_Rta 0 TIPOTRUNCATE = Some envio"
    "archivo_truncado S S' ino ess n x k (techo off (unat (sv_bs S))) off" "sv_monitor S' = Sincro_monitorUnlock n (sv_monitor ?S1)" "sv_cache S' = sv_cache S"
    by (rule procesarTruncate_bien [OF E carga_truncate_recibida [OF path off] n(1-4) lk n(5) X K(2,3) [unfolded K(1)] off])
  let ?C = "C\<lparr>cl_pool := ss @ [s], cl_remoto := S', cl_cache := cache_borrarClave M2 (cl_cache C) CACHEGETATR ?path\<rparr>"
  have W: "fsc_truncate ilp32_client M2 (servir ilp32_server M) C ?path off = Some (0, ?C)"
    by (rule truncado_cliente [OF pool len S'(1) [unfolded S_def] S'(2)])
  have "sv_monitor S' = sv_monitor S" unfolding S'(4) by (rule sv_lock_vuelta(1) [OF lk, where k = 0]) (use mon(2) in simp_all)
  then show ?thesis using W S'(3,5) unfolding K(1) by (intro exI [of _ ?C]) simp
qed

section \<open>The example\<close>

text \<open>The file of 1500 bytes in the blocks 66 and 67 is cut to 1000 bytes, and made to grow to 6000.\<close>

theorem truncado_remoto_witness:
  "(\<exists>C'. fsc_truncate ilp32_client mem_mapa (servir ilp32_server mem_mapa) cliente_68 [47, 97] 1000 = Some (0, C')
      \<and> archivo_truncado servidor_68 (cl_remoto C') inodo_68 [dir_68] 3 inodo_66 2 1 1000)
   \<and> (\<exists>C'. fsc_truncate ilp32_client mem_mapa (servir ilp32_server mem_mapa) cliente_68 [47, 97] 6000 = Some (0, C')
      \<and> archivo_truncado servidor_68 (cl_remoto C') inodo_68 [dir_68] 3 inodo_66 2 6 6000)"
proof -
  obtain l where l: "Sincro_monitorLock 3 (sv_monitor (cl_remoto cliente_68)) TIPOWRITE = Some l" by (rule cerrojo_68)
  have K: "techo off 1024 = techo off (unat (sv_bs (cl_remoto cliente_68)))" for off by (simp add: fs_68_sel ej_sel)
  have t: "techo off 1024 \<le> 12" "techo off 1024 - 2 \<le> hay_bloques fs_68" if "off \<in> {1000, 6000}" for off using that by (auto simp: techo_def fs_68_sel ej_sel)
  have P: "\<exists>C'. fsc_truncate ilp32_client mem_mapa (servir ilp32_server mem_mapa) cliente_68 (47 # [97]) off = Some (0, C')
    \<and> archivo_truncado (cl_remoto cliente_68) (cl_remoto C') inodo_68 [dir_68] 3 inodo_66 2 (techo off 1024) off
    \<and> sv_monitor (cl_remoto C') = sv_monitor (cl_remoto cliente_68) \<and> sv_cache (cl_remoto C') = sv_cache (cl_remoto cliente_68)
    \<and> cl_cache C' = cache_borrarClave mem_mapa (cl_cache cliente_68) CACHEGETATR (47 # [97]) \<and> cl_pool C' = [6] @ [5]" if o: "off \<in> {1000, 6000}" for off
    by (rule truncado_remoto [OF estado_68(1) _ estado_68(6) _ estado_68(2) _ _ _ estado_68(3) l estado_68(4,5,7) K t(1) [OF o]])
      (use t(2) [OF o] in \<open>simp_all add: INODO_RAIZ_def fs_68_ok fs_68_sel ej_sel\<close>)
  have "techo 1000 1024 = 1" "techo 6000 1024 = 6" by (simp_all add: techo_def)
  then show ?thesis using P [of 1000] P [of 6000] by auto
qed

end
