(* ===== verification/Cerrojos.thy ===== *)
theory Cerrojos
  imports Sincro "HOL-Library.Multiset"
begin

text \<open>
  The threads of the server and the inode monitor, \<^verbatim>\<open>rfs/Rfs.c\<close> with \<^verbatim>\<open>rfs/sincro.c\<close>. The theory \<open>Sincro\<close> has sessions that start
  and end in any order, which is enough for safety. A thread, however, takes the locks of its request one after the other and
  keeps the first while it waits for the second: the handlers of unlink and rmdir lock the directory and then the
  file. Here every thread has the locks it holds and those it still has to take. The steps of the threads are simulated by the
  sessions, whose invariant then holds, and the requests in progress end when the second lock of a request is always
  further from the root than the first; two requests that take the same two locks in opposite order stop for ever.
\<close>

section \<open>What a request locks\<close>

text \<open>
  The locks of a handler in the order in which it takes them: readdir, getattr and read lock one inode to read; truncate, write,
  create and mkdir one inode to write; unlink and rmdir the directory and the file to write. They are given back in the opposite order.
\<close>

datatype trabajo = Consulta u32 | Cambio u32 | Baja u32 u32

primrec cerrojos :: "trabajo \<Rightarrow> (u32 \<times> u8) list" where
  "cerrojos (Consulta n) = [(n, TIPOREAD)]"
| "cerrojos (Cambio n) = [(n, TIPOWRITE)]"
| "cerrojos (Baja nroInodoDir nroInodoArch) = [(nroInodoDir, TIPOWRITE), (nroInodoArch, TIPOWRITE)]"

section \<open>The threads\<close>

record tarea =
  tomados :: "(u32 \<times> u8) list"
  esperando :: bool
  faltan :: "(u32 \<times> u8) list"

definition libre :: tarea where
  "libre = \<lparr>tomados = [], esperando = False, faltan = []\<rparr>"

record servicio =
  nodos :: "t_nodoInodo list"
  tareas :: "tarea list"

text \<open>
  The steps of a request in progress: the section of \<^verbatim>\<open>Sincro_monitorLock\<close> under the mutex, the acquisition of the lock, and
  \<^verbatim>\<open>Sincro_monitorUnlock\<close> when the work is done.
\<close>

inductive trabaja :: "servicio \<Rightarrow> servicio \<Rightarrow> bool" where
  pide: "\<lbrakk>t < length (tareas m); tareas m ! t = h; \<not> esperando h; faltan h = (n, operacion) # fs\<rbrakk> \<Longrightarrow>
     trabaja m \<lparr>nodos = monitor_entrar n (nodos m), tareas = (tareas m)[t := h\<lparr>esperando := True\<rparr>]\<rparr>"
| obtiene: "\<lbrakk>t < length (tareas m); tareas m ! t = h; esperando h; faltan h = (n, operacion) # fs;
             monitor_tomar n operacion (nodos m) = Some l\<rbrakk> \<Longrightarrow>
     trabaja m \<lparr>nodos = l,
       tareas = (tareas m)[t := h\<lparr>tomados := (n, operacion) # tomados h, esperando := False, faltan := fs\<rparr>]\<rparr>"
| suelta: "\<lbrakk>t < length (tareas m); tareas m ! t = h; \<not> esperando h; faltan h = []; tomados h = (n, operacion) # ts\<rbrakk> \<Longrightarrow>
     trabaja m \<lparr>nodos = Sincro_monitorUnlock n (nodos m), tareas = (tareas m)[t := h\<lparr>tomados := ts\<rparr>]\<rparr>"

inductive_cases trabajaE: "trabaja m m'"

definition empieza :: "nat \<Rightarrow> trabajo \<Rightarrow> servicio \<Rightarrow> servicio" where
  "empieza t w m = m\<lparr>tareas := (tareas m)[t := libre\<lparr>faltan := cerrojos w\<rparr>]\<rparr>"

text \<open>The states that \<open>k\<close> threads reach with requests of the set \<open>W\<close>.\<close>

inductive servido :: "trabajo set \<Rightarrow> nat \<Rightarrow> servicio \<Rightarrow> bool" for W k where
  servido_inicio: "servido W k \<lparr>nodos = [], tareas = replicate k libre\<rparr>"
| servido_empieza: "\<lbrakk>servido W k m; t < length (tareas m); tareas m ! t = libre; w \<in> W\<rbrakk> \<Longrightarrow> servido W k (empieza t w m)"
| servido_trabaja: "\<lbrakk>servido W k m; trabaja m m'\<rbrakk> \<Longrightarrow> servido W k m'"

definition en_orden :: "(u32 \<Rightarrow> nat) \<Rightarrow> trabajo \<Rightarrow> bool" where
  "en_orden orden w \<longleftrightarrow> sorted_wrt (\<lambda>x y. orden (fst x) < orden (fst y)) (cerrojos w)"

section \<open>What every thread keeps\<close>

definition tarea_ok :: "tarea \<Rightarrow> bool" where
  "tarea_ok h \<longleftrightarrow> length (tomados h) + length (faltan h) \<le> 2 \<and> (esperando h \<longrightarrow> faltan h \<noteq> [])
     \<and> (\<forall>x \<in> set (tomados h) \<union> set (faltan h). snd x = TIPOREAD \<or> snd x = TIPOWRITE)"

definition tarea_orden :: "(u32 \<Rightarrow> nat) \<Rightarrow> tarea \<Rightarrow> bool" where
  "tarea_orden orden h \<longleftrightarrow> sorted_wrt (\<lambda>x y. orden (fst x) < orden (fst y)) (faltan h)
     \<and> (\<forall>x \<in> set (tomados h). \<forall>y \<in> set (faltan h). orden (fst x) < orden (fst y))"

lemma tarea_ok_cerrojos: "tarea_ok (libre\<lparr>faltan := cerrojos w\<rparr>)"
  by (cases w) (simp_all add: tarea_ok_def libre_def)

lemma tarea_orden_libre:
  "tarea_orden orden libre" "tarea_orden orden (libre\<lparr>faltan := cerrojos w\<rparr>) \<longleftrightarrow> en_orden orden w"
  by (simp_all add: tarea_orden_def libre_def en_orden_def)

lemma todas_update: "\<forall>x \<in> set xs. P x \<Longrightarrow> P y \<Longrightarrow> \<forall>x \<in> set (xs[t := y]). P x"
  using set_update_subset_insert [of xs t y] by blast

text \<open>What a thread still has to do: three steps for a lock to take, two while it waits, one for a lock it holds.\<close>

definition pendiente :: "tarea \<Rightarrow> nat" where
  "pendiente h = length (tomados h) + 3 * length (faltan h) - (if esperando h then 1 else 0)"

lemma trabaja_cambia:
  assumes "trabaja m m'"
  obtains t h' where "t < length (tareas m)" "tareas m' = (tareas m)[t := h']"
    "tarea_ok (tareas m ! t) \<Longrightarrow> tarea_ok h'" "tarea_orden orden (tareas m ! t) \<Longrightarrow> tarea_orden orden h'"
    "pendiente h' < pendiente (tareas m ! t)"
  using assms
proof cases
  case (pide t h n operacion fs)
  then show thesis by (intro that [of t "h\<lparr>esperando := True\<rparr>"]) (auto simp: tarea_ok_def tarea_orden_def pendiente_def)
next
  case (obtiene t h n operacion fs l)
  let ?h = "h\<lparr>tomados := (n, operacion) # tomados h, esperando := False, faltan := fs\<rparr>"
  from obtiene show thesis by (intro that [of t ?h]) (auto simp: tarea_ok_def tarea_orden_def pendiente_def)
next
  case (suelta t h n operacion ts)
  then show thesis by (intro that [of t "h\<lparr>tomados := ts\<rparr>"]) (auto simp: tarea_ok_def tarea_orden_def pendiente_def)
qed

text \<open>What holds of an idle thread and of every new request, and is kept by the steps of a thread, holds of every thread.\<close>

lemma servido_todas:
  assumes "servido W k m" "P libre" "\<And>w. w \<in> W \<Longrightarrow> P (libre\<lparr>faltan := cerrojos w\<rparr>)"
    and "\<And>m m'. trabaja m m' \<Longrightarrow> \<exists>t h'. t < length (tareas m) \<and> tareas m' = (tareas m)[t := h'] \<and> (P (tareas m ! t) \<longrightarrow> P h')"
  shows "(\<forall>h \<in> set (tareas m). P h) \<and> length (tareas m) = k"
  using assms(1)
proof induction
  case (servido_empieza m t w)
  from todas_update [OF conjunct1 [OF servido_empieza.IH] assms(3) [OF servido_empieza.hyps(4)], of t]
  show ?case using servido_empieza.IH by (simp add: empieza_def)
next
  case (servido_trabaja m m')
  from assms(4) [OF servido_trabaja.hyps(2)] obtain t h' where
    h: "t < length (tareas m)" "tareas m' = (tareas m)[t := h']" "P (tareas m ! t) \<Longrightarrow> P h'" by blast
  then have "P h'" using servido_trabaja.IH by simp
  from todas_update [OF conjunct1 [OF servido_trabaja.IH] this, of t] show ?case using servido_trabaja.IH h(2) by simp
qed (simp add: assms(2))

lemma servido_ok:
  assumes "servido W k m"
  shows "(\<forall>h \<in> set (tareas m). tarea_ok h) \<and> length (tareas m) = k"
proof (rule servido_todas [OF assms])
  show "tarea_ok libre" by (simp add: tarea_ok_def libre_def)
  show "\<exists>t h'. t < length (tareas m) \<and> tareas m' = (tareas m)[t := h'] \<and> (tarea_ok (tareas m ! t) \<longrightarrow> tarea_ok h')"
    if "trabaja m m'" for m m' by (rule trabaja_cambia [OF that]) blast
qed (rule tarea_ok_cerrojos)

lemma servido_orden:
  assumes "servido W k m" "\<forall>w \<in> W. en_orden orden w"
  shows "\<forall>h \<in> set (tareas m). tarea_orden orden h"
proof -
  have "(\<forall>h \<in> set (tareas m). tarea_orden orden h) \<and> length (tareas m) = k"
  proof (rule servido_todas [OF assms(1)])
    show "tarea_orden orden (libre\<lparr>faltan := cerrojos w\<rparr>)" if "w \<in> W" for w using assms(2) that by (simp add: tarea_orden_libre)
    show "\<exists>t h'. t < length (tareas m) \<and> tareas m' = (tareas m)[t := h'] \<and> (tarea_orden orden (tareas m ! t) \<longrightarrow> tarea_orden orden h')"
      if "trabaja m m'" for m m' by (rule trabaja_cambia [OF that, of orden]) blast
  qed (rule tarea_orden_libre)
  then show ?thesis ..
qed

section \<open>The threads as sessions\<close>

text \<open>The two sessions of a thread.\<close>

definition sesiones_de :: "tarea \<Rightarrow> sesion multiset" where
  "sesiones_de h = mset (map (\<lambda>(n, operacion). Dentro n operacion) (tomados h))
     + (if esperando h then {#Espera (fst (hd (faltan h))) (snd (hd (faltan h)))#} else {#})
     + replicate_mset (2 - length (tomados h) - (if esperando h then 1 else 0)) Fuera"

definition simula :: "nat \<Rightarrow> servicio \<Rightarrow> sesion list \<Rightarrow> bool" where
  "simula k m ss \<longleftrightarrow> alcanzable (2 * k) \<lparr>listaInodos = nodos m, sesiones = ss\<rparr>
     \<and> mset ss = (\<Sum>h \<in># mset (tareas m). sesiones_de h)"

lemma suma_update:
  assumes "t < length hs"
  shows "(\<Sum>h \<in># mset (hs[t := h']). f h) + f (hs ! t) = (\<Sum>h \<in># mset hs. f h) + f h'"
proof -
  have "mset hs = add_mset (hs ! t) (mset hs - {#hs ! t#})" using assms by simp
  then have "(\<Sum>h \<in># mset hs. f h) = f (hs ! t) + (\<Sum>h \<in># mset hs - {#hs ! t#}. f h)"
    by (metis image_mset_add_mset sum_mset.insert)
  then show ?thesis using assms by (simp add: mset_update ac_simps)
qed

text \<open>A step that changes one session of a thread is a step of that session.\<close>

lemma sesion_de_tarea:
  assumes "mset ss = (\<Sum>h \<in># mset hs. sesiones_de h)" "t < length hs"
    and "add_mset x (sesiones_de h') = add_mset y (sesiones_de (hs ! t))" "x \<in># sesiones_de (hs ! t)"
  obtains s where "s < length ss" "ss ! s = x" "mset (ss[s := y]) = (\<Sum>h \<in># mset (hs[t := h']). sesiones_de h)"
proof -
  have "x \<in># mset ss" unfolding assms(1) using assms(2,4) by (auto intro!: bexI [of _ "hs ! t"])
  then have "x \<in> set ss" by simp
  then obtain s where s: "s < length ss" "ss ! s = x" by (metis in_set_conv_nth)
  have "add_mset x (mset (ss[s := y])) = add_mset y (mset ss)" using s \<open>x \<in># mset ss\<close> by (simp add: mset_update)
  moreover have "(\<Sum>h \<in># mset (hs[t := h']). sesiones_de h) + add_mset y (sesiones_de (hs ! t))
      = add_mset y (mset ss) + sesiones_de h'"
    using suma_update [OF assms(2), of sesiones_de h'] assms(1) by simp
  ultimately have "(\<Sum>h \<in># mset (hs[t := h']). sesiones_de h) + add_mset x (sesiones_de h')
      = add_mset x (mset (ss[s := y])) + sesiones_de h'" using assms(3) by simp
  then have "mset (ss[s := y]) = (\<Sum>h \<in># mset (hs[t := h']). sesiones_de h)" by simp
  with s show thesis by (rule that)
qed

lemma simula_trabaja:
  assumes "trabaja m m'" "simula k m ss" "\<forall>h \<in> set (tareas m). tarea_ok h"
  shows "\<exists>ss'. simula k m' ss'"
proof -
  have A: "alcanzable (2 * k) \<lparr>listaInodos = nodos m, sesiones = ss\<rparr>" "mset ss = (\<Sum>h \<in># mset (tareas m). sesiones_de h)"
    using assms(2) by (simp_all add: simula_def)
  have ok: "tarea_ok (tareas m ! t)" if "t < length (tareas m)" for t using assms(3) that by simp
  have R: "\<exists>ss'. simula k m' ss'"
    if "tareas m' = (tareas m)[t := h']" "mset (ss[s := y]) = (\<Sum>h \<in># mset ((tareas m)[t := h']). sesiones_de h)"
      "paso \<lparr>listaInodos = nodos m, sesiones = ss\<rparr> \<lparr>listaInodos = nodos m', sesiones = ss[s := y]\<rparr>" for t h' s y
    using that sigue_paso [OF A(1) that(3)] by (auto simp: simula_def)
  from assms(1) show ?thesis
  proof cases
    case (pide t h n operacion fs)
    note tok = ok [OF pide(2), unfolded pide(3)]
    let ?h = "h\<lparr>esperando := True\<rparr>"
    have e: "add_mset Fuera (sesiones_de ?h) = add_mset (Espera n operacion) (sesiones_de (tareas m ! t))"
      "Fuera \<in># sesiones_de (tareas m ! t)"
      using tok pide(3-5) by (cases "2 - length (tomados h)"; force simp: sesiones_de_def tarea_ok_def)+
    obtain s where s: "s < length ss" "ss ! s = Fuera"
      "mset (ss[s := Espera n operacion]) = (\<Sum>h \<in># mset ((tareas m)[t := ?h]). sesiones_de h)"
      by (rule sesion_de_tarea [OF A(2) pide(2) e])
    have "operacion = TIPOREAD \<or> operacion = TIPOWRITE" using tok pide(5) by (auto simp: tarea_ok_def)
    from paso.entrar [of s "\<lparr>listaInodos = nodos m, sesiones = ss\<rparr>" operacion n] s this pide(1) show ?thesis
      by (intro R [OF _ s(3)]) simp_all
  next
    case (obtiene t h n operacion fs l)
    note tok = ok [OF obtiene(2), unfolded obtiene(3)]
    let ?h = "h\<lparr>tomados := (n, operacion) # tomados h, esperando := False, faltan := fs\<rparr>"
    have e: "add_mset (Espera n operacion) (sesiones_de ?h) = add_mset (Dentro n operacion) (sesiones_de (tareas m ! t))"
      "Espera n operacion \<in># sesiones_de (tareas m ! t)"
      using tok obtiene(3-5) by (auto simp: sesiones_de_def tarea_ok_def)
    obtain s where s: "s < length ss" "ss ! s = Espera n operacion"
      "mset (ss[s := Dentro n operacion]) = (\<Sum>h \<in># mset ((tareas m)[t := ?h]). sesiones_de h)"
      by (rule sesion_de_tarea [OF A(2) obtiene(2) e])
    from paso.tomar [of s "\<lparr>listaInodos = nodos m, sesiones = ss\<rparr>" n operacion l] s obtiene(1,6) show ?thesis
      by (intro R [OF _ s(3)]) simp_all
  next
    case (suelta t h n operacion ts)
    note tok = ok [OF suelta(2), unfolded suelta(3)]
    let ?h = "h\<lparr>tomados := ts\<rparr>"
    have "2 - length ts = Suc (2 - length (tomados h))" using tok suelta(5,6) by (auto simp: tarea_ok_def)
    then have e: "add_mset (Dentro n operacion) (sesiones_de ?h) = add_mset Fuera (sesiones_de (tareas m ! t))"
      "Dentro n operacion \<in># sesiones_de (tareas m ! t)"
      using suelta(3-6) by (auto simp: sesiones_de_def)
    obtain s where s: "s < length ss" "ss ! s = Dentro n operacion"
      "mset (ss[s := Fuera]) = (\<Sum>h \<in># mset ((tareas m)[t := ?h]). sesiones_de h)"
      by (rule sesion_de_tarea [OF A(2) suelta(2) e])
    from paso.salir [of s "\<lparr>listaInodos = nodos m, sesiones = ss\<rparr>" n operacion] s suelta(1) show ?thesis
      by (intro R [OF _ s(3)]) simp_all
  qed
qed

lemma sesiones_libre: "sesiones_de libre = {#Fuera, Fuera#}" "sesiones_de (libre\<lparr>faltan := fs\<rparr>) = {#Fuera, Fuera#}"
  by (simp_all add: sesiones_de_def libre_def numeral_2_eq_2)

lemma servido_simula:
  assumes "servido W k m"
  shows "\<exists>ss. simula k m ss"
  using assms
proof induction
  case servido_inicio
  have "mset (replicate (2 * k) Fuera) = (\<Sum>h \<in># mset (replicate k libre). sesiones_de h)"
    by (induction k) (simp_all add: sesiones_libre)
  then show ?case using alcanzable.inicio [of "2 * k"] by (auto simp: simula_def monitor_inicial_def)
next
  case (servido_empieza m t w)
  have "(\<Sum>h \<in># mset ((tareas m)[t := libre\<lparr>faltan := cerrojos w\<rparr>]). sesiones_de h) = (\<Sum>h \<in># mset (tareas m). sesiones_de h)"
    using suma_update [OF servido_empieza.hyps(2), of sesiones_de "libre\<lparr>faltan := cerrojos w\<rparr>"] servido_empieza.hyps(3)
    by (simp add: sesiones_libre)
  then show ?case using servido_empieza.IH by (simp add: simula_def empieza_def)
next
  case (servido_trabaja m m')
  then show ?case using simula_trabaja [OF servido_trabaja.hyps(2)] servido_ok [OF servido_trabaja.hyps(1)] by blast
qed

section \<open>Progress\<close>

lemma sesiones_todas:
  assumes "simula k m ss"
  shows "x \<in> set ss \<longleftrightarrow> (\<exists>h \<in> set (tareas m). x \<in># sesiones_de h)"
proof -
  have "mset ss = (\<Sum>h \<in># mset (tareas m). sesiones_de h)" using assms by (simp add: simula_def)
  then have "x \<in># mset ss \<longleftrightarrow> x \<in># (\<Sum>h \<in># mset (tareas m). sesiones_de h)" by simp
  then show ?thesis by auto
qed

lemma sesion_dentro:
  assumes "simula k m ss"
  shows "Dentro n operacion \<in> set ss \<longleftrightarrow> (\<exists>h \<in> set (tareas m). (n, operacion) \<in> set (tomados h))"
proof -
  have "Dentro n operacion \<in># sesiones_de h \<longleftrightarrow> (n, operacion) \<in> set (tomados h)" for h
    by (auto simp: sesiones_de_def in_replicate_mset split: if_splits)
  then show ?thesis using sesiones_todas [OF assms] by simp
qed

lemma sesion_espera:
  assumes "simula k m ss" "h \<in> set (tareas m)" "esperando h"
  shows "Espera (fst (hd (faltan h))) (snd (hd (faltan h))) \<in> set ss"
  using assms(2,3) unfolding sesiones_todas [OF assms(1)] by (intro bexI [of _ h]) (simp_all add: sesiones_de_def)

text \<open>A thread that waits for an inode that nobody holds gets it.\<close>

lemma obtiene_libre:
  assumes "simula k m ss" "2 * k < 2 ^ 32" "h \<in> set (tareas m)" "esperando h" "faltan h = (n, operacion) # fs"
    and "\<And>h' operacion'. h' \<in> set (tareas m) \<Longrightarrow> (n, operacion') \<notin> set (tomados h')"
  shows "\<exists>m'. trabaja m m'"
proof -
  let ?m = "\<lparr>listaInodos = nodos m, sesiones = ss\<rparr>"
  have ok: "monitor_ok ?m" using assms(1,2) alcanzable_ok [of "2 * k" ?m] by (simp add: simula_def)
  have "leyendo ss n = 0" "escribiendo ss n = 0"
    using sesion_dentro [OF assms(1), of n] assms(6) by (auto simp: leyendo_def escribiendo_def filter_empty_conv)
  then have free: "\<forall>x \<in> set (nodos m). nroInodo x = n \<longrightarrow> mt_inodo x = rwlock_init"
    using ok by (auto simp: monitor_ok_def nodo_ok_def rwlock_init_def)
  have "Espera n operacion \<in> set ss" using sesion_espera [OF assms(1,3,4)] assms(5) by simp
  then have "0 < usan ss n" by (auto simp: usan_def filter_empty_conv intro!: bexI [of _ "Espera n operacion"])
  then have "n \<in> nroInodo ` set (nodos m)" using ok by (simp add: monitor_ok_def)
  with tomar_libre [OF free] obtain l where l: "monitor_tomar n operacion (nodos m) = Some l" by blast
  obtain t where t: "t < length (tareas m)" "tareas m ! t = h" using assms(3) by (metis in_set_conv_nth)
  from obtiene [OF t assms(4,5) l] show ?thesis by blast
qed

lemma quieto_espera:
  assumes "h \<in> set (tareas m)" "h \<noteq> libre" "\<nexists>m'. trabaja m m'" "tarea_ok h"
  obtains n operacion fs where "esperando h" "faltan h = (n, operacion) # fs"
proof -
  obtain t where t: "t < length (tareas m)" "tareas m ! t = h" using assms(1) by (metis in_set_conv_nth)
  have "esperando h"
  proof (rule ccontr)
    assume e: "\<not> esperando h"
    have f: "faltan h = []" using pide [OF t e] assms(3) by (cases "faltan h") auto
    have "tomados h = []" using suelta [OF t e f] assms(3) by (cases "tomados h") auto
    with e f assms(2) show False by (simp add: libre_def)
  qed
  then show thesis using that assms(4) by (cases "faltan h") (auto simp: tarea_ok_def)
qed

text \<open>
  A state without steps has no request in progress: otherwise, of the inodes that are waited for take one of greatest
  order; the thread that holds it waits too, for an inode of greater order.
\<close>

lemma quieto_libre:
  assumes "simula k m ss" "2 * k < 2 ^ 32" "\<forall>h \<in> set (tareas m). tarea_ok h" "\<forall>h \<in> set (tareas m). tarea_orden orden h"
    and "\<nexists>m'. trabaja m m'" "h \<in> set (tareas m)"
  shows "h = libre"
proof (rule ccontr)
  assume h: "h \<noteq> libre"
  define E where "E = {h \<in> set (tareas m). h \<noteq> libre}"
  let ?f = "\<lambda>h. orden (fst (hd (faltan h)))"
  have E: "finite E" "h \<in> E" using h assms(6) by (simp_all add: E_def)
  have "Max (?f ` E) \<in> ?f ` E" using E by (intro Max_in) auto
  then obtain g where g: "g \<in> E" "Max (?f ` E) = ?f g" by blast
  have mx: "?f x \<le> ?f g" if "x \<in> E" for x using Max_ge [of "?f ` E" "?f x"] E(1) that g(2) by simp
  have gm: "g \<in> set (tareas m)" "g \<noteq> libre" using g(1) by (simp_all add: E_def)
  have gt: "tarea_ok g" using assms(3) gm(1) by (rule bspec)
  obtain n operacion fs where w: "esperando g" "faltan g = (n, operacion) # fs"
    by (rule quieto_espera [OF gm assms(5) gt])
  have "\<not> (\<forall>h' operacion'. h' \<in> set (tareas m) \<longrightarrow> (n, operacion') \<notin> set (tomados h'))"
    using obtiene_libre [OF assms(1,2) gm(1) w] assms(5) by metis
  then obtain h' operacion' where h': "h' \<in> set (tareas m)" "(n, operacion') \<in> set (tomados h')" by blast
  have hl: "h' \<noteq> libre" using h'(2) by (auto simp: libre_def)
  have ht: "tarea_ok h'" "tarea_orden orden h'" using bspec [OF assms(3) h'(1)] bspec [OF assms(4) h'(1)] .
  obtain n2 operacion2 fs2 where w2: "faltan h' = (n2, operacion2) # fs2"
    by (rule quieto_espera [OF h'(1) hl assms(5) ht(1)])
  have "orden n < orden n2" using ht(2) h'(2) w2 unfolding tarea_orden_def by fastforce
  moreover have "orden n2 \<le> orden n" using mx [of h'] hl h'(1) w(2) w2 by (simp add: E_def)
  ultimately show False by simp
qed

text \<open>Nobody waits or works: the list of the monitor is empty.\<close>

lemma todas_libres_vacia:
  assumes "simula k m ss" "2 * k < 2 ^ 32" "\<forall>h \<in> set (tareas m). h = libre"
  shows "nodos m = []"
proof (rule ccontr)
  assume "nodos m \<noteq> []"
  then obtain x where x: "x \<in> set (nodos m)" by (metis list.set_intros(1) neq_Nil_conv)
  have "monitor_ok \<lparr>listaInodos = nodos m, sesiones = ss\<rparr>"
    using assms(1,2) alcanzable_ok [of "2 * k" "\<lparr>listaInodos = nodos m, sesiones = ss\<rparr>"] by (simp add: simula_def)
  then have "0 < usan ss (nroInodo x)" using x by (auto simp: monitor_ok_def nodo_ok_def)
  then obtain y where y: "y \<in> set ss" "usa (nroInodo x) y" by (auto simp: usan_def filter_empty_conv)
  from y(1) obtain h where "h \<in> set (tareas m)" "y \<in># sesiones_de h" using sesiones_todas [OF assms(1)] by blast
  then have "y = Fuera" using assms(3) by (auto simp: sesiones_libre)
  with y show False by auto
qed

definition total_pendiente :: "servicio \<Rightarrow> nat" where
  "total_pendiente m = (\<Sum>h \<in># mset (tareas m). pendiente h)"

lemma trabaja_pendiente: "trabaja m m' \<Longrightarrow> total_pendiente m' < total_pendiente m"
proof (erule trabaja_cambia)
  fix t h' assume "t < length (tareas m)" "tareas m' = (tareas m)[t := h']" "pendiente h' < pendiente (tareas m ! t)"
  with suma_update [of t "tareas m" pendiente h'] show ?thesis by (simp add: total_pendiente_def)
qed

lemma trabaja_pasos: "(trabaja ^^ j) m m' \<Longrightarrow> j + total_pendiente m' \<le> total_pendiente m"
proof (induction j arbitrary: m')
  case (Suc j)
  then obtain m1 where "(trabaja ^^ j) m m1" "trabaja m1 m'" by auto
  with Suc.IH [of m1] trabaja_pendiente [of m1 m'] show ?case by simp
qed simp

lemma total_pendiente_cota: "\<forall>h \<in> set (tareas m). tarea_ok h \<Longrightarrow> total_pendiente m \<le> 6 * length (tareas m)"
proof -
  have "(\<Sum>h \<in># mset hs. pendiente h) \<le> 6 * length hs" if "\<forall>h \<in> set hs. tarea_ok h" for hs
    using that by (induction hs) (force simp: pendiente_def tarea_ok_def)+
  then show "\<forall>h \<in> set (tareas m). tarea_ok h \<Longrightarrow> total_pendiente m \<le> 6 * length (tareas m)" by (simp add: total_pendiente_def)
qed

lemma servido_pasos: "(trabaja ^^ j) m m' \<Longrightarrow> servido W k m \<Longrightarrow> servido W k m'"
  by (induction j arbitrary: m') (auto intro: servido_trabaja)

section \<open>Properties\<close>

lemma trabaja_final: "\<exists>j m'. (trabaja ^^ j) m m' \<and> (\<nexists>m''. trabaja m' m'')"
proof (induction "total_pendiente m" arbitrary: m rule: less_induct)
  case less
  show ?case
  proof (cases "\<exists>m1. trabaja m m1")
    case True
    then obtain m1 where m1: "trabaja m m1" by blast
    from less [OF trabaja_pendiente [OF m1]] obtain j m' where r: "(trabaja ^^ j) m1 m'" "\<nexists>m''. trabaja m' m''" by blast
    from relpowp_Suc_I2 [OF m1 r(1)] r(2) show ?thesis by blast
  next
    case False
    then show ?thesis by (intro exI [of _ 0] exI [of _ m]) simp
  qed
qed

text \<open>
  C24: no deadlock, when the requests lock in order. Let the inodes have an order in which the second lock of every request comes after its
  first, as the depth in the tree of directories. Then in every state that \<open>k\<close> threads reach the requests in progress end: every run
  without new requests has at most \<open>6 k\<close> steps, such a run reaches a state where it can not go on, and wherever it can not go on
  every request is finished, all its locks are given back and the list of the monitor is empty.
\<close>

theorem hilos_terminan:
  assumes "servido W k m" "k < 2 ^ 31" "\<forall>w \<in> W. en_orden orden w"
  shows "(\<exists>j m'. (trabaja ^^ j) m m' \<and> (\<nexists>m''. trabaja m' m''))
    \<and> (\<forall>j m'. (trabaja ^^ j) m m' \<longrightarrow> j \<le> 6 * k
        \<and> ((\<nexists>m''. trabaja m' m'') \<longrightarrow> (\<forall>h \<in> set (tareas m'). h = libre) \<and> nodos m' = []))"
proof (intro conjI allI impI)
  fix j m' assume r: "(trabaja ^^ j) m m'"
  show "j \<le> 6 * k" using trabaja_pasos [OF r] total_pendiente_cota [of m] servido_ok [OF assms(1)] by auto
  assume q: "\<nexists>m''. trabaja m' m''"
  have S: "servido W k m'" by (rule servido_pasos [OF r assms(1)])
  obtain ss where ss: "simula k m' ss" using servido_simula [OF S] by blast
  have k: "2 * k < 2 ^ 32" using assms(2) by simp
  show l: "\<forall>h \<in> set (tareas m'). h = libre"
    using quieto_libre [OF ss k _ servido_orden [OF S assms(3)] q] servido_ok [OF S] by blast
  show "nodos m' = []" using todas_libres_vacia [OF ss k l] .
qed (rule trabaja_final)

text \<open>Two requests that remove files of the root, with the order of the depth in the tree.\<close>

definition bajas_ej :: servicio where
  "bajas_ej = empieza 1 (Baja 2 13) (empieza 0 (Baja 2 12) \<lparr>nodos = [], tareas = [libre, libre]\<rparr>)"

lemma bajas_ej_servido: "servido {Baja 2 12, Baja 2 13} 2 bajas_ej"
proof -
  have "servido {Baja 2 12, Baja 2 13} 2 \<lparr>nodos = [], tareas = [libre, libre]\<rparr>"
    using servido_inicio [of "{Baja 2 12, Baja 2 13}" 2] by (simp add: numeral_2_eq_2)
  then show ?thesis unfolding bajas_ej_def by (intro servido_empieza) (simp_all add: empieza_def)
qed

theorem hilos_terminan_witness:
  "\<exists>j m'. (trabaja ^^ j) bajas_ej m' \<and> j \<le> 12 \<and> (\<forall>t < 2. tareas m' ! t = libre) \<and> nodos m' = []"
proof -
  have "\<forall>w \<in> {Baja 2 12, Baja 2 13}. en_orden (\<lambda>n. if n = 2 then 0 else 1) w" by (simp add: en_orden_def)
  note T = hilos_terminan [OF bajas_ej_servido _ this, simplified]
  obtain j m' where r: "(trabaja ^^ j) bajas_ej m'" "\<nexists>m''. trabaja m' m''" using T by blast
  have "\<forall>h \<in> set (tareas m'). h = libre" "nodos m' = []" "j \<le> 12" using T r by blast+
  moreover have "length (tareas m') = 2" using servido_ok [OF servido_pasos [OF r(1) bajas_ej_servido]] by simp
  ultimately show ?thesis using r(1) by (metis nth_mem)
qed

section \<open>Locks in opposite order\<close>

text \<open>What may happen after a state: steps of the threads and new requests.\<close>

inductive luego :: "trabajo set \<Rightarrow> servicio \<Rightarrow> servicio \<Rightarrow> bool" for W m where
  luego_nada: "luego W m m"
| luego_trabaja: "\<lbrakk>luego W m m1; trabaja m1 m2\<rbrakk> \<Longrightarrow> luego W m m2"
| luego_empieza: "\<lbrakk>luego W m m1; t < length (tareas m1); tareas m1 ! t = libre; w \<in> W\<rbrakk> \<Longrightarrow> luego W m (empieza t w m1)"

text \<open>A thread that holds an inode to write and waits for another one.\<close>

definition abrazo :: "u32 \<Rightarrow> u32 \<Rightarrow> tarea" where
  "abrazo a b = \<lparr>tomados = [(a, TIPOWRITE)], esperando = True, faltan = [(b, TIPOWRITE)]\<rparr>"

lemma luego_servido: "luego W m m' \<Longrightarrow> servido W k m \<Longrightarrow> servido W k m'"
  by (induction rule: luego.induct) (auto intro: servido.intros)

lemma tomar_ocupado:
  assumes "\<forall>x \<in> set l. nroInodo x = n \<longrightarrow> escritor (mt_inodo x)"
  shows "monitor_tomar n TIPOWRITE l = None"
  using assms by (induction l) (auto simp: rwlock_tomar_def)

lemma ocupado_espera:
  assumes "servido W k m" "k < 2 ^ 31" "h \<in> set (tareas m)" "(n, TIPOWRITE) \<in> set (tomados h)"
  shows "monitor_tomar n TIPOWRITE (nodos m) = None"
proof -
  obtain ss where ss: "simula k m ss" using servido_simula [OF assms(1)] by blast
  then have ok: "monitor_ok \<lparr>listaInodos = nodos m, sesiones = ss\<rparr>"
    using assms(2) alcanzable_ok [of "2 * k" "\<lparr>listaInodos = nodos m, sesiones = ss\<rparr>"] by (simp add: simula_def)
  have "Dentro n TIPOWRITE \<in> set ss" using sesion_dentro [OF ss] assms(3,4) by blast
  then have "0 < escribiendo ss n" by (auto simp: escribiendo_def filter_empty_conv)
  then show ?thesis using ok by (intro tomar_ocupado) (auto simp: monitor_ok_def nodo_ok_def)
qed

text \<open>A thread in such a state, whose inode another thread holds, has no step; the others do not change it.\<close>

lemma abrazo_sigue:
  assumes "trabaja m m'" "servido W k m" "k < 2 ^ 31" "t < length (tareas m)" "tareas m ! t = abrazo a b"
    and "s < length (tareas m)" "tareas m ! s = abrazo b c"
  shows "tareas m' ! t = abrazo a b"
proof -
  have "monitor_tomar b TIPOWRITE (nodos m) = None"
    using ocupado_espera [OF assms(2,3) nth_mem [OF assms(6)], of b] assms(7) by (simp add: abrazo_def)
  with assms(1) show ?thesis
  proof cases
    case (obtiene i h n operacion fs l)
    then show ?thesis using assms(4,5) \<open>monitor_tomar b TIPOWRITE (nodos m) = None\<close>
      by (cases "i = t") (auto simp: abrazo_def)
  qed (use assms(4,5) in \<open>auto simp: abrazo_def nth_list_update\<close>)
qed

lemma abrazo_siempre:
  assumes "luego W m m'" "servido W k m" "k < 2 ^ 31" "0 < length (tareas m)" "1 < length (tareas m)"
    and "tareas m ! 0 = abrazo a b" "tareas m ! 1 = abrazo b a"
  shows "tareas m' ! 0 = abrazo a b \<and> tareas m' ! 1 = abrazo b a"
  using assms(1)
proof induction
  case luego_nada
  show ?case using assms(6,7) by simp
next
  case (luego_trabaja m1 m2)
  have S: "servido W k m1" by (rule luego_servido [OF luego_trabaja.hyps(1) assms(2)])
  have l: "0 < length (tareas m1)" "1 < length (tareas m1)" using servido_ok [OF S] servido_ok [OF assms(2)] assms(4,5) by simp_all
  show ?case
    using abrazo_sigue [OF luego_trabaja.hyps(2) S assms(3) l(1) _ l(2)] abrazo_sigue [OF luego_trabaja.hyps(2) S assms(3) l(2) _ l(1)]
      luego_trabaja.IH by blast
next
  case (luego_empieza m1 t w)
  have "abrazo a b \<noteq> libre" "abrazo b a \<noteq> libre" by (simp_all add: abrazo_def libre_def)
  then have "t \<noteq> 0" "t \<noteq> 1" using luego_empieza.IH luego_empieza.hyps(3) by metis+
  then show ?case using luego_empieza.IH by (simp add: empieza_def)
qed

text \<open>Two threads of \<open>k\<close>, the others idle.\<close>

definition dos :: "nat \<Rightarrow> tarea \<Rightarrow> tarea \<Rightarrow> t_nodoInodo list \<Rightarrow> servicio" where
  "dos k x y ns = \<lparr>nodos = ns, tareas = (replicate k libre)[0 := x, 1 := y]\<rparr>"

lemma dos_simps [simp]:
  assumes "2 \<le> k"
  shows "tareas (dos k x y ns) ! 0 = x" "tareas (dos k x y ns) ! Suc 0 = y" "length (tareas (dos k x y ns)) = k" "nodos (dos k x y ns) = ns"
    "\<lparr>nodos = ns', tareas = (tareas (dos k x y ns))[0 := z]\<rparr> = dos k z y ns'"
    "\<lparr>nodos = ns', tareas = (tareas (dos k x y ns))[Suc 0 := z]\<rparr> = dos k x z ns'"
  using assms by (simp_all add: dos_def list_update_swap)

lemma dos_pasos:
  assumes "2 \<le> k"
  shows "\<not> esperando x \<Longrightarrow> faltan x = (n, operacion) # fs \<Longrightarrow>
      trabaja (dos k x y ns) (dos k (x\<lparr>esperando := True\<rparr>) y (monitor_entrar n ns))"
    "\<not> esperando y \<Longrightarrow> faltan y = (n, operacion) # fs \<Longrightarrow>
      trabaja (dos k x y ns) (dos k x (y\<lparr>esperando := True\<rparr>) (monitor_entrar n ns))"
    "esperando x \<Longrightarrow> faltan x = (n, operacion) # fs \<Longrightarrow> monitor_tomar n operacion ns = Some l \<Longrightarrow>
      trabaja (dos k x y ns) (dos k (x\<lparr>tomados := (n, operacion) # tomados x, esperando := False, faltan := fs\<rparr>) y l)"
    "esperando y \<Longrightarrow> faltan y = (n, operacion) # fs \<Longrightarrow> monitor_tomar n operacion ns = Some l \<Longrightarrow>
      trabaja (dos k x y ns) (dos k x (y\<lparr>tomados := (n, operacion) # tomados y, esperando := False, faltan := fs\<rparr>) l)"
  using assms trabaja.pide [of 0 "dos k x y ns" x n operacion fs] trabaja.pide [of 1 "dos k x y ns" y n operacion fs]
    trabaja.obtiene [of 0 "dos k x y ns" x n operacion fs l] trabaja.obtiene [of 1 "dos k x y ns" y n operacion fs l]
  by simp_all

lemma abrazo_alcanza:
  assumes "a \<noteq> b" "Baja a b \<in> W" "Baja b a \<in> W" "2 \<le> k"
  shows "\<exists>ns. servido W k (dos k (abrazo a b) (abrazo b a) ns)"
proof -
  let ?x = "libre\<lparr>faltan := [(a, TIPOWRITE), (b, TIPOWRITE)]\<rparr>" and ?y = "libre\<lparr>faltan := [(b, TIPOWRITE), (a, TIPOWRITE)]\<rparr>"
  let ?ya = "\<lparr>tomados = [], esperando = True, faltan = [(b, TIPOWRITE), (a, TIPOWRITE)]\<rparr>"
  let ?A = "\<lparr>nroInodo = a, cantHilos = 1, mt_inodo = \<lparr>lectores = 0, escritor = True\<rparr>\<rparr>"
  let ?B = "\<lparr>nroInodo = b, cantHilos = 1, mt_inodo = \<lparr>lectores = 0, escritor = True\<rparr>\<rparr>"
  let ?x1 = "\<lparr>tomados = [(a, TIPOWRITE)], esperando = False, faltan = [(b, TIPOWRITE)]\<rparr>"
  let ?y1 = "\<lparr>tomados = [(b, TIPOWRITE)], esperando = False, faltan = [(a, TIPOWRITE)]\<rparr>"
  have "servido W k \<lparr>nodos = [], tareas = replicate k libre\<rparr>" by (rule servido_inicio)
  then have "servido W k (empieza 0 (Baja a b) \<lparr>nodos = [], tareas = replicate k libre\<rparr>)"
    using assms(2,4) by (intro servido_empieza) simp_all
  then have "servido W k (empieza 1 (Baja b a) (empieza 0 (Baja a b) \<lparr>nodos = [], tareas = replicate k libre\<rparr>))"
    by (rule servido_empieza) (use assms(3,4) in \<open>simp_all add: empieza_def\<close>)
  then have 0: "servido W k (dos k ?x ?y [])" by (simp add: empieza_def dos_def)
  have 1: "servido W k (dos k (?x\<lparr>esperando := True\<rparr>) ?y (monitor_entrar a []))"
    by (rule servido_trabaja [OF 0 dos_pasos(1) [OF assms(4)]]) (simp_all add: libre_def)
  have 2: "servido W k (dos k ?x1 ?y [?A])"
    using servido_trabaja [OF 1 dos_pasos(3) [OF assms(4)], of a TIPOWRITE "[(b, TIPOWRITE)]" "[?A]"]
    by (simp add: libre_def rwlock_tomar_def rwlock_init_def)
  have 3: "servido W k (dos k ?x1 ?ya (monitor_entrar b [?A]))"
    using servido_trabaja [OF 2 dos_pasos(2) [OF assms(4)], of b TIPOWRITE "[(a, TIPOWRITE)]"] by (simp add: libre_def)
  have 4: "servido W k (dos k ?x1 ?y1 [?A, ?B])"
    using servido_trabaja [OF 3 dos_pasos(4) [OF assms(4)], of b TIPOWRITE "[(a, TIPOWRITE)]" "[?A, ?B]"] assms(1)
    by (simp add: rwlock_tomar_def rwlock_init_def)
  have 5: "servido W k (dos k (abrazo a b) ?y1 (monitor_entrar b [?A, ?B]))"
    using servido_trabaja [OF 4 dos_pasos(1) [OF assms(4)], of b TIPOWRITE "[]"] by (simp add: abrazo_def)
  show ?thesis
    using servido_trabaja [OF 5 dos_pasos(2) [OF assms(4)], of a TIPOWRITE "[]"] by (auto simp: abrazo_def)
qed

text \<open>
  C35: deadlock, when the locks are not in order. Two requests that remove with the same two inodes in opposite order, as
  a removal of \<^verbatim>\<open>/a/b\<close> and one of \<^verbatim>\<open>/a/b/..\<close>, reach a state in which each holds the inode that the other waits for. From then on,
  whatever the other threads do and whatever requests they start, these two never go on.
\<close>

theorem hilos_abrazo:
  assumes "a \<noteq> b" "Baja a b \<in> W" "Baja b a \<in> W" "2 \<le> k" "k < 2 ^ 31"
  shows "\<exists>m. servido W k m \<and> (\<forall>m'. luego W m m' \<longrightarrow> tareas m' ! 0 = abrazo a b \<and> tareas m' ! 1 = abrazo b a)"
proof -
  obtain ns where S: "servido W k (dos k (abrazo a b) (abrazo b a) ns)" using abrazo_alcanza [OF assms(1-4)] by blast
  have "tareas m' ! 0 = abrazo a b \<and> tareas m' ! 1 = abrazo b a" if "luego W (dos k (abrazo a b) (abrazo b a) ns) m'" for m'
    by (rule abrazo_siempre [OF that S assms(5)]) (use assms(4) in simp_all)
  with S show ?thesis by blast
qed

theorem hilos_abrazo_witness:
  "\<exists>m. servido {Baja 2 12, Baja 12 2} 2 m \<and> tareas m ! 0 = abrazo 2 12 \<and> tareas m ! 1 = abrazo 12 2"
  using hilos_abrazo [of 2 12 "{Baja 2 12, Baja 12 2}" 2] luego_nada by fastforce

end
