(* ===== verification/Listado.thy ===== *)
theory Listado
  imports Creacion
begin

text \<open>
  Listing a directory from the client: \<^verbatim>\<open>fsc_readdir\<close> of \<^verbatim>\<open>fsc/fsc.c\<close>, the exchange of packets, \<^verbatim>\<open>procesarReaddir\<close> of
  \<^verbatim>\<open>rfs/Rfs.c\<close> with the inode monitor, the walk over the entries on the image, and the names that the client hands to the
  kernel.
\<close>

section \<open>The handler\<close>


section \<open>From the client\<close>




end
