(* ===== verification/Spec2Isabelle.thy ===== *)
theory Spec2Isabelle
  imports Prelude Bitarray Lista Cola Serial Disco Grupos Inodos Cache Directorio Entradas Sincro Servidor Cliente Contenido Atencion Tabla Buddy Compactacion Motor Diccionario Config Arranque Conexiones Creacion Espacio Borrado Escritura Guardado Truncado Cerrojos Listado
begin

text \<open>
  A verification of a remote ext2 file system in C: a FUSE client (\<^verbatim>\<open>fsc\<close>), a server that works on an ext2
  image (\<^verbatim>\<open>rfs\<close>), a storage engine for memcached that both use as a cache (\<^verbatim>\<open>rc\<close>), and the
  collections they share (\<^verbatim>\<open>commons\<close>).

  \<^bold>\<open>How the parts interact.\<close> The client turns every file operation into a request on one of a pool of sockets
  and keeps attributes and listings in the cache. The server decodes the request, takes the lock of the inode in
  its monitor, resolves the path, changes inodes, bitmaps and directory entries on the image, writes superblock and
  descriptor table back, and answers; it keeps file blocks in the cache. The cache is the memcached daemon with the
  engine of \<^verbatim>\<open>rc\<close>, which manages one block of memory with a buddy system or with dynamic partitions.

  \<^bold>\<open>Conventions.\<close> A definition has the name of its C function; a loop of a function is a definition of its own.
  State is passed explicitly. \<open>None\<close> stands for undefined behaviour, for the end of the process and for not
  returning; errors that the code reports are values. Machine integers are words of their width, except the
  sizes of the cache engine, which an \<^verbatim>\<open>int\<close> bounds. The programs are 32 bit ones; the client is compiled
  with 64 bit file offsets. A loop that need not end is a \<^theory_text>\<open>partial_function (option)\<close>, and that it ends is
  a theorem; there is no fuel.

  \<^bold>\<open>The theories.\<close>
  \<^item> \<open>Prelude\<close>: words, little-endian codecs, option lemmas, the named collections.
  \<^item> \<open>Bitarray\<close> (\<^verbatim>\<open>commons/bitarray.c\<close>), \<open>Lista\<close> (\<^verbatim>\<open>commons/collections/list.c\<close>, on a heap of cells),
    \<open>Cola\<close> (\<^verbatim>\<open>queue.c\<close>): each operation refines the operation on sequences, the loops return, indices out
    of range are undefined or ignored as the code has it.
  \<^item> \<open>Diccionario\<close> (\<^verbatim>\<open>commons/collections/dictionary.c\<close>): the hash table refines one queue for each hash code,
    through its growth; its iterator need not return. \<open>Config\<close> (\<^verbatim>\<open>string.c\<close>, \<^verbatim>\<open>config.c\<close>): the pieces
    of a split string, and that a written configuration is read back.
  \<^item> \<open>Serial\<close> (\<^verbatim>\<open>rfs/serial_rfs.c\<close>, \<^verbatim>\<open>fsc/serializar_y_deserializar.c\<close>): what one end sends the other reads,
    under the stated sizes, and the messages for which it does not.
  \<^item> \<open>Disco\<close> (the image, \<^verbatim>\<open>Superblock.c\<close>), \<open>Grupos\<close> (\<^verbatim>\<open>Grupos.c\<close> and the allocation of
    \<^verbatim>\<open>Inode.c\<close>), \<open>Inodos\<close> (\<^verbatim>\<open>Inode.c\<close>): codecs of the structures, allocation and release keep bitmaps and
    counters in agreement and never give a block twice, the tree of block pointers.
  \<^item> \<open>Directorio\<close> (\<^verbatim>\<open>Dir.c\<close>: the definitions) and \<open>Entradas\<close>: listing, insertion and removal on a
    well-formed directory of at most twelve blocks end and do to the listing what they should; a new name resolves
    to its inode.
  \<^item> \<open>Contenido\<close>: reading the bytes of a file through a cache that agrees with the image, and what a write inside a block
    does to that agreement. \<open>Escritura\<close>: a write from the start of a block changes its bytes and no others and keeps the
    agreement.
  \<^item> \<open>Sincro\<close> (\<^verbatim>\<open>sincro.c\<close>): the inode monitor as a step relation over sessions; a writer is alone, the
    nodes count their users. \<open>Cerrojos\<close> (the locks of the handlers of \<^verbatim>\<open>Rfs.c\<close>): threads that keep their first lock while they
    wait for the second, simulated by the sessions; the requests in progress end when every request locks in the order of one
    ranking of the inodes, and two that lock in opposite order never do.
  \<^item> \<open>Servidor\<close> (\<^verbatim>\<open>Rfs.c\<close>): every handler and the dispatch. \<open>Atencion\<close>: every handler gives back its
    locks, its answers are packets that the client decodes, and a read of the client is answered with the bytes of the file. \<open>Creacion\<close>: the creation of a file in the root
    directory, from the client to the image; a plan of the image, zones that do not overlap, says what each step leaves. \<open>Listado\<close>: the listing of a directory, from the client to the image and back.
  \<^item> \<open>Espacio\<close>: files of direct blocks grow all or nothing and give back exactly the blocks behind their new end.
    \<open>Borrado\<close>: the removal of such a file, from the client to the image. \<open>Guardado\<close>: a write to such a file, from the client to
    the image and back to a read of the client; blocks of data are apart from the rest of the image, so that the cache of blocks
    keeps agreeing with it; on a full image the write is answered with the error and undone. \<open>Truncado\<close>: the change of the size of such a file.
  \<^item> \<open>Conexiones\<close> (\<^verbatim>\<open>rfs/Main.c\<close>, the handshake and the receptions of \<^verbatim>\<open>commons/sockets.c\<close>, the loop of the threads):
    the main thread and the pool of threads around the queue and the semaphore as a labelled step relation; requests are
    taken in the order they came, an awakened thread finds one, a waiting request is taken when a thread is free. The
    clients are structs of an explicit memory: those that exist are those of the list, with an open descriptor each; and
    a client may be closed and freed while it is served.
  \<^item> \<open>Arranque\<close>: what the three programs take from their configuration files, and the pool of sockets of the client, which opens one
    connection for each port and ends the program when more than 255 are asked for.
  \<^item> \<open>Cache\<close> (both \<^verbatim>\<open>cacheInterface.c\<close>) with the contract \<open>almacen_clave\<close>: a cache may forget and may not
    invent. \<open>Cliente\<close> (\<^verbatim>\<open>fsc.c\<close>, \<^verbatim>\<open>auxCliente.c\<close>): the socket pool is conserved by every operation, and a
    change invalidates what the cache knows about it.
  \<^item> \<open>Tabla\<close>, \<open>Buddy\<close>, \<open>Compactacion\<close> (\<^verbatim>\<open>rc/src/collections\<close>), \<open>Motor\<close> (\<^verbatim>\<open>my_engine.c\<close> and the
    order in which the daemon calls it): the buddy engine satisfies the contract, for keys of at most 60 bytes and
    values that are not empty; outside these bounds, and with dynamic partitions, it does not, by concrete runs. A
    request that finds no room may never return; one of at most a chunk always does.
  \<^item> This theory: the client on top of the engine.

  \<^bold>\<open>Interfaces.\<close> The locales \<open>almacen\<close> and \<open>estructura\<close> (storage of bytes and of fixed structures), \<open>asignador\<close>
  (allocation of numbered resources, interpreted for blocks and for inodes), \<open>almacen_clave\<close> (a key-value cache,
  interpreted for the engine), \<open>asociacion\<close> (a table of associations, interpreted for the dictionary), and the
  contract of a queue are interpreted on the definitions of the model.

  \<^bold>\<open>Parameters.\<close> The client library of memcached is the record \<open>memcached\<close>; the remote end of a socket is a
  function of what is sent; the clock is the sequence of its readings; the system calls of the pool of sockets
  act on a state of the system, and \<open>red_ok\<close> says what the client relies on. The memory that \<open>malloc\<close> delivers to the engine is a parameter of any
  content; the refinement of a map starts from one whose sizes are zero, as the code presumes.

  \<^bold>\<open>Not modelled.\<close> The memcached daemon and its default engine (vendored); the creation of sockets, threads and inotify
  watches, the opening of the image, the mount, the registration of the engine and of its signal (calls of the system and of
  libraries); the messages of the log and the dump of the cache (output only: a message longer than the buffer of the
  log, which a path of a thousand bytes makes with the level \<^verbatim>\<open>DEBUG\<close>, is outside the model). The interleaving of
  several requests inside the engine is not modelled: the engine locks around each access to the table, and the daemon is
  taken to serve one request after the other. The handlers of the server interleave in \<open>Sincro\<close> and \<open>Cerrojos\<close> through the monitor and
  in \<open>Conexiones\<close> through the queue; what each does to the image is proved for one handler at a time.
\<close>

section \<open>The client on the cache engine\<close>

text \<open>Deletions always return on the buddy engine.\<close>

lemma borrar_motor:
  assumes "motor_rep reloj E m"
  obtains E' where "memcached_delete (mem_motor reloj) (Some E) k = Some E'" "motor_rep reloj E' (m(k := None))"
  using pedido_delete_rep [OF assms, of k] by (auto simp: mem_motor_def)

lemma borrarCacheDirectorios_motor:
  assumes "motor_rep reloj E m" "borrarCacheDirectorios (mem_motor reloj) path (Some E) = Some c" "separarPathCliente path = Some dir"
  obtains E' m' where "c = Some E'" "motor_rep reloj E' m'"
    "\<forall>k \<in> {CACHEGETATR, CACHEREADDIR}. \<forall>p \<in> {path, pathDir dir}. m' (hasta_nul (cache_armarClave k p)) = None"
proof -
  let ?k = "\<lambda>t p. hasta_nul (cache_armarClave t p)"
  obtain E1 where 1: "memcached_delete (mem_motor reloj) (Some E) (?k CACHEGETATR path) = Some E1"
    "motor_rep reloj E1 (m(?k CACHEGETATR path := None))" by (rule borrar_motor [OF assms(1)])
  obtain E2 where 2: "memcached_delete (mem_motor reloj) (Some E1) (?k CACHEREADDIR path) = Some E2"
    "motor_rep reloj E2 (m(?k CACHEGETATR path := None, ?k CACHEREADDIR path := None))" by (rule borrar_motor [OF 1(2)])
  obtain E3 where 3: "memcached_delete (mem_motor reloj) (Some E2) (?k CACHEGETATR (pathDir dir)) = Some E3"
    "motor_rep reloj E3 (m(?k CACHEGETATR path := None, ?k CACHEREADDIR path := None, ?k CACHEGETATR (pathDir dir) := None))"
    by (rule borrar_motor [OF 2(2)])
  obtain E4 where 4: "memcached_delete (mem_motor reloj) (Some E3) (?k CACHEREADDIR (pathDir dir)) = Some E4"
    "motor_rep reloj E4 (m(?k CACHEGETATR path := None, ?k CACHEREADDIR path := None, ?k CACHEGETATR (pathDir dir) := None,
        ?k CACHEREADDIR (pathDir dir) := None))" by (rule borrar_motor [OF 3(2)])
  have "c = Some E4"
    using assms(2,3) 1(1) 2(1) 3(1) 4(1) by (simp add: borrarCacheDirectorios_def cache_borrarClave_def Let_def)
  then show thesis using 4(2) by (rule that) auto
qed

text \<open>
  C16: the client on the buddy engine. After a file or directory was created or removed, with paths of less than 60 bytes,
  the engine is still running and answers a lookup of the attributes or of the listing of the file, or of its parent,
  with a miss.
\<close>

theorem cliente_motor_invalida:
  assumes "motor_rep reloj E m" "cl_cache C = Some E"
    and "fsc_create (mem_motor reloj) srv C path = Some (r, C') \<or> fsc_unlink (mem_motor reloj) srv C path = Some (r, C')
      \<or> fsc_mkdir (mem_motor reloj) srv C path = Some (r, C') \<or> fsc_rmdir (mem_motor reloj) srv C path = Some (r, C')"
    and "r \<noteq> - 1" "separarPathCliente path = Some dir"
    and "k \<in> {CACHEGETATR, CACHEREADDIR}" "p \<in> {path, pathDir dir}" "length p < 60"
  shows "\<exists>E1 E2. cl_cache C' = Some E1 \<and> pedido_get reloj E1 (hasta_nul (cache_armarClave k p)) = Some (None, E2)"
proof -
  have b: "borrarCacheDirectorios (mem_motor reloj) path (Some E) = Some (cl_cache C')"
    using fsc_cambio_borra [OF assms(3,4)] assms(2) by simp
  obtain E1 m1 where E1: "cl_cache C' = Some E1" "motor_rep reloj E1 m1"
    "\<forall>k \<in> {CACHEGETATR, CACHEREADDIR}. \<forall>p \<in> {path, pathDir dir}. m1 (hasta_nul (cache_armarClave k p)) = None"
    by (rule borrarCacheDirectorios_motor [OF assms(1) b assms(5)])
  have "m1 (hasta_nul (cache_armarClave k p)) = None" using assms(6,7) E1(3) by (elim insertE emptyE) simp_all
  moreover have "length (hasta_nul (cache_armarClave k p)) \<le> length (cache_armarClave k p)"
    unfolding hasta_nul_def by (rule length_takeWhile_le)
  then have l: "length (hasta_nul (cache_armarClave k p)) \<le> TAM_CLAVE"
    using assms(8) by (simp add: cache_armarClave_def TAM_CLAVE_def)
  obtain r2 E2 where "pedido_get reloj E1 (hasta_nul (cache_armarClave k p)) = Some (r2, E2)"
    "r2 = (if hasta_nul (cache_armarClave k p) \<in> clave ` set (items (cache E1)) then m1 (hasta_nul (cache_armarClave k p)) else None)"
    by (rule pedido_get_bien [OF E1(2) l])
  ultimately show ?thesis using E1(1) by simp
qed

lemma fsc_create_motor_ej:
  "\<exists>C'. fsc_create (mem_motor Suc) remoto_ej \<lparr>cl_cache = Some E, cl_pool = [5, 6, 7], cl_remoto = ()\<rparr> [47, 97] = Some (0, C')"
  by (simp add: fsc_create_def intercambio_def serializar_path_def arma_payload_def serializar_Nipc_def
      lee_def Let_def tam_pedido_def remoto_ej_def obtenerSocket_def habilitar_socket_def
      serializar_Result_Rta_def deserializar_Result_Rta_def enc8_def enc16_def enc32_def dec8_def
      dec16_def dec32_def bytes_le_numeral borrarCacheDirectorios_def separar_ej)

theorem cliente_motor_invalida_witness:
  "\<exists>E C' E1 E2. fsc_create (mem_motor Suc) remoto_ej \<lparr>cl_cache = Some E, cl_pool = [5, 6, 7], cl_remoto = ()\<rparr> [47, 97] = Some (0, C')
    \<and> cl_cache C' = Some E1 \<and> pedido_get Suc E1 (hasta_nul (cache_armarClave CACHEREADDIR [47])) = Some (None, E2)"
proof -
  obtain T where T: "cache_initialize (1 * 2 ^ 1) 1 [e_vacio, e_vacio] (\<lambda>_. 0) (\<lambda>_. 0) e_vacio = Some T"
    using inicio_bien [of 1 1 "[e_vacio, e_vacio]" e_vacio] arreglo_ej by (metis zero_less_one)
  let ?E = "\<lparr>cache = T, block_size_max = 2, chunk_size = 1, esquema = ''buddy'', alg_busqueda = [],
    alg_reemplazo = ''lru'', frecuenciaCompactacion = 1\<rparr>"
  have R: "motor_rep Suc ?E Map.empty"
    by (rule inicio_rep [OF zero_less_one zero_less_one arreglo_ej strict_mono_Suc buddy_ej T])
  let ?C = "\<lparr>cl_cache = Some ?E, cl_pool = [5 :: int, 6, 7], cl_remoto = ()\<rparr>"
  obtain C' where C': "fsc_create (mem_motor Suc) remoto_ej ?C [47, 97] = Some (0, C')"
    using fsc_create_motor_ej [of ?E] by blast
  from cliente_motor_invalida [OF R _ disjI1 [OF C'] _ separar_ej, of CACHEREADDIR "[47]"] C' show ?thesis
    by (simp only: cliente.simps) (simp, blast)
qed

end
